(* ===== verification/Rust_Prelude.thy ===== *)
theory Rust_Prelude
  imports
    Main
    "HOL-Library.Word"
    "HOL-Library.Char_ord"
    "HOL-Library.List_Lexorder"
    "HOL-Library.Product_Lexorder"
    "HOL-Library.Option_ord"
    "HOL-Library.Multiset"
    "HOL-Library.Sublist"
begin

text \<open>
  The part of Rust and its standard library that the crates share: unsigned integers with
  saturating arithmetic, big- and little-endian byte encodings, byte strings, Unicode trimming,
  slice windows, results, and the iterator adaptors whose tie-breaking matters.

  A \<open>u64\<close>, \<open>u32\<close>, \<open>u16\<close> or \<open>usize\<close> value is a \<^typ>\<open>nat\<close>; where the code can reach the
  end of the range the operation that is applied there is written out (\<open>sat_add\<close>,
  \<open>sat_mul\<close>, \<open>checked_add\<close>), and natural subtraction is \<open>saturating_sub\<close>. A \<open>u8\<close> is an
  \<open>8 word\<close>, a \<open>String\<close> is the list of its UTF-8 bytes as characters.
\<close>

named_theorems codec \<open>injectivity of byte encodings\<close>
named_theorems res \<open>case analysis of fallible calls\<close>

section \<open>Integers\<close>

type_synonym u8 = "8 word"
type_synonym bytes = "u8 list"

definition u64_max :: nat where
  "u64_max = 2 ^ 64 - 1"

definition sat_add :: "nat \<Rightarrow> nat \<Rightarrow> nat" where
  "sat_add a b = min (a + b) u64_max"

definition sat_mul :: "nat \<Rightarrow> nat \<Rightarrow> nat" where
  "sat_mul a b = min (a * b) u64_max"

definition checked_add :: "nat \<Rightarrow> nat \<Rightarrow> nat option" where
  "checked_add a b = (if a + b \<le> u64_max then Some (a + b) else None)"

definition div_ceil :: "nat \<Rightarrow> nat \<Rightarrow> nat" where
  "div_ceil a b = (if a mod b = 0 then a div b else a div b + 1)"

text \<open>\<open>u32::saturating_add\<close> and \<open>u128::saturating_mul\<close>.\<close>

definition sat_add32 :: "nat \<Rightarrow> nat \<Rightarrow> nat" where
  "sat_add32 a b = min (a + b) (2 ^ 32 - 1)"

definition sat_mul128 :: "nat \<Rightarrow> nat \<Rightarrow> nat" where
  "sat_mul128 a b = min (a * b) (2 ^ 128 - 1)"

text \<open>Evaluation by binary numerals.\<close>

lemma sat_code [code]:
  "sat_add a b = nat (min (int a + int b) (2 ^ 64 - 1))"
  "sat_mul a b = nat (min (int a * int b) (2 ^ 64 - 1))"
  "sat_add32 a b = nat (min (int a + int b) (2 ^ 32 - 1))"
  "sat_mul128 a b = nat (min (int a * int b) (2 ^ 128 - 1))"
proof -
  have m: "min x y = nat (min (int x) (int y))" for x y :: nat by simp
  show "sat_add a b = nat (min (int a + int b) (2 ^ 64 - 1))"
    "sat_mul a b = nat (min (int a * int b) (2 ^ 64 - 1))"
    "sat_add32 a b = nat (min (int a + int b) (2 ^ 32 - 1))"
    "sat_mul128 a b = nat (min (int a * int b) (2 ^ 128 - 1))"
    unfolding sat_add_def sat_mul_def sat_add32_def sat_mul128_def u64_max_def
    by (subst m, simp)+
qed

lemma sat_add_le: "sat_add a b \<le> a + b"
  by (simp add: sat_add_def)

lemma sat_add_bound [simp]: "sat_add a b \<le> u64_max"
  by (simp add: sat_add_def)

lemma sat_add_ge: "a \<le> u64_max \<Longrightarrow> a \<le> sat_add a b"
  by (simp add: sat_add_def)

lemma sat_mul_bound [simp]: "sat_mul a b \<le> u64_max"
  by (simp add: sat_mul_def)

lemma checked_add_Some: "checked_add a b = Some c \<longleftrightarrow> c = a + b \<and> a + b \<le> u64_max"
  by (auto simp: checked_add_def)

lemma div_ceil_covers:
  assumes "0 < b"
  shows "a \<le> div_ceil a b * b"
proof -
  have split: "a = a div b * b + a mod b" by simp
  have "a mod b < b" using assms by simp
  with split have "a \<le> a div b * b + b" by linarith
  with split show ?thesis by (auto simp: div_ceil_def add_mult_distrib)
qed

lemma div_ceil_least:
  assumes "0 < b" and "a \<le> n * b"
  shows "div_ceil a b \<le> n"
proof (cases "a mod b = 0")
  case True
  from assms have "a div b \<le> n * b div b" by (intro div_le_mono)
  with True assms(1) show ?thesis by (simp add: div_ceil_def)
next
  case False
  have "a div b * b + a mod b = a" by simp
  with False assms(2) have "a div b * b < n * b" by linarith
  then have "a div b < n" by simp
  with False show ?thesis by (simp add: div_ceil_def)
qed

lemma div_ceil_iff: "0 < b \<Longrightarrow> a \<le> n * b \<longleftrightarrow> div_ceil a b \<le> n"
  using div_ceil_covers[of b a] div_ceil_least[of b a n] mult_le_mono1[of "div_ceil a b" n b]
  by (auto intro: order_trans)

section \<open>Results\<close>

text \<open>
  \<open>Result<T, E>\<close> is \<open>'e + 'a\<close> with the error on the left; \<open>try\<close> is the question mark.
\<close>

definition ok_or :: "'e \<Rightarrow> 'a option \<Rightarrow> 'e + 'a" where
  "ok_or e x = (case x of None \<Rightarrow> Inl e | Some a \<Rightarrow> Inr a)"

definition is_ok :: "'e + 'a \<Rightarrow> bool" where
  "is_ok r = (case r of Inl _ \<Rightarrow> False | Inr _ \<Rightarrow> True)"

definition and_then :: "'e + 'a \<Rightarrow> ('a \<Rightarrow> 'e + 'b) \<Rightarrow> 'e + 'b" where
  "and_then r f = (case r of Inl e \<Rightarrow> Inl e | Inr a \<Rightarrow> f a)"

definition ensure :: "bool \<Rightarrow> 'e \<Rightarrow> 'e + unit" where
  "ensure b e = (if b then Inr () else Inl e)"

text \<open>\<open>collect::<Result<Vec<_>, _>>\<close>: all the values, or the first error.\<close>

fun collect_results :: "('e + 'a) list \<Rightarrow> 'e + 'a list" where
  "collect_results [] = Inr []"
| "collect_results (r # rs) = and_then r (\<lambda>a. and_then (collect_results rs) (\<lambda>as. Inr (a # as)))"

lemma ok_or_simps [simp]: "ok_or e (Some a) = Inr a" "ok_or e None = Inl e"
  by (simp_all add: ok_or_def)

lemma ok_or_Inr [simp, res]: "ok_or e x = Inr a \<longleftrightarrow> x = Some a"
  by (auto simp: ok_or_def split: option.splits)

lemma ok_or_Inl [res]: "ok_or e x = Inl e' \<longleftrightarrow> x = None \<and> e' = e"
  by (auto simp: ok_or_def split: option.splits)

lemma is_ok_iff [res]: "is_ok r \<longleftrightarrow> (\<exists>a. r = Inr a)"
  by (auto simp: is_ok_def split: sum.splits)

lemma is_ok_simps [simp]: "is_ok (Inr a)" "\<not> is_ok (Inl e)"
  by (simp_all add: is_ok_def)

lemma and_then_simps [simp]: "and_then (Inl e) f = Inl e" "and_then (Inr a) f = f a"
  by (simp_all add: and_then_def)

lemma and_then_Inr [res]: "and_then r f = Inr b \<longleftrightarrow> (\<exists>a. r = Inr a \<and> f a = Inr b)"
  by (cases r) auto

lemma and_then_Inl [res]:
  "and_then r f = Inl e \<longleftrightarrow> r = Inl e \<or> (\<exists>a. r = Inr a \<and> f a = Inl e)"
  by (cases r) auto

lemma collect_results_Inr [res]: "collect_results rs = Inr as \<longleftrightarrow> rs = map Inr as"
proof (induction rs arbitrary: as)
  case (Cons r rs)
  then show ?case by (cases r; cases as) (auto simp: and_then_Inr)
qed auto

lemma collect_results_map_Inr [simp]: "collect_results (map (\<lambda>x. Inr (f x)) xs) = Inr (map f xs)"
  by (induction xs) simp_all

lemma ensure_simps [simp]: "ensure True e = Inr ()" "ensure False e = Inl e"
  by (simp_all add: ensure_def)

lemma ensure_Inr [simp, res]: "ensure b e = Inr u \<longleftrightarrow> b"
  by (simp add: ensure_def)

lemma ensure_Inl [simp, res]: "ensure b e = Inl e' \<longleftrightarrow> \<not> b \<and> e' = e"
  by (auto simp: ensure_def)

section \<open>Byte encodings\<close>

text \<open>\<open>to_be_bytes\<close> and \<open>to_le_bytes\<close> of a \<open>k\<close>-byte unsigned integer.\<close>

fun be_bytes :: "nat \<Rightarrow> nat \<Rightarrow> bytes" where
  "be_bytes 0 n = []"
| "be_bytes (Suc k) n = be_bytes k (n div 256) @ [word_of_nat (n mod 256)]"

definition le_bytes :: "nat \<Rightarrow> nat \<Rightarrow> bytes" where
  "le_bytes k n = rev (be_bytes k n)"

abbreviation u64_be :: "nat \<Rightarrow> bytes" where "u64_be \<equiv> be_bytes 8"
abbreviation u32_be :: "nat \<Rightarrow> bytes" where "u32_be \<equiv> be_bytes 4"
abbreviation u16_be :: "nat \<Rightarrow> bytes" where "u16_be \<equiv> be_bytes 2"
abbreviation u64_le :: "nat \<Rightarrow> bytes" where "u64_le \<equiv> le_bytes 8"
abbreviation u32_le :: "nat \<Rightarrow> bytes" where "u32_le \<equiv> le_bytes 4"

definition from_be :: "bytes \<Rightarrow> nat" where
  "from_be bs = foldl (\<lambda>acc b. acc * 256 + unat b) 0 bs"

lemma length_be_bytes [simp]: "length (be_bytes k n) = k"
  by (induction k arbitrary: n) auto

lemma length_le_bytes [simp]: "length (le_bytes k n) = k"
  by (simp add: le_bytes_def)

lemma unat_byte_mod [simp]: "unat (word_of_nat (n mod 256) :: u8) = n mod 256"
  by (simp add: unat_of_nat)

lemma from_be_be_bytes: "from_be (be_bytes k n) = n mod 256 ^ k"
proof (induction k arbitrary: n)
  case 0
  show ?case by (simp add: from_be_def)
next
  case (Suc k)
  have "from_be (be_bytes (Suc k) n) = (n div 256 mod 256 ^ k) * 256 + n mod 256"
    using Suc.IH[of "n div 256"] by (simp add: from_be_def)
  also have "\<dots> = n mod (256 * 256 ^ k)"
    by (simp add: mod_mult2_eq)
  finally show ?case by simp
qed

lemma be_bytes_inj [codec]:
  assumes "be_bytes k m = be_bytes k n" and "m < 256 ^ k" and "n < 256 ^ k"
  shows "m = n"
  using assms(2,3) arg_cong[OF assms(1), of from_be] by (simp add: from_be_be_bytes)

lemma le_bytes_inj [codec]:
  "le_bytes k m = le_bytes k n \<Longrightarrow> m < 256 ^ k \<Longrightarrow> n < 256 ^ k \<Longrightarrow> m = n"
  using be_bytes_inj by (simp add: le_bytes_def)

text \<open>Two inputs on which a digest collides.\<close>

definition collision :: "('a \<Rightarrow> 'b) \<Rightarrow> 'a \<Rightarrow> 'a \<Rightarrow> bool" where
  "collision h x y \<longleftrightarrow> x \<noteq> y \<and> h x = h y"

text \<open>\<open>str::as_bytes\<close>.\<close>

definition str_bytes :: "string \<Rightarrow> bytes" where
  "str_bytes s = map (\<lambda>c. word_of_nat (of_char c)) s"

lemma length_str_bytes [simp]: "length (str_bytes s) = length s"
  by (simp add: str_bytes_def)

lemma unat_char [simp]: "unat (word_of_nat (of_char c) :: u8) = (of_char c :: nat)"
proof -
  have "(of_char c :: nat) < 256" by (rule nat_of_char_less_256)
  then show ?thesis by (simp add: unat_of_nat)
qed

lemma str_bytes_inj [simp]: "str_bytes s = str_bytes t \<longleftrightarrow> s = t"
proof -
  have "inj (\<lambda>c :: char. word_of_nat (of_char c) :: u8)"
  proof (rule injI)
    fix c d :: char
    assume "(word_of_nat (of_char c) :: u8) = word_of_nat (of_char d)"
    then have "unat (word_of_nat (of_char c) :: u8) = unat (word_of_nat (of_char d) :: u8)"
      by simp
    then have "(of_char c :: nat) = of_char d" by (simp only: unat_char)
    then show "c = d" by simp
  qed
  then show ?thesis by (simp add: str_bytes_def inj_map_eq_map)
qed

lemma str_bytes_Nil [simp]: "str_bytes s = [] \<longleftrightarrow> s = []"
  by (simp add: str_bytes_def)

text \<open>A field preceded by its length as a big-endian \<open>u64\<close> (\<open>push_bytes\<close> of the crates).\<close>

definition lp_be :: "bytes \<Rightarrow> bytes" where
  "lp_be bs = u64_be (length bs) @ bs"

definition lp_le :: "bytes \<Rightarrow> bytes" where
  "lp_le bs = u64_le (length bs) @ bs"

lemma append_eq_same_length:
  "length a = length b \<Longrightarrow> a @ r = b @ s \<longleftrightarrow> a = b \<and> r = s"
  by simp

lemma be_append_inj [codec]:
  "be_bytes k m @ r = be_bytes k n @ s \<Longrightarrow> m < 256 ^ k \<Longrightarrow> n < 256 ^ k \<Longrightarrow> m = n \<and> r = s"
  using be_bytes_inj by (auto simp: append_eq_same_length)

lemma le_append_inj [codec]:
  "le_bytes k m @ r = le_bytes k n @ s \<Longrightarrow> m < 256 ^ k \<Longrightarrow> n < 256 ^ k \<Longrightarrow> m = n \<and> r = s"
  using le_bytes_inj by (auto simp: append_eq_same_length)

lemma lp_be_append_inj [codec]:
  assumes "lp_be a @ r = lp_be b @ s" and "length a < 2 ^ 64" and "length b < 2 ^ 64"
  shows "a = b \<and> r = s"
proof -
  from assms have "length a = length b \<and> a @ r = b @ s"
    by (intro be_append_inj[where k = 8]) (simp_all add: lp_be_def)
  then show ?thesis using append_eq_same_length by blast
qed

lemma lp_le_append_inj [codec]:
  assumes "lp_le a @ r = lp_le b @ s" and "length a < 2 ^ 64" and "length b < 2 ^ 64"
  shows "a = b \<and> r = s"
proof -
  from assms have "length a = length b \<and> a @ r = b @ s"
    by (intro le_append_inj[where k = 8]) (simp_all add: lp_le_def)
  then show ?thesis using append_eq_same_length by blast
qed

section \<open>Strings and slices\<close>

text \<open>
  \<open>str::trim\<close> removes the characters with the Unicode property \<open>White_Space\<close> at both ends;
  the list holds their UTF-8 encodings. In valid UTF-8 the first (last) bytes of a string are
  such an encoding exactly when its first (last) character is that character.
\<close>

definition utf8_whitespace :: "string list" where
  "utf8_whitespace =
     [[CHR 0x09], [CHR 0x0A], [CHR 0x0B], [CHR 0x0C], [CHR 0x0D], [CHR 0x20],
      [CHR 0xC2, CHR 0x85], [CHR 0xC2, CHR 0xA0], [CHR 0xE1, CHR 0x9A, CHR 0x80],
      [CHR 0xE2, CHR 0x80, CHR 0x80], [CHR 0xE2, CHR 0x80, CHR 0x81],
      [CHR 0xE2, CHR 0x80, CHR 0x82], [CHR 0xE2, CHR 0x80, CHR 0x83],
      [CHR 0xE2, CHR 0x80, CHR 0x84], [CHR 0xE2, CHR 0x80, CHR 0x85],
      [CHR 0xE2, CHR 0x80, CHR 0x86], [CHR 0xE2, CHR 0x80, CHR 0x87],
      [CHR 0xE2, CHR 0x80, CHR 0x88], [CHR 0xE2, CHR 0x80, CHR 0x89],
      [CHR 0xE2, CHR 0x80, CHR 0x8A], [CHR 0xE2, CHR 0x80, CHR 0xA8],
      [CHR 0xE2, CHR 0x80, CHR 0xA9], [CHR 0xE2, CHR 0x80, CHR 0xAF],
      [CHR 0xE2, CHR 0x81, CHR 0x9F], [CHR 0xE3, CHR 0x80, CHR 0x80]]"

definition strip_one :: "string list \<Rightarrow> string \<Rightarrow> string option" where
  "strip_one ws s = map_option (\<lambda>w. drop (length w) s) (find (\<lambda>w. w \<noteq> [] \<and> prefix w s) ws)"

lemma strip_one_shorter:
  assumes "strip_one ws s = Some t"
  shows "length t < length s"
proof -
  from assms obtain w where "find (\<lambda>w. w \<noteq> [] \<and> prefix w s) ws = Some w"
    and t: "t = drop (length w) s"
    by (auto simp: strip_one_def)
  then have "w \<noteq> []" "prefix w s" by (auto simp: find_Some_iff)
  then show ?thesis using t by (auto simp: prefix_def)
qed

function strip_all :: "string list \<Rightarrow> string \<Rightarrow> string" where
  "strip_all ws s = (case strip_one ws s of None \<Rightarrow> s | Some t \<Rightarrow> strip_all ws t)"
  by pat_completeness auto
termination
  by (relation "measure (\<lambda>(ws, s). length s)") (auto dest: strip_one_shorter)

declare strip_all.simps [simp del]

definition trim_start :: "string \<Rightarrow> string" where
  "trim_start s = strip_all utf8_whitespace s"

definition trim_end :: "string \<Rightarrow> string" where
  "trim_end s = rev (strip_all (map rev utf8_whitespace) (rev s))"

definition trim :: "string \<Rightarrow> string" where
  "trim s = trim_end (trim_start s)"

text \<open>\<open>s.trim().is_empty()\<close>.\<close>

definition blank :: "string \<Rightarrow> bool" where
  "blank s \<longleftrightarrow> trim s = []"

lemma strip_all_Nil [simp]: "strip_all ws [] = []"
  by (subst strip_all.simps)
    (auto simp: strip_one_def find_None_iff find_Some_iff split: option.splits)

lemma blank_Nil [simp]: "blank []"
  by (simp add: blank_def trim_def trim_start_def trim_end_def)

lemma not_blank_nonempty: "\<not> blank s \<Longrightarrow> s \<noteq> []"
  by auto

text \<open>\<open>slice.windows(n).any(|w| w == needle)\<close> for a non-empty needle.\<close>

definition contains_window :: "'a list \<Rightarrow> 'a list \<Rightarrow> bool" where
  "contains_window hay needle \<longleftrightarrow>
     (\<exists>i \<in> set [0..<Suc (length hay - length needle)]. take (length needle) (drop i hay) = needle)"

lemma contains_window_sublist: "contains_window hay needle \<longleftrightarrow> sublist needle hay"
proof
  assume "contains_window hay needle"
  then obtain i where "take (length needle) (drop i hay) = needle"
    unfolding contains_window_def by blast
  then show "sublist needle hay"
    by (metis append_take_drop_id sublist_appendI)
next
  assume "sublist needle hay"
  then obtain a b where hay: "hay = a @ needle @ b" by (auto simp: sublist_def)
  then have "take (length needle) (drop (length a) hay) = needle" by simp
  moreover from hay have "length a \<in> set [0..<Suc (length hay - length needle)]" by simp
  ultimately show "contains_window hay needle" unfolding contains_window_def by blast
qed

section \<open>Iterators\<close>

lemma set_map_filter: "y \<in> set (List.map_filter f xs) \<longleftrightarrow> (\<exists>x \<in> set xs. f x = Some y)"
  by (induction xs) (auto simp: List.map_filter_simps split: option.splits)

text \<open>\<open>Iterator::min_by_key\<close> returns the first minimum, \<open>Iterator::max_by_key\<close> the last maximum.\<close>

definition min_by_key :: "('a \<Rightarrow> 'k::linorder) \<Rightarrow> 'a list \<Rightarrow> 'a option" where
  "min_by_key f xs = (if xs = [] then None else Some (arg_min_list f xs))"

fun max_by_key :: "('a \<Rightarrow> 'k::linorder) \<Rightarrow> 'a list \<Rightarrow> 'a option" where
  "max_by_key f [] = None"
| "max_by_key f (x # xs) =
     (case max_by_key f xs of
        None \<Rightarrow> Some x
      | Some m \<Rightarrow> if f m < f x then Some x else Some m)"

lemma min_by_key_None [simp]: "min_by_key f xs = None \<longleftrightarrow> xs = []"
  by (simp add: min_by_key_def)

lemma min_by_key_Some:
  assumes "min_by_key f xs = Some m"
  shows "m \<in> set xs \<and> (\<forall>x \<in> set xs. f m \<le> f x)"
proof -
  from assms have ne: "xs \<noteq> []" and m: "m = arg_min_list f xs"
    by (auto simp: min_by_key_def split: if_splits)
  from ne have "f m = Min (f ` set xs)" by (simp add: m f_arg_min_list_f)
  moreover from ne have "m \<in> set xs" by (simp add: m arg_min_list_in)
  ultimately show ?thesis by simp
qed

lemma max_by_key_None [simp]: "max_by_key f xs = None \<longleftrightarrow> xs = []"
  by (cases xs) (auto split: option.splits)

lemma max_by_key_Some:
  "max_by_key f xs = Some m \<Longrightarrow> m \<in> set xs \<and> (\<forall>x \<in> set xs. f x \<le> f m)"
proof (induction xs arbitrary: m)
  case Nil
  then show ?case by simp
next
  case (Cons x xs)
  show ?case
  proof (cases "max_by_key f xs")
    case None
    with Cons.prems show ?thesis by simp
  next
    case (Some m')
    from Cons.IH[OF this] have IH: "m' \<in> set xs" "\<forall>x \<in> set xs. f x \<le> f m'" by auto
    show ?thesis
    proof (cases "f m' < f x")
      case True
      with Some Cons.prems IH show ?thesis by (auto intro: less_imp_le order_trans)
    next
      case False
      with Some Cons.prems IH show ?thesis by auto
    qed
  qed
qed

text \<open>The maximum is determined by the multiset of the elements, as far as its key determines it.\<close>

lemma max_by_key_value:
  fixes f :: "'a \<Rightarrow> 'k::linorder"
  assumes "mset xs = mset ys" and "\<And>x y. f x = f y \<Longrightarrow> g x = g y"
  shows "map_option g (max_by_key f xs) = map_option g (max_by_key f ys)"
proof (cases "max_by_key f xs")
  case None
  with assms(1) show ?thesis by simp
next
  case (Some x)
  then have "xs \<noteq> []" by force
  then have "ys \<noteq> []" using assms(1) by (metis mset_zero_iff)
  then obtain y where y: "max_by_key f ys = Some y" by (cases "max_by_key f ys") auto
  have "set xs = set ys" using assms(1) by (metis set_mset_mset)
  with max_by_key_Some[OF Some] max_by_key_Some[OF y] have "f x \<le> f y" "f y \<le> f x" by simp_all
  then have "g x = g y" by (intro assms(2) antisym)
  with Some y show ?thesis by simp
qed

subsection \<open>Comparators and stable sorting\<close>

datatype ordering = Less | Equal | Greater

definition cmp_lin :: "'a::linorder \<Rightarrow> 'a \<Rightarrow> ordering" where
  "cmp_lin a b = (if a < b then Less else if a = b then Equal else Greater)"

definition then_with :: "ordering \<Rightarrow> ordering \<Rightarrow> ordering" where
  "then_with a b = (if a = Equal then b else a)"

lemma cmp_lin_not_Greater [simp]: "cmp_lin a b \<noteq> Greater \<longleftrightarrow> a \<le> b"
  by (auto simp: cmp_lin_def)

lemma then_with_cmp_lin: "then_with (cmp_lin a b) (cmp_lin c d) = cmp_lin (a, c) (b, d)"
  by (auto simp: then_with_def cmp_lin_def less_prod_def less_eq_prod_def)

text \<open>
  \<open>slice::sort_by\<close>: a stable sort. For a comparator that is a total preorder its result is
  unique; for any other comparator the standard library leaves the order unspecified.
\<close>

fun insort_by :: "('a \<Rightarrow> 'a \<Rightarrow> ordering) \<Rightarrow> 'a \<Rightarrow> 'a list \<Rightarrow> 'a list" where
  "insort_by cmp x [] = [x]"
| "insort_by cmp x (y # ys) = (if cmp x y = Greater then y # insort_by cmp x ys else x # y # ys)"

definition sort_by :: "('a \<Rightarrow> 'a \<Rightarrow> ordering) \<Rightarrow> 'a list \<Rightarrow> 'a list" where
  "sort_by cmp xs = foldr (insort_by cmp) xs []"

lemma set_insort_by [simp]: "set (insort_by cmp x ys) = insert x (set ys)"
  by (induction ys) auto

lemma mset_insort_by [simp]: "mset (insort_by cmp x ys) = add_mset x (mset ys)"
  by (induction ys) auto

lemma mset_sort_by [simp]: "mset (sort_by cmp xs) = mset xs"
  by (induction xs) (simp_all add: sort_by_def)

lemma set_sort_by [simp]: "set (sort_by cmp xs) = set xs"
  using mset_sort_by set_mset_mset by metis

lemma insort_by_key:
  "(\<And>y. y \<in> set ys \<Longrightarrow> cmp x y \<noteq> Greater \<longleftrightarrow> f x \<le> f y) \<Longrightarrow>
     insort_by cmp x ys = insort_key f x ys" for f :: "'a \<Rightarrow> 'k::linorder"
  by (induction ys) auto

lemma sort_by_key:
  "(\<And>x y. x \<in> set xs \<Longrightarrow> y \<in> set xs \<Longrightarrow> cmp x y \<noteq> Greater \<longleftrightarrow> f x \<le> f y) \<Longrightarrow>
     sort_by cmp xs = sort_key f xs" for f :: "'a \<Rightarrow> 'k::linorder"
proof (induction xs)
  case (Cons x xs)
  from Cons have "sort_by cmp xs = sort_key f xs" by simp
  with insort_by_key[of "sort_key f xs" cmp x f] Cons.prems show ?case by (simp add: sort_by_def)
qed (simp add: sort_by_def)

end
