(* ===== verification/BTree_Map.thy ===== *)
theory BTree_Map
  imports Rust_Prelude
begin

text \<open>
  \<open>std::collections::BTreeMap\<close> and \<open>BTreeSet\<close>. A map is the list of its entries in strictly
  increasing key order: that list is what iteration yields, and two maps are equal (derived
  \<open>PartialEq\<close>) exactly when these lists are. A set is a map to the unit type, as it is in the
  standard library. The locale \<open>ordered_map\<close> is the interface the components program against;
  its interpretation \<open>bt\<close> discharges the laws for the representation.
\<close>

section \<open>Representation\<close>

typedef (overloaded) ('k::linorder, 'v) btreemap = "{es :: ('k \<times> 'v) list. sorted_wrt (<) (map fst es)}"
  morphisms bt_entries BTreeMap
  by (rule exI[of _ "[]"]) simp

setup_lifting type_definition_btreemap

type_synonym 'a btreeset = "('a, unit) btreemap"

fun ins_entry :: "'k::linorder \<Rightarrow> 'v \<Rightarrow> ('k \<times> 'v) list \<Rightarrow> ('k \<times> 'v) list" where
  "ins_entry k v [] = [(k, v)]"
| "ins_entry k v ((k', v') # es) =
     (if k < k' then (k, v) # (k', v') # es
      else if k = k' then (k, v) # es
      else (k', v') # ins_entry k v es)"

lemma keys_ins_entry: "fst ` set (ins_entry k v es) = insert k (fst ` set es)"
  by (induction k v es rule: ins_entry.induct) auto

lemma sorted_ins_entry: "sorted_wrt (<) (map fst es) \<Longrightarrow> sorted_wrt (<) (map fst (ins_entry k v es))"
proof (induction k v es rule: ins_entry.induct)
  case (2 k v k' v' es)
  then show ?case
    using keys_ins_entry[of k v es] by (auto simp flip: image_set)
qed simp

lemma map_of_ins_entry:
  "sorted_wrt (<) (map fst es) \<Longrightarrow> map_of (ins_entry k v es) = (map_of es)(k \<mapsto> v)"
  by (induction k v es rule: ins_entry.induct) auto

lift_definition bt_empty :: "('k::linorder, 'v) btreemap" is "[]"
  by simp

lift_definition bt_insert :: "'k::linorder \<Rightarrow> 'v \<Rightarrow> ('k, 'v) btreemap \<Rightarrow> ('k, 'v) btreemap"
  is ins_entry
  by (rule sorted_ins_entry)

lift_definition bt_get :: "('k::linorder, 'v) btreemap \<Rightarrow> 'k \<Rightarrow> 'v option" is map_of .

lift_definition bt_retain :: "('k \<Rightarrow> 'v \<Rightarrow> bool) \<Rightarrow> ('k::linorder, 'v) btreemap \<Rightarrow> ('k, 'v) btreemap"
  is "\<lambda>p. filter (\<lambda>(k, v). p k v)"
  by (auto simp: sorted_wrt_map intro: sorted_wrt_filter)

lift_definition bt_map :: "('k \<Rightarrow> 'v \<Rightarrow> 'w) \<Rightarrow> ('k::linorder, 'v) btreemap \<Rightarrow> ('k, 'w) btreemap"
  is "\<lambda>f. map (\<lambda>(k, v). (k, f k v))"
  by (simp add: comp_def case_prod_unfold)

definition bt_remove :: "'k::linorder \<Rightarrow> ('k, 'v) btreemap \<Rightarrow> ('k, 'v) btreemap" where
  "bt_remove k = bt_retain (\<lambda>k' v. k' \<noteq> k)"

definition bt_contains :: "('k::linorder, 'v) btreemap \<Rightarrow> 'k \<Rightarrow> bool" where
  "bt_contains m k \<longleftrightarrow> bt_get m k \<noteq> None"

definition bt_keys :: "('k::linorder, 'v) btreemap \<Rightarrow> 'k list" where
  "bt_keys m = map fst (bt_entries m)"

definition bt_values :: "('k::linorder, 'v) btreemap \<Rightarrow> 'v list" where
  "bt_values m = map snd (bt_entries m)"

definition bt_len :: "('k::linorder, 'v) btreemap \<Rightarrow> nat" where
  "bt_len m = length (bt_entries m)"

definition bt_of_list :: "('k::linorder \<times> 'v) list \<Rightarrow> ('k, 'v) btreemap" where
  "bt_of_list es = fold (\<lambda>(k, v). bt_insert k v) es bt_empty"

text \<open>\<open>*m.entry(k).or_insert(d)\<close> replaced by \<open>f\<close> of it.\<close>

definition bt_upsert :: "'k::linorder \<Rightarrow> 'v \<Rightarrow> ('v \<Rightarrow> 'v) \<Rightarrow> ('k, 'v) btreemap \<Rightarrow> ('k, 'v) btreemap" where
  "bt_upsert k d f m = bt_insert k (f (case bt_get m k of None \<Rightarrow> d | Some v \<Rightarrow> v)) m"

section \<open>Laws of the representation\<close>

lemma bt_entries_sorted: "sorted_wrt (<) (map fst (bt_entries m))"
  using bt_entries[of m] by simp

lemma bt_entries_empty [simp]: "bt_entries bt_empty = []"
  by transfer simp

lemma bt_entries_insert: "bt_entries (bt_insert k v m) = ins_entry k v (bt_entries m)"
  by transfer simp

lemma bt_entries_retain: "bt_entries (bt_retain p m) = filter (\<lambda>(k, v). p k v) (bt_entries m)"
  by transfer simp

lemma bt_entries_map: "bt_entries (bt_map f m) = map (\<lambda>(k, v). (k, f k v)) (bt_entries m)"
  by transfer simp

lemma bt_get_map_of: "bt_get m = map_of (bt_entries m)"
  by transfer simp

lemma distinct_bt_keys [simp]: "distinct (bt_keys m)"
  using bt_entries_sorted[of m] by (simp add: bt_keys_def strict_sorted_iff)

lemma sorted_bt_keys [simp]: "sorted (bt_keys m)"
  using bt_entries_sorted[of m] by (simp add: bt_keys_def strict_sorted_iff)

lemma set_bt_entries: "(k, v) \<in> set (bt_entries m) \<longleftrightarrow> bt_get m k = Some v"
  using distinct_bt_keys[of m] by (simp add: bt_get_map_of bt_keys_def)

lemma bt_get_empty [simp]: "bt_get bt_empty k = None"
  by transfer simp

lemma bt_get_insert [simp]: "bt_get (bt_insert k v m) = (bt_get m)(k \<mapsto> v)"
  by transfer (rule map_of_ins_entry)

lemma bt_get_retain:
  "bt_get (bt_retain p m) k =
     (case bt_get m k of None \<Rightarrow> None | Some v \<Rightarrow> if p k v then Some v else None)"
proof -
  have "(k, v) \<in> set (bt_entries (bt_retain p m)) \<longleftrightarrow> bt_get m k = Some v \<and> p k v" for v
    by (auto simp: bt_entries_retain set_bt_entries)
  then have *: "bt_get (bt_retain p m) k = Some v \<longleftrightarrow> bt_get m k = Some v \<and> p k v" for v
    by (simp add: set_bt_entries)
  show ?thesis
  proof (cases "bt_get (bt_retain p m) k")
    case None
    with * show ?thesis by (auto split: option.splits)
  next
    case (Some v)
    with *[of v] show ?thesis by simp
  qed
qed

lemma bt_get_remove [simp]: "bt_get (bt_remove k m) = (bt_get m)(k := None)"
  by (rule ext) (simp add: bt_remove_def bt_get_retain split: option.splits)

lemma bt_get_bt_map [simp]: "bt_get (bt_map f m) k = map_option (f k) (bt_get m k)"
proof -
  have "map_of (map (\<lambda>(k, v). (k, f k v)) es) k = map_option (f k) (map_of es k)" for es
    by (induction es) auto
  then show ?thesis by (simp add: bt_get_map_of bt_entries_map)
qed

lemma bt_get_upsert:
  "bt_get (bt_upsert k d f m) =
     (bt_get m)(k \<mapsto> f (case bt_get m k of None \<Rightarrow> d | Some v \<Rightarrow> v))"
  by (simp add: bt_upsert_def)

lemma bt_eqI:
  assumes "\<And>k. bt_get m k = bt_get n k"
  shows "m = n"
proof -
  have "set (bt_entries m) = set (bt_entries n)"
    using assms by (auto simp: set_eq_iff set_bt_entries)
  moreover have "inj_on fst (set (bt_entries m) \<union> set (bt_entries n))"
    using assms by (auto simp: inj_on_def set_bt_entries)
  ultimately have "bt_entries m = bt_entries n"
    using bt_entries_sorted[of m] bt_entries_sorted[of n]
    by (intro map_sorted_distinct_set_unique[of fst]) (simp_all add: strict_sorted_iff)
  then show ?thesis by (simp add: bt_entries_inject)
qed

lemma set_bt_keys: "set (bt_keys m) = dom (bt_get m)"
  by (auto simp: bt_keys_def bt_get_map_of dom_map_of_conv_image_fst)

lemma in_bt_keys: "k \<in> set (bt_keys m) \<longleftrightarrow> bt_contains m k"
  by (auto simp: set_bt_keys bt_contains_def)

lemma set_bt_values: "v \<in> set (bt_values m) \<longleftrightarrow> (\<exists>k. bt_get m k = Some v)"
proof
  assume "v \<in> set (bt_values m)"
  then obtain k where "(k, v) \<in> set (bt_entries m)" by (auto simp: bt_values_def)
  then show "\<exists>k. bt_get m k = Some v" by (auto simp: set_bt_entries)
next
  assume "\<exists>k. bt_get m k = Some v"
  then obtain k where "(k, v) \<in> set (bt_entries m)" by (auto simp: set_bt_entries)
  then show "v \<in> set (bt_values m)" by (force simp: bt_values_def)
qed

lemma bt_contains_insert [simp]: "bt_contains (bt_insert k v m) k' \<longleftrightarrow> k' = k \<or> bt_contains m k'"
  by (auto simp: bt_contains_def)

lemma bt_contains_remove [simp]: "bt_contains (bt_remove k m) k' \<longleftrightarrow> k' \<noteq> k \<and> bt_contains m k'"
  by (auto simp: bt_contains_def)

lemma bt_contains_empty [simp]: "\<not> bt_contains bt_empty k"
  by (simp add: bt_contains_def)

lemma bt_contains_retain [simp]:
  "bt_contains (bt_retain p m) k \<longleftrightarrow> (\<exists>v. bt_get m k = Some v \<and> p k v)"
  by (auto simp: bt_contains_def bt_get_retain split: option.splits)

lemma finite_dom_bt_get [simp]: "finite (dom (bt_get m))"
  by (simp flip: set_bt_keys)

lemma bt_len_card: "bt_len m = card (dom (bt_get m))"
proof -
  have "card (set (bt_keys m)) = length (bt_keys m)" by (rule distinct_card) simp
  then show ?thesis unfolding set_bt_keys by (simp add: bt_len_def bt_keys_def)
qed

lemma bt_len_empty [simp]: "bt_len bt_empty = 0"
  by (simp add: bt_len_def)

lemma bt_len_insert: "bt_len (bt_insert k v m) = (if bt_contains m k then bt_len m else Suc (bt_len m))"
  using finite_dom_bt_get[of m] by (auto simp: bt_len_card bt_contains_def card_insert_if domIff)

lemma bt_len_remove: "bt_len (bt_remove k m) = (if bt_contains m k then bt_len m - 1 else bt_len m)"
proof -
  have "dom (bt_get (bt_remove k m)) = dom (bt_get m) - {k}" by auto
  then show ?thesis by (auto simp: bt_len_card bt_contains_def card_Diff_singleton_if)
qed

lemma bt_len_retain_le: "bt_len (bt_retain p m) \<le> bt_len m"
  by (simp add: bt_len_def bt_entries_retain)

lemma length_bt_keys [simp]: "length (bt_keys m) = bt_len m"
  by (simp add: bt_keys_def bt_len_def)

lemma length_bt_values [simp]: "length (bt_values m) = bt_len m"
  by (simp add: bt_values_def bt_len_def)

lemma bt_keys_map [simp]: "bt_keys (bt_map f m) = bt_keys m"
  by (simp add: bt_keys_def bt_entries_map case_prod_unfold)

lemma bt_values_map: "bt_values (bt_map f m) = map (\<lambda>(k, v). f k v) (bt_entries m)"
  by (simp add: bt_values_def bt_entries_map case_prod_unfold)

lemma bt_len_map [simp]: "bt_len (bt_map f m) = bt_len m"
  by (simp add: bt_len_def bt_entries_map)

lemma bt_contains_map [simp]: "bt_contains (bt_map f m) k \<longleftrightarrow> bt_contains m k"
  by (simp add: bt_contains_def)

text \<open>Evaluation of a closed map: its entry list is computed by these equations.\<close>

lemmas bt_eval =
  bt_entries_insert bt_entries_retain bt_entries_map bt_entries_empty
  bt_keys_def bt_values_def bt_len_def bt_contains_def bt_remove_def bt_of_list_def bt_upsert_def

instantiation btreemap :: (linorder, equal) equal
begin

definition equal_btreemap :: "('a, 'b) btreemap \<Rightarrow> ('a, 'b) btreemap \<Rightarrow> bool" where
  "equal_btreemap m n \<longleftrightarrow> bt_entries m = bt_entries n"

instance
  by standard (simp add: equal_btreemap_def bt_entries_inject)

end

instantiation btreemap :: (linorder, type) size
begin

definition size_btreemap :: "('a, 'b) btreemap \<Rightarrow> nat" where
  "size_btreemap m = bt_len m"

instance ..

end

section \<open>Sets\<close>

abbreviation bs_empty :: "'a::linorder btreeset" where
  "bs_empty \<equiv> bt_empty"

definition bs_insert :: "'a::linorder \<Rightarrow> 'a btreeset \<Rightarrow> 'a btreeset" where
  "bs_insert x s = bt_insert x () s"

abbreviation bs_member :: "'a::linorder btreeset \<Rightarrow> 'a \<Rightarrow> bool" where
  "bs_member \<equiv> bt_contains"

abbreviation bs_elems :: "'a::linorder btreeset \<Rightarrow> 'a list" where
  "bs_elems \<equiv> bt_keys"

abbreviation bs_remove :: "'a::linorder \<Rightarrow> 'a btreeset \<Rightarrow> 'a btreeset" where
  "bs_remove \<equiv> bt_remove"

definition bs_filter :: "('a::linorder \<Rightarrow> bool) \<Rightarrow> 'a btreeset \<Rightarrow> 'a btreeset" where
  "bs_filter p s = bt_retain (\<lambda>x _. p x) s"

definition bs_of_list :: "'a::linorder list \<Rightarrow> 'a btreeset" where
  "bs_of_list xs = fold bs_insert xs bs_empty"

definition bs_set :: "'a::linorder btreeset \<Rightarrow> 'a set" where
  "bs_set s = {x. bs_member s x}"

lemma bs_member_insert [simp]: "bs_member (bs_insert x s) y \<longleftrightarrow> y = x \<or> bs_member s y"
  by (simp add: bs_insert_def)

lemma bs_member_filter [simp]: "bs_member (bs_filter p s) x \<longleftrightarrow> p x \<and> bs_member s x"
  by (auto simp: bs_filter_def bt_contains_def[of s])

lemma bs_member_fold_insert: "bs_member (fold bs_insert xs s) x \<longleftrightarrow> x \<in> set xs \<or> bs_member s x"
  by (induction xs arbitrary: s) auto

lemma bs_member_of_list [simp]: "bs_member (bs_of_list xs) x \<longleftrightarrow> x \<in> set xs"
  by (simp add: bs_of_list_def bs_member_fold_insert)

lemma bs_eqI: "(\<And>x. bs_member s x \<longleftrightarrow> bs_member t x) \<Longrightarrow> s = t"
proof (rule bt_eqI)
  fix x
  assume "\<And>x. bs_member s x \<longleftrightarrow> bs_member t x"
  then have "bt_contains s x \<longleftrightarrow> bt_contains t x" .
  then have "bt_get s x = None \<longleftrightarrow> bt_get t x = None" unfolding bt_contains_def by blast
  then show "bt_get s x = bt_get t x" by (cases "bt_get s x"; cases "bt_get t x") auto
qed

lemma set_bs_elems [simp]: "set (bs_elems s) = bs_set s"
  by (auto simp: bs_set_def in_bt_keys)

lemma bs_set_simps [simp]:
  "bs_set bs_empty = {}"
  "bs_set (bs_insert x s) = insert x (bs_set s)"
  "bs_set (bs_remove x s) = bs_set s - {x}"
  "bs_set (bs_filter p s) = {y \<in> bs_set s. p y}"
  "bs_set (bs_of_list xs) = set xs"
  by (auto simp: bs_set_def)

lemma finite_bs_set [simp]: "finite (bs_set s)"
  by (simp flip: set_bs_elems)

lemma bs_set_inject: "bs_set s = bs_set t \<longleftrightarrow> s = t"
  by (auto simp: bs_set_def set_eq_iff intro: bs_eqI)

lemma bs_len_card: "bt_len s = card (bs_set s)" for s :: "'a::linorder btreeset"
proof -
  have "dom (bt_get s) = bs_set s" by (auto simp: bs_set_def bt_contains_def)
  then show ?thesis by (simp add: bt_len_card)
qed

lemma bs_len_insert: "bt_len (bs_insert x s) = (if bs_member s x then bt_len s else Suc (bt_len s))"
  by (simp add: bs_insert_def bt_len_insert)

lemma bs_elems_sorted_list: "bs_elems s = sorted_list_of_set (bs_set s)"
  by (rule sorted_distinct_set_unique) simp_all

section \<open>The interface\<close>

locale ordered_map =
  fixes emp :: "'m"
    and get :: "'m \<Rightarrow> 'k::linorder \<Rightarrow> 'v option"
    and upd :: "'k \<Rightarrow> 'v \<Rightarrow> 'm \<Rightarrow> 'm"
    and del :: "'k \<Rightarrow> 'm \<Rightarrow> 'm"
    and keys :: "'m \<Rightarrow> 'k list"
  assumes get_emp: "get emp k = None"
    and get_upd: "get (upd k v m) = (get m)(k \<mapsto> v)"
    and get_del: "get (del k m) = (get m)(k := None)"
    and keys_sorted: "sorted (keys m) \<and> distinct (keys m)"
    and keys_dom: "set (keys m) = dom (get m)"
    and extensional: "get m = get m' \<Longrightarrow> m = m'"
begin

lemma upd_idem: "get m k = Some v \<Longrightarrow> upd k v m = m"
  by (rule extensional) (auto simp: get_upd)

lemma upd_twice: "upd k v (upd k w m) = upd k v m"
  by (rule extensional) (simp add: get_upd)

lemma upd_commute: "k \<noteq> k' \<Longrightarrow> upd k v (upd k' v' m) = upd k' v' (upd k v m)"
  by (rule extensional) (auto simp: get_upd fun_upd_twist)

lemma del_upd: "get m k = None \<Longrightarrow> del k (upd k v m) = m"
  by (rule extensional) (auto simp: get_upd get_del)

lemma del_absent: "get m k = None \<Longrightarrow> del k m = m"
  by (rule extensional) (auto simp: get_del)

lemma keys_determined: "dom (get m) = dom (get m') \<Longrightarrow> keys m = keys m'"
  using keys_sorted by (intro sorted_distinct_set_unique) (auto simp: keys_dom)

text \<open>Inserting a list of entries: the last one for a key wins.\<close>

lemma get_fold_upd: "get (fold (\<lambda>(k, v). upd k v) es m) = get m ++ map_of (rev es)"
proof (induction es arbitrary: m)
  case (Cons e es)
  then show ?case by (cases e) (auto simp: get_upd map_add_def fun_eq_iff split: option.splits)
qed simp

end

interpretation bt: ordered_map bt_empty bt_get bt_insert bt_remove bt_keys
  by unfold_locales (auto simp: set_bt_keys intro: bt_eqI)

lemma bt_get_of_list: "bt_get (bt_of_list es) = map_of (rev es)"
  unfolding bt_of_list_def by (subst bt.get_fold_upd) (simp add: map_add_def fun_eq_iff split: option.splits)

end
