(* ===== verification/Replay_Guard.thy ===== *)
theory Replay_Guard
  imports BTree_Map
begin

text \<open>
  The contract of a sliding replay window, stated once. Both the relay overlay
  (\<open>RedeliveryTracker::accept\<close>, crates/relay-overlay/src/redelivery.rs) and the media receiver
  (\<open>ReplayWindow::accept\<close>, crates/media/src/sframe.rs) keep, per sender, the highest sequence
  number seen and the set of accepted numbers inside the window below it. The locale
  \<open>replay_guard\<close> fixes such a guard by how one call changes that pair; what a receiver relies on
  (every number is accepted at most once, a fresh number inside the window is never refused, the
  retained set stays within the window) is proved here for any guard that obeys the contract.
\<close>

type_synonym window_view = "nat \<times> nat btreeset"

text \<open>The lowest sequence number that a window of size \<open>w\<close> below \<open>hi\<close> still admits.\<close>

definition window_floor :: "nat \<Rightarrow> nat \<Rightarrow> nat" where
  "window_floor w hi = hi - (w - 1)"

text \<open>
  A run of a guard: the calls in order, with the list of the accepted (sender, number) pairs in
  the order in which they were accepted.
\<close>

fun guard_run :: "('w \<Rightarrow> 'k \<Rightarrow> nat \<Rightarrow> 'w \<times> bool) \<Rightarrow> 'w \<Rightarrow> ('k \<times> nat) list \<Rightarrow> 'w \<times> ('k \<times> nat) list" where
  "guard_run acc w [] = (w, [])"
| "guard_run acc w ((k, n) # ps) =
     (let (w', ok) = acc w k n; (w'', hits) = guard_run acc w' ps
      in (w'', if ok then (k, n) # hits else hits))"

text \<open>
  The abstract specification keeps the whole history: a pair is accepted iff it was never accepted
  before and is not below the window of any number accepted from its sender.
\<close>

definition replay_spec :: "nat \<Rightarrow> ('k \<times> nat) set \<Rightarrow> 'k \<Rightarrow> nat \<Rightarrow> bool" where
  "replay_spec w hist k n \<longleftrightarrow>
     (k, n) \<notin> hist \<and> (\<forall>(k', m) \<in> hist. k' = k \<longrightarrow> window_floor w m \<le> n)"

fun replay_spec_run :: "nat \<Rightarrow> ('k \<times> nat) set \<Rightarrow> ('k \<times> nat) list \<Rightarrow> ('k \<times> nat) list" where
  "replay_spec_run w hist [] = []"
| "replay_spec_run w hist ((k, n) # ps) =
     (if replay_spec w hist k n then (k, n) # replay_spec_run w (insert (k, n) hist) ps
      else replay_spec_run w hist ps)"

text \<open>
  What a window must remember of the set \<open>H\<close> of numbers accepted from one sender: the maximum is
  one of them, and each is either retained or below the floor.
\<close>

fun window_ok :: "nat \<Rightarrow> nat set \<Rightarrow> window_view option \<Rightarrow> bool" where
  "window_ok w H None \<longleftrightarrow> H = {}"
| "window_ok w H (Some (hi, seen)) \<longleftrightarrow>
     hi \<in> H \<and>
     (\<forall>n \<in> H. n \<le> hi \<and> (bs_member seen n \<or> n < window_floor w hi)) \<and>
     (\<forall>n. bs_member seen n \<longrightarrow> n \<in> H \<and> window_floor w hi \<le> n \<and> n \<le> hi)"

lemma window_floor_mono: "hi \<le> hi' \<Longrightarrow> window_floor w hi \<le> window_floor w hi'"
  by (simp add: window_floor_def)

lemma window_floor_le [simp]: "window_floor w hi \<le> hi"
  by (simp add: window_floor_def)

lemma window_ok_admit:
  assumes ok: "window_ok w H (Some (hi, seen))" and n: "window_floor w hi \<le> n"
  shows "window_ok w (insert n H)
           (Some (max hi n, bs_insert n (bs_filter (\<lambda>s. window_floor w (max hi n) \<le> s) seen)))"
proof -
  have mono: "window_floor w hi \<le> window_floor w (max hi n)"
    by (rule window_floor_mono) simp
  have fresh: "window_floor w (max hi n) \<le> n"
    using n by (simp add: max_def)
  have "max hi n \<in> insert n H" using ok by (auto simp: max_def)
  moreover have "m \<le> max hi n \<and> (m = n \<or> (window_floor w (max hi n) \<le> m \<and> bs_member seen m)
      \<or> m < window_floor w (max hi n))" if "m \<in> insert n H" for m
    using that ok mono by fastforce
  moreover have "m \<in> insert n H \<and> window_floor w (max hi n) \<le> m \<and> m \<le> max hi n"
    if "m = n \<or> (window_floor w (max hi n) \<le> m \<and> bs_member seen m)" for m
    using that ok fresh by fastforce
  ultimately show ?thesis by auto
qed

lemma window_ok_fresh:
  "window_ok w H (Some (hi, seen)) \<Longrightarrow> window_floor w hi \<le> n \<Longrightarrow> n \<in> H \<longleftrightarrow> bs_member seen n"
  by fastforce

lemma window_ok_len:
  assumes "window_ok w H (Some (hi, seen))"
  shows "bt_len seen \<le> max 1 w"
proof -
  from assms have "bs_set seen \<subseteq> {window_floor w hi..hi}" by (auto simp: bs_set_def)
  then have "card (bs_set seen) \<le> card {window_floor w hi..hi}" by (intro card_mono) auto
  also have "\<dots> \<le> max 1 w" by (auto simp: window_floor_def)
  finally show ?thesis by (simp add: bs_len_card)
qed

locale replay_guard =
  fixes win :: "'w \<Rightarrow> nat"
    and view :: "'w \<Rightarrow> 'k \<Rightarrow> window_view option"
    and acc :: "'w \<Rightarrow> 'k \<Rightarrow> nat \<Rightarrow> 'w \<times> bool"
  assumes acc_win: "win (fst (acc w k n)) = win w"
    and acc_frame: "k' \<noteq> k \<Longrightarrow> view (fst (acc w k n)) k' = view w k'"
    and acc_first: "view w k = None \<Longrightarrow>
        snd (acc w k n) \<and> view (fst (acc w k n)) k = Some (n, bs_insert n bs_empty)"
    and acc_ok: "view w k = Some (hi, seen) \<Longrightarrow>
        snd (acc w k n) \<longleftrightarrow> window_floor (win w) hi \<le> n \<and> \<not> bs_member seen n"
    and acc_admit: "view w k = Some (hi, seen) \<Longrightarrow> snd (acc w k n) \<Longrightarrow>
        view (fst (acc w k n)) k =
          Some (max hi n,
                bs_insert n (bs_filter (\<lambda>s. window_floor (win w) (max hi n) \<le> s) seen))"
    and acc_refuse: "view w k = Some (hi, seen) \<Longrightarrow> \<not> snd (acc w k n) \<Longrightarrow>
        view (fst (acc w k n)) k = Some (hi, seen)"
begin

text \<open>The guard remembers, for every sender, what a history of accepted pairs requires.\<close>

definition tracks :: "('k \<times> nat) set \<Rightarrow> 'w \<Rightarrow> bool" where
  "tracks hist w \<longleftrightarrow> (\<forall>k. window_ok (win w) {n. (k, n) \<in> hist} (view w k))"

lemma tracks_fresh: "(\<And>k. view w k = None) \<Longrightarrow> tracks {} w"
  by (simp add: tracks_def)

lemma admitted_is_new:
  assumes "tracks hist w" and "snd (acc w k n)"
  shows "(k, n) \<notin> hist"
proof (cases "view w k")
  case None
  have "window_ok (win w) {n. (k, n) \<in> hist} (view w k)" using assms(1) by (simp add: tracks_def)
  with None show ?thesis by simp
next
  case (Some s)
  obtain hi seen where s: "s = (hi, seen)" by (cases s)
  from assms(1) Some s have "window_ok (win w) {n. (k, n) \<in> hist} (Some (hi, seen))"
    unfolding tracks_def by metis
  from window_ok_fresh[OF this, of n] acc_ok[OF Some[unfolded s], of n] assms(2)
  show ?thesis by simp
qed

lemma admitted_view:
  assumes t: "tracks hist w" and ok: "snd (acc w k n)"
  shows "window_ok (win w) (insert n {m. (k, m) \<in> hist}) (view (fst (acc w k n)) k)"
proof (cases "view w k")
  case None
  with t have "{m. (k, m) \<in> hist} = {}" by (metis tracks_def window_ok.simps(1))
  then show ?thesis using acc_first[OF None, of n] by simp
next
  case (Some s)
  obtain hi seen where s: "s = (hi, seen)" by (cases s)
  from t Some s have "window_ok (win w) {n. (k, n) \<in> hist} (Some (hi, seen))"
    unfolding tracks_def by metis
  moreover from acc_ok[OF Some[unfolded s], of n] ok have "window_floor (win w) hi \<le> n" by simp
  ultimately show ?thesis unfolding acc_admit[OF Some[unfolded s] ok] by (rule window_ok_admit)
qed

lemma tracks_step_admit:
  assumes t: "tracks hist w" and ok: "snd (acc w k n)"
  shows "tracks (insert (k, n) hist) (fst (acc w k n))"
  unfolding tracks_def acc_win
proof
  fix k'
  show "window_ok (win w) {m. (k', m) \<in> insert (k, n) hist} (view (fst (acc w k n)) k')"
  proof (cases "k' = k")
    case False
    then have "{m. (k', m) \<in> insert (k, n) hist} = {m. (k', m) \<in> hist}" by auto
    with False t show ?thesis by (simp add: acc_frame tracks_def)
  next
    case True
    then have "{m. (k', m) \<in> insert (k, n) hist} = insert n {m. (k, m) \<in> hist}" by auto
    with True admitted_view[OF t ok] show ?thesis by simp
  qed
qed

lemma refused_view:
  assumes "\<not> snd (acc w k n)"
  shows "view (fst (acc w k n)) k' = view w k'"
proof (cases "k' = k")
  case True
  from assms acc_first have "view w k \<noteq> None" by blast
  then obtain hi seen where "view w k = Some (hi, seen)" by auto
  with True assms acc_refuse show ?thesis by simp
qed (rule acc_frame)

lemma tracks_step_refuse:
  "tracks hist w \<Longrightarrow> \<not> snd (acc w k n) \<Longrightarrow> tracks hist (fst (acc w k n))"
  unfolding tracks_def acc_win by (simp add: refused_view)

lemma guard_run_tracks:
  "tracks hist w \<Longrightarrow> guard_run acc w ps = (w', hits) \<Longrightarrow>
     tracks (hist \<union> set hits) w' \<and> distinct hits \<and> set hits \<inter> hist = {} \<and> set hits \<subseteq> set ps"
proof (induction ps arbitrary: w hist hits w')
  case Nil
  then show ?case by simp
next
  case (Cons p ps)
  obtain k n where p: "p = (k, n)" by (cases p)
  obtain w1 ok where step: "acc w k n = (w1, ok)" by (cases "acc w k n")
  obtain w2 rest where run: "guard_run acc w1 ps = (w2, rest)" by (cases "guard_run acc w1 ps")
  from Cons.prems(2) p step run have w': "w' = w2"
    and hits: "hits = (if ok then (k, n) # rest else rest)" by auto
  show ?case
  proof (cases ok)
    case True
    from tracks_step_admit[OF Cons.prems(1), of k n] step True
    have "tracks (insert (k, n) hist) w1" by simp
    from Cons.IH[OF this run] admitted_is_new[OF Cons.prems(1), of k n] step True hits w' p
    show ?thesis by auto
  next
    case False
    from tracks_step_refuse[OF Cons.prems(1), of k n] step False
    have "tracks hist w1" by simp
    from Cons.IH[OF this run] False hits w' p show ?thesis by auto
  qed
qed

lemma guard_run_win: "guard_run acc w ps = (w', hits) \<Longrightarrow> win w' = win w"
proof (induction ps arbitrary: w hits)
  case (Cons p ps)
  then show ?case
    by (cases p) (auto simp: acc_win split: prod.splits, metis acc_win fst_conv)
qed simp

lemma at_most_once:
  assumes "\<And>k. view w k = None" and "guard_run acc w ps = (w', hits)"
  shows "distinct hits"
  using guard_run_tracks[OF tracks_fresh[OF assms(1)] assms(2)] by simp

text \<open>
  The guard decides as the specification does, although it only keeps the numbers in the window.
\<close>

lemma admitted_iff_spec:
  assumes "tracks hist w"
  shows "snd (acc w k n) \<longleftrightarrow> replay_spec (win w) hist k n"
proof (cases "view w k")
  case None
  with assms have "{m. (k, m) \<in> hist} = {}" by (metis tracks_def window_ok.simps(1))
  then show ?thesis using acc_first[OF None, of n] by (auto simp: replay_spec_def)
next
  case (Some s)
  obtain hi seen where s: "s = (hi, seen)" by (cases s)
  from assms Some s have ok: "window_ok (win w) {n. (k, n) \<in> hist} (Some (hi, seen))"
    unfolding tracks_def by metis
  then have hi: "(k, hi) \<in> hist" and top: "\<And>m. (k, m) \<in> hist \<Longrightarrow> m \<le> hi" by auto
  have "(\<forall>(k', m) \<in> hist. k' = k \<longrightarrow> window_floor (win w) m \<le> n) \<longleftrightarrow> window_floor (win w) hi \<le> n"
  proof
    show "window_floor (win w) hi \<le> n" if "\<forall>(k', m) \<in> hist. k' = k \<longrightarrow> window_floor (win w) m \<le> n"
      using that hi by blast
    show "\<forall>(k', m) \<in> hist. k' = k \<longrightarrow> window_floor (win w) m \<le> n" if "window_floor (win w) hi \<le> n"
      using that top window_floor_mono[of _ hi "win w"] by (auto intro: order_trans)
  qed
  with window_ok_fresh[OF ok, of n] acc_ok[OF Some[unfolded s], of n]
  show ?thesis by (auto simp: replay_spec_def)
qed

lemma guard_run_spec:
  "tracks hist w \<Longrightarrow> snd (guard_run acc w ps) = replay_spec_run (win w) hist ps"
proof (induction ps arbitrary: w hist)
  case (Cons p ps)
  obtain k n where p: "p = (k, n)" by (cases p)
  obtain w1 ok where step: "acc w k n = (w1, ok)" by (cases "acc w k n")
  have win: "win w1 = win w" using acc_win[of w k n] step by simp
  have dec: "ok \<longleftrightarrow> replay_spec (win w) hist k n"
    using admitted_iff_spec[OF Cons.prems, of k n] step by simp
  show ?case
  proof (cases ok)
    case True
    with tracks_step_admit[OF Cons.prems, of k n] step Cons.IH[of "insert (k, n) hist" w1]
    show ?thesis by (auto simp: p step win dec[symmetric] split: prod.splits)
  next
    case False
    with tracks_step_refuse[OF Cons.prems, of k n] step Cons.IH[of hist w1]
    show ?thesis by (auto simp: p step win dec[symmetric] split: prod.splits)
  qed
qed simp

lemma retained_bounded:
  assumes "\<And>k. view w k = None" and "guard_run acc w ps = (w', hits)"
    and v: "view w' k = Some (hi, seen)"
  shows "bt_len seen \<le> max 1 (win w')"
proof -
  from guard_run_tracks[OF tracks_fresh[OF assms(1)] assms(2)] have "tracks (set hits) w'" by simp
  with v have "window_ok (win w') {n. (k, n) \<in> set hits} (Some (hi, seen))"
    unfolding tracks_def by metis
  then show ?thesis by (rule window_ok_len)
qed

end

end
