(* ===== verification/Redelivery.thy ===== *)
theory Redelivery
  imports Replay_Guard
begin

text \<open>
  Receiver replay rejection and redelivery bookkeeping of the relay overlay
  (crates/relay-overlay/src/redelivery.rs). \<open>RedeliveryTracker\<close> is a record of its four fields, with
  the mutating methods as state-passing functions; \<open>accept\<close> discharges the \<open>replay_guard\<close> contract,
  and \<open>request_redelivery\<close> keeps every resend set within the fanout budget.
\<close>

subsection \<open>Data\<close>

datatype packet_id = PacketId (pk_sender_id: string) (pk_sequence: nat)

instantiation packet_id :: linorder
begin

definition less_eq_packet_id :: "packet_id \<Rightarrow> packet_id \<Rightarrow> bool" where
  "less_eq_packet_id p q \<longleftrightarrow> (pk_sender_id p, pk_sequence p) \<le> (pk_sender_id q, pk_sequence q)"

definition less_packet_id :: "packet_id \<Rightarrow> packet_id \<Rightarrow> bool" where
  "less_packet_id p q \<longleftrightarrow> (pk_sender_id p, pk_sequence p) < (pk_sender_id q, pk_sequence q)"

instance
  by standard (auto simp: less_eq_packet_id_def less_packet_id_def packet_id.expand)

end

datatype redelivery_error = Replay | FanoutExhausted

record sender_replay_state =
  srs_max_seen :: nat
  srs_seen :: "nat btreeset"

record redelivery_tracker =
  rt_window_size :: nat
  rt_max_fanout :: nat
  rt_accepted :: "(string, sender_replay_state) btreemap"
  rt_requested :: "(packet_id, string btreeset) btreemap"

subsection \<open>Operations\<close>

definition redelivery_new :: "nat \<Rightarrow> nat \<Rightarrow> redelivery_tracker" where
  "redelivery_new window_size max_fanout =
     \<lparr>rt_window_size = max window_size 1, rt_max_fanout = max max_fanout 1,
      rt_accepted = bt_empty, rt_requested = bt_empty\<rparr>"

definition redelivery_default :: redelivery_tracker where
  "redelivery_default = redelivery_new 64 8"

definition redelivery_accept ::
  "redelivery_tracker \<Rightarrow> packet_id \<Rightarrow> redelivery_tracker \<times> (redelivery_error + unit)" where
  "redelivery_accept t packet =
     (let sender = pk_sender_id packet;
          sequence = pk_sequence packet;
          state = (case bt_get (rt_accepted t) sender of
                     Some s \<Rightarrow> s
                   | None \<Rightarrow> \<lparr>srs_max_seen = sequence, srs_seen = bs_empty\<rparr>);
          t = t\<lparr>rt_accepted := bt_insert sender state (rt_accepted t)\<rparr>;
          floor = srs_max_seen state - (rt_window_size t - 1)
      in if sequence < floor \<or> bs_member (srs_seen state) sequence then (t, Inl Replay)
         else
           let max_seen = (if sequence > srs_max_seen state then sequence else srs_max_seen state);
               new_floor = max_seen - (rt_window_size t - 1);
               seen = bs_insert sequence (bs_filter (\<lambda>s. s \<ge> new_floor) (srs_seen state));
               state = \<lparr>srs_max_seen = max_seen, srs_seen = seen\<rparr>
           in (t\<lparr>rt_accepted := bt_insert sender state (rt_accepted t)\<rparr>, Inr ()))"

definition request_redelivery ::
  "redelivery_tracker \<Rightarrow> packet_id \<Rightarrow> string \<Rightarrow> redelivery_tracker \<times> (redelivery_error + unit)" where
  "request_redelivery t packet relay_peer =
     (let peers = (case bt_get (rt_requested t) packet of Some ps \<Rightarrow> ps | None \<Rightarrow> bs_empty);
          t = t\<lparr>rt_requested := bt_insert packet peers (rt_requested t)\<rparr>
      in if bs_member peers relay_peer \<or> bt_len peers < rt_max_fanout t
         then (t\<lparr>rt_requested := bt_insert packet (bs_insert relay_peer peers) (rt_requested t)\<rparr>, Inr ())
         else (t, Inl FanoutExhausted))"

definition redelivery_fanout :: "redelivery_tracker \<Rightarrow> packet_id \<Rightarrow> nat" where
  "redelivery_fanout t packet =
     (case bt_get (rt_requested t) packet of None \<Rightarrow> 0 | Some peers \<Rightarrow> bt_len peers)"

subsection \<open>The tracker is a replay guard\<close>

definition redelivery_view :: "redelivery_tracker \<Rightarrow> string \<Rightarrow> window_view option" where
  "redelivery_view t sender =
     map_option (\<lambda>s. (srs_max_seen s, srs_seen s)) (bt_get (rt_accepted t) sender)"

definition redelivery_step :: "redelivery_tracker \<Rightarrow> string \<Rightarrow> nat \<Rightarrow> redelivery_tracker \<times> bool" where
  "redelivery_step t sender sequence =
     (case redelivery_accept t (PacketId sender sequence) of (t', r) \<Rightarrow> (t', is_ok r))"

lemmas redelivery_accept_unfold =
  redelivery_step_def redelivery_accept_def redelivery_view_def Let_def window_floor_def

interpretation redelivery: replay_guard rt_window_size redelivery_view redelivery_step
proof
  fix t k n k' hi seen
  show "rt_window_size (fst (redelivery_step t k n)) = rt_window_size t"
    by (auto simp: redelivery_accept_unfold)
  show "k' \<noteq> k \<Longrightarrow> redelivery_view (fst (redelivery_step t k n)) k' = redelivery_view t k'"
    by (auto simp: redelivery_accept_unfold)
  show "redelivery_view t k = None \<Longrightarrow> snd (redelivery_step t k n) \<and>
          redelivery_view (fst (redelivery_step t k n)) k = Some (n, bs_insert n bs_empty)"
    by (auto simp: redelivery_accept_unfold intro!: bs_eqI)
  assume v: "redelivery_view t k = Some (hi, seen)"
  show "snd (redelivery_step t k n) \<longleftrightarrow> window_floor (rt_window_size t) hi \<le> n \<and> \<not> bs_member seen n"
    using v by (auto simp: redelivery_accept_unfold)
  show "snd (redelivery_step t k n) \<Longrightarrow> redelivery_view (fst (redelivery_step t k n)) k =
          Some (max hi n, bs_insert n (bs_filter (\<lambda>s. window_floor (rt_window_size t) (max hi n) \<le> s) seen))"
    using v by (auto simp: redelivery_accept_unfold max_def)
  show "\<not> snd (redelivery_step t k n) \<Longrightarrow>
          redelivery_view (fst (redelivery_step t k n)) k = Some (hi, seen)"
    using v by (auto simp: redelivery_accept_unfold)
qed

lemma redelivery_new_view [simp]: "redelivery_view (redelivery_new w f) k = None"
  by (simp add: redelivery_view_def redelivery_new_def)

lemma redelivery_run_window:
  "guard_run redelivery_step t ps = (t', hits) \<Longrightarrow> rt_window_size t' = rt_window_size t"
  by (rule redelivery.guard_run_win)

subsection \<open>Resend fanout\<close>

lemma request_redelivery_other:
  "packet' \<noteq> packet \<Longrightarrow>
     redelivery_fanout (fst (request_redelivery t packet peer)) packet' = redelivery_fanout t packet'"
  by (simp add: request_redelivery_def redelivery_fanout_def Let_def)

lemma request_redelivery_budget [simp]:
  "rt_max_fanout (fst (request_redelivery t packet peer)) = rt_max_fanout t"
  by (simp add: request_redelivery_def Let_def)

lemma request_redelivery_bound:
  assumes "redelivery_fanout t packet' \<le> rt_max_fanout t"
  shows "redelivery_fanout (fst (request_redelivery t packet peer)) packet' \<le> rt_max_fanout t"
  using assms
  by (cases "packet' = packet")
     (auto simp: request_redelivery_other request_redelivery_def redelivery_fanout_def Let_def
        bs_len_insert split: option.splits)

fun request_all :: "redelivery_tracker \<Rightarrow> (packet_id \<times> string) list \<Rightarrow> redelivery_tracker" where
  "request_all t [] = t"
| "request_all t ((packet, peer) # rs) = request_all (fst (request_redelivery t packet peer)) rs"

lemma request_all_budget [simp]: "rt_max_fanout (request_all t rs) = rt_max_fanout t"
  by (induction t rs rule: request_all.induct) simp_all

lemma request_all_bound:
  assumes "\<And>p. redelivery_fanout t p \<le> rt_max_fanout t"
  shows "redelivery_fanout (request_all t rs) packet \<le> rt_max_fanout t"
  using assms
proof (induction t rs rule: request_all.induct)
  case (2 t p peer rs)
  from 2(2) have "redelivery_fanout (fst (request_redelivery t p peer)) q
      \<le> rt_max_fanout (fst (request_redelivery t p peer))" for q
    by (simp add: request_redelivery_bound)
  from 2(1)[OF this] show ?case by simp
qed simp

subsection \<open>Properties\<close>

text \<open>
  C18: A fresh tracker accepts, out of any sequence of received packet ids, exactly those that an
  observer with unlimited memory would: never accepted before, and not older than the window
  below some accepted packet of the same sender.
\<close>

theorem redelivery_refines_history:
  "snd (guard_run redelivery_step (redelivery_new window_size max_fanout) ps)
     = replay_spec_run (max window_size 1) {} ps"
  using redelivery.guard_run_spec[OF redelivery.tracks_fresh, of "redelivery_new window_size max_fanout" ps]
  by (simp add: redelivery_new_def redelivery_view_def)

text \<open>
  Whatever packets arrive in whatever order, no packet id is accepted twice, and the numbers
  retained for a sender never exceed the window size.
\<close>

theorem redelivery_at_most_once:
  assumes "guard_run redelivery_step (redelivery_new window_size max_fanout) ps = (t, hits)"
  shows "distinct hits \<and> set hits \<subseteq> set ps \<and>
         (\<forall>sender s. bt_get (rt_accepted t) sender = Some s \<longrightarrow>
            bt_len (srs_seen s) \<le> max window_size 1)"
proof -
  note fresh = redelivery.tracks_fresh[OF redelivery_new_view[of window_size max_fanout]]
  from redelivery.guard_run_win[OF assms] have win: "rt_window_size t = max window_size 1"
    by (simp add: redelivery_new_def)
  have "bt_len (srs_seen s) \<le> max window_size 1" if "bt_get (rt_accepted t) sender = Some s" for sender s
    using redelivery.retained_bounded[OF redelivery_new_view assms, of sender] that win
    by (simp add: redelivery_view_def)
  with redelivery.guard_run_tracks[OF fresh assms] show ?thesis by simp
qed

theorem redelivery_at_most_once_witness:
  "distinct [(''a'', 5), (''a'', 6::nat)] \<and>
   snd (guard_run redelivery_step (redelivery_new 4 2) [(''a'', 5), (''a'', 5), (''a'', 6), (''a'', 1)])
     = [(''a'', 5), (''a'', 6)]"
proof -
  have run: "snd (guard_run redelivery_step (redelivery_new 4 2)
      [(''a'', 5), (''a'', 5), (''a'', 6), (''a'', 1)]) = [(''a'', 5), (''a'', 6)]" by code_simp
  with redelivery_at_most_once[of 4 2 "[(''a'', 5), (''a'', 5), (''a'', 6), (''a'', 1)]"]
  show ?thesis by (metis prod.collapse)
qed

text \<open>
  However many relays are asked to resend, no packet ever has more than the fanout budget of
  outstanding relays; asking a relay again is free, and a refused request registers nobody.
\<close>

theorem redelivery_fanout_bounded:
  "redelivery_fanout (request_all (redelivery_new window_size max_fanout) rs) packet \<le> max max_fanout 1
   \<and> (snd (request_redelivery t packet peer) = Inl FanoutExhausted \<longrightarrow>
        redelivery_fanout (fst (request_redelivery t packet peer)) packet = redelivery_fanout t packet)
   \<and> snd (request_redelivery (fst (request_redelivery t packet peer)) packet peer) =
        snd (request_redelivery t packet peer)"
proof (intro conjI impI)
  show "redelivery_fanout (request_all (redelivery_new window_size max_fanout) rs) packet \<le> max max_fanout 1"
    using request_all_bound[of "redelivery_new window_size max_fanout" rs packet]
    by (simp add: redelivery_new_def redelivery_fanout_def)
qed (auto simp: request_redelivery_def redelivery_fanout_def Let_def split: option.splits if_splits)

theorem redelivery_fanout_bounded_witness:
  "snd (request_redelivery
       (request_all (redelivery_new 4 1) [(PacketId ''s'' 7, ''r1'')]) (PacketId ''s'' 7) ''r2'')
     = Inl FanoutExhausted \<and>
   redelivery_fanout (fst (request_redelivery
       (request_all (redelivery_new 4 1) [(PacketId ''s'' 7, ''r1'')]) (PacketId ''s'' 7) ''r2''))
     (PacketId ''s'' 7) = 1"
proof -
  have "snd (request_redelivery
       (request_all (redelivery_new 4 1) [(PacketId ''s'' 7, ''r1'')]) (PacketId ''s'' 7) ''r2'')
     = Inl FanoutExhausted" by code_simp
  moreover have "redelivery_fanout (request_all (redelivery_new 4 1) [(PacketId ''s'' 7, ''r1'')])
      (PacketId ''s'' 7) = 1" by code_simp
  ultimately show ?thesis
    using redelivery_fanout_bounded[of 4 1 "[]" "PacketId ''s'' 7"
        "request_all (redelivery_new 4 1) [(PacketId ''s'' 7, ''r1'')]" "''r2''"] by simp
qed

end
