(* ===== verification/F32.thy ===== *)
theory F32
  imports Rust_Prelude
begin

text \<open>
  The \<open>f32\<close> arithmetic that relay ranking and abuse accounting use (crates/relay-overlay/src/ranking.rs,
  crates/abuse/src/lib.rs). Every finite \<open>f32\<close> is an integer multiple of \<open>2 ^ -149\<close>, so a finite
  value is the \<open>int\<close> that counts these units; each operation computes the exact rational result and
  rounds it once, to nearest with ties to even, to 24 significant bits (IEEE 754 binary32). The two
  zeros are identified: the sources never divide by zero and compare values with \<open>==\<close> and
  \<open>partial_cmp\<close> only, which do not tell them apart.
\<close>

datatype f32 = F32_NaN | F32_Inf bool | F32_Fin int

subsection \<open>Rounding\<close>

function bit_length :: "int \<Rightarrow> nat" where
  "bit_length n = (if n \<le> 0 then 0 else Suc (bit_length (n div 2)))"
  by pat_completeness auto
termination by (relation "measure nat") auto

declare bit_length.simps [simp del]

text \<open>\<open>n / d\<close> rounded to the nearest integer, ties to even, for \<open>0 \<le> n\<close> and \<open>0 < d\<close>.\<close>

definition round_half_even :: "int \<Rightarrow> int \<Rightarrow> int" where
  "round_half_even n d =
     (let q = n div d; r = 2 * (n mod d)
      in if r < d \<or> (r = d \<and> even q) then q else q + 1)"

definition f32_overflow :: int where
  "f32_overflow = 2 ^ 277"

definition round_mag :: "int \<Rightarrow> int \<Rightarrow> int" where
  "round_mag n d = (let s = bit_length (n div d) - 24 in round_half_even n (d * 2 ^ s) * 2 ^ s)"

definition f32_round :: "int \<Rightarrow> int \<Rightarrow> f32" where
  "f32_round n d =
     (let r = round_mag (abs n) d
      in if r \<ge> f32_overflow then F32_Inf (n < 0) else F32_Fin (if n < 0 then - r else r))"

subsection \<open>Operations\<close>

definition f32_unit :: int where
  "f32_unit = 2 ^ 149"

text \<open>A literal, or a \<open>u32\<close>/\<open>u64\<close> value converted by \<open>as f32\<close>.\<close>

definition f32_of_nat :: "nat \<Rightarrow> f32" where
  "f32_of_nat n = f32_round (int n * f32_unit) 1"

lemma f32_of_nat_numeral [code_unfold]:
  "f32_of_nat (numeral k) = f32_round (numeral k * f32_unit) 1"
  by (simp add: f32_of_nat_def)

fun f32_neg :: "f32 \<Rightarrow> f32" where
  "f32_neg F32_NaN = F32_NaN"
| "f32_neg (F32_Inf s) = F32_Inf (\<not> s)"
| "f32_neg (F32_Fin k) = F32_Fin (- k)"

fun f32_add :: "f32 \<Rightarrow> f32 \<Rightarrow> f32" where
  "f32_add (F32_Fin a) (F32_Fin b) = f32_round (a + b) 1"
| "f32_add F32_NaN _ = F32_NaN"
| "f32_add _ F32_NaN = F32_NaN"
| "f32_add (F32_Inf s) (F32_Inf s') = (if s = s' then F32_Inf s else F32_NaN)"
| "f32_add (F32_Inf s) (F32_Fin _) = F32_Inf s"
| "f32_add (F32_Fin _) (F32_Inf s) = F32_Inf s"

definition f32_sub :: "f32 \<Rightarrow> f32 \<Rightarrow> f32" where
  "f32_sub a b = f32_add a (f32_neg b)"

text \<open>Division; a zero divisor counts as \<open>+0.0\<close>.\<close>

fun f32_div :: "f32 \<Rightarrow> f32 \<Rightarrow> f32" where
  "f32_div (F32_Fin a) (F32_Fin b) =
     (if b = 0 then (if a = 0 then F32_NaN else F32_Inf (a < 0))
      else f32_round (a * f32_unit * sgn b) (abs b))"
| "f32_div F32_NaN _ = F32_NaN"
| "f32_div _ F32_NaN = F32_NaN"
| "f32_div (F32_Inf _) (F32_Inf _) = F32_NaN"
| "f32_div (F32_Inf s) (F32_Fin b) = F32_Inf (s \<noteq> (b < 0))"
| "f32_div (F32_Fin _) (F32_Inf _) = F32_Fin 0"

fun f32_key :: "f32 \<Rightarrow> (int \<times> int) option" where
  "f32_key F32_NaN = None"
| "f32_key (F32_Inf True) = Some (-1, 0)"
| "f32_key (F32_Inf False) = Some (1, 0)"
| "f32_key (F32_Fin k) = Some (0, k)"

definition f32_partial_cmp :: "f32 \<Rightarrow> f32 \<Rightarrow> ordering option" where
  "f32_partial_cmp a b =
     (case (f32_key a, f32_key b) of
        (Some x, Some y) \<Rightarrow> Some (cmp_lin x y)
      | _ \<Rightarrow> None)"

text \<open>\<open>a.max(0.0)\<close>: the other operand when one is NaN.\<close>

fun f32_max0 :: "f32 \<Rightarrow> f32" where
  "f32_max0 F32_NaN = F32_Fin 0"
| "f32_max0 (F32_Inf s) = (if s then F32_Fin 0 else F32_Inf False)"
| "f32_max0 (F32_Fin k) = F32_Fin (max 0 k)"

text \<open>\<open>a.min(b)\<close> (the other operand when one is NaN) and \<open>x.clamp(lo, hi)\<close> (NaN stays NaN).\<close>

definition f32_min :: "f32 \<Rightarrow> f32 \<Rightarrow> f32" where
  "f32_min a b =
     (case f32_partial_cmp a b of
        Some c \<Rightarrow> if c = Greater then b else a
      | None \<Rightarrow> if a = F32_NaN then b else a)"

definition f32_clamp :: "f32 \<Rightarrow> f32 \<Rightarrow> f32 \<Rightarrow> f32" where
  "f32_clamp x lo hi =
     (if f32_partial_cmp x lo = Some Less then lo
      else if f32_partial_cmp x hi = Some Greater then hi
      else x)"

text \<open>The saturating cast \<open>as u64\<close>.\<close>

fun f32_to_u64 :: "f32 \<Rightarrow> nat" where
  "f32_to_u64 F32_NaN = 0"
| "f32_to_u64 (F32_Inf s) = (if s then 0 else u64_max)"
| "f32_to_u64 (F32_Fin k) = (if k \<le> 0 then 0 else min u64_max (nat (k div f32_unit)))"

definition f32_is_nan :: "f32 \<Rightarrow> bool" where
  "f32_is_nan x \<longleftrightarrow> x = F32_NaN"

subsection \<open>Rounding is exact where it can be, and monotone\<close>

lemma bit_length_bounds:
  "0 < n \<Longrightarrow> 0 < bit_length n \<and> 2 ^ (bit_length n - 1) \<le> n \<and> n < 2 ^ bit_length n"
proof (induction n rule: bit_length.induct)
  case (1 n)
  show ?case
  proof (cases "n div 2 \<le> 0")
    case True
    with 1 have "n = 1" by linarith
    then show ?thesis by (simp add: bit_length.simps)
  next
    case False
    with 1 have ih: "0 < bit_length (n div 2)" "2 ^ (bit_length (n div 2) - 1) \<le> n div 2"
      "n div 2 < 2 ^ bit_length (n div 2)" by auto
    have bl: "bit_length n = Suc (bit_length (n div 2))" using 1(2) by (subst bit_length.simps) simp
    obtain k where k: "bit_length (n div 2) = Suc k" using ih(1) by (cases "bit_length (n div 2)") auto
    from ih bl show ?thesis unfolding bl k by simp linarith
  qed
qed

lemma bit_length_mono: "0 \<le> m \<Longrightarrow> m \<le> n \<Longrightarrow> bit_length m \<le> bit_length n"
proof (induction m arbitrary: n rule: bit_length.induct)
  case (1 m)
  then have "bit_length (m div 2) \<le> bit_length (n div 2)" if "0 < m" using that by simp
  then show ?case by (subst (1 2) bit_length.simps) (use 1(3) in simp)
qed

lemma bit_length_le: "n < 2 ^ b \<Longrightarrow> bit_length n \<le> b"
proof (rule ccontr)
  assume n: "n < 2 ^ b" and "\<not> bit_length n \<le> b"
  then have b: "b \<le> bit_length n - 1" and "bit_length n \<noteq> 0" by auto
  then have "0 < n" by (subst (asm) bit_length.simps) (auto split: if_splits)
  from bit_length_bounds[OF this] have "2 ^ (bit_length n - 1) \<le> n" by blast
  moreover have "(2::int) ^ b \<le> 2 ^ (bit_length n - 1)" using b by (rule power_increasing) simp
  ultimately show False using n by linarith
qed

lemma round_half_even_range:
  "round_half_even n d = n div d \<or> round_half_even n d = n div d + 1"
  by (simp add: round_half_even_def Let_def)

lemma round_half_even_exact: "0 < d \<Longrightarrow> d dvd n \<Longrightarrow> round_half_even n d = n div d"
  by (simp add: round_half_even_def)

lemma round_half_even_mono:
  assumes "m \<le> n" and d: "0 < d"
  shows "round_half_even m d \<le> round_half_even n d"
proof (cases "m div d = n div d")
  case True
  then have "m mod d \<le> n mod d"
    using assms(1) minus_div_mult_eq_mod[of m d] minus_div_mult_eq_mod[of n d] by simp
  with True show ?thesis by (auto simp: round_half_even_def Let_def)
next
  case False
  with zdiv_mono1[OF assms] have "m div d + 1 \<le> n div d" by linarith
  with round_half_even_range[of m d] round_half_even_range[of n d] show ?thesis by linarith
qed

lemma round_mag_bounds:
  assumes n: "0 < n"
  shows "2 ^ (bit_length n - 1) \<le> round_mag n 1 \<and> round_mag n 1 \<le> 2 ^ bit_length n"
proof -
  define s where "s = bit_length n - 24"
  define b where "b = bit_length n"
  note bl = bit_length_bounds[OF n, folded b_def]
  have s: "s \<le> b - 1" "s \<le> b" using bl by (auto simp: s_def b_def)
  have split: "(2::int) ^ (b - 1) = 2 ^ (b - 1 - s) * 2 ^ s" "(2::int) ^ b = 2 ^ (b - s) * 2 ^ s"
    using s by (simp_all flip: power_add)
  have "2 ^ (b - 1 - s) \<le> n div 2 ^ s"
    using bl zdiv_mono1[of "2 ^ (b - 1)" n "2 ^ s"] split(1) by simp
  moreover have "n div 2 ^ s + 1 \<le> 2 ^ (b - s)"
  proof (rule ccontr)
    assume "\<not> n div 2 ^ s + 1 \<le> 2 ^ (b - s)"
    then have "2 ^ (b - s) * 2 ^ s \<le> (n div 2 ^ s) * 2 ^ s" by simp
    also have "\<dots> \<le> n"
    proof -
      have "0 \<le> n mod 2 ^ s" by simp
      then show ?thesis using minus_div_mult_eq_mod[of n "2 ^ s"] by linarith
    qed
    finally show False using bl split(2) by simp
  qed
  ultimately have "2 ^ (b - 1 - s) \<le> round_half_even n (2 ^ s)" "round_half_even n (2 ^ s) \<le> 2 ^ (b - s)"
    using round_half_even_range[of n "2 ^ s"] by linarith+
  then have "2 ^ (b - 1 - s) * 2 ^ s \<le> round_half_even n (2 ^ s) * 2 ^ s"
    "round_half_even n (2 ^ s) * 2 ^ s \<le> 2 ^ (b - s) * 2 ^ s" by (auto intro: mult_right_mono)
  moreover have "round_mag n 1 = round_half_even n (2 ^ s) * 2 ^ s"
    by (simp add: round_mag_def Let_def s_def)
  ultimately show ?thesis unfolding b_def[symmetric] split by (intro conjI) (simp_all only:)
qed

lemma round_mag_exact: "0 \<le> n \<Longrightarrow> 2 ^ (bit_length n - 24) dvd n \<Longrightarrow> round_mag n 1 = n"
  by (simp add: round_mag_def Let_def round_half_even_exact)

lemma round_mag_mono:
  assumes "0 < m" and "m \<le> n"
  shows "round_mag m 1 \<le> round_mag n 1"
proof (cases "bit_length m = bit_length n")
  case True
  then show ?thesis using round_half_even_mono[OF assms(2)] by (simp add: round_mag_def Let_def)
next
  case False
  with bit_length_mono[of m n] assms have "bit_length m \<le> bit_length n - 1" by simp
  then have "(2::int) ^ bit_length m \<le> 2 ^ (bit_length n - 1)" by (rule power_increasing) simp
  with round_mag_bounds[of m] round_mag_bounds[of n] assms show ?thesis by linarith
qed

subsection \<open>Conversions of counters\<close>

lemma f32_of_nat_0 [simp]: "f32_of_nat 0 = F32_Fin 0"
  by (simp add: f32_of_nat_def f32_round_def round_mag_def round_half_even_def f32_overflow_def bit_length.simps)

lemma f32_of_nat_pos:
  assumes "0 < n" and "n \<le> u64_max"
  shows "f32_of_nat n = F32_Fin (round_mag (int n * f32_unit) 1)"
    and "f32_unit \<le> round_mag (int n * f32_unit) 1"
proof -
  let ?k = "int n * f32_unit"
  have pos: "0 < ?k" using assms by (simp add: f32_unit_def)
  have "?k < 2 ^ 64 * 2 ^ 149" using assms(2) by (simp add: f32_unit_def u64_max_def)
  also have "\<dots> = 2 ^ 213" by simp
  finally have "bit_length ?k \<le> 213" by (rule bit_length_le)
  from power_increasing[OF this, of "2::int"] round_mag_bounds[OF pos]
  have "round_mag ?k 1 \<le> 2 ^ 213" by simp
  then show "f32_of_nat n = F32_Fin (round_mag ?k 1)"
    using pos by (simp add: f32_of_nat_def f32_round_def f32_overflow_def Let_def)
  have "round_mag f32_unit 1 = f32_unit"
  proof (rule round_mag_exact)
    have "bit_length f32_unit \<le> 150" by (rule bit_length_le) (simp add: f32_unit_def)
    then show "2 ^ (bit_length f32_unit - 24) dvd f32_unit"
      unfolding f32_unit_def by (intro le_imp_power_dvd) simp
  qed (simp add: f32_unit_def)
  moreover have "f32_unit \<le> ?k" using assms(1) by (simp add: f32_unit_def)
  ultimately show "f32_unit \<le> round_mag ?k 1"
    using round_mag_mono[of f32_unit ?k] by (simp add: f32_unit_def)
qed

lemma f32_of_nat_exact:
  assumes "n \<le> 2 ^ 24"
  shows "f32_of_nat n = F32_Fin (int n * f32_unit)"
proof (cases "n = 0 \<or> n = 2 ^ 24")
  case False
  let ?k = "int n * f32_unit"
  have "n < 2 ^ 24" using assms False by simp
  then have "?k < 2 ^ 24 * 2 ^ 149" by (simp add: f32_unit_def)
  also have "\<dots> = 2 ^ 173" by simp
  finally have "bit_length ?k \<le> 173" by (rule bit_length_le)
  then have "(2::int) ^ (bit_length ?k - 24) dvd f32_unit"
    unfolding f32_unit_def by (intro le_imp_power_dvd) simp
  then have "round_mag ?k 1 = ?k" by (intro round_mag_exact) (simp_all add: f32_unit_def)
  with f32_of_nat_pos[of n] False assms show ?thesis by (simp add: u64_max_def)
next
  case True
  have "round_mag (2 ^ 24 * f32_unit) 1 = 2 ^ 24 * f32_unit"
  proof (rule round_mag_exact)
    have "bit_length (2 ^ 24 * f32_unit) \<le> 174" by (rule bit_length_le) (simp add: f32_unit_def)
    then have "(2::int) ^ (bit_length (2 ^ 24 * f32_unit) - 24) dvd 2 ^ 173"
      by (intro le_imp_power_dvd) simp
    then show "2 ^ (bit_length (2 ^ 24 * f32_unit) - 24) dvd 2 ^ 24 * f32_unit"
      by (simp add: f32_unit_def)
  qed (simp add: f32_unit_def)
  with True f32_of_nat_pos(1)[of n] show ?thesis by (auto simp: u64_max_def)
qed

lemma f32_of_nat_mono:
  assumes "m \<le> n" and "n \<le> u64_max"
  obtains a b where "f32_of_nat m = F32_Fin a" "f32_of_nat n = F32_Fin b" "a \<le> b"
proof (cases "m = 0")
  case True
  show ?thesis
  proof (cases "n = 0")
    case False
    with assms f32_of_nat_pos[of n] True that show ?thesis by (simp add: f32_unit_def)
  qed (use True that in simp)
next
  case False
  then have "round_mag (int m * f32_unit) 1 \<le> round_mag (int n * f32_unit) 1"
    using assms(1) by (intro round_mag_mono) (simp_all add: f32_unit_def)
  with False assms f32_of_nat_pos(1)[of m] f32_of_nat_pos(1)[of n] that show ?thesis by simp
qed

end
