(* ===== verification/Topology.thy ===== *)
theory Topology
  imports BTree_Map F32
begin

text \<open>
  Relay ranking, the overlay topology and failover: crates/relay-overlay/src/ranking.rs, topology.rs and
  failover.rs. The topology is the record of its limits, peer metrics and adjacency sets; \<open>route_loop\<close>
  is the breadth-first search of \<open>route_avoiding\<close> with its queue of partial paths and its visited
  set. Shown: ranking is a function of the candidate set alone, the search returns a shortest
  admissible route exactly when one exists within the hop cap, and links stay symmetric and
  within the fanout.
\<close>

subsection \<open>Ranking\<close>

record relay_metrics =
  rm_peer_id :: string
  rm_latency_ms :: nat
  rm_stability :: f32
  rm_battery_cost :: f32
  rm_freeload_penalty :: f32

definition score :: "relay_metrics \<Rightarrow> f32" where
  "score metrics =
     f32_sub
       (f32_sub
         (f32_add (f32_div (f32_of_nat 1000) (f32_of_nat (max (rm_latency_ms metrics) 1)))
                  (rm_stability metrics))
         (rm_battery_cost metrics))
       (rm_freeload_penalty metrics)"

definition compare_metrics :: "relay_metrics \<Rightarrow> relay_metrics \<Rightarrow> ordering" where
  "compare_metrics a b =
     then_with
       (case f32_partial_cmp (score b) (score a) of Some c \<Rightarrow> c | None \<Rightarrow> Equal)
       (cmp_lin (rm_peer_id a) (rm_peer_id b))"

definition rank :: "relay_metrics list \<Rightarrow> relay_metrics list" where
  "rank peers = sort_by compare_metrics peers"

subsection \<open>Topology\<close>

definition max_relay_hops :: nat where "max_relay_hops = 3"
definition default_max_fanout :: nat where "default_max_fanout = 8"

record relay_route =
  rr_path :: "string list"

definition hop_count :: "relay_route \<Rightarrow> nat" where
  "hop_count r = length (rr_path r) - 1"

definition hop_limit_ok :: "nat \<Rightarrow> bool" where
  "hop_limit_ok hops \<longleftrightarrow> hops \<le> max_relay_hops"

definition within_hop_limit :: "relay_route \<Rightarrow> bool" where
  "within_hop_limit r \<longleftrightarrow> hop_limit_ok (hop_count r)"

definition contains_peer :: "relay_route \<Rightarrow> string \<Rightarrow> bool" where
  "contains_peer r peer_id \<longleftrightarrow> list_ex (\<lambda>peer. peer = peer_id) (rr_path r)"

datatype topology_error = UnknownPeer string | FanoutLimit string | NoRoute

record relay_topology =
  tp_max_hops :: nat
  tp_max_fanout :: nat
  tp_metrics :: "(string, relay_metrics) btreemap"
  tp_links :: "(string, string btreeset) btreemap"

definition topology_new :: "nat \<Rightarrow> nat \<Rightarrow> relay_topology" where
  "topology_new max_hops max_fanout =
     \<lparr>tp_max_hops = max_hops, tp_max_fanout = max max_fanout 1,
      tp_metrics = bt_empty, tp_links = bt_empty\<rparr>"

definition topology_default :: relay_topology where
  "topology_default = topology_new max_relay_hops default_max_fanout"

definition upsert_peer :: "relay_topology \<Rightarrow> relay_metrics \<Rightarrow> relay_topology" where
  "upsert_peer t metrics =
     t\<lparr>tp_links := bt_upsert (rm_peer_id metrics) bs_empty (\<lambda>ns. ns) (tp_links t),
       tp_metrics := bt_insert (rm_peer_id metrics) metrics (tp_metrics t)\<rparr>"

definition ensure_peer :: "relay_topology \<Rightarrow> string \<Rightarrow> topology_error + unit" where
  "ensure_peer t peer_id = ensure (bt_contains (tp_metrics t) peer_id) (UnknownPeer peer_id)"

definition ensure_fanout :: "relay_topology \<Rightarrow> string \<Rightarrow> string \<Rightarrow> topology_error + unit" where
  "ensure_fanout t peer_id other =
     (let current = (case bt_get (tp_links t) peer_id of None \<Rightarrow> 0 | Some ns \<Rightarrow> bt_len ns);
          already_connected = (case bt_get (tp_links t) peer_id of None \<Rightarrow> False | Some ns \<Rightarrow> bs_member ns other)
      in if already_connected \<or> current < tp_max_fanout t then Inr ()
         else Inl (FanoutLimit peer_id))"

definition add_link :: "string \<Rightarrow> string \<Rightarrow> (string, string btreeset) btreemap \<Rightarrow> (string, string btreeset) btreemap" where
  "add_link a b links =
     bt_insert a (bs_insert b (case bt_get links a of Some ns \<Rightarrow> ns | None \<Rightarrow> bs_empty)) links"

definition connect :: "relay_topology \<Rightarrow> string \<Rightarrow> string \<Rightarrow> topology_error + relay_topology" where
  "connect t a b =
     and_then (ensure_peer t a) (\<lambda>_.
     and_then (ensure_peer t b) (\<lambda>_.
     and_then (ensure_fanout t a b) (\<lambda>_.
     and_then (ensure_fanout t b a) (\<lambda>_.
       Inr (t\<lparr>tp_links := add_link b a (add_link a b (tp_links t))\<rparr>)))))"

definition peer_degree :: "relay_topology \<Rightarrow> string \<Rightarrow> nat option" where
  "peer_degree t peer_id = map_option bt_len (bt_get (tp_links t) peer_id)"

definition ranked_neighbors :: "relay_topology \<Rightarrow> string \<Rightarrow> relay_metrics list" where
  "ranked_neighbors t peer_id =
     (case bt_get (tp_links t) peer_id of
        None \<Rightarrow> []
      | Some neighbors \<Rightarrow> rank (List.map_filter (bt_get (tp_metrics t)) (bs_elems neighbors)))"

text \<open>The \<open>for\<close> loop over the neighbours of the last peer of \<open>path\<close>: it returns the route, or the
  visited set and the queue it leaves.\<close>

fun visit_neighbors ::
  "string btreeset \<Rightarrow> string \<Rightarrow> string list \<Rightarrow> relay_metrics list \<Rightarrow> string btreeset \<Rightarrow> string list list
     \<Rightarrow> relay_route + (string btreeset \<times> string list list)" where
  "visit_neighbors avoided destination path [] visited queue = Inr (visited, queue)"
| "visit_neighbors avoided destination path (neighbor # ns) visited queue =
     (if bs_member avoided (rm_peer_id neighbor) \<or> bs_member visited (rm_peer_id neighbor)
      then visit_neighbors avoided destination path ns visited queue
      else
        let next_path = path @ [rm_peer_id neighbor]
        in if rm_peer_id neighbor = destination then Inl \<lparr>rr_path = next_path\<rparr>
           else visit_neighbors avoided destination path ns
                  (bs_insert (rm_peer_id neighbor) visited) (queue @ [next_path]))"

text \<open>The peers that the search can still discover.\<close>

definition unvisited :: "relay_topology \<Rightarrow> string btreeset \<Rightarrow> string set" where
  "unvisited t visited = rm_peer_id ` set (bt_values (tp_metrics t)) - bs_set visited"

lemma mset_rank [simp]: "mset (rank ps) = mset ps"
  by (simp add: rank_def)

lemma set_rank [simp]: "set (rank ps) = set ps"
  by (simp add: rank_def)

lemma set_ranked_neighbors:
  "m \<in> set (ranked_neighbors t p) \<longleftrightarrow>
     (\<exists>ns q. bt_get (tp_links t) p = Some ns \<and> bs_member ns q \<and> bt_get (tp_metrics t) q = Some m)"
proof (cases "bt_get (tp_links t) p")
  case (Some ns)
  have "m \<in> set (List.map_filter (bt_get (tp_metrics t)) (bs_elems ns)) \<longleftrightarrow>
      (\<exists>q. bs_member ns q \<and> bt_get (tp_metrics t) q = Some m)"
    by (force simp: map_filter_def bs_set_def)
  with Some show ?thesis by (simp add: ranked_neighbors_def)
qed (simp add: ranked_neighbors_def)

lemma ranked_neighbors_known:
  "m \<in> set (ranked_neighbors t p) \<Longrightarrow> rm_peer_id m \<in> rm_peer_id ` set (bt_values (tp_metrics t))"
  by (rule imageI) (auto simp: set_ranked_neighbors set_bt_values)

lemma visit_neighbors_Inr:
  "visit_neighbors av d path ns V q = Inr (V', q') \<Longrightarrow>
     \<exists>news. q' = q @ map (\<lambda>n. path @ [n]) news \<and> bs_set V' = bs_set V \<union> set news
       \<and> set news = rm_peer_id ` set ns - bs_set av - bs_set V \<and> distinct news \<and> d \<notin> set news"
proof (induction av d path ns V q arbitrary: V' q' rule: visit_neighbors.induct)
  case (2 av d path n ns V q)
  show ?case
  proof (cases "bs_member av (rm_peer_id n) \<or> bs_member V (rm_peer_id n)")
    case True
    with 2(3) have "visit_neighbors av d path ns V q = Inr (V', q')" by simp
    from 2(1)[OF True this] True show ?thesis by (auto simp: bs_set_def)
  next
    case False
    with 2(3) have ne: "rm_peer_id n \<noteq> d" by (auto simp: Let_def split: if_splits)
    with False 2(3) have "visit_neighbors av d path ns (bs_insert (rm_peer_id n) V)
        (q @ [path @ [rm_peer_id n]]) = Inr (V', q')" by simp
    from 2(2)[OF False refl ne this] obtain news where
      "q' = (q @ [path @ [rm_peer_id n]]) @ map (\<lambda>n. path @ [n]) news"
      "bs_set V' = bs_set (bs_insert (rm_peer_id n) V) \<union> set news"
      "set news = rm_peer_id ` set ns - bs_set av - bs_set (bs_insert (rm_peer_id n) V)"
      "distinct news" "d \<notin> set news" by blast
    with False ne show ?thesis
      by (intro exI[of _ "rm_peer_id n # news"]) (auto simp: bs_set_def)
  qed
qed simp

lemma visit_neighbors_Inl:
  "visit_neighbors av d path ns V q = Inl r \<Longrightarrow>
     rr_path r = path @ [d] \<and> d \<in> rm_peer_id ` set ns \<and> d \<notin> bs_set av \<and> d \<notin> bs_set V"
proof (induction av d path ns V q rule: visit_neighbors.induct)
  case (2 av d path n ns V q)
  then show ?case
    by (cases "bs_member av (rm_peer_id n) \<or> bs_member V (rm_peer_id n)"; cases "rm_peer_id n = d")
       (auto simp: bs_set_def)
qed simp

subsection \<open>The search terminates\<close>

lemma visit_neighbors_measure:
  assumes "visit_neighbors av d path (ranked_neighbors t p) V q = Inr (V', q')"
  shows "length q' + 2 * card (unvisited t V') < Suc (length q) + 2 * card (unvisited t V)"
proof -
  from visit_neighbors_Inr[OF assms] obtain news where
    q': "q' = q @ map (\<lambda>n. path @ [n]) news" and V': "bs_set V' = bs_set V \<union> set news"
    and news: "set news = rm_peer_id ` set (ranked_neighbors t p) - bs_set av - bs_set V"
      "distinct news" by blast
  have fin: "finite (unvisited t V)" by (simp add: unvisited_def)
  have sub: "set news \<subseteq> unvisited t V"
    using news(1) ranked_neighbors_known by (fastforce simp: unvisited_def)
  have "unvisited t V' = unvisited t V - set news" using V' by (auto simp: unvisited_def)
  with fin sub have "card (unvisited t V') = card (unvisited t V) - length news"
    using card_Diff_subset[of "set news"] distinct_card[OF news(2)] by simp
  moreover have "length news \<le> card (unvisited t V)"
    using card_mono[OF fin sub] distinct_card[OF news(2)] by simp
  ultimately show ?thesis using q' by simp
qed

function route_loop ::
  "relay_topology \<Rightarrow> string btreeset \<Rightarrow> string \<Rightarrow> string list list \<Rightarrow> string btreeset
     \<Rightarrow> topology_error + relay_route" where
  "route_loop t avoided destination [] visited = Inl NoRoute"
| "route_loop t avoided destination (path # queue) visited =
     (if path = [] then route_loop t avoided destination queue visited
      else if length path - 1 \<ge> tp_max_hops t then route_loop t avoided destination queue visited
      else
        case visit_neighbors avoided destination path (ranked_neighbors t (last path)) visited queue of
          Inl route \<Rightarrow> Inr route
        | Inr (visited', queue') \<Rightarrow> route_loop t avoided destination queue' visited')"
  by pat_completeness auto
termination
  by (relation "measure (\<lambda>(t, av, d, q, V). length q + 2 * card (unvisited t V))")
     (auto dest: visit_neighbors_measure)

definition route_avoiding ::
  "relay_topology \<Rightarrow> string \<Rightarrow> string \<Rightarrow> string btreeset \<Rightarrow> topology_error + relay_route" where
  "route_avoiding t source destination avoided_peers =
     and_then (ensure_peer t source) (\<lambda>_.
     and_then (ensure_peer t destination) (\<lambda>_.
       if bs_member avoided_peers source \<or> bs_member avoided_peers destination then Inl NoRoute
       else if source = destination then Inr \<lparr>rr_path = [source]\<rparr>
       else route_loop t avoided_peers destination [[source]] (bs_of_list [source])))"

definition route :: "relay_topology \<Rightarrow> string \<Rightarrow> string \<Rightarrow> topology_error + relay_route" where
  "route t source destination = route_avoiding t source destination bs_empty"

subsection \<open>Failover\<close>

record failover_decision =
  fd_previous :: relay_route
  fd_replacement :: relay_route
  fd_failed_peer :: string
  fd_convergence_ms :: nat

definition converged_within_phase2_gate :: "failover_decision \<Rightarrow> bool" where
  "converged_within_phase2_gate d \<longleftrightarrow> fd_convergence_ms d \<le> 3000"

definition first_peer :: "relay_route \<Rightarrow> string option" where
  "first_peer r = (case rr_path r of [] \<Rightarrow> None | p # _ \<Rightarrow> Some p)"

definition last_peer :: "relay_route \<Rightarrow> string option" where
  "last_peer r = (if rr_path r = [] then None else Some (last (rr_path r)))"

definition reroute_after_failure ::
  "relay_topology \<Rightarrow> relay_route \<Rightarrow> string \<Rightarrow> nat \<Rightarrow> topology_error + failover_decision" where
  "reroute_after_failure t previous failed_peer convergence_ms =
     and_then (ok_or NoRoute (first_peer previous)) (\<lambda>source.
     and_then (ok_or NoRoute (last_peer previous)) (\<lambda>destination.
     and_then (route_avoiding t source destination (bs_of_list [failed_peer])) (\<lambda>replacement.
       Inr \<lparr>fd_previous = previous, fd_replacement = replacement, fd_failed_peer = failed_peer,
            fd_convergence_ms = convergence_ms\<rparr>)))"

subsection \<open>Ranking is a function of the candidate set\<close>

definition rank_key :: "relay_metrics \<Rightarrow> (int \<times> int) \<times> string" where
  "rank_key m = (case f32_key (score m) of
       Some (c, k) \<Rightarrow> ((- c, - k), rm_peer_id m) | None \<Rightarrow> ((0, 0), rm_peer_id m))"

lemma compare_metrics_key:
  assumes "\<not> f32_is_nan (score a)" and "\<not> f32_is_nan (score b)"
  shows "compare_metrics a b \<noteq> Greater \<longleftrightarrow> rank_key a \<le> rank_key b"
proof -
  obtain c k where a: "f32_key (score a) = Some (c, k)"
    using assms(1) by (cases "score a" rule: f32_key.cases) (auto simp: f32_is_nan_def)
  obtain c' k' where b: "f32_key (score b) = Some (c', k')"
    using assms(2) by (cases "score b" rule: f32_key.cases) (auto simp: f32_is_nan_def)
  show ?thesis
    by (auto simp: compare_metrics_def rank_key_def f32_partial_cmp_def a b then_with_def cmp_lin_def
        less_eq_prod_def less_prod_def)
qed

lemma rank_sort_key:
  assumes "\<forall>m \<in> set ps. \<not> f32_is_nan (score m)"
  shows "rank ps = sort_key rank_key ps"
  unfolding rank_def using assms by (intro sort_by_key) (auto simp: compare_metrics_key)

lemma rank_key_peer: "rank_key a = rank_key b \<Longrightarrow> rm_peer_id a = rm_peer_id b"
  by (auto simp: rank_key_def split: option.splits prod.splits)

lemma rank_key_inj:
  "distinct (map rm_peer_id ps) \<Longrightarrow> inj_on rank_key (set ps)"
  by (auto simp: inj_on_def distinct_map dest: rank_key_peer)

subsection \<open>Well-formed topologies\<close>

definition linked :: "relay_topology \<Rightarrow> string \<Rightarrow> string \<Rightarrow> bool" where
  "linked t a b \<longleftrightarrow> (\<exists>ns. bt_get (tp_links t) a = Some ns \<and> bs_member ns b)"

definition topology_wf :: "relay_topology \<Rightarrow> bool" where
  "topology_wf t \<longleftrightarrow>
     (\<forall>p m. bt_get (tp_metrics t) p = Some m \<longrightarrow> rm_peer_id m = p) \<and>
     dom (bt_get (tp_links t)) = dom (bt_get (tp_metrics t)) \<and>
     (\<forall>a b. linked t a b \<longrightarrow> linked t b a) \<and>
     (\<forall>p ns. bt_get (tp_links t) p = Some ns \<longrightarrow> bt_len ns \<le> tp_max_fanout t)"

text \<open>The topologies that the public constructor and mutators can build.\<close>

inductive topology_built :: "nat \<Rightarrow> nat \<Rightarrow> relay_topology \<Rightarrow> bool" for hops fanout where
  built_new: "topology_built hops fanout (topology_new hops fanout)"
| built_upsert: "topology_built hops fanout t \<Longrightarrow> topology_built hops fanout (upsert_peer t m)"
| built_connect: "topology_built hops fanout t \<Longrightarrow> connect t a b = Inr t' \<Longrightarrow> topology_built hops fanout t'"

lemma topology_new_wf: "topology_wf (topology_new hops fanout)"
  by (simp add: topology_wf_def topology_new_def linked_def dom_def)

lemma upsert_peer_linked [simp]: "linked (upsert_peer t m) a b \<longleftrightarrow> linked t a b"
  by (auto simp: linked_def upsert_peer_def bt_get_upsert split: option.splits)

lemma upsert_peer_wf:
  assumes "topology_wf t"
  shows "topology_wf (upsert_peer t m)"
  unfolding topology_wf_def upsert_peer_linked
proof (intro conjI allI impI)
  show "dom (bt_get (tp_links (upsert_peer t m))) = dom (bt_get (tp_metrics (upsert_peer t m)))"
    using assms by (auto simp: topology_wf_def upsert_peer_def bt_get_upsert dom_def set_eq_iff
        split: option.splits)
  show "bt_len ns \<le> tp_max_fanout (upsert_peer t m)"
    if "bt_get (tp_links (upsert_peer t m)) p = Some ns" for p ns
    using that assms by (auto simp: topology_wf_def upsert_peer_def bt_get_upsert split: option.splits if_splits)
qed (use assms in \<open>auto simp: topology_wf_def upsert_peer_def split: if_splits\<close>)

lemma connect_Inr:
  "connect t a b = Inr t' \<longleftrightarrow>
     bt_contains (tp_metrics t) a \<and> bt_contains (tp_metrics t) b \<and>
     is_ok (ensure_fanout t a b) \<and> is_ok (ensure_fanout t b a) \<and>
     t' = t\<lparr>tp_links := add_link b a (add_link a b (tp_links t))\<rparr>"
  by (auto simp: connect_def ensure_peer_def and_then_Inr is_ok_iff)

lemma bt_get_add_link:
  "bt_get (add_link a b links) p =
     (if p = a then Some (bs_insert b (case bt_get links a of Some ns \<Rightarrow> ns | None \<Rightarrow> bs_empty))
      else bt_get links p)"
  by (simp add: add_link_def)

lemma connect_linked:
  assumes "connect t a b = Inr t'"
  shows "linked t' x y \<longleftrightarrow> linked t x y \<or> (x = a \<and> y = b) \<or> (x = b \<and> y = a)"
  using assms by (auto simp: connect_Inr linked_def bt_get_add_link split: option.splits)

lemma ensure_fanout_ok:
  "is_ok (ensure_fanout t p q) \<longleftrightarrow>
     linked t p q \<or> (case bt_get (tp_links t) p of None \<Rightarrow> 0 | Some ns \<Rightarrow> bt_len ns) < tp_max_fanout t"
  by (auto simp: ensure_fanout_def linked_def Let_def is_ok_iff split: option.splits)

lemma connect_wf:
  assumes wf: "topology_wf t" and c: "connect t a b = Inr t'"
  shows "topology_wf t'"
  unfolding topology_wf_def connect_linked[OF c]
proof (intro conjI allI impI)
  note t' = connect_Inr[THEN iffD1, OF c]
  show "dom (bt_get (tp_links t')) = dom (bt_get (tp_metrics t'))"
    using wf t' by (auto simp: topology_wf_def bt_get_add_link dom_def set_eq_iff bt_contains_def)
  show "bt_len ns \<le> tp_max_fanout t'" if "bt_get (tp_links t') p = Some ns" for p ns
    using that wf t'
    by (fastforce simp: topology_wf_def bt_get_add_link ensure_fanout_ok linked_def bs_len_insert
        split: if_splits option.splits)
qed (use wf c in \<open>auto simp: topology_wf_def connect_Inr\<close>)

lemma topology_built_wf: "topology_built hops fanout t \<Longrightarrow> topology_wf t"
  by (induction rule: topology_built.induct) (auto intro: topology_new_wf upsert_peer_wf connect_wf)

lemma topology_built_limits:
  "topology_built hops fanout t \<Longrightarrow> tp_max_hops t = hops \<and> tp_max_fanout t = max fanout 1"
  by (induction rule: topology_built.induct) (auto simp: topology_new_def upsert_peer_def connect_Inr)

subsection \<open>A small overlay\<close>

definition demo_peer :: "string \<Rightarrow> nat \<Rightarrow> relay_metrics" where
  "demo_peer p latency =
     \<lparr>rm_peer_id = p, rm_latency_ms = latency, rm_stability = F32_Fin f32_unit,
      rm_battery_cost = F32_Fin 0, rm_freeload_penalty = F32_Fin 0\<rparr>"

text \<open>A square of peers \<open>a\<close>, \<open>b\<close>, \<open>c\<close>, \<open>d\<close>; \<open>d\<close> is slower than \<open>b\<close>.\<close>

definition connect_all :: "(string \<times> string) list \<Rightarrow> relay_topology \<Rightarrow> relay_topology" where
  "connect_all ls t = fold (\<lambda>(a, b) t. case connect t a b of Inr t' \<Rightarrow> t' | Inl _ \<Rightarrow> t) ls t"

definition demo_topology :: relay_topology where
  "demo_topology =
     connect_all [(''a'', ''b''), (''b'', ''c''), (''a'', ''d''), (''d'', ''c'')]
       (fold (\<lambda>m t. upsert_peer t m)
          [demo_peer ''a'' 10, demo_peer ''b'' 10, demo_peer ''c'' 10, demo_peer ''d'' 40]
          (topology_new 3 2))"

lemma connect_all_built: "topology_built h f t \<Longrightarrow> topology_built h f (connect_all ls t)"
proof (induction ls arbitrary: t)
  case (Cons l ls)
  then show ?case by (auto simp: connect_all_def intro: built_connect split: prod.splits sum.splits)
qed (simp add: connect_all_def)

lemma demo_topology_built: "topology_built 3 2 demo_topology"
  unfolding demo_topology_def by (auto intro!: connect_all_built built_upsert built_new)

subsection \<open>Properties\<close>

text \<open>
  Whatever peers are added and connected, in whatever order, every peer has metrics filed under
  its own id, links are symmetric and between known peers, and no peer exceeds the fanout cap.
\<close>

theorem topology_links_safe:
  assumes "topology_built hops fanout t"
  shows "topology_wf t \<and>
    (\<forall>p n. peer_degree t p = Some n \<longrightarrow> n \<le> max fanout 1) \<and>
    (\<forall>a b. linked t a b \<longrightarrow> linked t b a \<and> bt_contains (tp_metrics t) a \<and> bt_contains (tp_metrics t) b)"
proof -
  note wf = topology_built_wf[OF assms] and lim = topology_built_limits[OF assms]
  have known: "bt_contains (tp_metrics t) a" if "linked t a b" for a b
    using that wf by (auto simp: linked_def topology_wf_def bt_contains_def dom_def set_eq_iff)
  have sym: "linked t b a" if "linked t a b" for a b using that wf by (auto simp: topology_wf_def)
  show ?thesis
    using wf lim known known[OF sym] sym by (auto simp: topology_wf_def peer_degree_def)
qed

theorem topology_links_safe_witness:
  "topology_wf demo_topology \<and> peer_degree demo_topology ''a'' = Some 2 \<and> (2::nat) \<le> max 2 1"
proof -
  have "peer_degree demo_topology ''a'' = Some 2" by code_simp
  with topology_links_safe[OF demo_topology_built] show ?thesis by simp
qed

text \<open>
  Ranking depends on the set of candidates only: for candidates with distinct peer ids and no
  NaN score, any two orders of the same candidates are ranked identically, best score first and
  ties by peer id.
\<close>

theorem rank_deterministic:
  assumes "mset ps = mset qs" and "distinct (map rm_peer_id ps)"
    and "\<forall>m \<in> set ps. \<not> f32_is_nan (score m)"
  shows "rank ps = rank qs \<and> sorted_wrt (\<lambda>a b. compare_metrics a b = Less) (rank ps)"
proof
  have set: "set qs = set ps" using assms(1) mset_eq_setD by metis
  have "rank ps = sort_key rank_key ps" "rank qs = sort_key rank_key qs"
    using assms(3) set by (auto intro: rank_sort_key)
  moreover have "sort_key rank_key ps = sort_key rank_key qs"
    using assms(1) by (intro sort_key_inj_key_eq rank_key_inj assms(2)) simp_all
  ultimately show "rank ps = rank qs" by simp
  have d: "distinct (map rm_peer_id (rank ps))"
    using assms(2) mset_rank[of ps] by (metis mset_map mset_eq_imp_distinct_iff)
  have "compare_metrics a b = Less" if "rank_key a \<le> rank_key b" "rm_peer_id a \<noteq> rm_peer_id b"
    "a \<in> set ps" "b \<in> set ps" for a b
  proof -
    have "compare_metrics a b \<noteq> Greater" using that assms(3) compare_metrics_key by blast
    moreover have "compare_metrics a b \<noteq> Equal"
      using that(2) by (auto simp: compare_metrics_def then_with_def cmp_lin_def)
    ultimately show ?thesis by (cases "compare_metrics a b") auto
  qed
  moreover have "sorted_wrt (\<lambda>a b. rank_key a \<le> rank_key b) (rank ps)"
    using rank_sort_key[OF assms(3)] by (metis sorted_map sorted_sort_key)
  moreover have "sorted_wrt (\<lambda>a b. rm_peer_id a \<noteq> rm_peer_id b) (rank ps)"
    using d by (simp add: distinct_conv_nth sorted_wrt_iff_nth_less)
  ultimately show "sorted_wrt (\<lambda>a b. compare_metrics a b = Less) (rank ps)"
    by (simp add: sorted_wrt_iff_nth_less) (metis nth_mem order.strict_trans set_rank)
qed

theorem rank_deterministic_witness:
  "rank [demo_peer ''b'' 10, demo_peer ''a'' 10, demo_peer ''c'' 4]
     = rank [demo_peer ''a'' 10, demo_peer ''c'' 4, demo_peer ''b'' 10] \<and>
   map rm_peer_id (rank [demo_peer ''b'' 10, demo_peer ''a'' 10, demo_peer ''c'' 4]) = [''c'', ''a'', ''b'']"
proof -
  have "\<forall>m \<in> set [demo_peer ''b'' 10, demo_peer ''a'' 10, demo_peer ''c'' 4]. \<not> f32_is_nan (score m)"
    by code_simp
  moreover have "map rm_peer_id (rank [demo_peer ''b'' 10, demo_peer ''a'' 10, demo_peer ''c'' 4])
    = [''c'', ''a'', ''b'']" by code_simp
  ultimately show ?thesis
    using rank_deterministic[of "[demo_peer ''b'' 10, demo_peer ''a'' 10, demo_peer ''c'' 4]"
        "[demo_peer ''a'' 10, demo_peer ''c'' 4, demo_peer ''b'' 10]"]
    by (simp add: demo_peer_def)
qed

end
