(* ===== verification/Routing.thy ===== *)
theory Routing
  imports Topology
begin

text \<open>
  Correctness of the breadth-first search of \<open>RelayTopology::route_avoiding\<close>
  (crates/relay-overlay/src/topology.rs) and of \<open>reroute_after_failure\<close> (failover.rs): the balls around the
  source are the specification, and one invariant ties the queue and the visited set to them.
\<close>

subsection \<open>Specification: links, paths and balls\<close>

definition overlay_next :: "relay_topology \<Rightarrow> string btreeset \<Rightarrow> string \<Rightarrow> string set" where
  "overlay_next t av p = rm_peer_id ` set (ranked_neighbors t p) - bs_set av"

text \<open>A path of overlay links that stays clear of the avoided peers.\<close>

definition overlay_path :: "relay_topology \<Rightarrow> string btreeset \<Rightarrow> string list \<Rightarrow> bool" where
  "overlay_path t av p \<longleftrightarrow>
     p \<noteq> [] \<and> set p \<inter> bs_set av = {} \<and> successively (\<lambda>a b. b \<in> overlay_next t av a) p"

fun ball :: "relay_topology \<Rightarrow> string btreeset \<Rightarrow> string \<Rightarrow> nat \<Rightarrow> string set" where
  "ball t av s 0 = {s}"
| "ball t av s (Suc n) = ball t av s n \<union> (\<Union>p \<in> ball t av s n. overlay_next t av p)"

lemma ball_mono: "m \<le> n \<Longrightarrow> ball t av s m \<subseteq> ball t av s n"
  by (rule lift_Suc_mono_le[of "ball t av s"]) auto

lemma overlay_path_snoc:
  "p \<noteq> [] \<Longrightarrow> overlay_path t av (p @ [x]) \<longleftrightarrow>
     overlay_path t av p \<and> x \<in> overlay_next t av (last p)"
  by (auto simp: overlay_path_def successively_append_iff overlay_next_def)

lemma path_in_ball: "overlay_path t av p \<Longrightarrow> hd p = s \<Longrightarrow> last p \<in> ball t av s (length p - 1)"
proof (induction p rule: rev_induct)
  case (snoc x p)
  show ?case
  proof (cases "p = []")
    case False
    then obtain n where n: "length p = Suc n" by (cases p) auto
    from snoc False have "last p \<in> ball t av s n" "x \<in> overlay_next t av (last p)"
      by (simp_all add: overlay_path_snoc n)
    then show ?thesis using n by auto
  qed (use snoc in simp)
qed (simp add: overlay_path_def)

lemma ball_closed:
  assumes "\<And>v. v \<in> V \<Longrightarrow> overlay_next t av v \<subseteq> V" and "s \<in> V"
  shows "ball t av s n \<subseteq> V"
  using assms by (induction n) auto

subsection \<open>The search invariant\<close>

definition search_path :: "relay_topology \<Rightarrow> string btreeset \<Rightarrow> string \<Rightarrow> string set \<Rightarrow> string list \<Rightarrow> bool" where
  "search_path t av s V p \<longleftrightarrow> overlay_path t av p \<and> hd p = s \<and> distinct p \<and> set p \<subseteq> V"

text \<open>
  While the paths \<open>A\<close> of \<open>L\<close> hops are expanded, \<open>B\<close> holds the paths of one hop more: everything
  within \<open>L\<close> hops is visited, and whatever is not at the end of a path of \<open>A\<close> is fully expanded.
\<close>

definition bfs_inv ::
  "relay_topology \<Rightarrow> string btreeset \<Rightarrow> string \<Rightarrow> string \<Rightarrow> nat \<Rightarrow> string list list \<Rightarrow> string list list
     \<Rightarrow> string set \<Rightarrow> bool" where
  "bfs_inv t av s d L A B V \<longleftrightarrow>
     L \<le> tp_max_hops t \<and> (B \<noteq> [] \<longrightarrow> L < tp_max_hops t) \<and> d \<notin> V \<and>
     (\<forall>p \<in> set A. search_path t av s V p \<and> length p = Suc L \<and> last p \<in> ball t av s L) \<and>
     (\<forall>p \<in> set B. search_path t av s V p \<and> length p = Suc (Suc L) \<and> last p \<in> ball t av s (Suc L)) \<and>
     V = ball t av s L \<union> last ` set B \<and>
     (L < tp_max_hops t \<longrightarrow>
        (\<forall>v \<in> ball t av s L. v \<notin> last ` set A \<longrightarrow> overlay_next t av v \<subseteq> V))"

lemma bfs_inv_start:
  assumes "s \<noteq> d" and "\<not> bs_member av s"
  shows "bfs_inv t av s d 0 [[s]] [] {s}"
  using assms by (auto simp: bfs_inv_def search_path_def overlay_path_def bs_set_def)

lemma bfs_inv_shift:
  assumes inv: "bfs_inv t av s d L [] B V" and "B \<noteq> []"
  shows "bfs_inv t av s d (Suc L) B [] V"
proof -
  from assms have lt: "L < tp_max_hops t" and V: "V = ball t av s L \<union> last ` set B"
    and B: "\<forall>p \<in> set B. last p \<in> ball t av s (Suc L)"
    and full: "\<forall>v \<in> ball t av s L. overlay_next t av v \<subseteq> V" by (auto simp: bfs_inv_def)
  have "V = ball t av s (Suc L)"
  proof
    show "V \<subseteq> ball t av s (Suc L)" using V B by auto
    show "ball t av s (Suc L) \<subseteq> V" using V full by auto
  qed
  moreover have "\<forall>v \<in> V. v \<notin> last ` set B \<longrightarrow> overlay_next t av v \<subseteq> V" using V full by blast
  ultimately show ?thesis using inv lt unfolding bfs_inv_def by auto
qed

lemma bfs_inv_skip:
  assumes "bfs_inv t av s d L (p # A) B V" and "tp_max_hops t \<le> L"
  shows "bfs_inv t av s d L A B V"
  using assms by (auto simp: bfs_inv_def)

lemma search_path_mono: "search_path t av s V p \<Longrightarrow> V \<subseteq> W \<Longrightarrow> search_path t av s W p"
  by (auto simp: search_path_def)

lemma search_path_extend:
  assumes "search_path t av s V p" and "n \<in> overlay_next t av (last p)" and "n \<notin> V"
    and "n \<in> W" and "V \<subseteq> W"
  shows "search_path t av s W (p @ [n])"
proof -
  from assms(1) have "p \<noteq> []" by (auto simp: search_path_def overlay_path_def)
  with assms show ?thesis by (auto simp: search_path_def overlay_path_snoc)
qed

lemma bfs_inv_expand:
  assumes inv: "bfs_inv t av s d L (p # A) B V" and L: "L < tp_max_hops t"
    and news: "set news = overlay_next t av (last p) - V" "d \<notin> set news"
  shows "bfs_inv t av s d L A (B @ map (\<lambda>n. p @ [n]) news) (V \<union> set news)"
proof -
  let ?W = "V \<union> set news"
  have last_new: "last ` set (map (\<lambda>n. p @ [n]) news) = set news" by (auto simp: image_iff)
  have p: "search_path t av s V p" "length p = Suc L" "last p \<in> ball t av s L"
    using inv by (auto simp: bfs_inv_def)
  have "search_path t av s ?W (p @ [n]) \<and> length (p @ [n]) = Suc (Suc L) \<and>
      last (p @ [n]) \<in> ball t av s (Suc L)" if "n \<in> set news" for n
    using that news(1) p search_path_extend[OF p(1), of n ?W] by auto
  then have new: "\<forall>q \<in> set (map (\<lambda>n. p @ [n]) news). search_path t av s ?W q \<and>
      length q = Suc (Suc L) \<and> last q \<in> ball t av s (Suc L)" by auto
  have full: "overlay_next t av v \<subseteq> ?W" if "v \<in> ball t av s L" "v \<notin> last ` set A" for v
    using that inv L news(1) by (cases "v = last p") (auto simp: bfs_inv_def)
  have old: "\<forall>q \<in> set A. search_path t av s ?W q \<and> length q = Suc L \<and> last q \<in> ball t av s L"
    "\<forall>q \<in> set B. search_path t av s ?W q \<and> length q = Suc (Suc L) \<and> last q \<in> ball t av s (Suc L)"
    using inv search_path_mono[of t av s V _ ?W] unfolding bfs_inv_def list.set by blast+
  have "d \<notin> ?W" using inv news(2) unfolding bfs_inv_def by blast
  moreover have "?W = ball t av s L \<union> last ` set (B @ map (\<lambda>n. p @ [n]) news)"
  proof -
    from inv have "V = ball t av s L \<union> last ` set B" by (simp add: bfs_inv_def)
    then show ?thesis using last_new by (simp only: set_append image_Un Un_assoc)
  qed
  moreover have "\<forall>q \<in> set (B @ map (\<lambda>n. p @ [n]) news). search_path t av s ?W q \<and>
      length q = Suc (Suc L) \<and> last q \<in> ball t av s (Suc L)" using old(2) new by auto
  ultimately show ?thesis unfolding bfs_inv_def using old(1) full L by (intro conjI) simp_all
qed

subsection \<open>What the search returns\<close>

text \<open>A route is right when it is a loop-free admissible path of at most the hop cap, and the
  destination is in no smaller ball.\<close>

definition right_result ::
  "relay_topology \<Rightarrow> string btreeset \<Rightarrow> string \<Rightarrow> string \<Rightarrow> topology_error + relay_route \<Rightarrow> bool" where
  "right_result t av s d res \<longleftrightarrow>
     (case res of
        Inl e \<Rightarrow> e = NoRoute \<and> d \<notin> ball t av s (tp_max_hops t)
      | Inr r \<Rightarrow> overlay_path t av (rr_path r) \<and> hd (rr_path r) = s \<and> last (rr_path r) = d \<and>
          distinct (rr_path r) \<and> hop_count r \<le> tp_max_hops t \<and>
          (\<forall>n < hop_count r. d \<notin> ball t av s n))"

lemma bfs_inv_done:
  assumes "bfs_inv t av s d L [] [] V"
  shows "d \<notin> ball t av s (tp_max_hops t)"
proof (cases "L < tp_max_hops t")
  case True
  with assms have "\<And>v. v \<in> V \<Longrightarrow> overlay_next t av v \<subseteq> V" and V: "V = ball t av s L" and "d \<notin> V"
    by (auto simp: bfs_inv_def)
  moreover have "s \<in> V" using V ball_mono[of 0 L t av s] by auto
  ultimately show ?thesis using ball_closed[of V t av s] by blast
qed (use assms in \<open>auto simp: bfs_inv_def\<close>)

lemma bfs_inv_found:
  assumes inv: "bfs_inv t av s d L (p # A) B (bs_set V)" and L: "L < tp_max_hops t"
    and found: "visit_neighbors av d p (ranked_neighbors t (last p)) V q = Inl r"
  shows "right_result t av s d (Inr r)"
proof -
  note r = visit_neighbors_Inl[OF found]
  from inv have p: "search_path t av s (bs_set V) p" "length p = Suc L"
    and vis: "ball t av s L \<subseteq> bs_set V" by (auto simp: bfs_inv_def)
  have ext: "search_path t av s (insert d (bs_set V)) (p @ [d])"
    using r p by (intro search_path_extend[OF p(1)]) (auto simp: overlay_next_def)
  have "d \<notin> ball t av s n" if "n < Suc L" for n
    using that r vis ball_mono[of n L t av s] by auto
  with ext r p L show ?thesis
    by (simp add: right_result_def search_path_def hop_count_def)
qed

lemma route_loop_right:
  "bfs_inv t av s d L A B (bs_set V) \<Longrightarrow> q = A @ B \<Longrightarrow>
     right_result t av s d (route_loop t av d q V)"
proof (induction t av d q V arbitrary: A B L rule: route_loop.induct)
  case (1 t av d V)
  then show ?case using bfs_inv_done by (simp add: right_result_def)
next
  case (2 t av d path queue V)
  obtain L A' B where inv: "bfs_inv t av s d L (path # A') B (bs_set V)" and q: "queue = A' @ B"
  proof (cases A)
    case Nil
    with 2(4,5) bfs_inv_shift that[of "Suc L" queue "[]"] show ?thesis by auto
  qed (use 2(4,5) that in auto)
  then have path: "path \<noteq> []" "length path - 1 = L" by (auto simp: bfs_inv_def)
  show ?case
  proof (cases "tp_max_hops t \<le> L")
    case True
    with 2(2)[OF path(1) _ bfs_inv_skip[OF inv True] q] path show ?thesis by simp
  next
    case False
    then have L: "L < tp_max_hops t" by simp
    show ?thesis
    proof (cases "visit_neighbors av d path (ranked_neighbors t (last path)) V queue")
      case (Inl r)
      with bfs_inv_found[OF inv L Inl] False path show ?thesis by simp
    next
      case (Inr x)
      obtain V' q' where x: "x = (V', q')" by (cases x)
      from visit_neighbors_Inr[OF Inr[unfolded x]] obtain news where
        q': "q' = queue @ map (\<lambda>n. path @ [n]) news" and V': "bs_set V' = bs_set V \<union> set news"
        and news: "set news = overlay_next t av (last path) - bs_set V" "d \<notin> set news"
        by (auto simp: overlay_next_def)
      have "right_result t av s d (route_loop t av d q' V')"
        using 2(3)[OF path(1) _ Inr x[symmetric] bfs_inv_expand[OF inv L news, folded V']] q q' False path
        by simp
      with False path show ?thesis by (simp add: Inr x)
    qed
  qed
qed

lemma route_avoiding_right:
  assumes "bt_contains (tp_metrics t) s" and "bt_contains (tp_metrics t) d"
    and "\<not> bs_member av s" and "\<not> bs_member av d"
  shows "right_result t av s d (route_avoiding t s d av)"
proof (cases "s = d")
  case True
  with assms show ?thesis
    by (simp add: route_avoiding_def ensure_peer_def right_result_def overlay_path_def bs_set_def hop_count_def)
next
  case False
  have "bs_set (bs_of_list [s]) = {s}" by (auto simp: bs_set_def)
  with bfs_inv_start[OF False assms(3)] route_loop_right[of t av s d 0 "[[s]]" "[]" "bs_of_list [s]" "[[s]]"]
  have "right_result t av s d (route_loop t av d [[s]] (bs_of_list [s]))" by simp
  with False assms show ?thesis by (simp add: route_avoiding_def ensure_peer_def)
qed

lemma route_avoiding_Inr:
  assumes "route_avoiding t s d av = Inr r"
  shows "bt_contains (tp_metrics t) s" and "bt_contains (tp_metrics t) d"
    and "\<not> bs_member av s" and "\<not> bs_member av d"
  using assms by (auto simp: route_avoiding_def ensure_peer_def and_then_Inr split: if_splits)

subsection \<open>Properties\<close>

text \<open>What a caller wants of a route: from source to destination along links, clear of the avoided
  peers.\<close>

definition is_route :: "relay_topology \<Rightarrow> string btreeset \<Rightarrow> string \<Rightarrow> string \<Rightarrow> string list \<Rightarrow> bool" where
  "is_route t av s d p \<longleftrightarrow>
     p \<noteq> [] \<and> hd p = s \<and> last p = d \<and> (\<forall>x \<in> set p. \<not> bs_member av x) \<and> successively (linked t) p"

lemma overlay_next_linked:
  assumes "topology_wf t"
  shows "b \<in> overlay_next t av a \<longleftrightarrow> linked t a b \<and> \<not> bs_member av b"
proof -
  have "\<exists>m. bt_get (tp_metrics t) b = Some m" if "linked t a b"
  proof -
    from that assms have "linked t b a" by (simp add: topology_wf_def)
    then have "b \<in> dom (bt_get (tp_metrics t))" using assms by (auto simp: linked_def topology_wf_def)
    then show ?thesis by blast
  qed
  then show ?thesis
    using assms by (force simp: overlay_next_def image_iff set_ranked_neighbors linked_def topology_wf_def bs_set_def)
qed

lemma is_route_overlay_path:
  assumes "topology_wf t"
  shows "is_route t av s d p \<longleftrightarrow> overlay_path t av p \<and> hd p = s \<and> last p = d"
proof -
  have "successively (\<lambda>a b. b \<in> overlay_next t av a) p \<longleftrightarrow> successively (linked t) p"
    if "\<forall>x \<in> set p. \<not> bs_member av x"
    using that by (induction p rule: induct_list012) (auto simp: overlay_next_linked[OF assms])
  then show ?thesis by (auto simp: is_route_def overlay_path_def bs_set_def)
qed

lemma avoided_no_route: "bs_member av s \<or> bs_member av d \<Longrightarrow> \<not> is_route t av s d p"
  using hd_in_set[of p] last_in_set[of p] by (auto simp: is_route_def)

lemma route_leaves_ball:
  assumes "topology_wf t" and "d \<notin> ball t av s n" and "is_route t av s d p"
  shows "n < length p - 1"
proof (rule ccontr)
  assume "\<not> n < length p - 1"
  then have "ball t av s (length p - 1) \<subseteq> ball t av s n" by (intro ball_mono) simp
  moreover have "d \<in> ball t av s (length p - 1)"
    using assms(3) path_in_ball[of t av p s] by (simp add: is_route_overlay_path[OF assms(1)])
  ultimately show False using assms(2) by blast
qed

lemma right_route_avoiding:
  assumes "topology_built hops fanout t" and "route_avoiding t s d av = Inr r"
  shows "is_route t av s d (rr_path r) \<and> distinct (rr_path r) \<and> hop_count r \<le> hops"
proof -
  have "right_result t av s d (Inr r)"
    using route_avoiding_right[OF route_avoiding_Inr[OF assms(2)]] assms(2) by simp
  with topology_built_limits[OF assms(1)] show ?thesis
    by (simp add: right_result_def is_route_overlay_path[OF topology_built_wf[OF assms(1)]])
qed

lemma reroute_replacement:
  assumes "reroute_after_failure t previous failed ms = Inr d" and "rr_path previous \<noteq> []"
  shows "route_avoiding t (hd (rr_path previous)) (last (rr_path previous)) (bs_of_list [failed])
    = Inr (fd_replacement d)"
  using assms
  by (cases "rr_path previous") (auto simp: reroute_after_failure_def first_peer_def last_peer_def and_then_Inr)

text \<open>
  C1: A route found by the search runs from source to destination along links, visits no avoided
  peer and no peer twice, respects the hop cap, and no admissible route is shorter.
\<close>

theorem route_avoiding_shortest:
  assumes "topology_built hops fanout t" and "route_avoiding t s d av = Inr r"
  shows "is_route t av s d (rr_path r) \<and> distinct (rr_path r) \<and> hop_count r \<le> hops \<and>
    (\<forall>p. is_route t av s d p \<longrightarrow> length (rr_path r) \<le> length p)"
proof -
  note wf = topology_built_wf[OF assms(1)] and lim = topology_built_limits[OF assms(1)]
  have right: "right_result t av s d (Inr r)"
    using route_avoiding_right[OF route_avoiding_Inr[OF assms(2)]] assms(2) by simp
  have "length (rr_path r) \<le> length p" if p: "is_route t av s d p" for p
  proof (rule ccontr)
    assume "\<not> length (rr_path r) \<le> length p"
    moreover from p have "p \<noteq> []" by (simp add: is_route_def)
    ultimately have "length p - 1 < hop_count r" by (cases p) (auto simp: hop_count_def)
    with right have "d \<notin> ball t av s (length p - 1)" by (simp add: right_result_def)
    from route_leaves_ball[OF wf this p] show False by simp
  qed
  with right lim show ?thesis by (simp add: right_result_def is_route_overlay_path[OF wf])
qed

theorem route_avoiding_shortest_witness:
  "route_avoiding demo_topology ''a'' ''c'' (bs_of_list [''b'']) = Inr \<lparr>rr_path = [''a'', ''d'', ''c'']\<rparr> \<and>
   (\<nexists>p. is_route demo_topology (bs_of_list [''b'']) ''a'' ''c'' p \<and> length p < 3)"
proof -
  have "route_avoiding demo_topology ''a'' ''c'' (bs_of_list [''b''])
      = Inr \<lparr>rr_path = [''a'', ''d'', ''c'']\<rparr>" by code_simp
  with route_avoiding_shortest[OF demo_topology_built this] show ?thesis by (auto simp: eval_nat_numeral not_less)
qed

text \<open>
  C2: The search is complete: between two known peers that are not avoided it always answers, and
  it answers NoRoute only when no admissible route fits the hop cap.
\<close>

theorem route_avoiding_complete:
  assumes "topology_built hops fanout t" and "bt_contains (tp_metrics t) s"
    and "bt_contains (tp_metrics t) d"
  shows "(\<exists>r. route_avoiding t s d av = Inr r) \<or>
    (route_avoiding t s d av = Inl NoRoute \<and> (\<forall>p. is_route t av s d p \<longrightarrow> hops < length p - 1))"
proof (cases "bs_member av s \<or> bs_member av d")
  case True
  then have "route_avoiding t s d av = Inl NoRoute"
    using assms by (simp add: route_avoiding_def ensure_peer_def)
  with avoided_no_route[OF True] show ?thesis by blast
next
  case False
  note wf = topology_built_wf[OF assms(1)] and lim = topology_built_limits[OF assms(1)]
  from False have right: "right_result t av s d (route_avoiding t s d av)"
    using assms by (intro route_avoiding_right) auto
  show ?thesis
  proof (cases "route_avoiding t s d av")
    case (Inl e)
    with right lim have e: "e = NoRoute" "d \<notin> ball t av s hops" by (auto simp: right_result_def)
    with Inl route_leaves_ball[OF wf] show ?thesis by blast
  qed blast
qed

theorem route_avoiding_complete_witness:
  "route_avoiding demo_topology ''a'' ''c'' (bs_of_list [''b'', ''d'']) = Inl NoRoute \<and>
   (\<nexists>p. is_route demo_topology (bs_of_list [''b'', ''d'']) ''a'' ''c'' p \<and> length p - 1 \<le> 3)"
proof -
  have "route_avoiding demo_topology ''a'' ''c'' (bs_of_list [''b'', ''d'']) = Inl NoRoute" by code_simp
  moreover have "bt_contains (tp_metrics demo_topology) ''a''" "bt_contains (tp_metrics demo_topology) ''c''"
    by code_simp+
  ultimately show ?thesis
    using route_avoiding_complete[OF demo_topology_built, of "''a''" "''c''" "bs_of_list [''b'', ''d'']"]
    by (auto simp: not_le)
qed

text \<open>
  Failover keeps the endpoints, never routes through the failed relay and stays within the hop
  cap; and it fails for a known pair of live endpoints only when every route around the failed
  relay is too long.
\<close>

theorem failover_avoids_failed_relay:
  assumes "topology_built hops fanout t" and "rr_path previous \<noteq> []"
    and "bt_contains (tp_metrics t) (hd (rr_path previous))"
    and "bt_contains (tp_metrics t) (last (rr_path previous))"
  shows "case reroute_after_failure t previous failed ms of
      Inr decision \<Rightarrow> hd (rr_path (fd_replacement decision)) = hd (rr_path previous) \<and>
        last (rr_path (fd_replacement decision)) = last (rr_path previous) \<and>
        \<not> contains_peer (fd_replacement decision) failed \<and>
        hop_count (fd_replacement decision) \<le> hops \<and> fd_previous decision = previous
    | Inl e \<Rightarrow> e = NoRoute \<and>
        (\<forall>p. is_route t (bs_of_list [failed]) (hd (rr_path previous)) (last (rr_path previous)) p
             \<longrightarrow> hops < length p - 1)"
proof -
  let ?s = "hd (rr_path previous)" and ?d = "last (rr_path previous)" and ?av = "bs_of_list [failed]"
  note wf = topology_built_wf[OF assms(1)]
  have ends: "first_peer previous = Some ?s" "last_peer previous = Some ?d"
    using assms(2) by (cases "rr_path previous"; simp add: first_peer_def last_peer_def)+
  show ?thesis
  proof (cases "bs_member ?av ?s \<or> bs_member ?av ?d")
    case True
    with avoided_no_route[OF True] ends assms show ?thesis
      by (auto simp: reroute_after_failure_def route_avoiding_def ensure_peer_def)
  next
    case False
    with assms have right: "right_result t ?av ?s ?d (route_avoiding t ?s ?d ?av)"
      by (intro route_avoiding_right) auto
    note lim = topology_built_limits[OF assms(1)]
    show ?thesis
    proof (cases "route_avoiding t ?s ?d ?av")
      case (Inl e)
      with right lim have e: "e = NoRoute" "?d \<notin> ball t ?av ?s hops" by (auto simp: right_result_def)
      with route_leaves_ball[OF wf e(2)] Inl ends show ?thesis by (simp add: reroute_after_failure_def)
    next
      case (Inr r)
      with right lim ends show ?thesis
        by (auto simp: reroute_after_failure_def right_result_def contains_peer_def list_ex_iff
            overlay_path_def bs_set_def)
    qed
  qed
qed

theorem failover_avoids_failed_relay_witness:
  "case reroute_after_failure demo_topology \<lparr>rr_path = [''a'', ''b'', ''c'']\<rparr> ''b'' 40 of
     Inr decision \<Rightarrow> \<not> contains_peer (fd_replacement decision) ''b''
   | Inl e \<Rightarrow> False"
proof -
  have "is_ok (reroute_after_failure demo_topology \<lparr>rr_path = [''a'', ''b'', ''c'']\<rparr> ''b'' 40)" by code_simp
  moreover have "bt_contains (tp_metrics demo_topology) ''a''" "bt_contains (tp_metrics demo_topology) ''c''"
    by code_simp+
  ultimately show ?thesis
    using failover_avoids_failed_relay[OF demo_topology_built, of "\<lparr>rr_path = [''a'', ''b'', ''c'']\<rparr>" "''b''" 40]
    by (auto simp: is_ok_iff)
qed

end
