(* ===== verification/Relay_Integrity.thy ===== *)
theory Relay_Integrity
  imports Topology
begin

text \<open>
  Relay-visible envelopes and packets (crates/relay-overlay/src/integrity.rs). SHA-256 is the parameter
  \<open>sha256\<close>. Shown: the committed bytes determine kind, key id, counter and associated data, so the
  digest binds them all short of a collision; a packet is forwarded unchanged and at most the hop cap.
\<close>

datatype relay_integrity_error = HopLimitExceeded | EmptyCiphertext | MissingProtectedMetadata

datatype relay_payload_kind = Media | TextControl | StoreForward

record relay_protected_envelope =
  re_kind :: relay_payload_kind
  re_kid :: bytes
  re_counter :: nat
  re_aad_commitment :: bytes
  re_ciphertext :: bytes

definition kind_label :: "relay_payload_kind \<Rightarrow> bytes" where
  "kind_label kind = str_bytes
     (case kind of Media \<Rightarrow> ''media'' | TextControl \<Rightarrow> ''text_control'' | StoreForward \<Rightarrow> ''store_forward'')"

definition aad_preimage :: "relay_payload_kind \<Rightarrow> bytes \<Rightarrow> nat \<Rightarrow> bytes \<Rightarrow> bytes" where
  "aad_preimage kind kid counter aad_metadata =
     str_bytes ''discrypt-relay-protected-aad-v1'' @ kind_label kind @
     u64_be (length kid) @ kid @ u64_be counter @ u64_be (length aad_metadata) @ aad_metadata"

definition aad_commitment ::
  "(bytes \<Rightarrow> bytes) \<Rightarrow> relay_payload_kind \<Rightarrow> bytes \<Rightarrow> nat \<Rightarrow> bytes \<Rightarrow> bytes" where
  "aad_commitment sha256 kind kid counter aad_metadata = sha256 (aad_preimage kind kid counter aad_metadata)"

definition envelope_new ::
  "(bytes \<Rightarrow> bytes) \<Rightarrow> relay_payload_kind \<Rightarrow> bytes \<Rightarrow> nat \<Rightarrow> bytes \<Rightarrow> bytes
     \<Rightarrow> relay_integrity_error + relay_protected_envelope" where
  "envelope_new sha256 kind kid counter aad_metadata ciphertext =
     (if kid = [] \<or> aad_metadata = [] then Inl MissingProtectedMetadata
      else if ciphertext = [] then Inl EmptyCiphertext
      else Inr \<lparr>re_kind = kind, re_kid = kid, re_counter = counter,
                re_aad_commitment = aad_commitment sha256 kind kid counter aad_metadata,
                re_ciphertext = ciphertext\<rparr>)"

definition visible_bytes :: "relay_protected_envelope \<Rightarrow> bytes" where
  "visible_bytes e =
     kind_label (re_kind e) @ u64_be (length (re_kid e)) @ re_kid e @ u64_be (re_counter e) @
     re_aad_commitment e @ re_ciphertext e"

definition envelope_validate :: "relay_protected_envelope \<Rightarrow> relay_integrity_error + unit" where
  "envelope_validate e =
     (if re_kid e = [] then Inl MissingProtectedMetadata
      else if re_ciphertext e = [] then Inl EmptyCiphertext
      else Inr ())"

record relay_packet =
  rp_next_hop :: string
  rp_envelope :: relay_protected_envelope
  rp_hop_count :: nat

definition from_envelope :: "string \<Rightarrow> relay_protected_envelope \<Rightarrow> relay_packet" where
  "from_envelope next_hop envelope =
     \<lparr>rp_next_hop = next_hop, rp_envelope = envelope, rp_hop_count = 0\<rparr>"

definition validate_ciphertext_only :: "relay_packet \<Rightarrow> relay_integrity_error + unit" where
  "validate_ciphertext_only p =
     and_then (envelope_validate (rp_envelope p)) (\<lambda>_.
       if rp_hop_count p > max_relay_hops then Inl HopLimitExceeded else Inr ())"

definition forward :: "relay_packet \<Rightarrow> string \<Rightarrow> relay_packet" where
  "forward p next_hop =
     \<lparr>rp_next_hop = next_hop, rp_envelope = rp_envelope p, rp_hop_count = min (rp_hop_count p + 1) 255\<rparr>"

definition forward_checked :: "relay_packet \<Rightarrow> string \<Rightarrow> relay_integrity_error + relay_packet" where
  "forward_checked p next_hop =
     and_then (validate_ciphertext_only p) (\<lambda>_.
       let forwarded = forward p next_hop
       in and_then (validate_ciphertext_only forwarded) (\<lambda>_. Inr forwarded))"

definition tamper :: "relay_packet \<Rightarrow> relay_packet" where
  "tamper p =
     (case re_ciphertext (rp_envelope p) of
        [] \<Rightarrow> p
      | first # rest \<Rightarrow>
          p\<lparr>rp_envelope := (rp_envelope p)\<lparr>re_ciphertext := xor first 0x80 # rest\<rparr>\<rparr>)"

definition contains_plaintext :: "relay_packet \<Rightarrow> bytes \<Rightarrow> bool" where
  "contains_plaintext packet plaintext \<longleftrightarrow>
     plaintext \<noteq> [] \<and> contains_window (visible_bytes (rp_envelope packet)) plaintext"

subsection \<open>The committed bytes are unambiguous\<close>

lemma kind_label_append_inj:
  "kind_label k @ xs = kind_label k' @ ys \<longleftrightarrow> k = k' \<and> xs = ys"
  by (cases k; cases k') (simp_all add: kind_label_def str_bytes_def)

lemma aad_preimage_inj:
  assumes "length kid < 2 ^ 64" "length kid' < 2 ^ 64" "c < 2 ^ 64" "c' < 2 ^ 64"
    and eq: "aad_preimage k kid c aad = aad_preimage k' kid' c' aad'"
  shows "k = k' \<and> kid = kid' \<and> c = c' \<and> aad = aad'"
proof -
  from eq have k: "k = k'" and rest: "lp_be kid @ u64_be c @ lp_be aad = lp_be kid' @ u64_be c' @ lp_be aad'"
    by (simp_all add: aad_preimage_def kind_label_append_inj lp_be_def)
  from lp_be_append_inj[OF rest assms(1,2)]
  have kid: "kid = kid'" and tail: "u64_be c @ lp_be aad = u64_be c' @ lp_be aad'" by simp_all
  from be_append_inj[OF tail] assms(3,4) have "c = c'" "lp_be aad = lp_be aad'" by simp_all
  with k kid show ?thesis by (simp add: lp_be_def)
qed

subsection \<open>Forwarding\<close>

fun forward_along :: "relay_packet \<Rightarrow> string list \<Rightarrow> relay_integrity_error + relay_packet" where
  "forward_along p [] = Inr p"
| "forward_along p (hop # hops) = and_then (forward_checked p hop) (\<lambda>q. forward_along q hops)"

lemma forward_checked_Inr:
  "forward_checked p hop = Inr q \<longleftrightarrow>
     is_ok (envelope_validate (rp_envelope p)) \<and> rp_hop_count p < max_relay_hops \<and>
     q = \<lparr>rp_next_hop = hop, rp_envelope = rp_envelope p, rp_hop_count = Suc (rp_hop_count p)\<rparr>"
  by (auto simp: forward_checked_def validate_ciphertext_only_def forward_def and_then_Inr Let_def
      is_ok_iff max_relay_hops_def min_def split: if_splits)

lemma forward_along_Inr:
  "forward_along p hops = Inr q \<Longrightarrow>
     rp_envelope q = rp_envelope p \<and> rp_hop_count q = rp_hop_count p + length hops \<and>
     (hops \<noteq> [] \<longrightarrow> rp_next_hop q = last hops \<and> rp_hop_count q \<le> max_relay_hops)"
proof (induction p hops rule: forward_along.induct)
  case (2 p hop hops)
  then obtain p' where p': "forward_checked p hop = Inr p'" "forward_along p' hops = Inr q"
    by (auto simp: and_then_Inr)
  with 2(1)[OF p'(2)] show ?case by (cases "hops = []") (auto simp: forward_checked_Inr)
qed simp

lemma forward_along_total:
  assumes "is_ok (envelope_validate (rp_envelope p))"
  shows "rp_hop_count p + length hops \<le> max_relay_hops \<Longrightarrow> is_ok (forward_along p hops)"
  using assms
proof (induction p hops rule: forward_along.induct)
  case (2 p hop hops)
  define p' where "p' = \<lparr>rp_next_hop = hop, rp_envelope = rp_envelope p, rp_hop_count = Suc (rp_hop_count p)\<rparr>"
  have "forward_checked p hop = Inr p'" using 2(2,3) by (simp add: forward_checked_Inr p'_def)
  with 2(1)[of p'] 2(2,3) show ?case by (simp add: p'_def)
qed simp

text \<open>
  The bytes behind the relay commitment determine the payload kind, the key id, the counter and
  the associated data: two envelopes with the same commitment were built from the same metadata,
  unless the digest collides on exactly these two byte strings.
\<close>

theorem aad_commitment_binding:
  assumes "\<not> collision sha256 (aad_preimage kind kid counter aad) (aad_preimage kind' kid' counter' aad')"
    and "length kid < 2 ^ 64" and "length kid' < 2 ^ 64"
    and "counter < 2 ^ 64" and "counter' < 2 ^ 64"
    and "envelope_new sha256 kind kid counter aad ct = Inr e"
    and "envelope_new sha256 kind' kid' counter' aad' ct' = Inr e'"
    and "re_aad_commitment e = re_aad_commitment e'"
  shows "kind = kind' \<and> kid = kid' \<and> counter = counter' \<and> aad = aad'"
proof -
  from assms(6-8) have "sha256 (aad_preimage kind kid counter aad) = sha256 (aad_preimage kind' kid' counter' aad')"
    by (auto simp: envelope_new_def aad_commitment_def split: if_splits)
  with assms(1) have "aad_preimage kind kid counter aad = aad_preimage kind' kid' counter' aad'"
    by (simp add: collision_def)
  from aad_preimage_inj[OF assms(2-5) this] show ?thesis .
qed

theorem aad_commitment_binding_witness:
  "\<exists>e. envelope_new (\<lambda>b. b) Media [1] 7 [2] [3] = Inr e \<and> re_kid e = [1] \<and>
     (Media = Media \<and> [1::u8] = [1] \<and> (7::nat) = 7 \<and> [2::u8] = [2])"
proof -
  obtain e where e: "envelope_new (\<lambda>b. b) Media [1] 7 [2] [3] = Inr e" by (simp add: envelope_new_def)
  then have "re_kid e = [1]" by (auto simp: envelope_new_def)
  with e aad_commitment_binding[OF _ _ _ _ _ e e refl] show ?thesis by (auto simp: collision_def)
qed

text \<open>
  A packet with valid metadata can be forwarded along a path exactly when the hops taken so far
  and the path together fit the hop cap; forwarding never alters the protected envelope.
\<close>

theorem forward_within_hop_cap:
  assumes "is_ok (envelope_validate (rp_envelope p))" and "hops \<noteq> []"
  shows "(is_ok (forward_along p hops) \<longleftrightarrow> rp_hop_count p + length hops \<le> max_relay_hops) \<and>
    (\<forall>q. forward_along p hops = Inr q \<longrightarrow> rp_envelope q = rp_envelope p \<and> rp_next_hop q = last hops)"
  using forward_along_total[OF assms(1), of hops] forward_along_Inr[of p hops] assms(2)
  by (auto simp: is_ok_iff)

theorem forward_within_hop_cap_witness:
  "let e = \<lparr>re_kind = Media, re_kid = [1], re_counter = 0, re_aad_commitment = [], re_ciphertext = [2]\<rparr>
   in is_ok (forward_along (from_envelope ''a'' e) [''b'', ''c'', ''d'']) \<and>
      \<not> is_ok (forward_along (from_envelope ''a'' e) [''b'', ''c'', ''d'', ''e''])"
  using forward_within_hop_cap[of "from_envelope ''a'' \<lparr>re_kind = Media, re_kid = [1], re_counter = 0,
      re_aad_commitment = [], re_ciphertext = [2]\<rparr>" "[''b'', ''c'', ''d'']"]
    forward_within_hop_cap[of "from_envelope ''a'' \<lparr>re_kind = Media, re_kid = [1], re_counter = 0,
      re_aad_commitment = [], re_ciphertext = [2]\<rparr>" "[''b'', ''c'', ''d'', ''e'']"]
  by (simp add: from_envelope_def envelope_validate_def max_relay_hops_def Let_def del: forward_along.simps)

end
