(* ===== verification/Capability.thy ===== *)
theory Capability
  imports Relay_Integrity
begin

text \<open>
  Capability advertisements (crates/relay-overlay/src/capability.rs): validation, the freeload score in basis
  points, the digest, the conversion to a runtime observation (the struct of manager.rs), and the
  book of latest advertisements per peer.
\<close>

datatype battery_doze_posture = Charging | BatteryNormal | BatterySaver | Dozing | PostureUnknown

definition cost_bps :: "battery_doze_posture \<Rightarrow> nat" where
  "cost_bps p = (case p of Charging \<Rightarrow> 0 | BatteryNormal \<Rightarrow> 250 | PostureUnknown \<Rightarrow> 1000
     | BatterySaver \<Rightarrow> 2500 | Dozing \<Rightarrow> 7500)"

record relay_capacity_advertisement =
  rca_max_fanout :: nat
  rca_egress_bytes_per_second :: nat
  rca_accepts_store_forward :: bool

record relay_capability_advertisement =
  ca_peer_id :: string
  ca_sequence :: nat
  ca_issued_at_ms :: nat
  ca_expires_at_ms :: nat
  ca_relay_capacity :: relay_capacity_advertisement
  ca_battery_doze :: battery_doze_posture
  ca_observed_rtt_ms :: nat
  ca_packet_loss_bps :: nat
  ca_contributed_bytes :: nat
  ca_consumed_bytes :: nat

record relay_runtime_observation =
  ro_peer_id :: string
  ro_latency_ms :: nat
  ro_successful_probes :: nat
  ro_failed_probes :: nat
  ro_battery_cost_bps :: nat
  ro_contributed_bytes :: nat
  ro_consumed_bytes :: nat

datatype capability_advertisement_error = Invalid string | Expired | Stale string nat nat

definition max_bps :: nat where "max_bps = 10000"

definition validate_at :: "relay_capability_advertisement \<Rightarrow> nat \<Rightarrow> capability_advertisement_error + unit" where
  "validate_at a now_ms =
     (if blank (ca_peer_id a) then Inl (Invalid ''peer id is required'')
      else if ca_sequence a = 0 then Inl (Invalid ''sequence must be non-zero'')
      else if ca_expires_at_ms a \<le> now_ms \<or> ca_expires_at_ms a \<le> ca_issued_at_ms a then Inl Expired
      else if rca_max_fanout (ca_relay_capacity a) = 0
           \<or> rca_egress_bytes_per_second (ca_relay_capacity a) = 0
      then Inl (Invalid ''relay capacity must include positive fanout and egress budget'')
      else if ca_packet_loss_bps a > max_bps then Inl (Invalid ''packet loss must be basis points'')
      else Inr ())"

text \<open>The score is at most \<open>MAX_BPS\<close>, so the final cast to \<open>u16\<close> keeps it.\<close>

definition freeload_score_bps :: "relay_capability_advertisement \<Rightarrow> nat" where
  "freeload_score_bps a =
     (if ca_consumed_bytes a = 0 then 0
      else if ca_contributed_bytes a \<ge> ca_consumed_bytes a then 0
      else
        let deficit = ca_consumed_bytes a - ca_contributed_bytes a;
            consumed = max (ca_consumed_bytes a) 1
        in min (sat_mul128 deficit max_bps div consumed) max_bps)"

definition advertisement_preimage :: "relay_capability_advertisement \<Rightarrow> bytes" where
  "advertisement_preimage a =
     str_bytes (ca_peer_id a) @ u64_be (ca_sequence a) @ u64_be (ca_issued_at_ms a) @
     u64_be (ca_expires_at_ms a) @ u16_be (rca_max_fanout (ca_relay_capacity a)) @
     u64_be (rca_egress_bytes_per_second (ca_relay_capacity a)) @
     [if rca_accepts_store_forward (ca_relay_capacity a) then 1 else 0] @
     u16_be (cost_bps (ca_battery_doze a)) @ u32_be (ca_observed_rtt_ms a) @
     u16_be (ca_packet_loss_bps a) @ u16_be (freeload_score_bps a)"

definition advertisement_digest :: "(bytes \<Rightarrow> bytes) \<Rightarrow> relay_capability_advertisement \<Rightarrow> bytes" where
  "advertisement_digest sha256 a = sha256 (advertisement_preimage a)"

definition to_runtime_observation :: "relay_capability_advertisement \<Rightarrow> relay_runtime_observation" where
  "to_runtime_observation a =
     \<lparr>ro_peer_id = ca_peer_id a, ro_latency_ms = max (ca_observed_rtt_ms a) 1,
      ro_successful_probes = max_bps - ca_packet_loss_bps a, ro_failed_probes = ca_packet_loss_bps a,
      ro_battery_cost_bps = cost_bps (ca_battery_doze a),
      ro_contributed_bytes = ca_contributed_bytes a, ro_consumed_bytes = ca_consumed_bytes a\<rparr>"

record capability_advertisement_book =
  cb_latest :: "(string, relay_capability_advertisement) btreemap"

definition book_new :: capability_advertisement_book where
  "book_new = \<lparr>cb_latest = bt_empty\<rparr>"

definition book_accept ::
  "capability_advertisement_book \<Rightarrow> relay_capability_advertisement \<Rightarrow> nat
     \<Rightarrow> capability_advertisement_error + capability_advertisement_book" where
  "book_accept b a now_ms =
     and_then (validate_at a now_ms) (\<lambda>_.
       case bt_get (cb_latest b) (ca_peer_id a) of
         Some latest \<Rightarrow>
           if ca_sequence a \<le> ca_sequence latest
           then Inl (Stale (ca_peer_id a) (ca_sequence a) (ca_sequence latest))
           else Inr (b\<lparr>cb_latest := bt_insert (ca_peer_id a) a (cb_latest b)\<rparr>)
       | None \<Rightarrow> Inr (b\<lparr>cb_latest := bt_insert (ca_peer_id a) a (cb_latest b)\<rparr>))"

definition book_get :: "capability_advertisement_book \<Rightarrow> string \<Rightarrow> relay_capability_advertisement option" where
  "book_get b peer_id = bt_get (cb_latest b) peer_id"

definition book_len :: "capability_advertisement_book \<Rightarrow> nat" where
  "book_len b = bt_len (cb_latest b)"

definition book_is_empty :: "capability_advertisement_book \<Rightarrow> bool" where
  "book_is_empty b \<longleftrightarrow> bt_len (cb_latest b) = 0"

subsection \<open>The freeload score\<close>

lemma freeload_score_le: "freeload_score_bps a \<le> max_bps"
  by (auto simp: freeload_score_bps_def Let_def)

lemma freeload_score_exact:
  assumes "ca_consumed_bytes a < 2 ^ 64"
  shows "freeload_score_bps a = (ca_consumed_bytes a - ca_contributed_bytes a) * max_bps div ca_consumed_bytes a"
proof (cases "ca_consumed_bytes a = 0 \<or> ca_contributed_bytes a \<ge> ca_consumed_bytes a")
  case False
  let ?d = "ca_consumed_bytes a - ca_contributed_bytes a" and ?c = "ca_consumed_bytes a"
  have pos: "0 < ?c" "?d \<le> ?c" using False by auto
  have "?d * max_bps \<le> 2 ^ 128 - 1" using assms pos by (simp add: max_bps_def)
  moreover have "?d * max_bps div ?c \<le> max_bps"
    using div_le_mono[of "?d * max_bps" "?c * max_bps" ?c] pos by simp
  ultimately show ?thesis
    using False pos by (simp add: freeload_score_bps_def sat_mul128_def Let_def min_def max_bps_def)
qed (auto simp: freeload_score_bps_def)

subsection \<open>The book\<close>

lemma book_accept_Inr:
  "book_accept b a now = Inr b' \<longleftrightarrow>
     validate_at a now = Inr () \<and>
     (\<forall>l. bt_get (cb_latest b) (ca_peer_id a) = Some l \<longrightarrow> ca_sequence l < ca_sequence a) \<and>
     b' = b\<lparr>cb_latest := bt_insert (ca_peer_id a) a (cb_latest b)\<rparr>"
  by (auto simp: book_accept_def and_then_Inr split: option.splits if_splits)

text \<open>A run keeps the book unchanged on every refusal.\<close>

fun book_run ::
  "capability_advertisement_book \<Rightarrow> (relay_capability_advertisement \<times> nat) list
     \<Rightarrow> capability_advertisement_book \<times> relay_capability_advertisement list" where
  "book_run b [] = (b, [])"
| "book_run b ((a, now) # as) =
     (case book_accept b a now of
        Inl _ \<Rightarrow> book_run b as
      | Inr b' \<Rightarrow> (case book_run b' as of (b'', acc) \<Rightarrow> (b'', a # acc)))"

definition book_filed :: "capability_advertisement_book \<Rightarrow> bool" where
  "book_filed b \<longleftrightarrow> (\<forall>p a. bt_get (cb_latest b) p = Some a \<longrightarrow> ca_peer_id a = p)"

lemma book_accept_filed: "book_filed b \<Longrightarrow> book_accept b a now = Inr b' \<Longrightarrow> book_filed b'"
  by (auto simp: book_filed_def book_accept_Inr)

lemma book_run_sequences:
  "book_filed b \<Longrightarrow> book_run b as = (b', acc) \<Longrightarrow>
     sorted_wrt (\<lambda>x y. ca_peer_id x = ca_peer_id y \<longrightarrow> ca_sequence x < ca_sequence y) acc \<and>
     (\<forall>a \<in> set acc. \<forall>l. bt_get (cb_latest b) (ca_peer_id a) = Some l \<longrightarrow> ca_sequence l < ca_sequence a)"
proof (induction b as arbitrary: b' acc rule: book_run.induct)
  case (2 b a now as)
  show ?case
  proof (cases "book_accept b a now")
    case (Inl e)
    with 2 show ?thesis by simp
  next
    case (Inr b1)
    obtain b2 acc' where run: "book_run b1 as = (b2, acc')" by (cases "book_run b1 as")
    note IH = 2(2)[OF Inr book_accept_filed[OF 2(3) Inr] run]
    from 2(4) Inr run have acc: "acc = a # acc'" by simp
    from Inr have b1: "cb_latest b1 = bt_insert (ca_peer_id a) a (cb_latest b)"
      and new: "\<And>l. bt_get (cb_latest b) (ca_peer_id a) = Some l \<Longrightarrow> ca_sequence l < ca_sequence a"
      by (auto simp: book_accept_Inr)
    have later: "ca_sequence a < ca_sequence x" if "x \<in> set acc'" "ca_peer_id x = ca_peer_id a" for x
      using IH that by (auto simp: b1)
    have "ca_sequence l < ca_sequence x" if "x \<in> set acc'" "bt_get (cb_latest b) (ca_peer_id x) = Some l" for x l
      using IH that new later[OF that(1)] by (cases "ca_peer_id x = ca_peer_id a") (fastforce simp: b1)+
    with IH later new acc show ?thesis by auto
  qed
qed simp

text \<open>
  However advertisements are delivered, replayed or reordered, those accepted from one peer have
  strictly increasing sequence numbers, and every accepted one was structurally valid and unexpired
  when it was accepted.
\<close>

theorem capability_book_monotone:
  assumes "book_run book_new ads = (b, accepted)"
  shows "sorted_wrt (\<lambda>x y. ca_peer_id x = ca_peer_id y \<longrightarrow> ca_sequence x < ca_sequence y) accepted \<and>
    (\<forall>a \<in> set accepted. \<exists>now. (a, now) \<in> set ads \<and> now < ca_expires_at_ms a \<and>
       0 < ca_sequence a \<and> \<not> blank (ca_peer_id a))"
proof
  have "book_filed book_new" by (simp add: book_filed_def book_new_def)
  from book_run_sequences[OF this assms]
  show "sorted_wrt (\<lambda>x y. ca_peer_id x = ca_peer_id y \<longrightarrow> ca_sequence x < ca_sequence y) accepted" by blast
  have "\<forall>a \<in> set acc. \<exists>now. (a, now) \<in> set ads \<and> validate_at a now = Inr ()"
    if "book_run b0 ads = (b1, acc)" for b0 b1 acc
    using that
  proof (induction b0 ads arbitrary: b1 acc rule: book_run.induct)
    case (2 b a now as)
    show ?case
    proof (cases "book_accept b a now")
      case (Inr b1)
      with 2(2)[OF Inr] 2(3) show ?thesis by (fastforce simp: book_accept_Inr split: prod.splits)
    qed (use 2 in fastforce)
  qed simp
  from this[OF assms] show "\<forall>a \<in> set accepted. \<exists>now. (a, now) \<in> set ads \<and> now < ca_expires_at_ms a \<and>
       0 < ca_sequence a \<and> \<not> blank (ca_peer_id a)"
    by (fastforce simp: validate_at_def split: if_splits)
qed

definition demo_ad :: "nat \<Rightarrow> relay_capability_advertisement" where
  "demo_ad n =
     \<lparr>ca_peer_id = ''p'', ca_sequence = n, ca_issued_at_ms = 1, ca_expires_at_ms = 50,
      ca_relay_capacity = \<lparr>rca_max_fanout = 2, rca_egress_bytes_per_second = 9, rca_accepts_store_forward = True\<rparr>,
      ca_battery_doze = Charging, ca_observed_rtt_ms = 5, ca_packet_loss_bps = 10,
      ca_contributed_bytes = 4, ca_consumed_bytes = 1\<rparr>"

theorem capability_book_monotone_witness:
  "snd (book_run book_new [(demo_ad 2, 9), (demo_ad 2, 10), (demo_ad 1, 11), (demo_ad 5, 12), (demo_ad 6, 50)])
     = [demo_ad 2, demo_ad 5] \<and> ca_sequence (demo_ad 2) < ca_sequence (demo_ad 5)"
proof -
  let ?ads = "[(demo_ad 2, 9), (demo_ad 2, 10), (demo_ad 1, 11), (demo_ad 5, 12), (demo_ad 6, 50)]"
  have run: "snd (book_run book_new ?ads) = [demo_ad 2, demo_ad 5]" by code_simp
  have "ca_peer_id (demo_ad 2) = ca_peer_id (demo_ad 5)" by (simp add: demo_ad_def)
  with capability_book_monotone[OF prod.collapse[symmetric], of ?ads] show ?thesis unfolding run by simp
qed

end
