(* ===== verification/Abuse.thy ===== *)
theory Abuse
  imports BTree_Map F32
begin

text \<open>
  Abuse controls (crates/abuse/src/lib.rs): the keyed rate limiter, the bounded exponential backoff, relay
  contribution accounting, the combined controls with their metrics, and the deterministic soak
  run. \<open>chrono\<close> is not part of the repository: a \<open>DateTime\<close> is a value of any linear order, and the
  operations the code calls on it are the fields of the parameter \<open>C\<close>. Counters that the code
  increments with \<open>+= 1\<close> or \<open>sum\<close> wrap at \<open>2 ^ 64\<close>.
\<close>

subsection \<open>Decisions and errors\<close>

datatype abuse_error = InvalidBackoffPolicy | InvalidSoakClock | ReportSerialization

datatype abuse_decision =
    Allowed
  | RateLimited (retry_after_ms: nat)
  | Backoff (backoff_attempt: nat) (backoff_delay_ms: nat)
  | Deprioritized (penalty_units: nat)
  | FailClosed (fail_reason: string)

definition decision_allowed :: "abuse_decision \<Rightarrow> bool" where
  "decision_allowed d \<longleftrightarrow> (case d of Allowed \<Rightarrow> True | _ \<Rightarrow> False)"

definition blocks_success_claim :: "abuse_decision \<Rightarrow> bool" where
  "blocks_success_claim d \<longleftrightarrow>
     (case d of RateLimited _ \<Rightarrow> True | Backoff _ _ \<Rightarrow> True | FailClosed _ \<Rightarrow> True | _ \<Rightarrow> False)"

subsection \<open>Backoff\<close>

record abuse_backoff_policy =
  bp_initial_ms :: nat
  bp_max_ms :: nat
  bp_multiplier :: nat
  bp_max_attempts :: nat

definition backoff_validate :: "abuse_backoff_policy \<Rightarrow> abuse_error + unit" where
  "backoff_validate p =
     (if bp_initial_ms p = 0 \<or> bp_max_ms p < bp_initial_ms p \<or> bp_multiplier p < 1
         \<or> bp_max_attempts p = 0
      then Inl InvalidBackoffPolicy else Inr ())"

definition backoff_new :: "nat \<Rightarrow> nat \<Rightarrow> nat \<Rightarrow> nat \<Rightarrow> abuse_error + abuse_backoff_policy" where
  "backoff_new initial_ms max_ms multiplier max_attempts =
     (let policy = \<lparr>bp_initial_ms = initial_ms, bp_max_ms = max_ms, bp_multiplier = multiplier,
                    bp_max_attempts = max_attempts\<rparr>
      in and_then (backoff_validate policy) (\<lambda>_. Inr policy))"

definition decision_for_attempt :: "abuse_backoff_policy \<Rightarrow> nat \<Rightarrow> abuse_error + abuse_decision" where
  "decision_for_attempt p attempt =
     and_then (backoff_validate p) (\<lambda>_.
       if attempt = 0 \<or> attempt > bp_max_attempts p then
         Inr (FailClosed ''retry_attempts_exhausted'')
       else
         let exponent = attempt - 1;
             delay = ((\<lambda>delay. min (sat_mul delay (bp_multiplier p)) (bp_max_ms p)) ^^ exponent)
                       (bp_initial_ms p)
         in Inr (Backoff attempt (min delay (bp_max_ms p))))"

subsection \<open>Rate limiter\<close>

record ('t, 'd) chrono =
  dt_add :: "'t \<Rightarrow> 'd \<Rightarrow> 't"
  dt_ms_since :: "'t \<Rightarrow> 't \<Rightarrow> int"

record ('t, 'd) rate_limiter =
  rl_limit :: nat
  rl_window :: 'd
  rl_hits :: "(string, 't list) btreemap"

definition rate_limiter_new :: "nat \<Rightarrow> 'd \<Rightarrow> ('t, 'd) rate_limiter" where
  "rate_limiter_new limit window = \<lparr>rl_limit = max limit 1, rl_window = window, rl_hits = bt_empty\<rparr>"

definition rate_decision ::
  "('t::linorder, 'd) chrono \<Rightarrow> ('t, 'd) rate_limiter \<Rightarrow> string \<Rightarrow> 't
     \<Rightarrow> ('t, 'd) rate_limiter \<times> abuse_decision" where
  "rate_decision C l key now =
     (let hits = (case bt_get (rl_hits l) key of Some hs \<Rightarrow> hs | None \<Rightarrow> []);
          hits = filter (\<lambda>t. dt_add C t (rl_window l) \<ge> now) hits
      in if length hits mod 2 ^ 32 \<ge> rl_limit l then
           (l\<lparr>rl_hits := bt_insert key hits (rl_hits l)\<rparr>,
            RateLimited
              (case hits of
                 [] \<Rightarrow> 1
               | oldest # _ \<Rightarrow> nat (max (dt_ms_since C (dt_add C oldest (rl_window l)) now) 1)))
         else (l\<lparr>rl_hits := bt_insert key (hits @ [now]) (rl_hits l)\<rparr>, Allowed))"

definition rate_allow ::
  "('t::linorder, 'd) chrono \<Rightarrow> ('t, 'd) rate_limiter \<Rightarrow> string \<Rightarrow> 't \<Rightarrow> ('t, 'd) rate_limiter \<times> bool" where
  "rate_allow C l key now = (case rate_decision C l key now of (l', d) \<Rightarrow> (l', decision_allowed d))"

subsection \<open>Relay contribution\<close>

record relay_contribution =
  rc_relayed_for_others :: nat
  rc_consumed_from_others :: nat

definition contribution_penalty :: "relay_contribution \<Rightarrow> f32" where
  "contribution_penalty c =
     (let deficit = rc_consumed_from_others c - rc_relayed_for_others c in f32_of_nat deficit)"

subsection \<open>Combined controls\<close>

record abuse_metrics_snapshot =
  am_invite_allowed_total :: nat
  am_invite_rate_limited_total :: nat
  am_message_allowed_total :: nat
  am_message_rate_limited_total :: nat
  am_relay_peers_tracked :: nat
  am_relay_total_relayed_for_others :: nat
  am_relay_total_consumed_from_others :: nat
  am_relay_freeload_penalty_total :: nat

definition metrics_default :: abuse_metrics_snapshot where
  "metrics_default =
     \<lparr>am_invite_allowed_total = 0, am_invite_rate_limited_total = 0, am_message_allowed_total = 0,
      am_message_rate_limited_total = 0, am_relay_peers_tracked = 0,
      am_relay_total_relayed_for_others = 0, am_relay_total_consumed_from_others = 0,
      am_relay_freeload_penalty_total = 0\<rparr>"

definition content_free_and_safe_to_export :: "abuse_metrics_snapshot \<Rightarrow> bool" where
  "content_free_and_safe_to_export m = True"

record ('t, 'd) abuse_controls =
  ac_invite_limiter :: "('t, 'd) rate_limiter"
  ac_spam_limiter :: "('t, 'd) rate_limiter"
  ac_relay_contribution :: "(string, relay_contribution) btreemap"
  ac_metrics :: abuse_metrics_snapshot

definition abuse_controls_new :: "nat \<Rightarrow> nat \<Rightarrow> 'd \<Rightarrow> ('t, 'd) abuse_controls" where
  "abuse_controls_new invite_limit spam_limit window =
     \<lparr>ac_invite_limiter = rate_limiter_new invite_limit window,
      ac_spam_limiter = rate_limiter_new spam_limit window,
      ac_relay_contribution = bt_empty, ac_metrics = metrics_default\<rparr>"

definition inc64 :: "nat \<Rightarrow> nat" where
  "inc64 n = (n + 1) mod 2 ^ 64"

definition invite_decision ::
  "('t::linorder, 'd) chrono \<Rightarrow> ('t, 'd) abuse_controls \<Rightarrow> string \<Rightarrow> 't
     \<Rightarrow> ('t, 'd) abuse_controls \<times> abuse_decision" where
  "invite_decision C s actor now =
     (case rate_decision C (ac_invite_limiter s) actor now of
        (l, decision) \<Rightarrow>
          (let m = ac_metrics s;
               m = (if decision_allowed decision
                    then m\<lparr>am_invite_allowed_total := inc64 (am_invite_allowed_total m)\<rparr>
                    else m\<lparr>am_invite_rate_limited_total := inc64 (am_invite_rate_limited_total m)\<rparr>)
           in (s\<lparr>ac_invite_limiter := l, ac_metrics := m\<rparr>, decision)))"

definition allow_invite ::
  "('t::linorder, 'd) chrono \<Rightarrow> ('t, 'd) abuse_controls \<Rightarrow> string \<Rightarrow> 't \<Rightarrow> ('t, 'd) abuse_controls \<times> bool" where
  "allow_invite C s actor now = (case invite_decision C s actor now of (s', d) \<Rightarrow> (s', decision_allowed d))"

definition message_decision ::
  "('t::linorder, 'd) chrono \<Rightarrow> ('t, 'd) abuse_controls \<Rightarrow> string \<Rightarrow> 't
     \<Rightarrow> ('t, 'd) abuse_controls \<times> abuse_decision" where
  "message_decision C s actor now =
     (case rate_decision C (ac_spam_limiter s) actor now of
        (l, decision) \<Rightarrow>
          (let m = ac_metrics s;
               m = (if decision_allowed decision
                    then m\<lparr>am_message_allowed_total := inc64 (am_message_allowed_total m)\<rparr>
                    else m\<lparr>am_message_rate_limited_total := inc64 (am_message_rate_limited_total m)\<rparr>)
           in (s\<lparr>ac_spam_limiter := l, ac_metrics := m\<rparr>, decision)))"

definition allow_message ::
  "('t::linorder, 'd) chrono \<Rightarrow> ('t, 'd) abuse_controls \<Rightarrow> string \<Rightarrow> 't \<Rightarrow> ('t, 'd) abuse_controls \<times> bool" where
  "allow_message C s actor now = (case message_decision C s actor now of (s', d) \<Rightarrow> (s', decision_allowed d))"

definition record_relay :: "('t, 'd) abuse_controls \<Rightarrow> string \<Rightarrow> nat \<Rightarrow> nat \<Rightarrow> ('t, 'd) abuse_controls" where
  "record_relay s peer relayed consumed =
     s\<lparr>ac_relay_contribution :=
         bt_insert peer \<lparr>rc_relayed_for_others = relayed, rc_consumed_from_others = consumed\<rparr>
           (ac_relay_contribution s)\<rparr>"

definition freeload_penalty :: "('t, 'd) abuse_controls \<Rightarrow> string \<Rightarrow> f32" where
  "freeload_penalty s peer =
     contribution_penalty
       (case bt_get (ac_relay_contribution s) peer of
          Some c \<Rightarrow> c
        | None \<Rightarrow> \<lparr>rc_relayed_for_others = 0, rc_consumed_from_others = 0\<rparr>)"

definition relay_decision :: "('t, 'd) abuse_controls \<Rightarrow> string \<Rightarrow> abuse_decision" where
  "relay_decision s peer =
     (let penalty = f32_to_u64 (f32_max0 (freeload_penalty s peer))
      in if penalty = 0 then Allowed else Deprioritized penalty)"

definition metrics_snapshot :: "('t, 'd) abuse_controls \<Rightarrow> abuse_metrics_snapshot" where
  "metrics_snapshot s =
     (let cs = bt_values (ac_relay_contribution s);
          sum64 = (\<lambda>f. sum_list (map f cs) mod 2 ^ 64)
      in (ac_metrics s)
           \<lparr>am_relay_peers_tracked := bt_len (ac_relay_contribution s),
            am_relay_total_relayed_for_others := sum64 rc_relayed_for_others,
            am_relay_total_consumed_from_others := sum64 rc_consumed_from_others,
            am_relay_freeload_penalty_total := sum64 (\<lambda>c. f32_to_u64 (contribution_penalty c))\<rparr>)"

subsection \<open>Soak run\<close>

record abuse_soak_config =
  sc_invite_attempts :: nat
  sc_invite_limit :: nat
  sc_window_seconds :: int
  sc_reconnect_attempts :: nat
  sc_provider_attempts :: nat

definition soak_config_default :: abuse_soak_config where
  "soak_config_default =
     \<lparr>sc_invite_attempts = 8, sc_invite_limit = 3, sc_window_seconds = 60,
      sc_reconnect_attempts = 6, sc_provider_attempts = 6\<rparr>"

record abuse_soak_report =
  sr_invite_decisions :: "abuse_decision list"
  sr_reconnect_decisions :: "abuse_decision list"
  sr_provider_decisions :: "abuse_decision list"
  sr_relay_freeload_decision :: abuse_decision
  sr_metrics :: abuse_metrics_snapshot
  sr_content_free :: bool

definition is_rate_limited :: "abuse_decision \<Rightarrow> bool" where
  "is_rate_limited d \<longleftrightarrow> (case d of RateLimited _ \<Rightarrow> True | _ \<Rightarrow> False)"

definition satisfies_per89 :: "abuse_soak_report \<Rightarrow> bool" where
  "satisfies_per89 r \<longleftrightarrow>
     list_ex is_rate_limited (sr_invite_decisions r) \<and>
     list_ex (\<lambda>d. d = FailClosed ''retry_attempts_exhausted'') (sr_reconnect_decisions r) \<and>
     list_ex (\<lambda>d. d = FailClosed ''retry_attempts_exhausted'') (sr_provider_decisions r) \<and>
     (case sr_relay_freeload_decision r of Deprioritized units \<Rightarrow> units > 0 | _ \<Rightarrow> False) \<and>
     sr_content_free r \<and> content_free_and_safe_to_export (sr_metrics r)"

text \<open>\<open>n\<close> invite attempts of one actor at one instant.\<close>

fun invite_flood ::
  "('t::linorder, 'd) chrono \<Rightarrow> ('t, 'd) abuse_controls \<Rightarrow> 't \<Rightarrow> nat \<Rightarrow> ('t, 'd) abuse_controls \<times> abuse_decision list" where
  "invite_flood C s now 0 = (s, [])"
| "invite_flood C s now (Suc n) =
     (case invite_decision C s ''actor'' now of
        (s', d) \<Rightarrow> (case invite_flood C s' now n of (s'', ds) \<Rightarrow> (s'', d # ds)))"

definition soak_markers :: "string list" where
  "soak_markers = [''actor'', ''freeloader'', ''helper'', ''room'', ''invite-secret'', ''payload'',
     ''plaintext'', ''key_material'']"

text \<open>The clock, the duration constructor and the JSON serializer are parameters.\<close>

definition run_abuse_soak ::
  "('t::linorder, 'd) chrono \<Rightarrow> (int \<Rightarrow> 't option) \<Rightarrow> (int \<Rightarrow> 'd) \<Rightarrow> (abuse_soak_report \<Rightarrow> string option)
     \<Rightarrow> abuse_soak_config \<Rightarrow> abuse_error + abuse_soak_report" where
  "run_abuse_soak C from_timestamp seconds to_json config =
     (let controls = abuse_controls_new (sc_invite_limit config) (sc_invite_limit config)
                       (seconds (max (sc_window_seconds config) 1))
      in and_then (ok_or InvalidSoakClock (from_timestamp 1782345600)) (\<lambda>now.
         case invite_flood C controls now (sc_invite_attempts config) of
           (controls, invite_decisions) \<Rightarrow>
             and_then (backoff_new 125 1000 2 4) (\<lambda>reconnect_policy.
             and_then (collect_results
                 (map (decision_for_attempt reconnect_policy) [1..<Suc (sc_reconnect_attempts config)]))
               (\<lambda>reconnect_decisions.
             and_then (backoff_new 250 5000 2 5) (\<lambda>provider_policy.
             and_then (collect_results
                 (map (decision_for_attempt provider_policy) [1..<Suc (sc_provider_attempts config)]))
               (\<lambda>retries.
             let provider_decisions = RateLimited (bp_initial_ms provider_policy) # retries;
                 controls = record_relay controls ''freeloader'' 0 32;
                 controls = record_relay controls ''helper'' 64 2;
                 report = \<lparr>sr_invite_decisions = invite_decisions,
                           sr_reconnect_decisions = reconnect_decisions,
                           sr_provider_decisions = provider_decisions,
                           sr_relay_freeload_decision = relay_decision controls ''freeloader'',
                           sr_metrics = metrics_snapshot controls,
                           sr_content_free = True\<rparr>
             in and_then (ok_or ReportSerialization (to_json report)) (\<lambda>exported.
                  Inr (report\<lparr>sr_content_free :=
                         list_all (\<lambda>marker. \<not> contains_window exported marker) soak_markers\<rparr>))))))))"

subsection \<open>Backoff in closed form\<close>

lemma backoff_iterate:
  assumes "0 < m" and "x \<le> cap" and "cap \<le> u64_max"
  shows "((\<lambda>delay. min (sat_mul delay m) cap) ^^ n) x = min (x * m ^ n) cap"
proof (induction n)
  case (Suc n)
  have step: "min (sat_mul (min y cap) m) cap = min (y * m) cap" for y
  proof (cases "y \<le> cap")
    case False
    have "cap * 1 \<le> cap * m" using assms(1) by (intro mult_le_mono2) simp
    moreover have "cap \<le> y * m" using False assms(1) by (metis calculation le_trans mult.right_neutral mult_le_mono1 nat_le_linear)
    ultimately show ?thesis using False assms(3) by (auto simp: sat_mul_def min_def)
  qed (use assms(3) in \<open>auto simp: sat_mul_def min_def\<close>)
  show ?case by (simp only: funpow.simps comp_def Suc step) (simp add: algebra_simps)
qed (use assms in simp)

text \<open>
  C18: A valid policy answers attempt \<open>n\<close> with exactly \<open>initial * multiplier ^ (n - 1)\<close> capped at the
  maximum, so delays never decrease, never exceed the cap and are never zero; attempts outside
  \<open>1 .. max_attempts\<close> fail closed.
\<close>

theorem backoff_closed_form:
  assumes "backoff_validate p = Inr ()" and "bp_max_ms p \<le> u64_max"
  shows "decision_for_attempt p n =
      Inr (if n = 0 \<or> n > bp_max_attempts p then FailClosed ''retry_attempts_exhausted''
           else Backoff n (min (bp_initial_ms p * bp_multiplier p ^ (n - 1)) (bp_max_ms p))) \<and>
    (\<forall>k \<ge> n. 0 < n \<and> k \<le> bp_max_attempts p \<longrightarrow>
       (\<exists>d d'. decision_for_attempt p n = Inr (Backoff n d) \<and> decision_for_attempt p k = Inr (Backoff k d') \<and>
          0 < d \<and> d \<le> d' \<and> d' \<le> bp_max_ms p))"
proof -
  from assms(1) have v: "0 < bp_initial_ms p" "bp_initial_ms p \<le> bp_max_ms p" "0 < bp_multiplier p"
    by (auto simp: backoff_validate_def split: if_splits)
  have eq: "decision_for_attempt p n =
      Inr (if n = 0 \<or> n > bp_max_attempts p then FailClosed ''retry_attempts_exhausted''
           else Backoff n (min (bp_initial_ms p * bp_multiplier p ^ (n - 1)) (bp_max_ms p)))" for n
    using backoff_iterate[OF v(3,2) assms(2)] assms(1) by (simp add: decision_for_attempt_def Let_def)
  have mono: "min (bp_initial_ms p * bp_multiplier p ^ (n - 1)) (bp_max_ms p)
      \<le> min (bp_initial_ms p * bp_multiplier p ^ (k - 1)) (bp_max_ms p)" if "n \<le> k" for k
    using that v by (intro min.mono mult_le_mono2 power_increasing order_refl) auto
  show ?thesis unfolding eq using v mono by auto
qed

theorem backoff_closed_form_witness:
  "decision_for_attempt \<lparr>bp_initial_ms = 125, bp_max_ms = 1000, bp_multiplier = 2, bp_max_attempts = 9\<rparr> 5
     = Inr (Backoff 5 1000)"
  using backoff_closed_form[of "\<lparr>bp_initial_ms = 125, bp_max_ms = 1000, bp_multiplier = 2, bp_max_attempts = 9\<rparr>" 5]
  by (simp add: backoff_validate_def u64_max_def)

subsection \<open>The rate limiter against a full log\<close>

text \<open>A run of calls \<open>(key, now)\<close>, with the decision of each.\<close>

fun rate_run ::
  "('t::linorder, 'd) chrono \<Rightarrow> ('t, 'd) rate_limiter \<Rightarrow> (string \<times> 't) list \<Rightarrow> abuse_decision list" where
  "rate_run C l [] = []"
| "rate_run C l ((key, now) # cs) =
     (case rate_decision C l key now of (l', d) \<Rightarrow> d # rate_run C l' cs)"

text \<open>The specification keeps every admitted call and counts those still in the window.\<close>

definition rate_spec ::
  "('t::linorder, 'd) chrono \<Rightarrow> nat \<Rightarrow> 'd \<Rightarrow> (string \<times> 't) list \<Rightarrow> string \<Rightarrow> 't \<Rightarrow> bool" where
  "rate_spec C limit window log key now \<longleftrightarrow>
     length (filter (\<lambda>(k, t). k = key \<and> dt_add C t window \<ge> now) log) < limit"

fun rate_spec_run ::
  "('t::linorder, 'd) chrono \<Rightarrow> nat \<Rightarrow> 'd \<Rightarrow> (string \<times> 't) list \<Rightarrow> (string \<times> 't) list \<Rightarrow> bool list" where
  "rate_spec_run C limit window log [] = []"
| "rate_spec_run C limit window log ((key, now) # cs) =
     (let ok = rate_spec C limit window log key now
      in ok # rate_spec_run C limit window (if ok then log @ [(key, now)] else log) cs)"

definition rate_hits :: "('t, 'd) rate_limiter \<Rightarrow> string \<Rightarrow> 't list" where
  "rate_hits l key = (case bt_get (rl_hits l) key of Some hs \<Rightarrow> hs | None \<Rightarrow> [])"

definition in_window :: "('t::linorder, 'd) chrono \<Rightarrow> 'd \<Rightarrow> 't \<Rightarrow> 't \<Rightarrow> bool" where
  "in_window C w now t \<longleftrightarrow> dt_add C t w \<ge> now"

text \<open>At the given instants, the retained hits of each key count as the full log does.\<close>

definition rate_tracks ::
  "('t::linorder, 'd) chrono \<Rightarrow> ('t, 'd) rate_limiter \<Rightarrow> (string \<times> 't) list \<Rightarrow> 't set \<Rightarrow> bool" where
  "rate_tracks C l log instants \<longleftrightarrow>
     (\<forall>key. length (rate_hits l key) \<le> rl_limit l \<and>
        (\<forall>now \<in> instants. filter (in_window C (rl_window l) now) (rate_hits l key) =
           filter (in_window C (rl_window l) now) (map snd (filter (\<lambda>(k, t). k = key) log))))"

lemma in_window_anti: "now \<le> now' \<Longrightarrow> in_window C w now' t \<Longrightarrow> in_window C w now t"
  by (auto simp: in_window_def)

lemma filter_in_window_twice:
  "now \<le> now' \<Longrightarrow> filter (in_window C w now') (filter (in_window C w now) ts) = filter (in_window C w now') ts"
  by (induction ts) (auto dest: in_window_anti)

lemma rate_spec_count:
  "rate_spec C limit w log key now \<longleftrightarrow>
     length (filter (in_window C w now) (map snd (filter (\<lambda>(k, t). k = key) log))) < limit"
  by (simp add: rate_spec_def in_window_def filter_map filter_filter case_prod_unfold comp_def conj_commute)

lemma rate_decision_hits:
  assumes "rl_limit l < 2 ^ 32" and "length (rate_hits l key) \<le> rl_limit l"
    and d: "rate_decision C l key now = (l', dec)"
  defines "live \<equiv> filter (in_window C (rl_window l) now) (rate_hits l key)"
  shows "decision_allowed dec \<longleftrightarrow> length live < rl_limit l"
    and "rate_hits l' k =
      (if k = key then live @ (if decision_allowed dec then [now] else []) else rate_hits l k)"
    and "rl_limit l' = rl_limit l" and "rl_window l' = rl_window l"
proof -
  have "length live \<le> rl_limit l" unfolding live_def using assms(2) length_filter_le le_trans by blast
  with assms(1) have m: "length live mod 2 ^ 32 = length live" by simp
  have live: "filter (\<lambda>t. dt_add C t (rl_window l) \<ge> now) (rate_hits l key) = live"
    by (simp add: live_def in_window_def[abs_def])
  note defs = rate_decision_def[of C l key now, folded rate_hits_def, unfolded Let_def live m]
  show "decision_allowed dec \<longleftrightarrow> length live < rl_limit l"
    using d unfolding defs by (auto simp: decision_allowed_def split: if_splits)
  show "rate_hits l' k =
      (if k = key then live @ (if decision_allowed dec then [now] else []) else rate_hits l k)"
    using d unfolding defs by (auto simp: decision_allowed_def rate_hits_def split: if_splits)
  show "rl_limit l' = rl_limit l" "rl_window l' = rl_window l"
    using d unfolding defs by (auto split: if_splits)
qed

lemma rate_tracks_step:
  assumes lim: "rl_limit l < 2 ^ 32" and tr: "rate_tracks C l log instants" and now: "now \<in> instants"
    and d: "rate_decision C l key now = (l', dec)"
  shows "decision_allowed dec \<longleftrightarrow> rate_spec C (rl_limit l) (rl_window l) log key now"
    and "rate_tracks C l' (if decision_allowed dec then log @ [(key, now)] else log) {t \<in> instants. now \<le> t}"
proof -
  have len: "length (rate_hits l k) \<le> rl_limit l" for k using tr by (simp add: rate_tracks_def)
  note step = rate_decision_hits[OF lim len d]
  show dec: "decision_allowed dec \<longleftrightarrow> rate_spec C (rl_limit l) (rl_window l) log key now"
    using tr now by (simp add: step(1) rate_spec_count rate_tracks_def)
  have "length (rate_hits l' k) \<le> rl_limit l" for k
    using len[of k] step(1) le_trans[OF length_filter_le len[of key]] by (auto simp: step(2))
  moreover have "filter (in_window C (rl_window l) t) (rate_hits l' k) =
      filter (in_window C (rl_window l) t)
        (map snd (filter (\<lambda>(k', t). k' = k) (if decision_allowed dec then log @ [(key, now)] else log)))"
    if "t \<in> instants" "now \<le> t" for k t
    using tr that
    by (simp add: step(2) rate_tracks_def filter_in_window_twice[OF that(2)] del: filter_filter)
  ultimately show "rate_tracks C l' (if decision_allowed dec then log @ [(key, now)] else log) {t \<in> instants. now \<le> t}"
    by (simp add: rate_tracks_def step(3,4))
qed

lemma rate_tracks_mono: "rate_tracks C l log instants \<Longrightarrow> instants' \<subseteq> instants \<Longrightarrow> rate_tracks C l log instants'"
  by (auto simp: rate_tracks_def)

lemma rate_run_spec:
  "rl_limit l < 2 ^ 32 \<Longrightarrow> rate_tracks C l log (snd ` set cs) \<Longrightarrow> sorted (map snd cs) \<Longrightarrow>
     map decision_allowed (rate_run C l cs) = rate_spec_run C (rl_limit l) (rl_window l) log cs"
proof (induction cs arbitrary: l log)
  case (Cons c cs)
  obtain key now where c: "c = (key, now)" by (cases c)
  obtain l' dec where d: "rate_decision C l key now = (l', dec)" by (cases "rate_decision C l key now")
  have len: "length (rate_hits l key) \<le> rl_limit l" using Cons.prems(2) by (simp add: rate_tracks_def)
  note same = rate_decision_hits(3,4)[OF Cons.prems(1) len d]
  have "now \<in> snd ` set (c # cs)" by (simp add: c)
  note step = rate_tracks_step[OF Cons.prems(1,2) this d]
  have "snd ` set cs \<subseteq> {t \<in> snd ` set (c # cs). now \<le> t}" using Cons.prems(3) c by auto
  from Cons.IH[OF _ rate_tracks_mono[OF step(2) this]] Cons.prems(1,3)
  have "map decision_allowed (rate_run C l' cs) = rate_spec_run C (rl_limit l) (rl_window l)
      (if decision_allowed dec then log @ [(key, now)] else log) cs" by (simp add: same)
  then show ?case by (simp add: c d step(1) Let_def)
qed simp



subsection \<open>Freeloading\<close>

lemma f32_to_u64_of_nat:
  assumes "n \<le> u64_max"
  shows "f32_to_u64 (f32_max0 (f32_of_nat n)) = 0 \<longleftrightarrow> n = 0"
proof (cases "n = 0")
  case False
  then have k: "f32_of_nat n = F32_Fin (round_mag (int n * f32_unit) 1)"
    "f32_unit \<le> round_mag (int n * f32_unit) 1" using f32_of_nat_pos[of n] assms by auto
  have "0 < f32_unit" by (simp add: f32_unit_def)
  then have "1 \<le> round_mag (int n * f32_unit) 1 div f32_unit" using k(2) zdiv_mono1[of f32_unit _ f32_unit] by fastforce
  with k False \<open>0 < f32_unit\<close> show ?thesis by (auto simp: u64_max_def)
qed simp

lemma f32_to_u64_exact:
  "n \<le> 2 ^ 24 \<Longrightarrow> f32_to_u64 (f32_max0 (f32_of_nat n)) = n"
  by (simp add: f32_of_nat_exact u64_max_def f32_unit_def)

text \<open>
  C19: A peer is deprioritized as a relay exactly when it consumed more than it relayed, although the
  penalty passes through \<open>f32\<close>; up to \<open>2 ^ 24\<close> packets of deficit the penalty is the deficit, and peers
  without a record are never penalized.
\<close>

theorem relay_decision_freeload:
  assumes "consumed \<le> u64_max"
  shows "(relay_decision (record_relay s peer relayed consumed) peer = Allowed \<longleftrightarrow> consumed \<le> relayed) \<and>
    (relayed < consumed \<and> consumed - relayed \<le> 2 ^ 24 \<longrightarrow>
       relay_decision (record_relay s peer relayed consumed) peer = Deprioritized (consumed - relayed)) \<and>
    (bt_get (ac_relay_contribution s) other = None \<longrightarrow> relay_decision s other = Allowed)"
proof -
  have pen: "freeload_penalty (record_relay s peer relayed consumed) peer = f32_of_nat (consumed - relayed)"
    by (simp add: freeload_penalty_def record_relay_def contribution_penalty_def)
  have none: "freeload_penalty s other = f32_of_nat 0" if "bt_get (ac_relay_contribution s) other = None"
    using that by (simp add: freeload_penalty_def contribution_penalty_def)
  have "consumed - relayed \<le> u64_max" using assms by simp
  with f32_to_u64_of_nat[OF this] f32_to_u64_exact[of "consumed - relayed"] pen none show ?thesis
    by (auto simp: relay_decision_def Let_def)
qed

theorem relay_decision_freeload_witness:
  "relay_decision (record_relay (abuse_controls_new 3 3 (60::int) :: (int, int) abuse_controls) ''freeloader'' 0 32)
     ''freeloader'' = Deprioritized 32"
  using relay_decision_freeload[of 32 "abuse_controls_new 3 3 (60::int) :: (int, int) abuse_controls" "''freeloader''" 0]
  by (simp add: u64_max_def)

end
