(* ===== verification/Overlay_Manager.thy ===== *)
theory Overlay_Manager
  imports Routing Capability Abuse
begin

text \<open>
  The stateful overlay manager (crates/relay-overlay/src/manager.rs): it owns the topology, the accepted
  observations, contribution accounting, the capability book, the churn damping clock and the set
  of failed peers. Methods that can fail after a partial update return the updated state together
  with the error.
\<close>

subsection \<open>Observations and accounting\<close>

definition to_ranking_metrics_with_contribution ::
  "relay_runtime_observation \<Rightarrow> relay_contribution \<Rightarrow> relay_metrics" where
  "to_ranking_metrics_with_contribution ob contribution =
     (let total_probes = max (sat_add32 (ro_successful_probes ob) (ro_failed_probes ob)) 1;
          stability = f32_clamp (f32_div (f32_of_nat (ro_successful_probes ob)) (f32_of_nat total_probes))
                        (f32_of_nat 0) (f32_of_nat 1);
          battery_cost = f32_div (f32_of_nat (ro_battery_cost_bps ob)) (f32_of_nat 10000);
          freeload_penalty = f32_min (contribution_penalty contribution) (f32_of_nat 1000)
      in \<lparr>rm_peer_id = ro_peer_id ob, rm_latency_ms = max (ro_latency_ms ob) 1,
          rm_stability = stability, rm_battery_cost = battery_cost,
          rm_freeload_penalty = freeload_penalty\<rparr>)"

definition to_ranking_metrics :: "relay_runtime_observation \<Rightarrow> relay_metrics" where
  "to_ranking_metrics ob =
     to_ranking_metrics_with_contribution ob
       \<lparr>rc_relayed_for_others = ro_contributed_bytes ob, rc_consumed_from_others = ro_consumed_bytes ob\<rparr>"

record relay_contribution_accounting_snapshot =
  cs_peer_id :: string
  cs_relayed_for_others :: nat
  cs_consumed_from_others :: nat
  cs_freeload_penalty :: f32

definition from_contribution :: "string \<Rightarrow> relay_contribution \<Rightarrow> relay_contribution_accounting_snapshot" where
  "from_contribution peer_id c =
     \<lparr>cs_peer_id = peer_id, cs_relayed_for_others = rc_relayed_for_others c,
      cs_consumed_from_others = rc_consumed_from_others c,
      cs_freeload_penalty = f32_min (contribution_penalty c) (f32_of_nat 1000)\<rparr>"

subsection \<open>Decisions, policies and errors\<close>

record overlay_route_decision =
  od_route :: relay_route
  od_ranked_source_neighbors :: "string list"
  od_manager_epoch :: nat

record failover_recovery_policy =
  fp_max_failover_ms :: nat
  fp_max_media_gap_ms :: nat
  fp_concealment_frame_ms :: nat

definition recovery_policy_default :: failover_recovery_policy where
  "recovery_policy_default =
     \<lparr>fp_max_failover_ms = 3000, fp_max_media_gap_ms = 200, fp_concealment_frame_ms = 20\<rparr>"

record media_concealment_report =
  mc_observed_gap_ms :: nat
  mc_target_gap_ms :: nat
  mc_concealment_frames :: nat
  mc_target_met :: bool

record overlay_failover_report =
  fr_decision :: failover_decision
  fr_recovery_policy :: failover_recovery_policy
  fr_media_concealment :: "media_concealment_report option"
  fr_manager_epoch :: nat

datatype overlay_route_use = UseTextControl | UseVoiceMedia

definition min_egress_bytes_per_second :: "overlay_route_use \<Rightarrow> nat" where
  "min_egress_bytes_per_second u = (case u of UseTextControl \<Rightarrow> 1024 | UseVoiceMedia \<Rightarrow> 32000)"

definition use_debug :: "overlay_route_use \<Rightarrow> string" where
  "use_debug u = (case u of UseTextControl \<Rightarrow> ''TextControl'' | UseVoiceMedia \<Rightarrow> ''VoiceMedia'')"

record constructed_overlay_route =
  cr_use_case :: overlay_route_use
  cr_route :: relay_route
  cr_hop_count :: nat
  cr_bottleneck_egress_bytes_per_second :: "nat option"
  cr_manager_epoch :: nat

datatype topology_change_reason = Bootstrap | PlannedReparent | HardFailure

record churn_damping_policy =
  cd_min_planned_change_interval_ms :: nat

definition churn_policy_default :: churn_damping_policy where
  "churn_policy_default = \<lparr>cd_min_planned_change_interval_ms = 30000\<rparr>"

record topology_change_report =
  tc_reason :: topology_change_reason
  tc_a :: string
  tc_b :: string
  tc_manager_epoch :: nat
  tc_next_planned_change_allowed_at_ms :: "nat option"

datatype overlay_manager_error =
    InvalidObservation string
  | TopologyErr topology_error
  | CapabilityErr capability_advertisement_error
  | RouteCapacity string
  | ChurnDamped nat
  | FailoverSlaExceeded nat nat
  | MediaGapExceeded nat nat

subsection \<open>The manager\<close>

record overlay_manager =
  om_topology :: relay_topology
  om_observations :: "(string, relay_runtime_observation) btreemap"
  om_relay_contributions :: "(string, relay_contribution) btreemap"
  om_capabilities :: capability_advertisement_book
  om_churn_policy :: churn_damping_policy
  om_last_planned_topology_change_ms :: "nat option"
  om_failed_peers :: "string btreeset"
  om_epoch :: nat

definition manager_new :: "relay_topology \<Rightarrow> overlay_manager" where
  "manager_new topology =
     \<lparr>om_topology = topology, om_observations = bt_empty, om_relay_contributions = bt_empty,
      om_capabilities = book_new, om_churn_policy = churn_policy_default,
      om_last_planned_topology_change_ms = None, om_failed_peers = bs_empty, om_epoch = 0\<rparr>"

definition manager_default :: overlay_manager where
  "manager_default = manager_new topology_default"

definition peer_count :: "overlay_manager \<Rightarrow> nat" where
  "peer_count m = bt_len (om_observations m)"

definition bump_epoch :: "overlay_manager \<Rightarrow> overlay_manager" where
  "bump_epoch m = m\<lparr>om_epoch := sat_add (om_epoch m) 1\<rparr>"

definition map_err :: "('e \<Rightarrow> 'f) \<Rightarrow> 'e + 'a \<Rightarrow> 'f + 'a" where
  "map_err f r = (case r of Inl e \<Rightarrow> Inl (f e) | Inr a \<Rightarrow> Inr a)"

definition validate_observation :: "relay_runtime_observation \<Rightarrow> overlay_manager_error + unit" where
  "validate_observation ob =
     (if blank (ro_peer_id ob) then Inl (InvalidObservation ''peer id is required'')
      else if ro_successful_probes ob = 0 \<and> ro_failed_probes ob = 0
      then Inl (InvalidObservation ''at least one relay health probe is required'')
      else Inr ())"

definition upsert_observation ::
  "overlay_manager \<Rightarrow> relay_runtime_observation \<Rightarrow> overlay_manager_error + overlay_manager" where
  "upsert_observation m ob =
     and_then (validate_observation ob) (\<lambda>_.
       let contribution = (case bt_get (om_relay_contributions m) (ro_peer_id ob) of
             Some c \<Rightarrow> c
           | None \<Rightarrow> \<lparr>rc_relayed_for_others = ro_contributed_bytes ob,
                      rc_consumed_from_others = ro_consumed_bytes ob\<rparr>);
           m = m\<lparr>om_topology := upsert_peer (om_topology m)
                   (to_ranking_metrics_with_contribution ob contribution)\<rparr>;
           m = m\<lparr>om_failed_peers := bs_remove (ro_peer_id ob) (om_failed_peers m)\<rparr>;
           m = m\<lparr>om_observations := bt_insert (ro_peer_id ob) ob (om_observations m)\<rparr>
       in Inr (bump_epoch m))"

definition upsert_capability_advertisement ::
  "overlay_manager \<Rightarrow> relay_capability_advertisement \<Rightarrow> nat \<Rightarrow> overlay_manager \<times> (overlay_manager_error + unit)" where
  "upsert_capability_advertisement m advertisement now_ms =
     (let ob = to_runtime_observation advertisement
      in case book_accept (om_capabilities m) advertisement now_ms of
           Inl e \<Rightarrow> (m, Inl (CapabilityErr e))
         | Inr book \<Rightarrow>
             let m = m\<lparr>om_capabilities := book\<rparr>
             in case upsert_observation m ob of Inl e \<Rightarrow> (m, Inl e) | Inr m' \<Rightarrow> (m', Inr ()))"

definition record_relay_contribution ::
  "overlay_manager \<Rightarrow> string \<Rightarrow> nat \<Rightarrow> nat
     \<Rightarrow> overlay_manager_error + (overlay_manager \<times> relay_contribution_accounting_snapshot)" where
  "record_relay_contribution m peer_id relayed_for_others consumed_from_others =
     (if blank peer_id then Inl (InvalidObservation ''peer id is required'')
      else
        let contribution = \<lparr>rc_relayed_for_others = relayed_for_others,
                            rc_consumed_from_others = consumed_from_others\<rparr>;
            m = m\<lparr>om_relay_contributions := bt_insert peer_id contribution (om_relay_contributions m)\<rparr>;
            m = (case bt_get (om_observations m) peer_id of
                   None \<Rightarrow> m
                 | Some ob \<Rightarrow>
                     let ob = ob\<lparr>ro_contributed_bytes := relayed_for_others,
                                 ro_consumed_bytes := consumed_from_others\<rparr>;
                         m = m\<lparr>om_observations := bt_insert peer_id ob (om_observations m)\<rparr>;
                         m = m\<lparr>om_topology := upsert_peer (om_topology m)
                                 (to_ranking_metrics_with_contribution ob contribution)\<rparr>
                     in bump_epoch m)
        in Inr (m, from_contribution peer_id contribution))"

definition relay_contribution_snapshots ::
  "overlay_manager \<Rightarrow> relay_contribution_accounting_snapshot list" where
  "relay_contribution_snapshots m =
     map (\<lambda>(peer_id, c). from_contribution peer_id c) (bt_entries (om_relay_contributions m))"

definition connect_peers :: "overlay_manager \<Rightarrow> string \<Rightarrow> string \<Rightarrow> overlay_manager_error + overlay_manager" where
  "connect_peers m a b =
     and_then (map_err TopologyErr (connect (om_topology m) a b)) (\<lambda>t.
       Inr (bump_epoch (m\<lparr>om_topology := t\<rparr>)))"

definition with_churn_policy :: "overlay_manager \<Rightarrow> churn_damping_policy \<Rightarrow> overlay_manager" where
  "with_churn_policy m p = m\<lparr>om_churn_policy := p\<rparr>"

definition next_planned :: "overlay_manager \<Rightarrow> nat \<Rightarrow> nat" where
  "next_planned m last_ms = sat_add last_ms (cd_min_planned_change_interval_ms (om_churn_policy m))"

definition connect_peers_with_churn_damping ::
  "overlay_manager \<Rightarrow> string \<Rightarrow> string \<Rightarrow> nat \<Rightarrow> topology_change_reason
     \<Rightarrow> overlay_manager \<times> (overlay_manager_error + topology_change_report)" where
  "connect_peers_with_churn_damping m a b now_ms reason =
     (let damped = (if reason = PlannedReparent then
                      (case om_last_planned_topology_change_ms m of
                         Some last_ms \<Rightarrow>
                           if now_ms < next_planned m last_ms then Some (next_planned m last_ms) else None
                       | None \<Rightarrow> None)
                    else None)
      in case damped of
           Some next_allowed \<Rightarrow> (m, Inl (ChurnDamped next_allowed))
         | None \<Rightarrow>
             let m = (if reason = PlannedReparent
                      then m\<lparr>om_last_planned_topology_change_ms := Some now_ms\<rparr> else m)
             in case connect (om_topology m) a b of
                  Inl e \<Rightarrow> (m, Inl (TopologyErr e))
                | Inr t \<Rightarrow>
                    let m = bump_epoch (m\<lparr>om_topology := t\<rparr>)
                    in (m, Inr \<lparr>tc_reason = reason, tc_a = a, tc_b = b, tc_manager_epoch = om_epoch m,
                               tc_next_planned_change_allowed_at_ms =
                                 map_option (next_planned m) (om_last_planned_topology_change_ms m)\<rparr>))"

definition manager_ranked_neighbors :: "overlay_manager \<Rightarrow> string \<Rightarrow> string list" where
  "manager_ranked_neighbors m peer_id = map rm_peer_id (ranked_neighbors (om_topology m) peer_id)"

definition manager_route ::
  "overlay_manager \<Rightarrow> string \<Rightarrow> string \<Rightarrow> overlay_manager_error + overlay_route_decision" where
  "manager_route m source destination =
     and_then (map_err TopologyErr (route_avoiding (om_topology m) source destination (om_failed_peers m))) (\<lambda>r.
       Inr \<lparr>od_route = r, od_ranked_source_neighbors = manager_ranked_neighbors m source,
            od_manager_epoch = om_epoch m\<rparr>)"

definition intermediate_relays :: "relay_route \<Rightarrow> string list" where
  "intermediate_relays r =
     map snd (filter (\<lambda>(idx, _). idx \<noteq> 0 \<and> idx + 1 \<noteq> length (rr_path r)) (enumerate 0 (rr_path r)))"

text \<open>The capacity loop over the relays of a route.\<close>

fun check_relays ::
  "overlay_manager \<Rightarrow> overlay_route_use \<Rightarrow> string list \<Rightarrow> nat option \<Rightarrow> overlay_manager_error + nat option" where
  "check_relays m use_case [] bottleneck = Inr bottleneck"
| "check_relays m use_case (relay_peer # relays) bottleneck =
     and_then (ok_or (RouteCapacity (''missing capability advertisement for relay '' @ relay_peer))
                 (book_get (om_capabilities m) relay_peer)) (\<lambda>advertisement.
       let degree = (case peer_degree (om_topology m) relay_peer of Some d \<Rightarrow> d | None \<Rightarrow> 0);
           egress = rca_egress_bytes_per_second (ca_relay_capacity advertisement)
       in if degree > rca_max_fanout (ca_relay_capacity advertisement)
          then Inl (RouteCapacity (''relay '' @ relay_peer @ '' exceeds advertised fanout''))
          else if egress < min_egress_bytes_per_second use_case
          then Inl (RouteCapacity (''relay '' @ relay_peer @ '' lacks egress capacity for '' @ use_debug use_case))
          else check_relays m use_case relays
                 (Some (case bottleneck of None \<Rightarrow> egress | Some current \<Rightarrow> min current egress)))"

definition construct_route ::
  "overlay_manager \<Rightarrow> overlay_route_use \<Rightarrow> string \<Rightarrow> string \<Rightarrow> overlay_manager_error + constructed_overlay_route" where
  "construct_route m use_case source destination =
     and_then (manager_route m source destination) (\<lambda>decision.
       if \<not> within_hop_limit (od_route decision)
       then Inl (RouteCapacity ''route exceeds three-hop overlay limit'')
       else and_then (check_relays m use_case (intermediate_relays (od_route decision)) None) (\<lambda>bottleneck.
              Inr \<lparr>cr_use_case = use_case, cr_route = od_route decision,
                   cr_hop_count = hop_count (od_route decision),
                   cr_bottleneck_egress_bytes_per_second = bottleneck, cr_manager_epoch = om_epoch m\<rparr>))"

definition media_concealment ::
  "nat \<Rightarrow> failover_recovery_policy \<Rightarrow> overlay_manager_error + media_concealment_report" where
  "media_concealment observed_gap_ms policy =
     (if observed_gap_ms > fp_max_media_gap_ms policy
      then Inl (MediaGapExceeded observed_gap_ms (fp_max_media_gap_ms policy))
      else
        let frame_ms = max (fp_concealment_frame_ms policy) 1
        in Inr \<lparr>mc_observed_gap_ms = observed_gap_ms, mc_target_gap_ms = fp_max_media_gap_ms policy,
                mc_concealment_frames = div_ceil observed_gap_ms frame_ms, mc_target_met = True\<rparr>)"

definition mark_failed_and_reroute_with_policy ::
  "overlay_manager \<Rightarrow> relay_route \<Rightarrow> string \<Rightarrow> nat \<Rightarrow> nat option \<Rightarrow> failover_recovery_policy
     \<Rightarrow> overlay_manager \<times> (overlay_manager_error + overlay_failover_report)" where
  "mark_failed_and_reroute_with_policy m previous failed_peer observed_convergence_ms observed_media_gap_ms policy =
     (if observed_convergence_ms > fp_max_failover_ms policy
      then (m, Inl (FailoverSlaExceeded observed_convergence_ms (fp_max_failover_ms policy)))
      else
        case (case observed_media_gap_ms of
                None \<Rightarrow> Inr None
              | Some gap \<Rightarrow> and_then (media_concealment gap policy) (\<lambda>r. Inr (Some r))) of
          Inl e \<Rightarrow> (m, Inl e)
        | Inr concealment \<Rightarrow>
            let m = m\<lparr>om_failed_peers := bs_insert failed_peer (om_failed_peers m)\<rparr>
            in case reroute_after_failure (om_topology m) previous failed_peer observed_convergence_ms of
                 Inl e \<Rightarrow> (m, Inl (TopologyErr e))
               | Inr decision \<Rightarrow>
                   let m = bump_epoch m
                   in (m, Inr \<lparr>fr_decision = decision, fr_recovery_policy = policy,
                              fr_media_concealment = concealment, fr_manager_epoch = om_epoch m\<rparr>))"

definition mark_failed_and_reroute ::
  "overlay_manager \<Rightarrow> relay_route \<Rightarrow> string \<Rightarrow> nat
     \<Rightarrow> overlay_manager \<times> (overlay_manager_error + overlay_failover_report)" where
  "mark_failed_and_reroute m previous failed_peer observed_convergence_ms =
     mark_failed_and_reroute_with_policy m previous failed_peer observed_convergence_ms None
       recovery_policy_default"

definition mark_failed_media_and_reroute ::
  "overlay_manager \<Rightarrow> relay_route \<Rightarrow> string \<Rightarrow> nat \<Rightarrow> nat
     \<Rightarrow> overlay_manager \<times> (overlay_manager_error + overlay_failover_report)" where
  "mark_failed_media_and_reroute m previous failed_peer observed_convergence_ms observed_media_gap_ms =
     mark_failed_and_reroute_with_policy m previous failed_peer observed_convergence_ms
       (Some observed_media_gap_ms) recovery_policy_default"

subsection \<open>Reachable managers\<close>

inductive manager_reach :: "nat \<Rightarrow> nat \<Rightarrow> overlay_manager \<Rightarrow> bool" for hops fanout where
  mr_new: "topology_built hops fanout t \<Longrightarrow> manager_reach hops fanout (manager_new t)"
| mr_policy: "manager_reach hops fanout m \<Longrightarrow> manager_reach hops fanout (with_churn_policy m p)"
| mr_observe: "manager_reach hops fanout m \<Longrightarrow> upsert_observation m ob = Inr m' \<Longrightarrow> manager_reach hops fanout m'"
| mr_advert: "manager_reach hops fanout m \<Longrightarrow> upsert_capability_advertisement m ad now = (m', r) \<Longrightarrow> manager_reach hops fanout m'"
| mr_contrib: "manager_reach hops fanout m \<Longrightarrow> record_relay_contribution m p x y = Inr (m', snap) \<Longrightarrow> manager_reach hops fanout m'"
| mr_connect: "manager_reach hops fanout m \<Longrightarrow> connect_peers m a b = Inr m' \<Longrightarrow> manager_reach hops fanout m'"
| mr_damped: "manager_reach hops fanout m \<Longrightarrow> connect_peers_with_churn_damping m a b now reason = (m', r')
    \<Longrightarrow> manager_reach hops fanout m'"
| mr_failed: "manager_reach hops fanout m \<Longrightarrow>
    mark_failed_and_reroute_with_policy m prev failed ms gap policy = (m', r'') \<Longrightarrow> manager_reach hops fanout m'"

lemma bump_epoch_simps [simp]:
  "om_topology (bump_epoch m) = om_topology m" "om_failed_peers (bump_epoch m) = om_failed_peers m"
  "om_capabilities (bump_epoch m) = om_capabilities m" "om_observations (bump_epoch m) = om_observations m"
  "om_churn_policy (bump_epoch m) = om_churn_policy m"
  "om_last_planned_topology_change_ms (bump_epoch m) = om_last_planned_topology_change_ms m"
  by (simp_all add: bump_epoch_def)

lemma map_err_Inr [simp]: "map_err f r = Inr a \<longleftrightarrow> r = Inr a"
  by (cases r) (simp_all add: map_err_def)

lemma upsert_observation_topology:
  assumes "upsert_observation m ob = Inr m'"
  obtains x where "om_topology m' = upsert_peer (om_topology m) x"
  using assms by (auto simp: upsert_observation_def and_then_Inr Let_def)

lemma manager_reach_built: "manager_reach hops fanout m \<Longrightarrow> topology_built hops fanout (om_topology m)"
proof (induction rule: manager_reach.induct)
  case mr_new
  then show ?case by (simp add: manager_new_def)
next
  case (mr_policy m p)
  then show ?case by (simp add: with_churn_policy_def)
next
  case (mr_observe m ob m')
  then show ?case by (elim upsert_observation_topology) (simp add: built_upsert)
next
  case (mr_advert m ad now m' r)
  then show ?case
    by (auto simp: upsert_capability_advertisement_def Let_def built_upsert
        split: sum.splits elim!: upsert_observation_topology)
next
  case (mr_contrib m p x y m' snap)
  then show ?case
    by (auto simp: record_relay_contribution_def Let_def built_upsert split: if_splits option.splits)
next
  case (mr_connect m a b m')
  then show ?case by (auto simp: connect_peers_def and_then_Inr intro: built_connect)
next
  case (mr_damped m a b now reason m' r')
  then show ?case
    by (auto simp: connect_peers_with_churn_damping_def Let_def
        split: option.splits sum.splits if_splits intro: built_connect)
next
  case (mr_failed m prev failed ms gap policy m' r'')
  then show ?case
    by (auto simp: mark_failed_and_reroute_with_policy_def Let_def split: if_splits sum.splits)
qed

subsection \<open>Constructed routes\<close>

lemma intermediate_relays_eq: "intermediate_relays r = butlast (tl (rr_path r))"
proof (cases "rr_path r")
  case (Cons x xs)
  have inner: "map snd (filter (\<lambda>(idx, _). idx \<noteq> 0 \<and> idx + 1 \<noteq> k + length ys) (enumerate k ys)) = butlast ys"
    if "0 < k" for k and ys :: "string list"
    using that
  proof (induction ys arbitrary: k)
    case (Cons y ys)
    show ?case
    proof (cases "ys = []")
      case False
      then have "k + 1 \<noteq> k + length (y # ys)" by (cases ys) auto
      with Cons.IH[of "Suc k"] Cons.prems False show ?thesis by simp
    qed (use Cons.prems in simp)
  qed simp
  show ?thesis using inner[of 1 xs] by (simp add: intermediate_relays_def Cons)
qed (simp add: intermediate_relays_def)

definition relay_fits :: "overlay_manager \<Rightarrow> overlay_route_use \<Rightarrow> string \<Rightarrow> bool" where
  "relay_fits m use_case p \<longleftrightarrow>
     (\<exists>ad. book_get (om_capabilities m) p = Some ad \<and>
        (\<forall>d. peer_degree (om_topology m) p = Some d \<longrightarrow> d \<le> rca_max_fanout (ca_relay_capacity ad)) \<and>
        min_egress_bytes_per_second use_case \<le> rca_egress_bytes_per_second (ca_relay_capacity ad))"

definition relay_egress :: "overlay_manager \<Rightarrow> string \<Rightarrow> nat" where
  "relay_egress m p = rca_egress_bytes_per_second (ca_relay_capacity (the (book_get (om_capabilities m) p)))"

lemma check_relays_Inr:
  "check_relays m u ps b = Inr b' \<longleftrightarrow>
     (\<forall>p \<in> set ps. relay_fits m u p) \<and>
     b' = fold (\<lambda>p acc. Some (case acc of None \<Rightarrow> relay_egress m p | Some x \<Rightarrow> min x (relay_egress m p))) ps b"
proof (induction ps arbitrary: b)
  case (Cons p ps)
  show ?case
  proof (cases "book_get (om_capabilities m) p")
    case (Some ad)
    then have fits: "relay_fits m u p \<longleftrightarrow>
        (case peer_degree (om_topology m) p of Some d \<Rightarrow> d | None \<Rightarrow> 0) \<le> rca_max_fanout (ca_relay_capacity ad) \<and>
        min_egress_bytes_per_second u \<le> rca_egress_bytes_per_second (ca_relay_capacity ad)"
      by (auto simp: relay_fits_def split: option.splits)
    have eg: "rca_egress_bytes_per_second (ca_relay_capacity ad) = relay_egress m p"
      by (simp add: relay_egress_def Some)
    show ?thesis using Some Cons.IH by (cases b) (auto simp: fits eg Let_def not_less)
  qed (simp add: relay_fits_def)
qed auto

lemma fold_min_option:
  "fold (\<lambda>p acc. Some (case acc of None \<Rightarrow> f p | Some x \<Rightarrow> min x (f p))) ps (Some b) = Some (Min (insert b (f ` set ps)))"
  for f :: "'a \<Rightarrow> nat"
proof (induction ps arbitrary: b)
  case (Cons p ps)
  then have "fold (\<lambda>p acc. Some (case acc of None \<Rightarrow> f p | Some x \<Rightarrow> min x (f p))) (p # ps) (Some b)
      = Some (Min (insert (min b (f p)) (f ` set ps)))" by simp
  also have "\<dots> = Some (Min (insert b (f ` set (p # ps))))"
    by (cases "ps = []") (simp_all add: min.assoc)
  finally show ?case .
qed simp

lemma bottleneck_fold:
  "fold (\<lambda>p acc. Some (case acc of None \<Rightarrow> f p | Some x \<Rightarrow> min x (f p))) ps None =
     (if ps = [] then None else Some (Min (f ` set ps)))"
  for f :: "'a \<Rightarrow> nat"
  by (cases ps) (simp_all add: fold_min_option)

text \<open>
  A constructed route runs over live links from source to destination, visits no peer that is
  marked failed and none twice, has at most three hops, and every relay strictly inside it has an
  accepted advertisement whose fanout covers its degree and whose egress covers the use case; the
  reported bottleneck is the least egress of these relays.
\<close>

theorem constructed_route_safe:
  assumes "manager_reach hops fanout m" and "construct_route m use_case s d = Inr r"
  shows "is_route (om_topology m) (om_failed_peers m) s d (rr_path (cr_route r)) \<and>
    distinct (rr_path (cr_route r)) \<and> cr_hop_count r \<le> 3 \<and> cr_hop_count r \<le> hops \<and>
    (\<forall>p \<in> set (butlast (tl (rr_path (cr_route r)))). relay_fits m use_case p) \<and>
    cr_bottleneck_egress_bytes_per_second r =
      (let relays = butlast (tl (rr_path (cr_route r)))
       in if relays = [] then None else Some (Min (relay_egress m ` set relays)))"
proof -
  from assms(2) have route: "route_avoiding (om_topology m) s d (om_failed_peers m) = Inr (cr_route r)"
    and lim: "within_hop_limit (cr_route r)" and hops: "cr_hop_count r = hop_count (cr_route r)"
    and chk: "check_relays m use_case (intermediate_relays (cr_route r)) None
      = Inr (cr_bottleneck_egress_bytes_per_second r)"
    by (auto simp: construct_route_def manager_route_def and_then_Inr split: if_splits)
  have paths: "is_route (om_topology m) (om_failed_peers m) s d (rr_path (cr_route r)) \<and>
      distinct (rr_path (cr_route r)) \<and> hop_count (cr_route r) \<le> hops"
    using right_route_avoiding[OF manager_reach_built[OF assms(1)] route] by blast
  show ?thesis
    using chk paths lim hops
    by (simp add: check_relays_Inr bottleneck_fold intermediate_relays_eq within_hop_limit_def
        hop_limit_ok_def max_relay_hops_def Let_def)
qed

subsection \<open>A small manager\<close>

definition demo_manager :: overlay_manager where
  "demo_manager = manager_new demo_topology"

lemma demo_manager_reach: "manager_reach 3 2 demo_manager"
  unfolding demo_manager_def by (rule mr_new[OF demo_topology_built])

lemmas demo_manager_simps = demo_manager_def manager_new_def

lemma demo_routes:
  "route_avoiding demo_topology ''a'' ''d'' bs_empty = Inr \<lparr>rr_path = [''a'', ''d'']\<rparr>"
  "route_avoiding demo_topology ''a'' ''c'' (bs_of_list [''b'']) = Inr \<lparr>rr_path = [''a'', ''d'', ''c'']\<rparr>"
  "route_avoiding demo_topology ''a'' ''c'' (bs_of_list [''d'']) = Inr \<lparr>rr_path = [''a'', ''b'', ''c'']\<rparr>"
  by code_simp+

lemma demo_reroute:
  "reroute_after_failure demo_topology \<lparr>rr_path = [''a'', ''b'', ''c'']\<rparr> ''b'' ms =
     Inr \<lparr>fd_previous = \<lparr>rr_path = [''a'', ''b'', ''c'']\<rparr>, fd_replacement = \<lparr>rr_path = [''a'', ''d'', ''c'']\<rparr>,
          fd_failed_peer = ''b'', fd_convergence_ms = ms\<rparr>"
  "reroute_after_failure demo_topology \<lparr>rr_path = [''a'', ''d'', ''c'']\<rparr> ''d'' ms =
     Inr \<lparr>fd_previous = \<lparr>rr_path = [''a'', ''d'', ''c'']\<rparr>, fd_replacement = \<lparr>rr_path = [''a'', ''b'', ''c'']\<rparr>,
          fd_failed_peer = ''d'', fd_convergence_ms = ms\<rparr>"
  by (simp_all add: reroute_after_failure_def first_peer_def last_peer_def demo_routes)

theorem constructed_route_safe_witness:
  "case construct_route demo_manager UseVoiceMedia ''a'' ''d'' of
     Inr r \<Rightarrow> rr_path (cr_route r) = [''a'', ''d''] \<and> cr_bottleneck_egress_bytes_per_second r = None
   | Inl _ \<Rightarrow> False"
proof -
  obtain r where r: "construct_route demo_manager UseVoiceMedia ''a'' ''d'' = Inr r"
    "rr_path (cr_route r) = [''a'', ''d'']"
    by (simp add: construct_route_def manager_route_def demo_manager_simps demo_routes map_err_def
        intermediate_relays_eq within_hop_limit_def hop_limit_ok_def hop_count_def max_relay_hops_def)
  with constructed_route_safe[OF demo_manager_reach r(1)] show ?thesis by simp
qed

subsection \<open>Failover reports\<close>

lemma concealment_covers:
  "media_concealment g policy = Inr c \<Longrightarrow> g \<le> fp_max_media_gap_ms policy \<and>
     (\<forall>n. g \<le> n * max (fp_concealment_frame_ms policy) 1 \<longleftrightarrow> mc_concealment_frames c \<le> n)"
  by (auto simp: media_concealment_def Let_def div_ceil_iff split: if_splits)

text \<open>
  An accepted failover met the convergence SLA and, for media, the gap target; the reported
  concealment frames are the fewest that cover the gap, the replacement keeps the endpoints and
  avoids the failed relay, which stays marked as failed; a refused SLA or media gap leaves the
  manager untouched.
\<close>

theorem failover_report_sound:
  assumes "manager_reach hops fanout m" and "rr_path previous \<noteq> []"
    and step: "mark_failed_and_reroute_with_policy m previous failed ms gap policy = (m', res)"
  shows "case res of
      Inr report \<Rightarrow>
        ms \<le> fp_max_failover_ms policy \<and> bs_member (om_failed_peers m') failed \<and>
        is_route (om_topology m) (bs_of_list [failed]) (hd (rr_path previous)) (last (rr_path previous))
          (rr_path (fd_replacement (fr_decision report))) \<and>
        (\<forall>g. gap = Some g \<longrightarrow> g \<le> fp_max_media_gap_ms policy \<and>
           (\<exists>c. fr_media_concealment report = Some c \<and>
              (\<forall>n. g \<le> n * max (fp_concealment_frame_ms policy) 1 \<longleftrightarrow> mc_concealment_frames c \<le> n)))
    | Inl (FailoverSlaExceeded x y) \<Rightarrow> m' = m \<and> fp_max_failover_ms policy < ms
    | Inl (MediaGapExceeded x y) \<Rightarrow> m' = m \<and> (\<exists>g. gap = Some g \<and> fp_max_media_gap_ms policy < g)
    | Inl e \<Rightarrow> bs_member (om_failed_peers m') failed \<and> om_epoch m' = om_epoch m"
proof (cases res)
  case (Inr report)
  from step Inr have ok: "ms \<le> fp_max_failover_ms policy" "bs_member (om_failed_peers m') failed"
    and dec: "reroute_after_failure (om_topology m) previous failed ms = Inr (fr_decision report)"
    and con: "(case gap of None \<Rightarrow> Inr None | Some g \<Rightarrow> and_then (media_concealment g policy) (\<lambda>r. Inr (Some r)))
      = Inr (fr_media_concealment report)"
    by (auto simp: mark_failed_and_reroute_with_policy_def Let_def split: if_splits sum.splits)
  note route = reroute_replacement[OF dec assms(2)]
  have frames: "g \<le> fp_max_media_gap_ms policy \<and> (\<exists>c. fr_media_concealment report = Some c \<and>
      (\<forall>n. g \<le> n * max (fp_concealment_frame_ms policy) 1 \<longleftrightarrow> mc_concealment_frames c \<le> n))"
    if "gap = Some g" for g
    using con that concealment_covers[of g policy] by (force simp: and_then_Inr)
  from right_route_avoiding[OF manager_reach_built[OF assms(1)] route] ok frames show ?thesis
    by (simp add: Inr)
next
  case (Inl e)
  with step show ?thesis
    by (auto simp: mark_failed_and_reroute_with_policy_def media_concealment_def and_then_Inl Let_def bump_epoch_def
        split: if_splits sum.splits option.splits overlay_manager_error.splits)
qed

theorem failover_report_sound_witness:
  "case mark_failed_and_reroute_with_policy demo_manager \<lparr>rr_path = [''a'', ''b'', ''c'']\<rparr> ''b'' 40 (Some 7)
      \<lparr>fp_max_failover_ms = 50, fp_max_media_gap_ms = 9, fp_concealment_frame_ms = 2\<rparr> of
     (m', Inr report) \<Rightarrow> bs_member (om_failed_peers m') ''b'' \<and>
       (\<exists>c. fr_media_concealment report = Some c \<and> (\<forall>n. 7 \<le> n * max 2 1 \<longleftrightarrow> mc_concealment_frames c \<le> n))
   | _ \<Rightarrow> False"
proof -
  define out where "out = mark_failed_and_reroute_with_policy demo_manager \<lparr>rr_path = [''a'', ''b'', ''c'']\<rparr> ''b'' 40 (Some 7)
      \<lparr>fp_max_failover_ms = 50, fp_max_media_gap_ms = 9, fp_concealment_frame_ms = 2\<rparr>"
  have "is_ok (snd out)"
    by (simp add: out_def mark_failed_and_reroute_with_policy_def demo_manager_simps media_concealment_def demo_reroute Let_def)
  then obtain m' report where out: "out = (m', Inr report)" by (cases out) (auto simp: is_ok_iff)
  with failover_report_sound[OF demo_manager_reach _ out[unfolded out_def]] show ?thesis
    by (simp add: out_def)
qed

text \<open>
  C22: The reroute looks at the newly failed relay only: a manager that already marked \<open>b\<close> as failed can
  answer the failure of \<open>d\<close> with a replacement route through \<open>b\<close>.
\<close>

theorem failover_reuses_failed_relay:
  "\<exists>m m' report. manager_reach 3 2 m \<and> bs_member (om_failed_peers m) ''b'' \<and>
     mark_failed_and_reroute m \<lparr>rr_path = [''a'', ''d'', ''c'']\<rparr> ''d'' 10 = (m', Inr report) \<and>
     contains_peer (fd_replacement (fr_decision report)) ''b''"
proof -
  define m where "m = fst (mark_failed_and_reroute demo_manager \<lparr>rr_path = [''a'', ''b'', ''c'']\<rparr> ''b'' 10)"
  have reach: "manager_reach 3 2 m"
    unfolding m_def mark_failed_and_reroute_def by (rule mr_failed[OF demo_manager_reach prod.collapse[symmetric]])
  have "bs_member (om_failed_peers m) ''b'' \<and>
    (case mark_failed_and_reroute m \<lparr>rr_path = [''a'', ''d'', ''c'']\<rparr> ''d'' 10 of
       (m', Inr report) \<Rightarrow> contains_peer (fd_replacement (fr_decision report)) ''b'' | _ \<Rightarrow> False)"
    by (simp add: m_def mark_failed_and_reroute_def mark_failed_and_reroute_with_policy_def demo_manager_simps
        recovery_policy_default_def demo_reroute contains_peer_def Let_def bump_epoch_def)
  with reach show ?thesis by (fastforce split: prod.splits sum.splits)
qed

subsection \<open>Churn damping\<close>

text \<open>Damped connection requests in order, with the times at which planned changes were accepted.\<close>

fun damped_run ::
  "overlay_manager \<Rightarrow> (string \<times> string \<times> nat \<times> topology_change_reason) list \<Rightarrow> nat list" where
  "damped_run m [] = []"
| "damped_run m ((a, b, now, reason) # rs) =
     (case connect_peers_with_churn_damping m a b now reason of
        (m', Inr _) \<Rightarrow> (if reason = PlannedReparent then now # damped_run m' rs else damped_run m' rs)
      | (m', Inl _) \<Rightarrow> damped_run m' rs)"

lemma damped_step:
  assumes "connect_peers_with_churn_damping m a b now reason = (m', res)"
  shows "om_churn_policy m' = om_churn_policy m"
    and "om_last_planned_topology_change_ms m' = om_last_planned_topology_change_ms m
      \<or> (reason = PlannedReparent \<and> om_last_planned_topology_change_ms m' = Some now \<and>
         (\<forall>t. om_last_planned_topology_change_ms m = Some t \<longrightarrow> next_planned m t \<le> now))"
    and "is_ok res \<Longrightarrow> reason = PlannedReparent \<Longrightarrow> om_last_planned_topology_change_ms m' = Some now \<and>
         (\<forall>t. om_last_planned_topology_change_ms m = Some t \<longrightarrow> next_planned m t \<le> now)"
  using assms
  by (auto simp: connect_peers_with_churn_damping_def Let_def not_less split: if_splits option.splits sum.splits)

lemma sat_add_mono: "a \<le> b \<Longrightarrow> sat_add a c \<le> sat_add b c"
  by (simp add: sat_add_def)

lemma damped_run_spaced:
  assumes "\<forall>(a, b, now, reason) \<in> set rs. now \<le> u64_max"
    and "\<forall>t. om_last_planned_topology_change_ms m = Some t \<longrightarrow> t \<le> u64_max"
  shows "successively (\<lambda>t t'. next_planned m t \<le> t') (damped_run m rs) \<and>
    (\<forall>t ts t0. damped_run m rs = t # ts \<longrightarrow> om_last_planned_topology_change_ms m = Some t0 \<longrightarrow> next_planned m t0 \<le> t)"
  using assms
proof (induction m rs rule: damped_run.induct)
  case (2 m a b now reason rs)
  obtain m' res where step: "connect_peers_with_churn_damping m a b now reason = (m', res)"
    by (cases "connect_peers_with_churn_damping m a b now reason")
  note st = damped_step[OF step]
  have np: "next_planned m' = next_planned m" by (simp add: next_planned_def fun_eq_iff st(1))
  have now: "now \<le> u64_max" using 2(4) by simp
  have ok': "\<forall>t. om_last_planned_topology_change_ms m' = Some t \<longrightarrow> t \<le> u64_max" using st(2) 2(5) now by auto
  have rest: "\<forall>(a, b, now, reason) \<in> set rs. now \<le> u64_max" using 2(4) by simp
  have IH: "successively (\<lambda>t t'. next_planned m t \<le> t') (damped_run m' rs) \<and>
      (\<forall>t ts t0. damped_run m' rs = t # ts \<longrightarrow> om_last_planned_topology_change_ms m' = Some t0 \<longrightarrow> next_planned m t0 \<le> t)"
    using 2(1,2,3)[OF step[symmetric]] rest ok' np by (cases res) auto
  show ?case
  proof (cases "is_ok res \<and> reason = PlannedReparent")
    case True
    then have run: "damped_run m ((a, b, now, reason) # rs) = now # damped_run m' rs"
      using step by (auto simp: is_ok_iff)
    show ?thesis unfolding run using IH st(3) True by (cases "damped_run m' rs") auto
  next
    case False
    then have run: "damped_run m ((a, b, now, reason) # rs) = damped_run m' rs"
      using step by (auto simp: is_ok_iff split: sum.splits)
    have "next_planned m t0 \<le> t" if "damped_run m' rs = t # ts" "om_last_planned_topology_change_ms m = Some t0" for t ts t0
    proof (cases "om_last_planned_topology_change_ms m' = om_last_planned_topology_change_ms m")
      case False
      with st(2) that(2) have "om_last_planned_topology_change_ms m' = Some now" "next_planned m t0 \<le> now" by auto
      moreover with IH that(1) have "next_planned m now \<le> t" by blast
      ultimately show ?thesis using sat_add_ge[OF now] by (simp add: next_planned_def) (meson order_trans)
    qed (use IH that in auto)
    with IH run show ?thesis by simp
  qed
qed simp

text \<open>
  Whatever mix of bootstrap, planned and hard-failure connections is requested, with clocks that
  may even run backwards, two consecutive accepted planned reparents are at least the configured
  damping interval apart.
\<close>

theorem churn_damping_spacing:
  assumes "\<forall>(a, b, now, reason) \<in> set requests. now \<le> u64_max"
    and "om_last_planned_topology_change_ms m = None"
  shows "successively (\<lambda>t t'. sat_add t (cd_min_planned_change_interval_ms (om_churn_policy m)) \<le> t')
    (damped_run m requests)"
  using damped_run_spaced[OF assms(1), of m] assms(2) by (simp add: next_planned_def[abs_def])

theorem churn_damping_spacing_witness:
  "let m = with_churn_policy demo_manager \<lparr>cd_min_planned_change_interval_ms = 10\<rparr>;
       rs = [(''a'', ''b'', 5, PlannedReparent), (''a'', ''d'', 9, PlannedReparent), (''b'', ''c'', 9, HardFailure),
             (''c'', ''d'', 15, PlannedReparent)]
   in damped_run m rs = [5, 15] \<and> successively (\<lambda>t t'. sat_add t 10 \<le> t') (damped_run m rs)"
proof -
  define m where "m = with_churn_policy demo_manager \<lparr>cd_min_planned_change_interval_ms = 10\<rparr>"
  define rs where "rs = [(''a'', ''b'', 5::nat, PlannedReparent), (''a'', ''d'', 9, PlannedReparent), (''b'', ''c'', 9, HardFailure),
             (''c'', ''d'', 15, PlannedReparent)]"
  have m: "m = \<lparr>om_topology = demo_topology, om_observations = bt_empty, om_relay_contributions = bt_empty,
      om_capabilities = book_new, om_churn_policy = \<lparr>cd_min_planned_change_interval_ms = 10\<rparr>,
      om_last_planned_topology_change_ms = None, om_failed_peers = bs_empty, om_epoch = 0\<rparr>"
    by (simp add: m_def with_churn_policy_def demo_manager_simps)
  have "damped_run m rs = [5, 15]" unfolding m rs_def by code_simp
  moreover have "cd_min_planned_change_interval_ms (om_churn_policy m) = 10" "om_last_planned_topology_change_ms m = None"
    by (simp_all add: m)
  moreover have "\<forall>(a, b, now, reason) \<in> set rs. now \<le> u64_max" by (simp add: rs_def u64_max_def)
  ultimately show ?thesis using churn_damping_spacing[of rs m] by (simp add: m_def rs_def Let_def)
qed

text \<open>
  A planned reparent that fails in the topology still starts the damping window: until it has
  passed, every planned request is refused, whatever its endpoints.
\<close>

theorem failed_reparent_consumes_window:
  assumes "om_last_planned_topology_change_ms m = None" and "connect (om_topology m) a b = Inl e"
    and "connect_peers_with_churn_damping m a b now PlannedReparent = (m', res)"
    and "later < sat_add now (cd_min_planned_change_interval_ms (om_churn_policy m))"
  shows "res = Inl (TopologyErr e) \<and>
    connect_peers_with_churn_damping m' x y later PlannedReparent =
      (m', Inl (ChurnDamped (sat_add now (cd_min_planned_change_interval_ms (om_churn_policy m)))))"
  using assms by (auto simp: connect_peers_with_churn_damping_def next_planned_def Let_def)

theorem failed_reparent_consumes_window_witness:
  "snd (connect_peers_with_churn_damping (fst (connect_peers_with_churn_damping demo_manager ''a'' ''zz'' 5 PlannedReparent))
      ''a'' ''b'' 6 PlannedReparent) = Inl (ChurnDamped 30005)"
proof -
  have "connect (om_topology demo_manager) ''a'' ''zz'' = Inl (UnknownPeer ''zz'')" by code_simp
  moreover have "om_last_planned_topology_change_ms demo_manager = None"
    "cd_min_planned_change_interval_ms (om_churn_policy demo_manager) = 30000"
    by (simp_all add: demo_manager_def manager_new_def churn_policy_default_def)
  ultimately show ?thesis
    using failed_reparent_consumes_window[of demo_manager "''a''" "''zz''" "UnknownPeer ''zz''" 5
        "fst (connect_peers_with_churn_damping demo_manager ''a'' ''zz'' 5 PlannedReparent)"
        "snd (connect_peers_with_churn_damping demo_manager ''a'' ''zz'' 5 PlannedReparent)" 6 "''a''" "''b''"]
    by (simp add: sat_add_def u64_max_def)
qed

end
