(* ===== verification/Store_Forward.thy ===== *)
theory Store_Forward
  imports Capability
begin

text \<open>
  The opportunistic store-and-forward queue (crates/relay-overlay/src/store_forward.rs): volunteer
  settings, admission policy, envelopes and the queue with its admission checks, the ciphertext
  guard, volunteer selection and the drain. Every queue that the operations can reach satisfies the
  policy, and a drain hands out exactly the live envelopes of its recipient.
\<close>

datatype store_forward_error =
    SF_Expired | SF_FanoutExhausted | VisiblePlaintext | UnauthorizedRecipient
  | RetentionWindowExceeded | VolunteerRelayDisabled | QueueFull | DuplicateMessage

record volunteer_relay_settings =
  vs_enabled :: bool
  vs_local_peer_id :: string
  vs_max_queue_envelopes :: nat
  vs_max_fanout_per_message :: nat
  vs_max_volunteer_relays :: nat

definition volunteer_enabled :: "string \<Rightarrow> volunteer_relay_settings" where
  "volunteer_enabled local_peer_id =
     \<lparr>vs_enabled = True, vs_local_peer_id = local_peer_id, vs_max_queue_envelopes = 256,
      vs_max_fanout_per_message = 4, vs_max_volunteer_relays = 4\<rparr>"

definition volunteer_disabled :: "string \<Rightarrow> volunteer_relay_settings" where
  "volunteer_disabled local_peer_id =
     \<lparr>vs_enabled = False, vs_local_peer_id = local_peer_id, vs_max_queue_envelopes = 1,
      vs_max_fanout_per_message = 1, vs_max_volunteer_relays = 0\<rparr>"

definition volunteer_normalized :: "volunteer_relay_settings \<Rightarrow> volunteer_relay_settings" where
  "volunteer_normalized v =
     (let v = v\<lparr>vs_max_queue_envelopes := max (vs_max_queue_envelopes v) 1\<rparr>;
          v = v\<lparr>vs_max_fanout_per_message := max (vs_max_fanout_per_message v) 1\<rparr>
      in if vs_enabled v then v\<lparr>vs_max_volunteer_relays := max (vs_max_volunteer_relays v) 1\<rparr> else v)"

record store_forward_policy =
  sp_authorized_recipients :: "string btreeset"
  sp_max_ttl_ms :: nat
  sp_retention_window_ms :: nat
  sp_volunteer :: volunteer_relay_settings

definition policy_new :: "string list \<Rightarrow> nat \<Rightarrow> nat \<Rightarrow> volunteer_relay_settings \<Rightarrow> store_forward_policy" where
  "policy_new authorized_recipients max_ttl_ms retention_window_ms volunteer =
     \<lparr>sp_authorized_recipients = bs_of_list authorized_recipients, sp_max_ttl_ms = max max_ttl_ms 1,
      sp_retention_window_ms = max retention_window_ms 1, sp_volunteer = volunteer_normalized volunteer\<rparr>"

definition permits_recipient :: "store_forward_policy \<Rightarrow> string \<Rightarrow> bool" where
  "permits_recipient p recipient_id \<longleftrightarrow>
     bt_len (sp_authorized_recipients p) = 0 \<or> bs_member (sp_authorized_recipients p) recipient_id"

record store_forward_envelope =
  se_message_id :: string
  se_recipient_id :: string
  se_payload :: relay_protected_envelope
  se_created_at_ms :: nat
  se_expires_at_ms :: nat
  se_fanout_remaining :: nat

definition sf_envelope_new ::
  "string \<Rightarrow> string \<Rightarrow> relay_protected_envelope \<Rightarrow> nat \<Rightarrow> nat \<Rightarrow> nat
     \<Rightarrow> store_forward_error + store_forward_envelope" where
  "sf_envelope_new message_id recipient_id payload created_at_ms ttl_ms fanout =
     (if ttl_ms = 0 then Inl SF_Expired
      else if fanout = 0 then Inl SF_FanoutExhausted
      else Inr \<lparr>se_message_id = message_id, se_recipient_id = recipient_id, se_payload = payload,
                se_created_at_ms = created_at_ms, se_expires_at_ms = sat_add created_at_ms ttl_ms,
                se_fanout_remaining = fanout\<rparr>)"

definition is_live :: "store_forward_envelope \<Rightarrow> nat \<Rightarrow> bool" where
  "is_live e now_ms \<longleftrightarrow> now_ms \<le> se_expires_at_ms e"

definition ttl_ms :: "store_forward_envelope \<Rightarrow> nat" where
  "ttl_ms e = se_expires_at_ms e - se_created_at_ms e"

definition consume_fanout :: "store_forward_envelope \<Rightarrow> store_forward_error + store_forward_envelope" where
  "consume_fanout e =
     (if se_fanout_remaining e = 0 then Inl SF_FanoutExhausted
      else Inr (e\<lparr>se_fanout_remaining := se_fanout_remaining e - 1\<rparr>))"

record store_forward_queue =
  sq_envelopes :: "(string, store_forward_envelope) btreemap"
  sq_policy :: store_forward_policy

definition queue_with_policy :: "store_forward_policy \<Rightarrow> store_forward_queue" where
  "queue_with_policy policy = \<lparr>sq_envelopes = bt_empty, sq_policy = policy\<rparr>"

definition validate_envelope ::
  "store_forward_queue \<Rightarrow> store_forward_envelope \<Rightarrow> store_forward_error + unit" where
  "validate_envelope q e =
     (let p = sq_policy q; ttl = ttl_ms e
      in if \<not> vs_enabled (sp_volunteer p) then Inl VolunteerRelayDisabled
         else if \<not> is_live e (se_created_at_ms e) then Inl SF_Expired
         else if \<not> permits_recipient p (se_recipient_id e) then Inl UnauthorizedRecipient
         else if ttl = 0 \<or> ttl > sp_max_ttl_ms p then Inl SF_Expired
         else if ttl > sp_retention_window_ms p then Inl RetentionWindowExceeded
         else if se_fanout_remaining e = 0
              \<or> se_fanout_remaining e > vs_max_fanout_per_message (sp_volunteer p)
         then Inl SF_FanoutExhausted
         else Inr ())"

definition sf_enqueue ::
  "store_forward_queue \<Rightarrow> store_forward_envelope \<Rightarrow> store_forward_error + store_forward_queue" where
  "sf_enqueue q e =
     and_then (validate_envelope q e) (\<lambda>_.
       if bt_contains (sq_envelopes q) (se_message_id e) then Inl DuplicateMessage
       else if bt_len (sq_envelopes q) \<ge> vs_max_queue_envelopes (sp_volunteer (sq_policy q))
       then Inl QueueFull
       else Inr (q\<lparr>sq_envelopes := bt_insert (se_message_id e) e (sq_envelopes q)\<rparr>))"

definition enqueue_ciphertext_only ::
  "store_forward_queue \<Rightarrow> store_forward_envelope \<Rightarrow> bytes \<Rightarrow> store_forward_error + store_forward_queue" where
  "enqueue_ciphertext_only q e forbidden_plaintext =
     (if forbidden_plaintext \<noteq> [] \<and> contains_window (visible_bytes (se_payload e)) forbidden_plaintext
      then Inl VisiblePlaintext
      else sf_enqueue q e)"

definition volunteer_targets ::
  "store_forward_queue \<Rightarrow> relay_capability_advertisement list \<Rightarrow> nat \<Rightarrow> string list" where
  "volunteer_targets q candidates now_ms =
     (let v = sp_volunteer (sq_policy q)
      in if \<not> vs_enabled v then []
         else
           let candidates = filter (\<lambda>c. ca_peer_id c \<noteq> vs_local_peer_id v) candidates;
               candidates = filter (\<lambda>c. is_ok (validate_at c now_ms)) candidates;
               candidates = filter (\<lambda>c. rca_accepts_store_forward (ca_relay_capacity c)) candidates;
               candidates = sort_key (\<lambda>c. (freeload_score_bps c, ca_packet_loss_bps c,
                                          ca_observed_rtt_ms c, ca_peer_id c)) candidates
           in map ca_peer_id (take (vs_max_volunteer_relays v) candidates))"

text \<open>The first loop classifies the entries in key order; then the expired are removed, and the
  deliverable ones are removed and returned.\<close>

definition drain_for_recipient ::
  "store_forward_queue \<Rightarrow> string \<Rightarrow> nat \<Rightarrow> store_forward_queue \<times> store_forward_envelope list" where
  "drain_for_recipient q recipient_id now_ms =
     (let expired = map fst (filter (\<lambda>(id, e). \<not> is_live e now_ms) (bt_entries (sq_envelopes q)));
          deliver = map fst (filter (\<lambda>(id, e). is_live e now_ms \<and> se_recipient_id e = recipient_id
                       \<and> permits_recipient (sq_policy q) (se_recipient_id e)) (bt_entries (sq_envelopes q)));
          envelopes = fold bt_remove expired (sq_envelopes q)
      in (q\<lparr>sq_envelopes := fold bt_remove deliver envelopes\<rparr>, List.map_filter (bt_get envelopes) deliver))"

definition sf_len :: "store_forward_queue \<Rightarrow> nat" where
  "sf_len q = bt_len (sq_envelopes q)"

definition sf_is_empty :: "store_forward_queue \<Rightarrow> bool" where
  "sf_is_empty q \<longleftrightarrow> bt_len (sq_envelopes q) = 0"

subsection \<open>The queue invariant\<close>

text \<open>What the policy promises of a retained envelope.\<close>

definition admissible :: "store_forward_policy \<Rightarrow> store_forward_envelope \<Rightarrow> bool" where
  "admissible p e \<longleftrightarrow>
     vs_enabled (sp_volunteer p) \<and> permits_recipient p (se_recipient_id e) \<and>
     0 < ttl_ms e \<and> ttl_ms e \<le> sp_max_ttl_ms p \<and> ttl_ms e \<le> sp_retention_window_ms p \<and>
     0 < se_fanout_remaining e \<and> se_fanout_remaining e \<le> vs_max_fanout_per_message (sp_volunteer p)"

definition queue_ok :: "store_forward_queue \<Rightarrow> bool" where
  "queue_ok q \<longleftrightarrow>
     bt_len (sq_envelopes q) \<le> vs_max_queue_envelopes (sp_volunteer (sq_policy q)) \<and>
     (\<forall>id e. bt_get (sq_envelopes q) id = Some e \<longrightarrow> se_message_id e = id \<and> admissible (sq_policy q) e)"

inductive queue_reach :: "store_forward_policy \<Rightarrow> store_forward_queue \<Rightarrow> bool" for p where
  reach_new: "queue_reach p (queue_with_policy p)"
| reach_enqueue: "queue_reach p q \<Longrightarrow> sf_enqueue q e = Inr q' \<Longrightarrow> queue_reach p q'"
| reach_enqueue_ct: "queue_reach p q \<Longrightarrow> enqueue_ciphertext_only q e w = Inr q' \<Longrightarrow> queue_reach p q'"
| reach_drain: "queue_reach p q \<Longrightarrow> drain_for_recipient q r now = (q', es) \<Longrightarrow> queue_reach p q'"

lemma admissible_live: "admissible p e \<Longrightarrow> is_live e (se_created_at_ms e)"
  by (simp add: admissible_def is_live_def ttl_ms_def)

lemma validate_envelope_Inr: "validate_envelope q e = Inr () \<longleftrightarrow> admissible (sq_policy q) e"
  by (auto simp: validate_envelope_def admissible_def Let_def is_live_def ttl_ms_def)

lemma sf_enqueue_Inr:
  "sf_enqueue q e = Inr q' \<longleftrightarrow>
     admissible (sq_policy q) e \<and> bt_get (sq_envelopes q) (se_message_id e) = None \<and>
     bt_len (sq_envelopes q) < vs_max_queue_envelopes (sp_volunteer (sq_policy q)) \<and>
     q' = q\<lparr>sq_envelopes := bt_insert (se_message_id e) e (sq_envelopes q)\<rparr>"
  by (auto simp: sf_enqueue_def and_then_Inr validate_envelope_Inr bt_contains_def split: if_splits)

lemma sf_enqueue_ok: "queue_ok q \<Longrightarrow> sf_enqueue q e = Inr q' \<Longrightarrow> queue_ok q' \<and> sq_policy q' = sq_policy q"
  by (auto simp: sf_enqueue_Inr queue_ok_def bt_len_insert bt_contains_def)

lemma bt_get_fold_remove: "bt_get (fold bt_remove ks m) k = (if k \<in> set ks then None else bt_get m k)"
  by (induction ks arbitrary: m) auto

lemma bt_len_fold_remove: "bt_len (fold bt_remove ks m) \<le> bt_len m"
proof (induction ks arbitrary: m)
  case (Cons k ks)
  have "bt_len (bt_remove k m) \<le> bt_len m" by (simp add: bt_len_remove)
  with Cons[of "bt_remove k m"] show ?case by simp
qed simp

definition deliverable :: "store_forward_queue \<Rightarrow> string \<Rightarrow> nat \<Rightarrow> store_forward_envelope \<Rightarrow> bool" where
  "deliverable q r now e \<longleftrightarrow>
     is_live e now \<and> se_recipient_id e = r \<and> permits_recipient (sq_policy q) r"

lemma drain_envelopes:
  assumes "drain_for_recipient q r now = (q', es)"
  shows "bt_get (sq_envelopes q') i =
      (case bt_get (sq_envelopes q) i of
         Some e \<Rightarrow> if is_live e now \<and> \<not> deliverable q r now e then Some e else None
       | None \<Rightarrow> None)"
    and "sq_policy q' = sq_policy q" and "bt_len (sq_envelopes q') \<le> bt_len (sq_envelopes q)"
proof -
  have keys: "i \<in> fst ` {x \<in> set (bt_entries (sq_envelopes q)). case x of (_, e) \<Rightarrow> P e} \<longleftrightarrow>
      (\<exists>e. bt_get (sq_envelopes q) i = Some e \<and> P e)" for P
    by (force simp flip: set_bt_entries)
  show "bt_get (sq_envelopes q') i =
      (case bt_get (sq_envelopes q) i of
         Some e \<Rightarrow> if is_live e now \<and> \<not> deliverable q r now e then Some e else None
       | None \<Rightarrow> None)"
    using assms
    by (auto simp: drain_for_recipient_def Let_def bt_get_fold_remove keys deliverable_def split: option.splits)
  show "sq_policy q' = sq_policy q" using assms by (auto simp: drain_for_recipient_def Let_def)
  show "bt_len (sq_envelopes q') \<le> bt_len (sq_envelopes q)"
    using assms le_trans[OF bt_len_fold_remove bt_len_fold_remove]
    by (auto simp: drain_for_recipient_def Let_def)
qed

lemma drain_delivers:
  assumes "drain_for_recipient q r now = (q', es)"
  shows "es = map snd (filter (\<lambda>(id, e). deliverable q r now e) (bt_entries (sq_envelopes q)))"
proof -
  let ?E = "bt_entries (sq_envelopes q)"
  let ?live = "fold bt_remove (map fst (filter (\<lambda>(id, e). \<not> is_live e now) ?E)) (sq_envelopes q)"
  have get: "bt_get ?live id = Some e" if "(id, e) \<in> set ?E" "deliverable q r now e" for id e
    using that by (force simp: bt_get_fold_remove set_bt_entries deliverable_def)
  have "List.map_filter (bt_get ?live) (map fst xs) = map snd xs"
    if "\<forall>(id, e) \<in> set xs. bt_get ?live id = Some e" for xs
    using that by (induction xs) (auto simp: map_filter_simps)
  moreover have "(\<lambda>(id, e). is_live e now \<and> se_recipient_id e = r \<and> permits_recipient (sq_policy q) (se_recipient_id e))
      = (\<lambda>(id::string, e). deliverable q r now e)"
    by (auto simp: deliverable_def fun_eq_iff)
  moreover have "\<forall>(id, e) \<in> set (filter (\<lambda>(id, e). deliverable q r now e) ?E). bt_get ?live id = Some e"
    using get by auto
  ultimately show ?thesis using assms by (simp add: drain_for_recipient_def Let_def)
qed

lemma drain_ok: "queue_ok q \<Longrightarrow> drain_for_recipient q r now = (q', es) \<Longrightarrow> queue_ok q'"
  using drain_envelopes[of q r now q' es] unfolding queue_ok_def
  by (fastforce split: option.splits if_splits)

lemma queue_reach_ok: "queue_reach p q \<Longrightarrow> queue_ok q \<and> sq_policy q = p"
proof (induction rule: queue_reach.induct)
  case reach_new
  then show ?case by (simp add: queue_with_policy_def queue_ok_def)
next
  case (reach_enqueue q e q')
  then show ?case using sf_enqueue_ok by blast
next
  case (reach_enqueue_ct q e w q')
  then show ?case using sf_enqueue_ok by (auto simp: enqueue_ciphertext_only_def split: if_splits)
next
  case (reach_drain q r now q' es)
  then show ?case using drain_ok drain_envelopes(2) by blast
qed

subsection \<open>Volunteer selection\<close>

definition target_key :: "relay_capability_advertisement \<Rightarrow> nat \<times> nat \<times> nat \<times> string" where
  "target_key c = (freeload_score_bps c, ca_packet_loss_bps c, ca_observed_rtt_ms c, ca_peer_id c)"

definition eligible :: "store_forward_queue \<Rightarrow> nat \<Rightarrow> relay_capability_advertisement \<Rightarrow> bool" where
  "eligible q now c \<longleftrightarrow> ca_peer_id c \<noteq> vs_local_peer_id (sp_volunteer (sq_policy q)) \<and>
     is_ok (validate_at c now) \<and> rca_accepts_store_forward (ca_relay_capacity c)"

lemma volunteer_targets_eq:
  "vs_enabled (sp_volunteer (sq_policy q)) \<Longrightarrow> volunteer_targets q cs now =
     map ca_peer_id (take (vs_max_volunteer_relays (sp_volunteer (sq_policy q)))
       (sort_key target_key (filter (eligible q now) cs)))"
proof -
  assume "vs_enabled (sp_volunteer (sq_policy q))"
  moreover have "eligible q now = (\<lambda>c. ca_peer_id c \<noteq> vs_local_peer_id (sp_volunteer (sq_policy q)) \<and>
      is_ok (validate_at c now) \<and> rca_accepts_store_forward (ca_relay_capacity c))"
    by (simp add: eligible_def fun_eq_iff)
  ultimately show ?thesis
    by (simp add: volunteer_targets_def Let_def target_key_def[abs_def] conj_ac)
qed

subsection \<open>Properties\<close>


definition demo_policy :: store_forward_policy where
  "demo_policy = policy_new [''bob'', ''eve''] 100 1000 (volunteer_enabled ''alice'')"

definition demo_payload :: relay_protected_envelope where
  "demo_payload = \<lparr>re_kind = StoreForward, re_kid = [1], re_counter = 0, re_aad_commitment = [], re_ciphertext = [2]\<rparr>"

definition demo_envelope :: "string \<Rightarrow> string \<Rightarrow> nat \<Rightarrow> store_forward_envelope" where
  "demo_envelope m r expires =
     \<lparr>se_message_id = m, se_recipient_id = r, se_payload = demo_payload, se_created_at_ms = 10,
      se_expires_at_ms = expires, se_fanout_remaining = 2\<rparr>"

definition demo_queue :: store_forward_queue where
  "demo_queue = fold (\<lambda>e q. case sf_enqueue q e of Inr q' \<Rightarrow> q' | Inl _ \<Rightarrow> q)
     [demo_envelope ''m2'' ''bob'' 90, demo_envelope ''m1'' ''bob'' 80, demo_envelope ''m3'' ''bob'' 20,
      demo_envelope ''m4'' ''eve'' 90]
     (queue_with_policy demo_policy)"

lemma demo_queue_reach: "queue_reach demo_policy demo_queue"
proof -
  have "queue_reach p q \<Longrightarrow> queue_reach p (fold (\<lambda>e q. case sf_enqueue q e of Inr q' \<Rightarrow> q' | Inl _ \<Rightarrow> q) es q)" for p q es
    by (induction es arbitrary: q) (auto intro: reach_enqueue split: sum.splits)
  then show ?thesis unfolding demo_queue_def by (blast intro: reach_new)
qed


text \<open>
  A drain returns exactly the live envelopes addressed to the recipient, in message-id order and
  each once, drops exactly the expired ones, and keeps every other live envelope untouched.
\<close>

theorem store_forward_drain_exact:
  assumes "queue_reach p q" and "drain_for_recipient q recipient now = (q', delivered)"
  shows "set delivered = {e. \<exists>i. bt_get (sq_envelopes q) i = Some e \<and> is_live e now \<and> se_recipient_id e = recipient} \<and>
    sorted_wrt (<) (map se_message_id delivered) \<and>
    (\<forall>i e. bt_get (sq_envelopes q') i = Some e \<longleftrightarrow>
       bt_get (sq_envelopes q) i = Some e \<and> is_live e now \<and> se_recipient_id e \<noteq> recipient)"
proof (intro conjI allI)
  note ok = queue_reach_ok[OF assms(1)] and del = drain_delivers[OF assms(2)] and env = drain_envelopes[OF assms(2)]
  have dl: "deliverable q recipient now e \<longleftrightarrow> is_live e now \<and> se_recipient_id e = recipient"
    if "bt_get (sq_envelopes q) i = Some e" for i e
    using ok that by (auto simp: deliverable_def queue_ok_def admissible_def)
  show "set delivered = {e. \<exists>i. bt_get (sq_envelopes q) i = Some e \<and> is_live e now \<and> se_recipient_id e = recipient}"
    using dl by (auto simp: del set_bt_entries) (force simp: set_bt_entries)
  let ?F = "filter (\<lambda>(i, e). deliverable q recipient now e) (bt_entries (sq_envelopes q))"
  have "map se_message_id (map snd ?F) = map fst ?F"
    using ok by (auto simp: queue_ok_def set_bt_entries)
  moreover have "sorted_wrt (<) (map fst ?F)"
    using bt_entries_sorted[of "sq_envelopes q"] by (auto simp: sorted_wrt_map sorted_wrt_filter)
  ultimately show "sorted_wrt (<) (map se_message_id delivered)" by (simp only: del)
  show "bt_get (sq_envelopes q') i = Some e \<longleftrightarrow>
       bt_get (sq_envelopes q) i = Some e \<and> is_live e now \<and> se_recipient_id e \<noteq> recipient" for i e
    using dl[of i] by (auto simp: env(1) split: option.splits)
qed

theorem store_forward_drain_exact_witness:
  "map se_message_id (snd (drain_for_recipient demo_queue ''bob'' 50)) = [''m1'', ''m2''] \<and>
   sorted_wrt (<) (map se_message_id (snd (drain_for_recipient demo_queue ''bob'' 50)))"
proof
  show "map se_message_id (snd (drain_for_recipient demo_queue ''bob'' 50)) = [''m1'', ''m2'']" by code_simp
qed (rule store_forward_drain_exact[THEN conjunct2, THEN conjunct1, OF demo_queue_reach prod.collapse[symmetric]])

text \<open>
  Replication targets are never the local peer and always have a currently valid advertisement
  that accepts store-forward; at most the configured number is chosen, none at all when volunteering
  is off, and no eligible candidate that was left out ranks strictly before a chosen one.
\<close>

theorem volunteer_targets_best:
  "(\<not> vs_enabled (sp_volunteer (sq_policy q)) \<longrightarrow> volunteer_targets q cs now = []) \<and>
   (vs_enabled (sp_volunteer (sq_policy q)) \<longrightarrow>
      length (volunteer_targets q cs now) \<le> vs_max_volunteer_relays (sp_volunteer (sq_policy q))) \<and>
   (\<forall>t \<in> set (volunteer_targets q cs now). \<exists>c \<in> set cs. ca_peer_id c = t \<and> eligible q now c \<and>
      (\<forall>c' \<in> set cs. eligible q now c' \<and> ca_peer_id c' \<notin> set (volunteer_targets q cs now)
         \<longrightarrow> target_key c \<le> target_key c'))"
proof (cases "vs_enabled (sp_volunteer (sq_policy q))")
  case on: True
  let ?n = "vs_max_volunteer_relays (sp_volunteer (sq_policy q))"
  let ?S = "sort_key target_key (filter (eligible q now) cs)"
  note eq = volunteer_targets_eq[OF on]
  have "\<exists>c \<in> set cs. ca_peer_id c = t \<and> eligible q now c \<and>
      (\<forall>c' \<in> set cs. eligible q now c' \<and> ca_peer_id c' \<notin> set (volunteer_targets q cs now)
         \<longrightarrow> target_key c \<le> target_key c')" if "t \<in> set (volunteer_targets q cs now)" for t
  proof -
    from that obtain c where c: "c \<in> set (take ?n ?S)" "ca_peer_id c = t" by (auto simp: eq)
    have "target_key c \<le> target_key c'" if "c' \<in> set cs" "eligible q now c'"
      "ca_peer_id c' \<notin> set (volunteer_targets q cs now)" for c'
    proof -
      have "c' \<in> set ?S" using that by simp
      then have "c' \<in> set (take ?n ?S) \<union> set (drop ?n ?S)" by (metis append_take_drop_id set_append)
      then have "c' \<in> set (drop ?n ?S)" using that(3) by (auto simp: eq)
      moreover have "sorted (map target_key (take ?n ?S @ drop ?n ?S))" by simp
      ultimately show ?thesis using c(1) by (auto simp only: map_append sorted_append list.set_map)
    qed
    moreover have "c \<in> set cs \<and> eligible q now c" using in_set_takeD[OF c(1)] by simp
    ultimately show ?thesis using c(2) by blast
  qed
  with on show ?thesis by (simp add: eq)
qed (simp add: volunteer_targets_def)

theorem volunteer_targets_best_witness:
  "volunteer_targets demo_queue [demo_ad 3] 20 = [''p''] \<and>
   (\<exists>c \<in> set [demo_ad 3]. ca_peer_id c = ''p'' \<and> eligible demo_queue 20 c)"
proof
  show sel: "volunteer_targets demo_queue [demo_ad 3] 20 = [''p'']" by code_simp
  then have "''p'' \<in> set (volunteer_targets demo_queue [demo_ad 3] 20)" by simp
  with volunteer_targets_best[of demo_queue "[demo_ad 3]" 20]
  show "\<exists>c \<in> set [demo_ad 3]. ca_peer_id c = ''p'' \<and> eligible demo_queue 20 c" by blast
qed

end
