(* ===== verification/Gossip.thy ===== *)
theory Gossip
  imports BTree_Map
begin

text \<open>
  The gossip mesh for author-log items (crates/relay-overlay/src/gossip.rs). One round unions the item sets of
  all peers; it converges at once, loses nothing and is idempotent.
\<close>

datatype gossip_item =
  GossipItem (gi_author_leaf: nat) (gi_sequence: nat) (gi_message_id: string) (gi_ciphertext_hash: bytes)

definition gossip_key :: "gossip_item \<Rightarrow> nat \<times> nat \<times> string \<times> bytes" where
  "gossip_key i = (gi_author_leaf i, gi_sequence i, gi_message_id i, gi_ciphertext_hash i)"

lemma gossip_key_inj: "gossip_key i = gossip_key j \<longleftrightarrow> i = j"
  by (auto simp: gossip_key_def gossip_item.expand)

instantiation gossip_item :: linorder
begin

definition less_eq_gossip_item :: "gossip_item \<Rightarrow> gossip_item \<Rightarrow> bool" where
  "less_eq_gossip_item i j \<longleftrightarrow> gossip_key i \<le> gossip_key j"

definition less_gossip_item :: "gossip_item \<Rightarrow> gossip_item \<Rightarrow> bool" where
  "less_gossip_item i j \<longleftrightarrow> gossip_key i < gossip_key j"

instance
  by standard (auto simp: less_eq_gossip_item_def less_gossip_item_def gossip_key_inj[symmetric])

end

definition gossip_item_new :: "(bytes \<Rightarrow> bytes) \<Rightarrow> nat \<Rightarrow> nat \<Rightarrow> string \<Rightarrow> bytes \<Rightarrow> gossip_item" where
  "gossip_item_new sha256 author_leaf sequence message_id ciphertext =
     GossipItem author_leaf sequence message_id (sha256 ciphertext)"

record gossip_node =
  gn_items :: "gossip_item btreeset"

definition node_default :: gossip_node where
  "node_default = \<lparr>gn_items = bs_empty\<rparr>"

definition node_insert :: "gossip_node \<Rightarrow> gossip_item \<Rightarrow> gossip_node" where
  "node_insert n item = n\<lparr>gn_items := bs_insert item (gn_items n)\<rparr>"

definition node_merge :: "gossip_node \<Rightarrow> gossip_item list \<Rightarrow> gossip_node \<times> nat" where
  "node_merge n items =
     fold (\<lambda>item (n, inserted).
             (node_insert n item, if bs_member (gn_items n) item then inserted else inserted + 1))
       items (n, 0)"

definition node_snapshot :: "gossip_node \<Rightarrow> gossip_item list" where
  "node_snapshot n = bs_elems (gn_items n)"

definition node_len :: "gossip_node \<Rightarrow> nat" where
  "node_len n = bt_len (gn_items n)"

definition node_is_empty :: "gossip_node \<Rightarrow> bool" where
  "node_is_empty n \<longleftrightarrow> bt_len (gn_items n) = 0"

record gossip_mesh =
  gm_nodes :: "(string, gossip_node) btreemap"

definition mesh_new :: "string list \<Rightarrow> gossip_mesh" where
  "mesh_new peer_ids = \<lparr>gm_nodes = bt_of_list (map (\<lambda>peer. (peer, node_default)) peer_ids)\<rparr>"

definition mesh_insert :: "gossip_mesh \<Rightarrow> string \<Rightarrow> gossip_item \<Rightarrow> gossip_mesh" where
  "mesh_insert m peer_id item =
     (case bt_get (gm_nodes m) peer_id of
        Some node \<Rightarrow> m\<lparr>gm_nodes := bt_insert peer_id (node_insert node item) (gm_nodes m)\<rparr>
      | None \<Rightarrow> m)"

definition mesh_union :: "gossip_mesh \<Rightarrow> gossip_item list" where
  "mesh_union m = bs_elems (bs_of_list (concat (map node_snapshot (bt_values (gm_nodes m)))))"

definition mesh_round :: "gossip_mesh \<Rightarrow> gossip_mesh \<times> nat" where
  "mesh_round m =
     (let union = mesh_union m
      in (m\<lparr>gm_nodes := bt_map (\<lambda>_ node. fst (node_merge node union)) (gm_nodes m)\<rparr>,
          sum_list (map (\<lambda>node. snd (node_merge node union)) (bt_values (gm_nodes m)))))"

definition mesh_converged :: "gossip_mesh \<Rightarrow> bool" where
  "mesh_converged m =
     (case map node_snapshot (bt_values (gm_nodes m)) of
        [] \<Rightarrow> True
      | first # snapshots \<Rightarrow> list_all (\<lambda>snapshot. snapshot = first) snapshots)"

definition known_count :: "gossip_mesh \<Rightarrow> string \<Rightarrow> nat option" where
  "known_count m peer_id = map_option node_len (bt_get (gm_nodes m) peer_id)"

definition mesh_snapshot :: "gossip_mesh \<Rightarrow> string \<Rightarrow> gossip_item list" where
  "mesh_snapshot m peer_id = (case bt_get (gm_nodes m) peer_id of None \<Rightarrow> [] | Some n \<Rightarrow> node_snapshot n)"

subsection \<open>Merging\<close>

lemma node_merge_fold:
  "fold (\<lambda>item (n, inserted). (node_insert n item, if bs_member (gn_items n) item then inserted else inserted + 1))
     items (n, k) = (n', k') \<Longrightarrow>
   bs_set (gn_items n') = bs_set (gn_items n) \<union> set items \<and> k' = k + card (set items - bs_set (gn_items n))"
proof (induction items arbitrary: n k)
  case (Cons i items)
  let ?n1 = "node_insert n i"
  have S: "bs_set (gn_items ?n1) = insert i (bs_set (gn_items n))" by (auto simp: node_insert_def bs_set_def)
  from Cons.IH[of ?n1 "if bs_member (gn_items n) i then k else k + 1"] Cons.prems
  have IH: "bs_set (gn_items n') = bs_set (gn_items ?n1) \<union> set items"
    "k' = (if bs_member (gn_items n) i then k else k + 1) + card (set items - bs_set (gn_items ?n1))" by auto
  have "card (set (i # items) - bs_set (gn_items n)) =
      (if bs_member (gn_items n) i then 0 else 1) + card (set items - insert i (bs_set (gn_items n)))"
  proof (cases "bs_member (gn_items n) i")
    case False
    then have "set (i # items) - bs_set (gn_items n) = insert i (set items - insert i (bs_set (gn_items n)))"
      by (auto simp: bs_set_def)
    with False show ?thesis by simp
  next
    case True
    then have "set (i # items) - bs_set (gn_items n) = set items - insert i (bs_set (gn_items n))"
      by (auto simp: bs_set_def)
    with True show ?thesis by simp
  qed
  with IH S show ?case by auto
qed simp

lemma node_merge_items: "bs_set (gn_items (fst (node_merge n items))) = bs_set (gn_items n) \<union> set items"
  using node_merge_fold[of items n 0 "fst (node_merge n items)" "snd (node_merge n items)"]
  by (simp add: node_merge_def)

lemma node_merge_count: "snd (node_merge n items) = card (set items - bs_set (gn_items n))"
  using node_merge_fold[of items n 0 "fst (node_merge n items)" "snd (node_merge n items)"]
  by (simp add: node_merge_def)

lemma gossip_node_eqI: "bs_set (gn_items n) = bs_set (gn_items n') \<Longrightarrow> n = n'" for n n' :: gossip_node
  by (cases n; cases n') (simp add: bs_set_inject)

lemma set_mesh_union: "i \<in> set (mesh_union m) \<longleftrightarrow> (\<exists>p n. bt_get (gm_nodes m) p = Some n \<and> i \<in> bs_set (gn_items n))"
proof -
  have "i \<in> set (mesh_union m) \<longleftrightarrow> (\<exists>n \<in> set (bt_values (gm_nodes m)). i \<in> bs_set (gn_items n))"
    by (simp add: mesh_union_def node_snapshot_def bs_set_def)
  then show ?thesis unfolding Bex_def set_bt_values by blast
qed

lemma mesh_round_get:
  "bt_get (gm_nodes (fst (mesh_round m))) p = map_option (\<lambda>_. \<lparr>gn_items = bs_of_list (mesh_union m)\<rparr>) (bt_get (gm_nodes m) p)"
proof (cases "bt_get (gm_nodes m) p")
  case (Some n)
  have "fst (node_merge n (mesh_union m)) = \<lparr>gn_items = bs_of_list (mesh_union m)\<rparr>"
    using Some set_mesh_union[of _ m]
    by (intro gossip_node_eqI) (auto simp: node_merge_items bs_set_def[of "bs_of_list _"])
  with Some show ?thesis by (simp add: mesh_round_def Let_def)
qed (simp add: mesh_round_def Let_def)

lemma mesh_converged_iff:
  "mesh_converged m \<longleftrightarrow>
     (\<forall>p q n n'. bt_get (gm_nodes m) p = Some n \<longrightarrow> bt_get (gm_nodes m) q = Some n' \<longrightarrow> n = n')"
proof -
  have inj: "node_snapshot n = node_snapshot n' \<longleftrightarrow> n = n'" for n n'
  proof
    assume "node_snapshot n = node_snapshot n'"
    then have "set (node_snapshot n) = set (node_snapshot n')" by simp
    then show "n = n'" by (intro gossip_node_eqI) (simp add: node_snapshot_def)
  qed simp
  have "mesh_converged m \<longleftrightarrow> (\<forall>n \<in> set (bt_values (gm_nodes m)). \<forall>n' \<in> set (bt_values (gm_nodes m)). n = n')"
    by (cases "bt_values (gm_nodes m)") (simp_all add: mesh_converged_def list_all_iff inj, metis)
  then show ?thesis by (auto simp: set_bt_values Ball_def)
qed

lemma set_mesh_snapshot:
  "i \<in> set (mesh_snapshot m p) \<longleftrightarrow> (\<exists>n. bt_get (gm_nodes m) p = Some n \<and> i \<in> bs_set (gn_items n))"
  by (cases "bt_get (gm_nodes m) p") (simp_all add: mesh_snapshot_def node_snapshot_def)

lemma mesh_round_snapshot:
  assumes "bt_contains (gm_nodes m) p"
  shows "set (mesh_snapshot (fst (mesh_round m)) p) = set (mesh_union m)"
proof -
  from assms obtain n where "bt_get (gm_nodes m) p = Some n" by (auto simp: bt_contains_def)
  then show ?thesis by (auto simp: set_mesh_snapshot mesh_round_get)
qed

lemma mesh_union_snapshots: "set (mesh_union m) = (\<Union>q. set (mesh_snapshot m q))"
  by (rule set_eqI) (simp add: set_mesh_union set_mesh_snapshot)

lemma mesh_round_zero: "snd (mesh_round m) = 0 \<longleftrightarrow> mesh_converged m"
proof -
  have "snd (mesh_round m) = 0 \<longleftrightarrow>
      (\<forall>n \<in> set (bt_values (gm_nodes m)). set (mesh_union m) \<subseteq> bs_set (gn_items n))"
    by (simp add: mesh_round_def Let_def node_merge_count)
  also have "\<dots> \<longleftrightarrow> (\<forall>p n. bt_get (gm_nodes m) p = Some n \<longrightarrow> set (mesh_union m) \<subseteq> bs_set (gn_items n))"
    unfolding Ball_def set_bt_values by blast
  also have "\<dots> \<longleftrightarrow> (\<forall>p n q n'. bt_get (gm_nodes m) p = Some n \<longrightarrow> bt_get (gm_nodes m) q = Some n' \<longrightarrow>
      bs_set (gn_items n') \<subseteq> bs_set (gn_items n))" unfolding subset_iff set_mesh_union by blast
  also have "\<dots> \<longleftrightarrow> mesh_converged m"
  proof
    assume sub: "\<forall>p n q n'. bt_get (gm_nodes m) p = Some n \<longrightarrow> bt_get (gm_nodes m) q = Some n' \<longrightarrow>
      bs_set (gn_items n') \<subseteq> bs_set (gn_items n)"
    then show "mesh_converged m" unfolding mesh_converged_iff by (blast intro: gossip_node_eqI)
  qed (simp add: mesh_converged_iff, blast)
  finally show ?thesis .
qed

lemma mesh_round_fixed: "mesh_converged m \<Longrightarrow> fst (mesh_round m) = m"
proof -
  assume conv: "mesh_converged m"
  have "gm_nodes (fst (mesh_round m)) = gm_nodes m"
  proof (rule bt_eqI)
    fix p
    show "bt_get (gm_nodes (fst (mesh_round m))) p = bt_get (gm_nodes m) p"
    proof (cases "bt_get (gm_nodes m) p")
      case (Some n)
      then have "i \<in> set (mesh_union m) \<longleftrightarrow> i \<in> bs_set (gn_items n)" for i
        using conv unfolding set_mesh_union mesh_converged_iff by blast
      then have "n = \<lparr>gn_items = bs_of_list (mesh_union m)\<rparr>"
        by (intro gossip_node_eqI) (auto simp: bs_set_def[of "bs_of_list _"])
      with Some show ?thesis by (simp add: mesh_round_get)
    qed (simp add: mesh_round_get)
  qed
  then show ?thesis by (simp add: mesh_round_def Let_def)
qed

text \<open>
  One gossip round makes the mesh converge whatever the peers knew before: afterwards every peer
  knows exactly the union of what all peers knew, nothing is lost or invented, a second round
  changes nothing and reports zero insertions, and a round reports zero exactly when the mesh had
  already converged.
\<close>

theorem gossip_round_converges:
  "mesh_converged (fst (mesh_round m)) \<and>
   (\<forall>p. bt_contains (gm_nodes m) p \<longrightarrow>
      set (mesh_snapshot (fst (mesh_round m)) p) = (\<Union>q. set (mesh_snapshot m q))) \<and>
   mesh_round (fst (mesh_round m)) = (fst (mesh_round m), 0) \<and>
   (snd (mesh_round m) = 0 \<longleftrightarrow> mesh_converged m)"
proof -
  have conv: "mesh_converged (fst (mesh_round m))" by (auto simp: mesh_converged_iff mesh_round_get)
  then have "mesh_round (fst (mesh_round m)) = (fst (mesh_round m), 0)"
    using mesh_round_fixed[OF conv] mesh_round_zero[of "fst (mesh_round m)"]
    by (intro prod_eqI) simp_all
  with conv show ?thesis using mesh_round_snapshot[of m] mesh_union_snapshots[of m] mesh_round_zero[of m]
    by simp
qed

theorem gossip_round_converges_witness:
  "let m = mesh_insert (mesh_insert (mesh_new [''a'', ''b'']) ''a'' (GossipItem 1 1 ''x'' [])) ''b'' (GossipItem 2 1 ''y'' [])
   in snd (mesh_round m) = 2 \<and> \<not> mesh_converged m \<and> mesh_converged (fst (mesh_round m))"
proof -
  define m where "m = mesh_insert (mesh_insert (mesh_new [''a'', ''b'']) ''a'' (GossipItem 1 1 ''x'' [])) ''b'' (GossipItem 2 1 ''y'' [])"
  have "snd (mesh_round m) = 2" unfolding m_def by code_simp
  with gossip_round_converges[of m] show ?thesis by (simp add: m_def)
qed

end
