(* ===== verification/Rust_Text.thy ===== *)
theory Rust_Text
  imports Rust_Prelude
begin

text \<open>
  The string functions of the Rust standard library that the identity, invite and wire formats use:
  decimal formatting, splitting and joining, characters and validity of UTF-8, chunks, and the laws
  that the round trips rest on. Trimming is defined in the prelude; here it is shown to be idempotent.
\<close>

section \<open>Decimal formatting\<close>

text \<open>\<open>Display\<close> of the unsigned integer types.\<close>

definition digit_char :: "nat \<Rightarrow> char" where
  "digit_char d = char_of (48 + d)"

fun nat_str :: "nat \<Rightarrow> string" where
  "nat_str n = (if n < 10 then [digit_char n] else nat_str (n div 10) @ [digit_char (n mod 10)])"

declare nat_str.simps [simp del]

definition parse_digits :: "string \<Rightarrow> nat" where
  "parse_digits s = foldl (\<lambda>acc c. acc * 10 + (of_char c - 48)) 0 s"

lemma of_char_digit [simp]: "d < 10 \<Longrightarrow> (of_char (digit_char d) :: nat) = 48 + d"
  by (simp add: digit_char_def)

lemma parse_nat_str [simp]: "parse_digits (nat_str n) = n"
proof (induction n rule: nat_str.induct)
  case (1 n)
  then show ?case
    by (cases "n < 10") (simp_all add: nat_str.simps[of n] parse_digits_def)
qed

lemma nat_str_inj [simp, codec]: "nat_str m = nat_str n \<longleftrightarrow> m = n"
  using parse_nat_str by metis

definition is_digit :: "char \<Rightarrow> bool" where
  "is_digit c \<longleftrightarrow> 48 \<le> (of_char c :: nat) \<and> (of_char c :: nat) \<le> 57"

lemma digits_nat_str: "list_all is_digit (nat_str n)"
proof (induction n rule: nat_str.induct)
  case (1 n)
  then show ?case
    by (cases "n < 10") (simp_all add: nat_str.simps[of n] is_digit_def)
qed

lemma nat_str_nonempty [simp]: "nat_str n \<noteq> []"
  by (subst nat_str.simps) simp

lemma notin_nat_str: "\<not> is_digit c \<Longrightarrow> c \<notin> set (nat_str n)"
  using digits_nat_str[of n] by (auto simp: list_all_iff)

section \<open>Splitting and joining\<close>

text \<open>\<open>str::split_once\<close> with a string pattern: the first occurrence.\<close>

fun split_once :: "string \<Rightarrow> string \<Rightarrow> (string \<times> string) option" where
  "split_once p [] = (if p = [] then Some ([], []) else None)"
| "split_once p (c # cs) =
     (if prefix p (c # cs) then Some ([], drop (length p) (c # cs))
      else map_option (\<lambda>(a, b). (c # a, b)) (split_once p cs))"

lemma split_once_Some: "split_once p s = Some (a, b) \<Longrightarrow> s = a @ p @ b"
  by (induction p s arbitrary: a b rule: split_once.induct)
     (auto split: if_splits simp: prefix_def)

lemma split_once_hit: "split_once p (p @ b) = Some ([], b)"
proof (cases p)
  case (Cons c cs)
  then show ?thesis by (simp add: prefix_def)
qed (cases b; simp)

text \<open>The pattern is found where it was put when its first character does not occur before.\<close>

lemma split_once_first:
  assumes "c \<notin> set a"
  shows "split_once (c # p) (a @ (c # p) @ b) = Some (a, b)"
  using assms by (induction a) (auto simp: prefix_def)

text \<open>\<open>str::split\<close> with a character.\<close>

fun split_char :: "char \<Rightarrow> string \<Rightarrow> string list" where
  "split_char c [] = [[]]"
| "split_char c (x # xs) =
     (if x = c then [] # split_char c xs
      else case split_char c xs of [] \<Rightarrow> [[x]] | w # ws \<Rightarrow> (x # w) # ws)"

text \<open>\<open>Vec<String>::join\<close>.\<close>

fun join_str :: "string \<Rightarrow> string list \<Rightarrow> string" where
  "join_str sep [] = []"
| "join_str sep [w] = w"
| "join_str sep (w # v # ws) = w @ sep @ join_str sep (v # ws)"

lemma split_char_nonempty [simp]: "split_char c s \<noteq> []"
  by (cases s) (auto split: list.splits)

lemma join_split: "join_str [c] (split_char c s) = s"
proof (induction s)
  case (Cons x xs)
  then show ?case by (cases "split_char c xs"; cases "tl (split_char c xs)") auto
qed simp

lemma hd_split_char: "hd (split_char c s) = takeWhile (\<lambda>x. x \<noteq> c) s"
proof (induction s)
  case (Cons x xs)
  then show ?case by (cases "split_char c xs") auto
qed simp

lemma split_char_parts: "w \<in> set (split_char c s) \<Longrightarrow> set w \<subseteq> set s - {c}"
proof (induction s arbitrary: w)
  case (Cons x xs)
  then show ?case by (cases "split_char c xs") (fastforce split: if_splits)+
qed simp

lemma set_join_str: "set (join_str sep ws) \<subseteq> set sep \<union> \<Union> (set ` set ws)"
  by (induction sep ws rule: join_str.induct) auto

lemma split_char_append_sep: "c \<notin> set w \<Longrightarrow> split_char c (w @ c # s) = w # split_char c s"
  by (induction w) auto

lemma split_char_no_sep: "c \<notin> set w \<Longrightarrow> split_char c w = [w]"
  by (induction w) auto

lemma split_join:
  "ws \<noteq> [] \<Longrightarrow> (\<forall>w \<in> set ws. c \<notin> set w) \<Longrightarrow> split_char c (join_str [c] ws) = ws"
proof (induction "[c]" ws rule: join_str.induct)
  case (3 w v ws)
  then show ?case by (simp add: split_char_append_sep)
qed (simp_all add: split_char_no_sep)

text \<open>A separator that does not occur in the fields before it determines them.\<close>

lemma append_sep_inj:
  assumes "c \<notin> set a" and "c \<notin> set b" and eq: "a @ c # r = b @ c # s"
  shows "a = b \<and> r = s"
proof -
  have hit: "takeWhile (\<lambda>x. x \<noteq> c) (w @ c # u) = w" if "c \<notin> set w" for w u
    using that by (induction w) auto
  have "a = b" using arg_cong[OF eq, of "takeWhile (\<lambda>x. x \<noteq> c)"] assms(1,2) by (simp add: hit)
  with eq show ?thesis by simp
qed

section \<open>Characters and UTF-8\<close>

abbreviation char_code :: "char \<Rightarrow> nat" where "char_code c \<equiv> of_char c"

definition is_continuation :: "char \<Rightarrow> bool" where
  "is_continuation c \<longleftrightarrow> 128 \<le> char_code c \<and> char_code c \<le> 191"

text \<open>\<open>str::chars\<close>: every character as its UTF-8 bytes.\<close>

function utf8_chars :: "string \<Rightarrow> string list" where
  "utf8_chars [] = []"
| "utf8_chars (c # cs) =
     (c # takeWhile is_continuation cs) # utf8_chars (dropWhile is_continuation cs)"
  by pat_completeness auto
termination
  by (relation "measure length") (auto simp: le_imp_less_Suc length_dropWhile_le)

text \<open>\<open>core::str::from_utf8\<close> accepts exactly the well-formed sequences of the Unicode standard (table 3-7).\<close>

definition in_range :: "nat \<Rightarrow> nat \<Rightarrow> char \<Rightarrow> bool" where
  "in_range lo hi c \<longleftrightarrow> lo \<le> char_code c \<and> char_code c \<le> hi"

definition utf8_second :: "char \<Rightarrow> char \<Rightarrow> bool" where
  "utf8_second b c =
     (if char_code b = 0xE0 then in_range 0xA0 0xBF c
      else if char_code b = 0xED then in_range 0x80 0x9F c
      else if char_code b = 0xF0 then in_range 0x90 0xBF c
      else if char_code b = 0xF4 then in_range 0x80 0x8F c
      else in_range 0x80 0xBF c)"

fun utf8_valid :: "string \<Rightarrow> bool" where
  "utf8_valid [] \<longleftrightarrow> True"
| "utf8_valid [b] \<longleftrightarrow> char_code b < 128"
| "utf8_valid [b, c] \<longleftrightarrow>
     (if char_code b < 128 then utf8_valid [c] else in_range 0xC2 0xDF b \<and> utf8_second b c)"
| "utf8_valid [b, c, d] \<longleftrightarrow>
     (if char_code b < 128 then utf8_valid [c, d]
      else if in_range 0xC2 0xDF b then utf8_second b c \<and> utf8_valid [d]
      else in_range 0xE0 0xEF b \<and> utf8_second b c \<and> is_continuation d)"
| "utf8_valid (b # c # d # e # cs) \<longleftrightarrow>
     (if char_code b < 128 then utf8_valid (c # d # e # cs)
      else if in_range 0xC2 0xDF b then utf8_second b c \<and> utf8_valid (d # e # cs)
      else if in_range 0xE0 0xEF b then utf8_second b c \<and> is_continuation d \<and> utf8_valid (e # cs)
      else in_range 0xF0 0xF4 b \<and> utf8_second b c \<and> is_continuation d \<and> is_continuation e \<and> utf8_valid cs)"

definition is_ascii :: "char \<Rightarrow> bool" where
  "is_ascii c \<longleftrightarrow> char_code c < 128"

lemma ascii_utf8_valid: "list_all is_ascii s \<Longrightarrow> utf8_valid s"
  by (induction s rule: utf8_valid.induct) (auto simp: is_ascii_def)

lemma concat_utf8_chars: "concat (utf8_chars s) = s"
proof (induction s rule: utf8_chars.induct)
  case (2 c cs)
  then show ?case by simp
qed simp

text \<open>\<open>slice::chunks\<close>.\<close>

fun chunks :: "nat \<Rightarrow> 'a list \<Rightarrow> 'a list list" where
  "chunks n xs = (if xs = [] \<or> n = 0 then [] else take n xs # chunks n (drop n xs))"

declare chunks.simps [simp del]

lemma chunks_Nil [simp]: "chunks n [] = []"
  by (subst chunks.simps) simp

lemma concat_take_chunks: "0 < n \<Longrightarrow> concat (take k (chunks n xs)) = take (k * n) xs"
proof (induction k arbitrary: xs)
  case (Suc k)
  show ?case
  proof (cases "xs = []")
    case False
    with Suc.prems have "chunks n xs = take n xs # chunks n (drop n xs)" by (subst chunks.simps) simp
    then show ?thesis using Suc by (simp add: take_add[of n, symmetric])
  qed simp
qed simp

lemma chunks_length: "w \<in> set (chunks n xs) \<Longrightarrow> length w \<le> n"
proof (induction n xs rule: chunks.induct)
  case (1 n xs)
  then show ?case by (subst (asm) (2) chunks.simps) (auto split: if_splits)
qed

lemma set_chunks: "w \<in> set (chunks n xs) \<Longrightarrow> set w \<subseteq> set xs"
proof (induction n xs rule: chunks.induct)
  case (1 n xs)
  then show ?case
    by (subst (asm) (2) chunks.simps) (auto split: if_splits dest: in_set_takeD in_set_dropD)
qed

section \<open>Case\<close>

definition is_ascii_alphanumeric :: "char \<Rightarrow> bool" where
  "is_ascii_alphanumeric c \<longleftrightarrow>
     in_range 48 57 c \<or> in_range 65 90 c \<or> in_range 97 122 c"

definition to_ascii_lowercase :: "char \<Rightarrow> char" where
  "to_ascii_lowercase c = (if in_range 65 90 c then char_of (char_code c + 32) else c)"

text \<open>\<open>str::strip_prefix\<close>, \<open>str::strip_suffix\<close>, and \<open>u64::from_str\<close>, which accepts a leading plus sign.\<close>

definition strip_prefix :: "string \<Rightarrow> string \<Rightarrow> string option" where
  "strip_prefix p s = (if prefix p s then Some (drop (length p) s) else None)"

definition strip_suffix :: "string \<Rightarrow> string \<Rightarrow> string option" where
  "strip_suffix p s = (if suffix p s then Some (take (length s - length p) s) else None)"

definition parse_u64 :: "string \<Rightarrow> nat option" where
  "parse_u64 s =
     (let ds = (case s of [] \<Rightarrow> [] | c # cs \<Rightarrow> if c = CHR ''+'' then cs else s)
      in if ds \<noteq> [] \<and> list_all is_digit ds \<and> parse_digits ds \<le> u64_max then Some (parse_digits ds) else None)"

lemma strip_prefix_append [simp]: "strip_prefix p (p @ s) = Some s"
  by (simp add: strip_prefix_def)

lemma strip_suffix_append [simp]: "strip_suffix p (s @ p) = Some s"
  by (simp add: strip_suffix_def suffix_def)

lemma parse_u64_nat_str: "n \<le> u64_max \<Longrightarrow> parse_u64 (nat_str n) = Some n"
  using digits_nat_str[of n] parse_nat_str[of n]
  by (cases "nat_str n") (auto simp: parse_u64_def is_digit_def Let_def simp del: parse_nat_str)

section \<open>Trimming\<close>

lemma strip_all_stuck: "strip_one ws (strip_all ws s) = None"
proof (induction ws s rule: strip_all.induct)
  case (1 ws s)
  then show ?case by (subst strip_all.simps) (auto split: option.splits)
qed

lemma strip_all_id: "strip_one ws s = None \<Longrightarrow> strip_all ws s = s"
  by (subst strip_all.simps) simp

lemma strip_all_idem [simp]: "strip_all ws (strip_all ws s) = strip_all ws s"
  by (intro strip_all_id strip_all_stuck)

lemma strip_one_suffix: "strip_one ws s = Some t \<Longrightarrow> suffix t s"
  by (auto simp: strip_one_def suffix_drop)

lemma strip_all_suffix: "suffix (strip_all ws s) s"
proof (induction ws s rule: strip_all.induct)
  case (1 ws s)
  then show ?case
    by (subst strip_all.simps) (auto split: option.splits intro: suffix_order.trans dest: strip_one_suffix)
qed

lemma trim_end_prefix: "prefix (trim_end s) s"
  using strip_all_suffix[of "map rev utf8_whitespace" "rev s"]
  by (simp add: trim_end_def suffix_to_prefix)

lemma strip_one_prefix: "prefix t s \<Longrightarrow> strip_one ws s = None \<Longrightarrow> strip_one ws t = None"
  by (auto simp: strip_one_def find_None_iff intro: prefix_order.trans)

lemma trim_id:
  "strip_one utf8_whitespace s = None \<Longrightarrow> strip_one (map rev utf8_whitespace) (rev s) = None \<Longrightarrow> trim s = s"
  by (simp add: trim_def trim_start_def trim_end_def strip_all_id)

lemma trim_idem [simp]: "trim (trim s) = trim s"
proof -
  have "strip_one utf8_whitespace (trim s) = None"
    unfolding trim_def trim_start_def by (rule strip_one_prefix[OF trim_end_prefix strip_all_stuck])
  then have "trim_start (trim s) = trim s" by (simp add: trim_start_def strip_all_id)
  then show ?thesis by (simp add: trim_def trim_end_def)
qed

end
