(* ===== verification/Crypto_Params.thy ===== *)
theory Crypto_Params
  imports Rust_Text
begin

text \<open>
  The crates \<open>ed25519-dalek\<close>, \<open>sha2\<close>, \<open>hex\<close> and \<open>uuid\<close>, which are not part of the repository, as parameters
  of the models that call them, and the documented behaviour that some theorems assume of them.
  \<open>ed_public\<close> is the encoded verifying key of a signing key, \<open>ed_secret\<close> and \<open>ed_from_secret\<close> are
  \<open>SigningKey::to_bytes\<close> and \<open>SigningKey::from_bytes\<close>; \<open>ed_key_ok\<close> and \<open>ed_sig_ok\<close> say which byte
  strings \<open>VerifyingKey::from_bytes\<close> and \<open>Signature::from_slice\<close> accept. SHA-256 is a function
  argument \<open>sha256\<close> of the definitions that hash.
\<close>

record 'sk ed25519 =
  ed_public :: "'sk \<Rightarrow> bytes"
  ed_secret :: "'sk \<Rightarrow> bytes"
  ed_from_secret :: "bytes \<Rightarrow> 'sk"
  ed_sign :: "'sk \<Rightarrow> bytes \<Rightarrow> bytes"
  ed_key_ok :: "bytes \<Rightarrow> bool"
  ed_sig_ok :: "bytes \<Rightarrow> bool"
  ed_verify :: "bytes \<Rightarrow> bytes \<Rightarrow> bytes \<Rightarrow> bool"

text \<open>Documented: keys have 32 and signatures 64 bytes, and an honest signature verifies.\<close>

definition ed25519_correct :: "'sk ed25519 \<Rightarrow> bool" where
  "ed25519_correct ed \<longleftrightarrow>
     (\<forall>sk m. length (ed_public ed sk) = 32 \<and> ed_key_ok ed (ed_public ed sk) \<and>
        length (ed_sign ed sk m) = 64 \<and> ed_sig_ok ed (ed_sign ed sk m) \<and>
        ed_verify ed (ed_public ed sk) m (ed_sign ed sk m) \<and>
        length (ed_secret ed sk) = 32 \<and> ed_from_secret ed (ed_secret ed sk) = sk)"

text \<open>
  A transparent instance, in which the secret key is a number that is its own encoding and every
  signature is zero: it obeys \<open>ed25519_correct\<close> and serves the witnesses.
\<close>

definition ed_demo :: "256 word ed25519" where
  "ed_demo = \<lparr>ed_public = (\<lambda>sk. be_bytes 32 (unat sk)), ed_secret = (\<lambda>sk. be_bytes 32 (unat sk)),
     ed_from_secret = (\<lambda>b. word_of_nat (from_be b)), ed_sign = (\<lambda>sk m. replicate 64 0),
     ed_key_ok = (\<lambda>k. length k = 32), ed_sig_ok = (\<lambda>s. length s = 64), ed_verify = (\<lambda>k m s. s = replicate 64 0)\<rparr>"

lemma ed_demo_correct: "ed25519_correct ed_demo"
proof -
  have "unat (sk :: 256 word) mod 256 ^ 32 = unat sk" for sk
    using unsigned_less[of sk, where ?'a = nat] by (intro mod_less) simp
  then show ?thesis by (simp add: ed25519_correct_def ed_demo_def from_be_be_bytes)
qed

text \<open>A 32-byte function that stands for SHA-256 in the witnesses: it keeps the first 32 bytes.\<close>

definition sha_demo :: "bytes \<Rightarrow> bytes" where
  "sha_demo m = take 32 (m @ replicate 32 0)"

lemma length_sha_demo [simp]: "length (sha_demo m) = 32"
  by (simp add: sha_demo_def)

text \<open>
  \<open>hex::encode\<close> and \<open>hex::decode\<close>. Documented: lower-case digits, two per byte in the order of the bytes; decoding inverts
  encoding and succeeds only on strings with two characters per byte.
\<close>

record hex_codec =
  hx_encode :: "bytes \<Rightarrow> string"
  hx_decode :: "string \<Rightarrow> string + bytes"

definition is_hex_digit :: "char \<Rightarrow> bool" where
  "is_hex_digit c \<longleftrightarrow> is_digit c \<or> in_range 97 102 c"

definition hex_correct :: "hex_codec \<Rightarrow> bool" where
  "hex_correct hx \<longleftrightarrow>
     (\<forall>bs. hx_decode hx (hx_encode hx bs) = Inr bs \<and> length (hx_encode hx bs) = 2 * length bs \<and>
        list_all is_hex_digit (hx_encode hx bs)) \<and>
     (\<forall>as bs. hx_encode hx (as @ bs) = hx_encode hx as @ hx_encode hx bs) \<and>
     (\<forall>s bs. hx_decode hx s = Inr bs \<longrightarrow> length s = 2 * length bs)"

definition hex_digit :: "nat \<Rightarrow> char" where
  "hex_digit n = (if n < 10 then char_of (48 + n) else char_of (87 + n))"

definition hex_value :: "char \<Rightarrow> nat option" where
  "hex_value c = (if is_digit c then Some (char_code c - 48) else if in_range 97 102 c then Some (char_code c - 87)
     else if in_range 65 70 c then Some (char_code c - 55) else None)"

fun hex_decode_demo :: "string \<Rightarrow> string + bytes" where
  "hex_decode_demo [] = Inr []"
| "hex_decode_demo [c] = Inl ''Odd number of digits''"
| "hex_decode_demo (c # d # s) = (case (hex_value c, hex_value d) of
     (Some a, Some b) \<Rightarrow> and_then (hex_decode_demo s) (\<lambda>bs. Inr (word_of_nat (16 * a + b) # bs))
   | _ \<Rightarrow> Inl ''Invalid character'')"

definition hex_encode_demo :: "bytes \<Rightarrow> string" where
  "hex_encode_demo bs = concat (map (\<lambda>b. [hex_digit (unat b div 16), hex_digit (unat b mod 16)]) bs)"

definition hex_demo :: hex_codec where
  "hex_demo = \<lparr>hx_encode = hex_encode_demo, hx_decode = hex_decode_demo\<rparr>"

lemma hex_digit_value: "n < 16 \<Longrightarrow> hex_value (hex_digit n) = Some n \<and> is_hex_digit (hex_digit n)"
  by (auto simp: hex_value_def hex_digit_def is_digit_def in_range_def is_hex_digit_def)

lemma hex_encode_demo_Cons:
  "hex_encode_demo (b # bs) = hex_digit (unat b div 16) # hex_digit (unat b mod 16) # hex_encode_demo bs"
  by (simp add: hex_encode_demo_def)

lemma unat_byte: "unat (b :: u8) < 256"
  using unsigned_less[of b, where ?'a = nat] by simp

lemma hex_demo_correct: "hex_correct hex_demo"
proof -
  have "hex_decode_demo (hex_encode_demo bs) = Inr bs \<and> length (hex_encode_demo bs) = 2 * length bs \<and>
      list_all is_hex_digit (hex_encode_demo bs)" for bs
  proof (induction bs)
    case (Cons b bs)
    have "unat b div 16 < 16" "unat b mod 16 < 16" using unat_byte[of b] by simp_all
    then show ?case using Cons by (simp add: hex_encode_demo_Cons hex_digit_value)
  qed (simp add: hex_encode_demo_def)
  moreover have "length s = 2 * length bs" if "hex_decode_demo s = Inr bs" for s bs
    using that by (induction s arbitrary: bs rule: hex_decode_demo.induct)
      (auto simp: and_then_Inr split: option.splits)
  ultimately show ?thesis by (simp add: hex_correct_def hex_demo_def) (simp add: hex_encode_demo_def)
qed

lemma hex_encode_inj: "hex_correct hx \<Longrightarrow> hx_encode hx a = hx_encode hx b \<longleftrightarrow> a = b"
  by (metis hex_correct_def Inr_inject)

lemma hex_encode_take:
  assumes "hex_correct hx"
  shows "take (2 * n) (hx_encode hx bs) = hx_encode hx (take n bs)"
proof (cases "n \<le> length bs")
  case True
  then have "length (hx_encode hx (take n bs)) = 2 * n"
    using assms by (simp add: hex_correct_def)
  moreover have "hx_encode hx bs = hx_encode hx (take n bs) @ hx_encode hx (drop n bs)"
    using assms by (metis append_take_drop_id hex_correct_def)
  ultimately show ?thesis by (metis append_eq_conv_conj)
next
  case False
  then show ?thesis using assms by (simp add: hex_correct_def)
qed

lemma hex_encode_no:
  assumes "hex_correct hx" and "\<not> is_hex_digit c"
  shows "c \<notin> set (hx_encode hx bs)"
  using assms by (auto simp: hex_correct_def list_all_iff)

text \<open>
  A \<open>Uuid\<close> is a 128-bit value ordered as its bytes; \<open>Uuid::new_v4\<close> draws one, so the operations that call it take
  the drawn value as an argument. Documented: the hyphenated form has 36 characters and determines
  the value.
\<close>

type_synonym uuid = "128 word"

definition uuid_display_ok :: "(uuid \<Rightarrow> string) \<Rightarrow> bool" where
  "uuid_display_ok show_uuid \<longleftrightarrow> inj show_uuid \<and> (\<forall>u. length (show_uuid u) = 36)"

definition uuid_demo :: "uuid \<Rightarrow> string" where
  "uuid_demo u = (let h = hex_encode_demo (be_bytes 16 (unat u))
     in take 8 h @ ''-'' @ take 4 (drop 8 h) @ ''-'' @ take 4 (drop 12 h) @ ''-'' @ take 4 (drop 16 h) @ ''-'' @ drop 20 h)"

lemma uuid_demo_ok: "uuid_display_ok uuid_demo"
proof -
  have len: "length (hex_encode_demo (be_bytes 16 n)) = 32" for n
    using hex_demo_correct by (simp add: hex_correct_def hex_demo_def)
  have "u = v" if "uuid_demo u = uuid_demo v" for u v
  proof -
    let ?h = "\<lambda>u :: uuid. hex_encode_demo (be_bytes 16 (unat u))"
    from that have parts: "take 8 (?h u) = take 8 (?h v)" "take 4 (drop 8 (?h u)) = take 4 (drop 8 (?h v))"
      "take 4 (drop 12 (?h u)) = take 4 (drop 12 (?h v))" "take 4 (drop 16 (?h u)) = take 4 (drop 16 (?h v))"
      "drop 20 (?h u) = drop 20 (?h v)"
      by (simp_all add: uuid_demo_def len Let_def)
    have split: "x = take 8 x @ take 4 (drop 8 x) @ take 4 (drop 12 x) @ take 4 (drop 16 x) @ drop 20 x" for x :: string
    proof -
      have "x = take 8 x @ drop 8 x" by simp
      also have "drop 8 x = take 4 (drop 8 x) @ drop 12 x" using append_take_drop_id[of 4 "drop 8 x"] by simp
      also have "drop 12 x = take 4 (drop 12 x) @ drop 16 x" using append_take_drop_id[of 4 "drop 12 x"] by simp
      also have "drop 16 x = take 4 (drop 16 x) @ drop 20 x" using append_take_drop_id[of 4 "drop 16 x"] by simp
      finally show ?thesis by simp
    qed
    have "?h u = ?h v" by (subst split, subst (2) split, simp only: parts)
    then have "be_bytes 16 (unat u) = be_bytes 16 (unat v)"
      using hex_encode_inj[OF hex_demo_correct] by (simp add: hex_demo_def)
    then have "unat u = unat v"
      using unsigned_less[of u, where ?'a = nat] unsigned_less[of v, where ?'a = nat] by (intro be_bytes_inj[where k = 16]) simp_all
    then show ?thesis by (simp add: unsigned_word_eqI)
  qed
  then show ?thesis by (auto simp: uuid_display_ok_def inj_def) (simp add: uuid_demo_def len Let_def)
qed

text \<open>
  \<open>aes-gcm\<close>: encryption and decryption under a key, a nonce and associated data. Documented: decryption
  inverts encryption; and for a given key, nonce and associated data a ciphertext that decrypts is
  the encryption of the result (the tag is a function of the ciphertext and they are checked together).
\<close>

record aead =
  ae_encrypt :: "bytes \<Rightarrow> bytes \<Rightarrow> bytes \<Rightarrow> bytes \<Rightarrow> bytes option"
  ae_decrypt :: "bytes \<Rightarrow> bytes \<Rightarrow> bytes \<Rightarrow> bytes \<Rightarrow> bytes option"

definition aead_correct :: "aead \<Rightarrow> bool" where
  "aead_correct ae \<longleftrightarrow> (\<forall>k n a m c. ae_encrypt ae k n a m = Some c \<longleftrightarrow> ae_decrypt ae k n a c = Some m)"

text \<open>A transparent instance: the tag is the nonce and the associated data, in front of the message.\<close>

definition aead_demo :: aead where
  "aead_demo = \<lparr>ae_encrypt = (\<lambda>k n a m. Some (n @ a @ m)),
     ae_decrypt = (\<lambda>k n a c. if take (length n + length a) c = n @ a then Some (drop (length n + length a) c) else None)\<rparr>"

lemma aead_demo_correct: "aead_correct aead_demo"
proof -
  have "n @ a @ m = c \<longleftrightarrow> take (length n + length a) c = n @ a \<and> drop (length n + length a) c = m" for n a m c :: bytes
    by (metis append.assoc append_eq_conv_conj length_append)
  then show ?thesis by (simp add: aead_correct_def aead_demo_def)
qed

text \<open>
  Canonical orders: several components sort a batch by a key before they process it, so that every
  peer processes it in the same order. The client facts hold for any such order.
\<close>

locale canonical_order =
  fixes key :: "'e \<Rightarrow> 'k::linorder"
    and order :: "'e list \<Rightarrow> 'e list"
  assumes order_sorts: "order es = sort_key key es"
begin

lemma mset_order [simp]: "mset (order es) = mset es"
  by (simp add: order_sorts)

lemma set_order [simp]: "set (order es) = set es"
  by (simp add: order_sorts)

lemma length_order [simp]: "length (order es) = length es"
  by (simp add: order_sorts)

lemma sorted_order: "sorted (map key (order es))"
  by (simp add: order_sorts)

lemma order_idem: "order (order es) = order es"
  by (simp add: order_sorts sorted_sort_id sort_key_id_if_sorted)

text \<open>Peers that hold the same batch process it in the same order, however it reached them.\<close>

lemma order_perm:
  assumes "mset es = mset es'" and "inj_on key (set es)"
  shows "order es = order es'"
proof -
  have "sort_key key es = sort_key key es'"
    using assms by (intro sort_key_inj_key_eq) simp_all
  then show ?thesis by (simp add: order_sorts)
qed

text \<open>Inserting one by one and sorting once give the same list.\<close>

lemma order_snoc_order:
  assumes "inj_on key (insert e (set es))"
  shows "order (order es @ [e]) = order (es @ [e])"
  using assms by (intro order_perm) simp_all

lemma order_fold:
  "inj_on key (set es \<union> set as) \<Longrightarrow> fold (\<lambda>e as. order (as @ [e])) es (order as) = order (as @ es)"
proof (induction es arbitrary: as)
  case (Cons e es)
  then have inj: "inj_on key (insert e (set as))" by (auto simp: inj_on_def)
  have "fold (\<lambda>e as. order (as @ [e])) (e # es) (order as) =
      fold (\<lambda>e as. order (as @ [e])) es (order (as @ [e]))"
    by (simp add: order_snoc_order[OF inj])
  also have "\<dots> = order ((as @ [e]) @ es)"
    using Cons.prems by (intro Cons.IH) (auto simp: Un_commute)
  finally show ?case by simp
qed simp

end

end
