(* ===== verification/Identity.thy ===== *)
theory Identity
  imports Crypto_Params
begin

text \<open>
  Local identities (\<open>crates/mls-core/src/identity.rs\<close>): friend codes, safety numbers, and the sealed
  backup of the signing key. A \<open>VerifyingKey\<close> is its 32 bytes; the random key of \<open>Identity::generate\<close> is an
  argument. The main results: a friend code yields the key it was made from, and equal safety numbers mean equal pairs of
  keys unless the truncated digest collides.
\<close>

section \<open>Friend codes\<close>

definition slug_char :: "string \<Rightarrow> char" where
  "slug_char character =
     (case character of
        [c] \<Rightarrow> if is_ascii_alphanumeric c then to_ascii_lowercase c
               else if c = CHR ''-'' \<or> c = CHR ''_'' then c else CHR ''-''
      | _ \<Rightarrow> CHR ''-'')"

definition slugify :: "string \<Rightarrow> string" where
  "slugify label =
     (let slug = join_str ''-'' (filter (\<lambda>part. part \<noteq> [])
            (split_char CHR ''-'' (map slug_char (utf8_chars (trim label)))))
      in if slug = [] then ''contact'' else slug)"

datatype friend_code = FriendCode (fc_str: string)

definition from_payload :: "string \<Rightarrow> friend_code" where
  "from_payload payload = FriendCode payload"

definition from_verifying_key :: "(bytes \<Rightarrow> bytes) \<Rightarrow> hex_codec \<Rightarrow> string \<Rightarrow> bytes \<Rightarrow> friend_code" where
  "from_verifying_key sha256 hx display_name vk =
     FriendCode (''discrypt://friend/v1/'' @ slugify display_name @ ''?ik='' @ hx_encode hx vk @
       ''&fp='' @ hx_encode hx (take 10 (sha256 vk)))"

definition verifying_key_from_hex :: "'sk ed25519 \<Rightarrow> hex_codec \<Rightarrow> string \<Rightarrow> bytes option" where
  "verifying_key_from_hex ed hx identity_key_hex =
     (case hx_decode hx identity_key_hex of
        Inl _ \<Rightarrow> None
      | Inr decoded \<Rightarrow> if length decoded = 32 \<and> ed_key_ok ed decoded then Some decoded else None)"

definition friend_code_key :: "'sk ed25519 \<Rightarrow> hex_codec \<Rightarrow> friend_code \<Rightarrow> bytes option" where
  "friend_code_key ed hx code =
     (case split_once ''?ik='' (fc_str code) of
        None \<Rightarrow> None
      | Some (_, tail) \<Rightarrow>
          (case hx_decode hx (hd (split_char CHR ''&'' tail)) of
             Inl _ \<Rightarrow> None
           | Inr decoded \<Rightarrow> if length decoded = 32 \<and> ed_key_ok ed decoded then Some decoded else None))"

section \<open>Safety numbers\<close>

definition utf8_or_default :: "string \<Rightarrow> string" where
  "utf8_or_default c = (if utf8_valid c then c else [])"

definition safety_preimage :: "bytes \<Rightarrow> bytes \<Rightarrow> bytes" where
  "safety_preimage ours peer = concat (sort [ours, peer])"

definition from_identity_keys :: "(bytes \<Rightarrow> bytes) \<Rightarrow> hex_codec \<Rightarrow> bytes \<Rightarrow> bytes \<Rightarrow> string" where
  "from_identity_keys sha256 hx ours peer =
     (let digest = hx_encode hx (sha256 (safety_preimage ours peer))
      in join_str '' '' (map utf8_or_default (take 12 (chunks 4 digest))))"

section \<open>Identities\<close>

record 'sk identity =
  display_name :: string
  signing_key :: 'sk

definition identity_generate :: "string \<Rightarrow> 'sk \<Rightarrow> 'sk identity" where
  "identity_generate name key = \<lparr>display_name = name, signing_key = key\<rparr>"

definition from_signing_key :: "'sk ed25519 \<Rightarrow> string \<Rightarrow> bytes \<Rightarrow> 'sk identity" where
  "from_signing_key ed name key_bytes = \<lparr>display_name = name, signing_key = ed_from_secret ed key_bytes\<rparr>"

definition verifying_key :: "'sk ed25519 \<Rightarrow> 'sk identity \<Rightarrow> bytes" where
  "verifying_key ed i = ed_public ed (signing_key i)"

definition sealed_backup_material :: "'sk ed25519 \<Rightarrow> 'sk identity \<Rightarrow> bytes" where
  "sealed_backup_material ed i = ed_secret ed (signing_key i)"

definition sign_pairing_authorization :: "'sk ed25519 \<Rightarrow> 'sk identity \<Rightarrow> bytes \<Rightarrow> bytes" where
  "sign_pairing_authorization ed i message = ed_sign ed (signing_key i) message"

definition identity_friend_code :: "(bytes \<Rightarrow> bytes) \<Rightarrow> 'sk ed25519 \<Rightarrow> hex_codec \<Rightarrow> 'sk identity \<Rightarrow> friend_code" where
  "identity_friend_code sha256 ed hx i = from_verifying_key sha256 hx (display_name i) (verifying_key ed i)"

definition safety_number :: "(bytes \<Rightarrow> bytes) \<Rightarrow> 'sk ed25519 \<Rightarrow> hex_codec \<Rightarrow> 'sk identity \<Rightarrow> bytes \<Rightarrow> string" where
  "safety_number sha256 ed hx i peer = from_identity_keys sha256 hx (verifying_key ed i) peer"

definition safety_number_from_friend_code ::
  "(bytes \<Rightarrow> bytes) \<Rightarrow> 'sk ed25519 \<Rightarrow> hex_codec \<Rightarrow> 'sk identity \<Rightarrow> friend_code \<Rightarrow> string option" where
  "safety_number_from_friend_code sha256 ed hx i peer =
     map_option (safety_number sha256 ed hx i) (friend_code_key ed hx peer)"

section \<open>Friend codes round trip\<close>

lemma to_ascii_lowercase_range:
  "is_ascii_alphanumeric c \<Longrightarrow> in_range 48 57 (to_ascii_lowercase c) \<or> in_range 97 122 (to_ascii_lowercase c)"
  by (auto simp: is_ascii_alphanumeric_def to_ascii_lowercase_def in_range_def)

definition slug_alphabet :: "char \<Rightarrow> bool" where
  "slug_alphabet c \<longleftrightarrow> in_range 48 57 c \<or> in_range 97 122 c \<or> c = CHR ''-'' \<or> c = CHR ''_''"

lemma slug_char_alphabet: "slug_alphabet (slug_char ch)"
  using to_ascii_lowercase_range
  by (auto simp: slug_char_def slug_alphabet_def split: list.splits)

lemma slugify_alphabet: "c \<in> set (slugify label) \<Longrightarrow> slug_alphabet c"
proof -
  let ?ps = "split_char CHR ''-'' (map slug_char (utf8_chars (trim label)))"
  assume c: "c \<in> set (slugify label)"
  have "set (join_str ''-'' (filter (\<lambda>p. p \<noteq> []) ?ps)) \<subseteq> insert CHR ''-'' (\<Union> (set ` set ?ps))"
    using set_join_str[of "''-''" "filter (\<lambda>p. p \<noteq> []) ?ps"] by auto
  moreover have "\<Union> (set ` set ?ps) \<subseteq> slug_char ` set (utf8_chars (trim label))"
    using split_char_parts by fastforce
  moreover have "list_all slug_alphabet ''contact''" by (simp add: slug_alphabet_def in_range_def)
  ultimately show ?thesis using c slug_char_alphabet
    by (auto simp: slugify_def Let_def list_all_iff slug_alphabet_def split: if_splits)
qed

lemma no_query_in_slug: "CHR ''?'' \<notin> set (''discrypt://friend/v1/'' @ slugify label)"
  using slugify_alphabet[of "CHR ''?''" label] by (auto simp: slug_alphabet_def in_range_def)

text \<open>
  A friend code yields the key it was made from, whatever the display name: the name is
  reduced to a slug that cannot disturb the key field, and the number that two people compare is the
  same whether it is computed from the key or from the scanned code.
\<close>

theorem friend_code_round_trip:
  assumes "hex_correct hx" and "length vk = 32" and "ed_key_ok ed vk"
  shows "friend_code_key ed hx (from_verifying_key sha256 hx name vk) = Some vk \<and>
    safety_number_from_friend_code sha256 ed hx i (from_verifying_key sha256 hx name vk) =
      Some (safety_number sha256 ed hx i vk)"
proof -
  have "split_once ''?ik='' (fc_str (from_verifying_key sha256 hx name vk)) =
      Some (''discrypt://friend/v1/'' @ slugify name,
        hx_encode hx vk @ CHR ''&'' # ''fp='' @ hx_encode hx (take 10 (sha256 vk)))"
    using split_once_first[OF no_query_in_slug, of "''ik=''" name] by (simp add: from_verifying_key_def)
  moreover have "CHR ''&'' \<notin> set (hx_encode hx vk)"
    using assms(1) by (rule hex_encode_no) (simp add: is_hex_digit_def is_digit_def in_range_def)
  ultimately have "friend_code_key ed hx (from_verifying_key sha256 hx name vk) = Some vk"
    using assms by (simp add: friend_code_key_def split_char_append_sep hex_correct_def)
  then show ?thesis by (simp add: safety_number_from_friend_code_def)
qed

theorem friend_code_round_trip_witness:
  "friend_code_key ed_demo hex_demo (from_verifying_key (\<lambda>b. b) hex_demo ''Ann?ik=0&'' (replicate 32 7)) = Some (replicate 32 7) \<and>
   safety_number_from_friend_code (\<lambda>b. b) ed_demo hex_demo (identity_generate ''Bob'' 5)
     (from_verifying_key (\<lambda>b. b) hex_demo ''Ann?ik=0&'' (replicate 32 7)) =
   Some (safety_number (\<lambda>b. b) ed_demo hex_demo (identity_generate ''Bob'' 5) (replicate 32 7))"
  by (rule friend_code_round_trip[OF hex_demo_correct]) (simp_all add: ed_demo_def)

section \<open>Safety numbers bind the two keys\<close>

lemma safety_preimage_sym: "safety_preimage a b = safety_preimage b a"
  by (auto simp: safety_preimage_def)

lemma safety_preimage_keys:
  assumes "length a = n" "length b = n" "length c = n" "length d = n"
    and "safety_preimage a b = safety_preimage c d"
  shows "{a, b} = {c, d}"
  using assms by (auto simp: safety_preimage_def split: if_splits)

lemma hex_ascii: "is_hex_digit c \<Longrightarrow> is_ascii c"
  by (auto simp: is_hex_digit_def is_digit_def in_range_def is_ascii_def)

lemma utf8_or_default_hex: "hex_correct hx \<Longrightarrow> w \<in> set (chunks 4 (hx_encode hx bs)) \<Longrightarrow> utf8_or_default w = w"
proof -
  assume "hex_correct hx" and "w \<in> set (chunks 4 (hx_encode hx bs))"
  then have "list_all is_ascii w"
    using set_chunks[of w 4 "hx_encode hx bs"] hex_ascii by (auto simp: hex_correct_def list_all_iff)
  then show ?thesis by (simp add: utf8_or_default_def ascii_utf8_valid)
qed

lemma join_inj_no_sep:
  assumes "join_str [c] ws = join_str [c] vs" and "\<forall>w \<in> set ws. c \<notin> set w" "\<forall>w \<in> set vs. c \<notin> set w"
    and "ws \<noteq> []" "vs \<noteq> []"
  shows "ws = vs"
  using assms split_join by metis

lemma chunks_eq_Nil: "0 < n \<Longrightarrow> chunks n xs = [] \<longleftrightarrow> xs = []"
  by (subst chunks.simps) simp

text \<open>The printed number shows the first 24 bytes of the digest.\<close>

lemma from_identity_keys_digest:
  assumes hx: "hex_correct hx"
    and eq: "from_identity_keys sha256 hx a b = from_identity_keys sha256 hx c d"
    and ne: "sha256 (safety_preimage a b) \<noteq> []" "sha256 (safety_preimage c d) \<noteq> []"
  shows "take 24 (sha256 (safety_preimage a b)) = take 24 (sha256 (safety_preimage c d))"
proof -
  let ?h = "\<lambda>x y. hx_encode hx (sha256 (safety_preimage x y))"
  have map_id: "map utf8_or_default (take 12 (chunks 4 (?h x y))) = take 12 (chunks 4 (?h x y))" for x y
    using utf8_or_default_hex[OF hx] by (intro map_idI) (blast dest: in_set_takeD)
  have sp: "\<forall>w \<in> set (take 12 (chunks 4 (?h x y))). CHR '' '' \<notin> set w" for x y
    using hex_encode_no[OF hx, of "CHR '' ''" "sha256 (safety_preimage x y)"] set_chunks
    by (fastforce simp: is_hex_digit_def is_digit_def in_range_def dest: in_set_takeD)
  have nonempty: "take 12 (chunks 4 (?h x y)) \<noteq> []" if "sha256 (safety_preimage x y) \<noteq> []" for x y
  proof -
    have "length (?h x y) \<noteq> 0" using that hx by (simp add: hex_correct_def)
    then show ?thesis by (simp add: chunks_eq_Nil)
  qed
  from eq have "join_str '' '' (take 12 (chunks 4 (?h a b))) = join_str '' '' (take 12 (chunks 4 (?h c d)))"
    by (simp add: from_identity_keys_def map_id Let_def)
  then have "take 12 (chunks 4 (?h a b)) = take 12 (chunks 4 (?h c d))"
    using sp nonempty ne by (intro join_inj_no_sep)
  then have "concat (take 12 (chunks 4 (?h a b))) = concat (take 12 (chunks 4 (?h c d)))" by simp
  then have "take (2 * 24) (?h a b) = take (2 * 24) (?h c d)" by (simp add: concat_take_chunks)
  then show ?thesis unfolding hex_encode_take[OF hx] hex_encode_inj[OF hx] .
qed

text \<open>
  Both sides compute the same safety number, and two pairs of keys show the same number only if
  they are the same pair or the first 24 bytes of the digest collide on exactly these two pairs.
\<close>

theorem safety_number_binds_keys:
  assumes "hex_correct hx" and "\<forall>m. length (sha256 m) = 32"
    and "length a = 32" "length b = 32" "length c = 32" "length d = 32"
  shows "from_identity_keys sha256 hx a b = from_identity_keys sha256 hx b a \<and>
    (from_identity_keys sha256 hx a b = from_identity_keys sha256 hx c d \<longrightarrow>
      {a, b} = {c, d} \<or> collision (\<lambda>m. take 24 (sha256 m)) (safety_preimage a b) (safety_preimage c d))"
proof -
  have "sha256 m \<noteq> []" for m using assms(2) by (metis length_0_conv zero_neq_numeral)
  then show ?thesis
    using from_identity_keys_digest[OF assms(1), of sha256 a b c d] safety_preimage_keys[OF assms(3-6)]
    by (auto simp: collision_def from_identity_keys_def safety_preimage_sym)
qed

theorem safety_number_binds_keys_witness:
  "from_identity_keys sha_demo hex_demo (replicate 32 1) (replicate 32 2) =
     from_identity_keys sha_demo hex_demo (replicate 32 2) (replicate 32 1) \<and>
   from_identity_keys sha_demo hex_demo (replicate 32 1) (replicate 32 2) \<noteq>
     from_identity_keys sha_demo hex_demo (replicate 32 2) (replicate 32 3)"
proof -
  let ?k = "replicate 32 :: u8 \<Rightarrow> bytes"
  have "{?k 1, ?k 2} \<noteq> {?k 2, ?k 3}" by (auto simp: doubleton_eq_iff)
  moreover have "\<not> collision (\<lambda>m. take 24 (sha_demo m)) (safety_preimage (?k 1) (?k 2)) (safety_preimage (?k 2) (?k 3))"
    by code_simp
  ultimately show ?thesis
    using safety_number_binds_keys[OF hex_demo_correct, of sha_demo "?k 1" "?k 2" "?k 2" "?k 3",
        OF allI[OF length_sha_demo] length_replicate length_replicate length_replicate length_replicate] by blast
qed

text \<open>The sealed backup restores the identity.\<close>

lemma backup_restores:
  "ed25519_correct ed \<Longrightarrow> from_signing_key ed (display_name i) (sealed_backup_material ed i) = i"
  by (simp add: from_signing_key_def sealed_backup_material_def ed25519_correct_def)

end
