(* ===== verification/Device_Set.thy ===== *)
theory Device_Set
  imports Identity BTree_Map
begin

text \<open>
  The device set of an account (\<open>crates/mls-core/src/device_set.rs\<close>): adding, pairing, removing,
  compromising and rotating devices, with the transparency log. The identifiers that \<open>Uuid::new_v4\<close> draws are
  arguments; the JSON form of a pairing payload is a pair of functions. Shown: a created payload is
  accepted until it expires, the signed message determines every field of the payload, retired
  devices stay retired, and leaf indices are never reused.
\<close>

section \<open>Data\<close>

definition pairing_payload_version :: nat where
  "pairing_payload_version = 1"

datatype device_status = Active | Removed | Compromised

record device_leaf =
  dl_device_id :: uuid
  dl_leaf_index :: nat
  dl_identity_key :: bytes
  dl_device_key :: bytes
  dl_label :: string
  dl_status :: device_status
  dl_added_at_epoch :: nat
  dl_removed_at_epoch :: "nat option"

datatype device_set_error = DeviceNotFound uuid | DeviceAlreadyRetired uuid

record device_rotation =
  rotation_retired :: device_leaf
  rotation_replacement :: device_leaf

record transparency_event =
  te_device_id :: uuid
  te_kind :: string
  te_epoch :: nat

record device_pairing_payload =
  dp_version :: nat
  dp_authorizing_device_id :: uuid
  dp_identity_key :: string
  dp_requested_label :: string
  dp_challenge :: uuid
  dp_expires_epoch :: nat
  dp_signature :: string

datatype device_pairing_error =
    UnauthorizedAuthorizingDevice
  | InvalidPayload string
  | IdentityMismatch
  | Expired
  | SignatureVerificationFailed
  | DuplicateDeviceKey

record device_set =
  next_leaf :: nat
  devices :: "(uuid, device_leaf) btreemap"
  transparency :: "transparency_event list"

text \<open>\<open>serde_json::to_string\<close> and \<open>serde_json::from_str\<close> for one type, with the error as its text.\<close>

record 'a json_codec =
  js_to :: "'a \<Rightarrow> string + string"
  js_from :: "string \<Rightarrow> string + 'a"

definition json_correct :: "'a json_codec \<Rightarrow> bool" where
  "json_correct js \<longleftrightarrow> (\<forall>x s. js_to js x = Inr s \<longrightarrow> js_from js s = Inr x)"

section \<open>Operations\<close>

definition device_set_new :: device_set where
  "device_set_new = \<lparr>next_leaf = 0, devices = bt_empty, transparency = []\<rparr>"

definition normalize_device_label :: "string \<Rightarrow> string" where
  "normalize_device_label label = (let trimmed = trim label in if trimmed = [] then ''paired device'' else trimmed)"

definition canonical_pairing_message ::
  "(uuid \<Rightarrow> string) \<Rightarrow> nat \<Rightarrow> uuid \<Rightarrow> string \<Rightarrow> string \<Rightarrow> uuid \<Rightarrow> nat \<Rightarrow> string" where
  "canonical_pairing_message show_uuid version authorizer identity label challenge expires =
     ''discrypt-device-pairing-v'' @ nat_str version @ ''|authorizer='' @ show_uuid authorizer @
     ''|identity='' @ identity @ ''|label='' @ label @ ''|challenge='' @ show_uuid challenge @
     ''|expires_epoch='' @ nat_str expires"

definition decode_32_byte_hex :: "hex_codec \<Rightarrow> string \<Rightarrow> device_pairing_error + bytes" where
  "decode_32_byte_hex hx value =
     (case hx_decode hx value of
        Inl error \<Rightarrow> Inl (InvalidPayload error)
      | Inr decoded \<Rightarrow> if length decoded = 32 then Inr decoded else Inl (InvalidPayload ''expected 32-byte key''))"

text \<open>The text of the error of \<open>Signature::from_slice\<close> belongs to the signature crate: \<open>bad_signature\<close>.\<close>

definition decode_signature :: "'sk ed25519 \<Rightarrow> hex_codec \<Rightarrow> string \<Rightarrow> string \<Rightarrow> device_pairing_error + bytes" where
  "decode_signature ed hx bad_signature value =
     (case hx_decode hx value of
        Inl error \<Rightarrow> Inl (InvalidPayload error)
      | Inr decoded \<Rightarrow> if ed_sig_ok ed decoded then Inr decoded else Inl (InvalidPayload bad_signature))"

definition insert_authorized_device ::
  "'sk ed25519 \<Rightarrow> device_set \<Rightarrow> uuid \<Rightarrow> 'sk identity \<Rightarrow> bytes \<Rightarrow> string \<Rightarrow> nat \<Rightarrow> string \<Rightarrow> device_set \<times> device_leaf" where
  "insert_authorized_device ed ds new_id identity device_key label epoch event_kind =
     (let leaf = \<lparr>dl_device_id = new_id, dl_leaf_index = next_leaf ds,
            dl_identity_key = verifying_key ed identity, dl_device_key = device_key,
            dl_label = normalize_device_label label, dl_status = Active,
            dl_added_at_epoch = epoch, dl_removed_at_epoch = None\<rparr>
      in (\<lparr>next_leaf = sat_add32 (next_leaf ds) 1,
           devices = bt_insert new_id leaf (devices ds),
           transparency = transparency ds @ [\<lparr>te_device_id = new_id, te_kind = event_kind, te_epoch = epoch\<rparr>]\<rparr>,
          leaf))"

definition add_authorized_device ::
  "'sk ed25519 \<Rightarrow> device_set \<Rightarrow> uuid \<Rightarrow> 'sk identity \<Rightarrow> bytes \<Rightarrow> string \<Rightarrow> nat \<Rightarrow> device_set \<times> device_leaf" where
  "add_authorized_device ed ds new_id identity device_key label epoch =
     insert_authorized_device ed ds new_id identity device_key label epoch ''device-added''"

definition require_authorizing_device ::
  "'sk ed25519 \<Rightarrow> device_set \<Rightarrow> 'sk identity \<Rightarrow> uuid \<Rightarrow> device_pairing_error + device_leaf" where
  "require_authorizing_device ed ds identity authorizer =
     (case bt_get (devices ds) authorizer of
        Some device \<Rightarrow>
          if dl_status device = Active \<and> dl_identity_key device = verifying_key ed identity then Inr device
          else Inl UnauthorizedAuthorizingDevice
      | None \<Rightarrow> Inl UnauthorizedAuthorizingDevice)"

definition create_pairing_payload ::
  "'sk ed25519 \<Rightarrow> hex_codec \<Rightarrow> (uuid \<Rightarrow> string) \<Rightarrow> device_pairing_payload json_codec \<Rightarrow> device_set \<Rightarrow> uuid
     \<Rightarrow> 'sk identity \<Rightarrow> uuid \<Rightarrow> string \<Rightarrow> nat \<Rightarrow> nat \<Rightarrow> device_pairing_error + string" where
  "create_pairing_payload ed hx show_uuid js ds challenge identity authorizer label current_epoch valid_for =
     and_then (require_authorizing_device ed ds identity authorizer) (\<lambda>_.
       let label = normalize_device_label label;
           identity_key = hx_encode hx (verifying_key ed identity);
           expires = sat_add current_epoch (max valid_for 1);
           message = canonical_pairing_message show_uuid pairing_payload_version authorizer identity_key label challenge expires;
           signature = hx_encode hx (sign_pairing_authorization ed identity (str_bytes message))
       in (case js_to js \<lparr>dp_version = pairing_payload_version, dp_authorizing_device_id = authorizer,
              dp_identity_key = identity_key, dp_requested_label = label, dp_challenge = challenge,
              dp_expires_epoch = expires, dp_signature = signature\<rparr> of
             Inl error \<Rightarrow> Inl (InvalidPayload error)
           | Inr text \<Rightarrow> Inr text))"

definition payload_message :: "(uuid \<Rightarrow> string) \<Rightarrow> device_pairing_payload \<Rightarrow> string" where
  "payload_message show_uuid p =
     canonical_pairing_message show_uuid (dp_version p) (dp_authorizing_device_id p) (dp_identity_key p)
       (dp_requested_label p) (dp_challenge p) (dp_expires_epoch p)"

definition add_device_from_pairing_payload ::
  "'sk ed25519 \<Rightarrow> hex_codec \<Rightarrow> (uuid \<Rightarrow> string) \<Rightarrow> device_pairing_payload json_codec \<Rightarrow> string \<Rightarrow> device_set \<Rightarrow> uuid
     \<Rightarrow> 'sk identity \<Rightarrow> string \<Rightarrow> bytes \<Rightarrow> nat \<Rightarrow> device_pairing_error + device_set \<times> device_leaf" where
  "add_device_from_pairing_payload ed hx show_uuid js bad_signature ds new_id identity payload_text new_device_key current_epoch =
     (case js_from js payload_text of
        Inl error \<Rightarrow> Inl (InvalidPayload error)
      | Inr payload \<Rightarrow>
          if dp_version payload \<noteq> pairing_payload_version
          then Inl (InvalidPayload (''unsupported version '' @ nat_str (dp_version payload)))
          else if dp_expires_epoch payload < current_epoch then Inl Expired
          else and_then (decode_32_byte_hex hx (dp_identity_key payload)) (\<lambda>payload_identity.
            if payload_identity \<noteq> verifying_key ed identity then Inl IdentityMismatch
            else and_then (require_authorizing_device ed ds identity (dp_authorizing_device_id payload)) (\<lambda>_.
              if (\<exists>device \<in> set (bt_values (devices ds)). dl_status device = Active \<and> dl_device_key device = new_device_key)
              then Inl DuplicateDeviceKey
              else and_then (decode_signature ed hx bad_signature (dp_signature payload)) (\<lambda>signature.
                if \<not> ed_verify ed (verifying_key ed identity) (str_bytes (payload_message show_uuid payload)) signature
                then Inl SignatureVerificationFailed
                else Inr (insert_authorized_device ed ds new_id identity new_device_key
                            (dp_requested_label payload) current_epoch ''device-paired'')))))"

definition retire_device ::
  "device_set \<Rightarrow> uuid \<Rightarrow> device_status \<Rightarrow> string \<Rightarrow> nat \<Rightarrow> device_set_error + device_set \<times> device_leaf" where
  "retire_device ds device_id status kind epoch =
     (case bt_get (devices ds) device_id of
        None \<Rightarrow> Inl (DeviceNotFound device_id)
      | Some device \<Rightarrow>
          if dl_status device \<noteq> Active then Inl (DeviceAlreadyRetired device_id)
          else let retired = device\<lparr>dl_status := status, dl_removed_at_epoch := Some epoch\<rparr>
               in Inr (ds\<lparr>devices := bt_insert device_id retired (devices ds),
                         transparency := transparency ds @ [\<lparr>te_device_id = device_id, te_kind = kind, te_epoch = epoch\<rparr>]\<rparr>,
                       retired))"

definition remove_device :: "device_set \<Rightarrow> uuid \<Rightarrow> nat \<Rightarrow> device_set \<times> bool" where
  "remove_device ds device_id epoch =
     (case retire_device ds device_id Removed ''device-removed'' epoch of
        Inl _ \<Rightarrow> (ds, False)
      | Inr (ds', _) \<Rightarrow> (ds', True))"

definition compromise_device :: "device_set \<Rightarrow> uuid \<Rightarrow> nat \<Rightarrow> device_set_error + device_set \<times> device_leaf" where
  "compromise_device ds device_id epoch = retire_device ds device_id Compromised ''device-compromised-removed'' epoch"

definition rotate_compromised_device ::
  "'sk ed25519 \<Rightarrow> device_set \<Rightarrow> uuid \<Rightarrow> 'sk identity \<Rightarrow> uuid \<Rightarrow> bytes \<Rightarrow> string \<Rightarrow> nat \<Rightarrow> nat
     \<Rightarrow> device_set_error + device_set \<times> device_rotation" where
  "rotate_compromised_device ed ds new_id identity compromised replacement_key replacement_label removal_epoch replacement_epoch =
     and_then (compromise_device ds compromised removal_epoch) (\<lambda>(ds1, retired).
       case add_authorized_device ed ds1 new_id identity replacement_key replacement_label replacement_epoch of
         (ds2, replacement) \<Rightarrow>
           Inr (ds2\<lparr>transparency := transparency ds2 @
                  [\<lparr>te_device_id = dl_device_id replacement, te_kind = ''device-rotation-replacement'', te_epoch = replacement_epoch\<rparr>]\<rparr>,
                \<lparr>rotation_retired = retired, rotation_replacement = replacement\<rparr>))"

definition device :: "device_set \<Rightarrow> uuid \<Rightarrow> device_leaf option" where
  "device ds device_id = bt_get (devices ds) device_id"

definition device_may_send :: "device_set \<Rightarrow> uuid \<Rightarrow> bool" where
  "device_may_send ds device_id =
     (case bt_get (devices ds) device_id of None \<Rightarrow> False | Some d \<Rightarrow> dl_status d = Active)"

definition active_devices :: "device_set \<Rightarrow> device_leaf list" where
  "active_devices ds = filter (\<lambda>d. dl_status d = Active) (bt_values (devices ds))"

section \<open>Pairing\<close>

lemma normalize_idem [simp]: "normalize_device_label (normalize_device_label l) = normalize_device_label l"
proof (cases "trim l = []")
  case True
  have "trim ''paired device'' = ''paired device''" by code_simp
  with True show ?thesis by (simp add: normalize_device_label_def)
qed (simp add: normalize_device_label_def Let_def)

lemma decode_hex_key:
  assumes "hex_correct hx" and "length k = 32"
  shows "decode_32_byte_hex hx (hx_encode hx k) = Inr k"
  using assms by (simp add: decode_32_byte_hex_def hex_correct_def)

lemma decode_32_length:
  assumes "hex_correct hx" and "decode_32_byte_hex hx s = Inr k"
  shows "length s = 64"
  using assms by (auto simp: decode_32_byte_hex_def hex_correct_def split: sum.splits if_splits)

text \<open>
  Pairing round trip. A payload created by an active device of the account is accepted for every new
  device key until its last epoch, and adds an active device with the next leaf index, the account's identity
  and the trimmed label; afterwards it is refused as expired.
\<close>

theorem pairing_round_trip:
  assumes "ed25519_correct ed" and "hex_correct hx" and "json_correct js"
    and created: "create_pairing_payload ed hx show_uuid js ds challenge identity authorizer label epoch valid_for = Inr text"
    and fresh: "new_key \<notin> dl_device_key ` set (active_devices ds)"
  shows "if now \<le> sat_add epoch (max valid_for 1)
    then \<exists>ds' leaf. add_device_from_pairing_payload ed hx show_uuid js bad ds new_id identity text new_key now = Inr (ds', leaf) \<and>
      device ds' new_id = Some leaf \<and> device_may_send ds' new_id \<and> dl_leaf_index leaf = next_leaf ds \<and>
      dl_identity_key leaf = verifying_key ed identity \<and> dl_device_key leaf = new_key \<and>
      dl_label leaf = normalize_device_label label \<and> dl_added_at_epoch leaf = now
    else add_device_from_pairing_payload ed hx show_uuid js bad ds new_id identity text new_key now = Inl Expired"
proof -
  from created obtain auth p where auth: "require_authorizing_device ed ds identity authorizer = Inr auth"
    and p: "js_from js text = Inr p" "dp_version p = pairing_payload_version" "dp_authorizing_device_id p = authorizer"
      "dp_identity_key p = hx_encode hx (verifying_key ed identity)" "dp_requested_label p = normalize_device_label label"
      "dp_expires_epoch p = sat_add epoch (max valid_for 1)"
      "dp_signature p = hx_encode hx (sign_pairing_authorization ed identity (str_bytes (payload_message show_uuid p)))"
    using assms(3) by (auto simp: create_pairing_payload_def and_then_Inr Let_def json_correct_def payload_message_def
        split: sum.splits)
  have key: "decode_32_byte_hex hx (dp_identity_key p) = Inr (verifying_key ed identity)"
    using assms(1,2) by (simp add: p decode_hex_key verifying_key_def ed25519_correct_def)
  have sig: "decode_signature ed hx bad (dp_signature p) = Inr (sign_pairing_authorization ed identity (str_bytes (payload_message show_uuid p)))"
    using assms(1,2) by (simp add: p decode_signature_def hex_correct_def ed25519_correct_def sign_pairing_authorization_def)
  have ver: "ed_verify ed (verifying_key ed identity) (str_bytes (payload_message show_uuid p))
      (sign_pairing_authorization ed identity (str_bytes (payload_message show_uuid p)))"
    using assms(1) by (simp add: ed25519_correct_def verifying_key_def sign_pairing_authorization_def)
  have nodup: "(\<exists>device \<in> set (bt_values (devices ds)). dl_status device = Active \<and> dl_device_key device = new_key) = False"
    using fresh by (auto simp: active_devices_def)
  show ?thesis
    unfolding add_device_from_pairing_payload_def p(1) sum.case key p(3) auth sig nodup
    using ver
    by (simp add: p insert_authorized_device_def device_def device_may_send_def Let_def not_le)
qed

definition demo_leaf :: device_leaf where
  "demo_leaf = \<lparr>dl_device_id = 1, dl_leaf_index = 0, dl_identity_key = verifying_key ed_demo (identity_generate ''ann'' 5),
     dl_device_key = replicate 32 1, dl_label = ''laptop'', dl_status = Active, dl_added_at_epoch = 0, dl_removed_at_epoch = None\<rparr>"

definition demo_devices :: device_set where
  "demo_devices = \<lparr>next_leaf = 1, devices = bt_insert 1 demo_leaf bt_empty, transparency = []\<rparr>"

text \<open>A serializer that knows one value.\<close>

definition json_demo :: "'a \<Rightarrow> 'a json_codec" where
  "json_demo x = \<lparr>js_to = (\<lambda>y. if y = x then Inr ''{}'' else Inl ''unsupported''),
     js_from = (\<lambda>s. if s = ''{}'' then Inr x else Inl ''syntax'')\<rparr>"

lemma json_demo_correct: "json_correct (json_demo x)"
  by (auto simp: json_correct_def json_demo_def)

definition demo_payload :: device_pairing_payload where
  "demo_payload = (let message = canonical_pairing_message uuid_demo 1 1 (hx_encode hex_demo (be_bytes 32 5)) ''phone'' 9 12
     in \<lparr>dp_version = 1, dp_authorizing_device_id = 1, dp_identity_key = hx_encode hex_demo (be_bytes 32 5),
         dp_requested_label = ''phone'', dp_challenge = 9, dp_expires_epoch = 12,
         dp_signature = hx_encode hex_demo (replicate 64 0)\<rparr>)"

lemma demo_payload_created:
  "create_pairing_payload ed_demo hex_demo uuid_demo (json_demo demo_payload) demo_devices 9 (identity_generate ''ann'' 5) 1
     '' phone '' 10 2 = Inr ''{}''"
proof -
  have "normalize_device_label '' phone '' = ''phone''" by code_simp
  then show ?thesis
    by (simp add: create_pairing_payload_def require_authorizing_device_def demo_devices_def demo_leaf_def demo_payload_def
        json_demo_def verifying_key_def identity_generate_def ed_demo_def sign_pairing_authorization_def Let_def
        pairing_payload_version_def sat_add_def u64_max_def)
qed

theorem pairing_round_trip_witness:
  "(\<exists>ds' leaf. add_device_from_pairing_payload ed_demo hex_demo uuid_demo (json_demo demo_payload) [] demo_devices 2
      (identity_generate ''ann'' 5) ''{}'' (replicate 32 3) 12 = Inr (ds', leaf) \<and> device_may_send ds' 2 \<and> dl_leaf_index leaf = 1) \<and>
   add_device_from_pairing_payload ed_demo hex_demo uuid_demo (json_demo demo_payload) [] demo_devices 2
      (identity_generate ''ann'' 5) ''{}'' (replicate 32 3) 13 = Inl Expired"
proof -
  have fresh: "replicate 32 3 \<notin> dl_device_key ` set (active_devices demo_devices)"
    by (simp add: active_devices_def demo_devices_def demo_leaf_def bt_values_def bt_entries_insert)
  note rt = pairing_round_trip[OF ed_demo_correct hex_demo_correct json_demo_correct demo_payload_created fresh]
  from rt[of 12 "[]" 2] rt[of 13 "[]" 2] show ?thesis
    by (auto simp: sat_add_def u64_max_def demo_devices_def)
qed

text \<open>
  The signed message determines every field of the payload, so a joining device cannot change the
  authorizer, the identity, the label, the challenge or the expiry under a valid signature, even with a label that imitates the
  field separators.
\<close>

theorem pairing_message_covers_payload:
  assumes "uuid_display_ok show_uuid" and "hex_correct hx"
    and "decode_32_byte_hex hx (dp_identity_key p) = Inr k" and "decode_32_byte_hex hx (dp_identity_key q) = Inr l"
    and "payload_message show_uuid p = payload_message show_uuid q"
  shows "q = p\<lparr>dp_signature := dp_signature q\<rparr>"
proof -
  have bar: "CHR ''|'' \<notin> set (nat_str n)" for n by (rule notin_nat_str) (simp add: is_digit_def)
  have idlen: "length (dp_identity_key p) = length (dp_identity_key q)"
    using decode_32_length[OF assms(2)] assms(3,4) by metis
  have ulen: "length (show_uuid u) = 36" for u using assms(1) by (simp add: uuid_display_ok_def)
  have uinj: "show_uuid u = show_uuid v \<longleftrightarrow> u = v" for u v using assms(1) by (simp add: uuid_display_ok_def inj_eq)
  let ?tail = "\<lambda>p. show_uuid (dp_authorizing_device_id p) @ ''|identity='' @ dp_identity_key p @ ''|label='' @
    dp_requested_label p @ ''|challenge='' @ show_uuid (dp_challenge p) @ ''|expires_epoch='' @ nat_str (dp_expires_epoch p)"
  from assms(5) have "nat_str (dp_version p) @ CHR ''|'' # ''authorizer='' @ ?tail p =
      nat_str (dp_version q) @ CHR ''|'' # ''authorizer='' @ ?tail q"
    by (simp add: payload_message_def canonical_pairing_message_def)
  from append_sep_inj[OF bar bar this] have v: "dp_version p = dp_version q" and "?tail p = ?tail q" by simp_all
  then have front: "show_uuid (dp_authorizing_device_id p) = show_uuid (dp_authorizing_device_id q)"
      "dp_identity_key p = dp_identity_key q"
    and rest: "dp_requested_label p @ ''|challenge='' @ show_uuid (dp_challenge p) @ ''|expires_epoch='' @ nat_str (dp_expires_epoch p) =
      dp_requested_label q @ ''|challenge='' @ show_uuid (dp_challenge q) @ ''|expires_epoch='' @ nat_str (dp_expires_epoch q)"
    using idlen by (simp_all add: ulen)
  have nb: "CHR ''|'' \<notin> set (rev (''expires_epoch='' @ nat_str n))" for n using bar by simp
  from arg_cong[OF rest, of rev]
  have "rev (''expires_epoch='' @ nat_str (dp_expires_epoch p)) @ CHR ''|'' # rev (dp_requested_label p @ ''|challenge='' @ show_uuid (dp_challenge p)) =
      rev (''expires_epoch='' @ nat_str (dp_expires_epoch q)) @ CHR ''|'' # rev (dp_requested_label q @ ''|challenge='' @ show_uuid (dp_challenge q))"
    by simp
  from append_sep_inj[OF nb nb this]
  have e: "dp_expires_epoch p = dp_expires_epoch q"
    and "dp_requested_label p @ ''|challenge='' @ show_uuid (dp_challenge p) = dp_requested_label q @ ''|challenge='' @ show_uuid (dp_challenge q)"
    by (simp_all only: rev_rev_ident rev_is_rev_conv) simp_all
  then have "dp_requested_label p = dp_requested_label q" "show_uuid (dp_challenge p) = show_uuid (dp_challenge q)"
    using append_eq_append_conv[of "dp_requested_label p" "dp_requested_label q"
        "''|challenge='' @ show_uuid (dp_challenge p)" "''|challenge='' @ show_uuid (dp_challenge q)"] ulen by auto
  with v e front show ?thesis by (simp add: uinj)
qed

theorem pairing_message_covers_payload_witness:
  "demo_payload\<lparr>dp_signature := ''00''\<rparr> \<noteq> demo_payload \<and>
   payload_message uuid_demo (demo_payload\<lparr>dp_signature := ''00''\<rparr>) = payload_message uuid_demo demo_payload \<and>
   demo_payload\<lparr>dp_signature := ''00''\<rparr> = demo_payload\<lparr>dp_signature := dp_signature (demo_payload\<lparr>dp_signature := ''00''\<rparr>)\<rparr>"
proof -
  have key: "decode_32_byte_hex hex_demo (dp_identity_key demo_payload) = Inr (be_bytes 32 5)"
    by (simp add: demo_payload_def Let_def decode_hex_key[OF hex_demo_correct])
  have msg: "payload_message uuid_demo demo_payload = payload_message uuid_demo (demo_payload\<lparr>dp_signature := ''00''\<rparr>)"
    by (simp add: payload_message_def)
  have "dp_signature demo_payload \<noteq> ''00''"
    using hex_demo_correct by (auto simp: demo_payload_def Let_def hex_correct_def dest: arg_cong[of _ _ length])
  then have "demo_payload\<lparr>dp_signature := ''00''\<rparr> \<noteq> demo_payload" by (metis device_pairing_payload.select_convs(7) device_pairing_payload.surjective device_pairing_payload.update_convs(7))
  moreover have "demo_payload\<lparr>dp_signature := ''00''\<rparr> = demo_payload\<lparr>dp_signature := dp_signature (demo_payload\<lparr>dp_signature := ''00''\<rparr>)\<rparr>"
    by (rule pairing_message_covers_payload[OF uuid_demo_ok hex_demo_correct key _ msg]) (simp add: key)
  ultimately show ?thesis using msg by simp
qed

section \<open>The life of a device\<close>

text \<open>One call that changes the set; the identifier that a call draws is one that is not in use.\<close>

inductive device_step ::
  "'sk ed25519 \<Rightarrow> hex_codec \<Rightarrow> (uuid \<Rightarrow> string) \<Rightarrow> device_pairing_payload json_codec \<Rightarrow> string \<Rightarrow> device_set \<Rightarrow> device_set \<Rightarrow> bool"
  for ed hx show_uuid js bad where
  step_add: "\<not> bt_contains (devices ds) new_id \<Longrightarrow>
     device_step ed hx show_uuid js bad ds (fst (add_authorized_device ed ds new_id identity key label epoch))"
| step_pair: "\<not> bt_contains (devices ds) new_id \<Longrightarrow>
     add_device_from_pairing_payload ed hx show_uuid js bad ds new_id identity text key epoch = Inr (ds', leaf) \<Longrightarrow>
     device_step ed hx show_uuid js bad ds ds'"
| step_remove: "device_step ed hx show_uuid js bad ds (fst (remove_device ds did epoch))"
| step_compromise: "compromise_device ds did epoch = Inr (ds', leaf) \<Longrightarrow> device_step ed hx show_uuid js bad ds ds'"
| step_rotate: "\<not> bt_contains (devices ds) new_id \<Longrightarrow>
     rotate_compromised_device ed ds new_id identity did key label e1 e2 = Inr (ds', rotation) \<Longrightarrow>
     device_step ed hx show_uuid js bad ds ds'"

text \<open>Every call is built from two moves: a device is inserted under a fresh identifier, or an active one is retired.\<close>

inductive device_move :: "device_set \<Rightarrow> device_set \<Rightarrow> bool" where
  move_insert: "\<not> bt_contains (devices ds) i \<Longrightarrow> dl_leaf_index d = next_leaf ds \<Longrightarrow> dl_status d = Active \<Longrightarrow>
     devices ds' = bt_insert i d (devices ds) \<Longrightarrow> next_leaf ds' = sat_add32 (next_leaf ds) 1 \<Longrightarrow>
     transparency ds' = transparency ds @ evs \<Longrightarrow> device_move ds ds'"
| move_retire: "bt_get (devices ds) i = Some d \<Longrightarrow> dl_status d = Active \<Longrightarrow> status \<noteq> Active \<Longrightarrow>
     devices ds' = bt_insert i (d\<lparr>dl_status := status, dl_removed_at_epoch := Some epoch\<rparr>) (devices ds) \<Longrightarrow>
     next_leaf ds' = next_leaf ds \<Longrightarrow>
     transparency ds' = transparency ds @ [\<lparr>te_device_id = i, te_kind = kind, te_epoch = epoch\<rparr>] \<Longrightarrow> device_move ds ds'"

lemma insert_move:
  "insert_authorized_device ed ds new_id identity key label epoch kind = (ds', leaf) \<Longrightarrow>
     \<not> bt_contains (devices ds) new_id \<Longrightarrow> device_move ds (ds'\<lparr>transparency := transparency ds' @ extra\<rparr>)"
  by (rule move_insert[where i = new_id and d = leaf]) (auto simp: insert_authorized_device_def Let_def)

lemmas insert_move_exact = insert_move[where extra = "[]", simplified]

lemma retire_move:
  "retire_device ds i status kind epoch = Inr (ds', leaf) \<Longrightarrow> status \<noteq> Active \<Longrightarrow> device_move ds ds'"
  unfolding retire_device_def
  by (rule move_retire[where i = i and d = "the (bt_get (devices ds) i)"])
     (auto simp: Let_def split: option.splits if_splits)

lemma retire_keys:
  "retire_device ds i status kind epoch = Inr (ds', leaf) \<Longrightarrow> bt_contains (devices ds') j \<longleftrightarrow> bt_contains (devices ds) j"
  by (auto simp: retire_device_def Let_def bt_contains_def split: option.splits if_splits)

lemma rotate_compromised_elim:
  assumes "rotate_compromised_device ed ds new_id identity did key label e1 e2 = Inr (ds', rotation)"
  obtains ds1 ds2 retired leaf where "compromise_device ds did e1 = Inr (ds1, retired)"
    "add_authorized_device ed ds1 new_id identity key label e2 = (ds2, leaf)"
    "ds' = ds2\<lparr>transparency := transparency ds2 @
       [\<lparr>te_device_id = dl_device_id leaf, te_kind = ''device-rotation-replacement'', te_epoch = e2\<rparr>]\<rparr>"
    "rotation = \<lparr>rotation_retired = retired, rotation_replacement = leaf\<rparr>"
proof -
  from assms obtain x where x: "compromise_device ds did e1 = Inr x"
    unfolding rotate_compromised_device_def and_then_Inr by blast
  show ?thesis
    using assms x
    by (cases x, cases "add_authorized_device ed (fst x) new_id identity key label e2")
       (auto simp: rotate_compromised_device_def intro: that)
qed

lemma device_step_moves: "device_step ed hx show_uuid js bad ds ds' \<Longrightarrow> device_move\<^sup>*\<^sup>* ds ds'"
proof (induction rule: device_step.induct)
  case (step_add ds new_id identity key label epoch)
  then show ?case
    using insert_move_exact[of ed ds new_id identity key label epoch "''device-added''"]
    by (simp add: add_authorized_device_def r_into_rtranclp prod_eq_iff)
next
  case (step_pair ds new_id identity payload key epoch ds' leaf)
  then show ?case
    by (auto simp: add_device_from_pairing_payload_def and_then_Inr split: sum.splits if_splits
        intro!: r_into_rtranclp insert_move_exact)
next
  case (step_remove ds did epoch)
  then show ?case
    by (auto simp: remove_device_def split: sum.splits intro!: r_into_rtranclp retire_move)
next
  case (step_compromise ds did epoch ds' leaf)
  then show ?case by (auto simp: compromise_device_def intro!: r_into_rtranclp retire_move)
next
  case (step_rotate ds new_id identity did key label e1 e2 ds' rotation)
  from step_rotate(2) show ?case
  proof (rule rotate_compromised_elim)
    fix ds1 ds2 retired leaf
    assume 1: "compromise_device ds did e1 = Inr (ds1, retired)"
      and 2: "add_authorized_device ed ds1 new_id identity key label e2 = (ds2, leaf)"
      and ds': "ds' = ds2\<lparr>transparency := transparency ds2 @
         [\<lparr>te_device_id = dl_device_id leaf, te_kind = ''device-rotation-replacement'', te_epoch = e2\<rparr>]\<rparr>"
    from 1 have "device_move ds ds1" unfolding compromise_device_def by (rule retire_move) simp
    moreover have "\<not> bt_contains (devices ds1) new_id"
      using 1 step_rotate(1) by (simp add: compromise_device_def retire_keys)
    then have "device_move ds1 ds'" using 2 unfolding add_authorized_device_def ds' by (intro insert_move)
    ultimately show ?case by auto
  qed
qed

definition device_inv :: "device_set \<Rightarrow> bool" where
  "device_inv ds \<longleftrightarrow>
     next_leaf ds = min (bt_len (devices ds)) (2 ^ 32 - 1) \<and>
     (\<forall>i d. bt_get (devices ds) i = Some d \<longrightarrow> dl_leaf_index d \<le> 2 ^ 32 - 1 \<and> dl_leaf_index d < bt_len (devices ds)) \<and>
     (bt_len (devices ds) \<le> 2 ^ 32 \<longrightarrow>
        (\<forall>i j d e. bt_get (devices ds) i = Some d \<longrightarrow> bt_get (devices ds) j = Some e \<longrightarrow>
           dl_leaf_index d = dl_leaf_index e \<longrightarrow> i = j)) \<and>
     (\<forall>i d. bt_get (devices ds) i = Some d \<longrightarrow> dl_status d \<noteq> Active \<longrightarrow>
        (\<exists>ev \<in> set (transparency ds). te_device_id ev = i \<and> dl_removed_at_epoch d = Some (te_epoch ev)))"

lemma device_inv_new: "device_inv device_set_new"
  by (simp add: device_inv_def device_set_new_def)

lemma device_move_inv:
  assumes "device_move ds ds'" and "device_inv ds"
  shows "device_inv ds'"
  using assms
proof (induction rule: device_move.induct)
  case (move_insert ds i d ds' evs)
  have len: "bt_len (devices ds') = Suc (bt_len (devices ds))"
    using move_insert by (simp add: bt_len_insert)
  have none: "bt_get (devices ds) i = None" using move_insert(1) by (simp add: bt_contains_def)
  have idx: "dl_leaf_index e \<le> 2 ^ 32 - 1" "dl_leaf_index e < bt_len (devices ds)" if "bt_get (devices ds) j = Some e" for j e
    using move_insert(7) that unfolding device_inv_def by blast+
  have new: "dl_leaf_index d = min (bt_len (devices ds)) (2 ^ 32 - 1)"
    and next': "next_leaf ds' = min (Suc (bt_len (devices ds))) (2 ^ 32 - 1)"
    using move_insert by (simp_all add: device_inv_def sat_add32_def min_def)
  have log: "\<exists>ev \<in> set (transparency ds). te_device_id ev = j \<and> dl_removed_at_epoch e = Some (te_epoch ev)"
    if "bt_get (devices ds) j = Some e" "dl_status e \<noteq> Active" for j e
    using move_insert(7) that unfolding device_inv_def by blast
  have distinct_idx: "bt_len (devices ds) \<le> 2 ^ 32 \<Longrightarrow> bt_get (devices ds) j = Some e \<Longrightarrow> bt_get (devices ds) k = Some f \<Longrightarrow>
      dl_leaf_index e = dl_leaf_index f \<Longrightarrow> j = k" for j k e f
    using move_insert(7) unfolding device_inv_def by blast
  have old: "j = k" if "bt_get (devices ds) j = Some e" "bt_get (devices ds) k = Some f"
      "dl_leaf_index e = dl_leaf_index f" "Suc (bt_len (devices ds)) \<le> 2 ^ 32" for j k e f
    using distinct_idx that by auto
  have get: "bt_get (devices ds') = (bt_get (devices ds))(i \<mapsto> d)" using move_insert by simp
  have fresh: "dl_leaf_index e \<noteq> dl_leaf_index d" if "bt_get (devices ds) j = Some e" "Suc (bt_len (devices ds)) \<le> 2 ^ 32" for j e
    using idx(2)[OF that(1)] that(2) new by simp
  show ?case
    unfolding device_inv_def len get
  proof (intro conjI allI impI)
    fix j e
    assume j: "((bt_get (devices ds))(i \<mapsto> d)) j = Some e"
    then show "dl_leaf_index e \<le> 2 ^ 32 - 1" "dl_leaf_index e < Suc (bt_len (devices ds))"
      using idx(1)[of j e] idx(2)[of j e] new by (auto split: if_splits)
    show "\<exists>ev \<in> set (transparency ds'). te_device_id ev = j \<and> dl_removed_at_epoch e = Some (te_epoch ev)"
      if "dl_status e \<noteq> Active"
      using that j log[of j e] move_insert(3,6) by (auto split: if_splits)
    fix k f
    assume few: "Suc (bt_len (devices ds)) \<le> 2 ^ 32" and k: "((bt_get (devices ds))(i \<mapsto> d)) k = Some f"
      and same: "dl_leaf_index e = dl_leaf_index f"
    show "j = k"
    proof (cases "j = i \<or> k = i")
      case True
      with j k same fresh[OF _ few] show ?thesis by (metis fun_upd_other fun_upd_same option.inject)
    next
      case False
      with j k have "bt_get (devices ds) j = Some e" "bt_get (devices ds) k = Some f" by simp_all
      from old[OF this same few] show ?thesis .
    qed
  qed (rule next')
next
  case (move_retire ds i d status ds' epoch kind)
  then have len: "bt_len (devices ds') = bt_len (devices ds)"
    by (simp add: bt_len_insert bt_contains_def)
  define d' where "d' = d\<lparr>dl_status := status, dl_removed_at_epoch := Some epoch\<rparr>"
  have get: "bt_get (devices ds') = (bt_get (devices ds))(i \<mapsto> d')" using move_retire by (simp add: d'_def)
  have old: "\<exists>e0. bt_get (devices ds) j = Some e0 \<and> dl_leaf_index e = dl_leaf_index e0"
    if "bt_get (devices ds') j = Some e" for j e
    using that move_retire(1) by (cases "j = i") (auto simp: get d'_def)
  note inv = move_retire(7)[unfolded device_inv_def]
  show ?case
    unfolding device_inv_def len
  proof (intro conjI allI impI)
    show "next_leaf ds' = min (bt_len (devices ds)) (2 ^ 32 - 1)" using inv move_retire(5) by simp
    fix j e
    assume j: "bt_get (devices ds') j = Some e"
    from old[OF j] inv show "dl_leaf_index e \<le> 2 ^ 32 - 1" "dl_leaf_index e < bt_len (devices ds)" by auto
    show "\<exists>ev \<in> set (transparency ds'). te_device_id ev = j \<and> dl_removed_at_epoch e = Some (te_epoch ev)"
      if "dl_status e \<noteq> Active"
    proof (cases "j = i")
      case True
      with j show ?thesis by (auto simp: get d'_def move_retire(6))
    next
      case False
      with j have "bt_get (devices ds) j = Some e" by (simp add: get)
      with inv that have "\<exists>ev \<in> set (transparency ds). te_device_id ev = j \<and> dl_removed_at_epoch e = Some (te_epoch ev)"
        by blast
      then show ?thesis by (auto simp: move_retire(6))
    qed
    fix k f
    assume *: "bt_len (devices ds) \<le> 2 ^ 32" "bt_get (devices ds') k = Some f" "dl_leaf_index e = dl_leaf_index f"
    obtain e0 f0 where "bt_get (devices ds) j = Some e0" "bt_get (devices ds) k = Some f0" "dl_leaf_index e0 = dl_leaf_index f0"
      using old[OF j] old[OF *(2)] *(3) by auto
    with inv *(1) show "j = k" by blast
  qed
qed

lemma device_move_frozen:
  "device_move ds ds' \<Longrightarrow> bt_get (devices ds) i = Some d \<Longrightarrow> dl_status d \<noteq> Active \<Longrightarrow> bt_get (devices ds') i = Some d"
  by (induction rule: device_move.induct) (auto simp: bt_contains_def)

lemma device_move_log: "device_move ds ds' \<Longrightarrow> prefix (transparency ds) (transparency ds')"
  by (induction rule: device_move.induct) auto

lemma device_moves_frozen:
  "device_move\<^sup>*\<^sup>* ds ds' \<Longrightarrow> bt_get (devices ds) i = Some d \<Longrightarrow> dl_status d \<noteq> Active \<Longrightarrow>
     bt_get (devices ds') i = Some d \<and> prefix (transparency ds) (transparency ds')"
proof (induction rule: rtranclp_induct)
  case (step y z)
  then show ?case using device_move_frozen device_move_log prefix_order.trans by metis
qed simp

lemma device_steps_moves:
  "(device_step ed hx show_uuid js bad)\<^sup>*\<^sup>* ds ds' \<Longrightarrow> device_move\<^sup>*\<^sup>* ds ds'"
proof (induction rule: rtranclp_induct)
  case (step y z)
  then show ?case using device_step_moves by (meson rtranclp_trans)
qed simp

lemma device_steps_inv:
  "(device_step ed hx show_uuid js bad)\<^sup>*\<^sup>* device_set_new ds \<Longrightarrow> device_inv ds"
proof -
  assume "(device_step ed hx show_uuid js bad)\<^sup>*\<^sup>* device_set_new ds"
  then have "device_move\<^sup>*\<^sup>* device_set_new ds" by (rule device_steps_moves)
  then show ?thesis
    by (induction rule: rtranclp_induct) (auto simp: device_inv_new intro: device_move_inv)
qed

text \<open>
  A removed or compromised device is frozen: no later call, pairing and rotation included,
  changes its record, lets it send again or lets it authorize a pairing, and the transparency log only grows.
\<close>

theorem retired_device_stays_retired:
  assumes "(device_step ed hx show_uuid js bad)\<^sup>*\<^sup>* ds ds'"
    and "device ds i = Some d" and "dl_status d \<noteq> Active"
  shows "device ds' i = Some d \<and> \<not> device_may_send ds' i \<and>
    require_authorizing_device ed ds' identity i = Inl UnauthorizedAuthorizingDevice \<and>
    prefix (transparency ds) (transparency ds')"
  using device_moves_frozen[OF device_steps_moves[OF assms(1)], of i d] assms(2,3)
  by (simp add: device_def device_may_send_def require_authorizing_device_def)

definition demo_retired :: device_set where
  "demo_retired = fst (remove_device demo_devices 1 4)"

theorem retired_device_stays_retired_witness:
  "device (fst (add_authorized_device ed_demo demo_retired 2 (identity_generate ''ann'' 5) (replicate 32 1) ''laptop'' 6)) 1 =
     Some (demo_leaf\<lparr>dl_status := Removed, dl_removed_at_epoch := Some 4\<rparr>)"
proof -
  have retired: "demo_retired = demo_devices\<lparr>devices := bt_insert 1 (demo_leaf\<lparr>dl_status := Removed, dl_removed_at_epoch := Some 4\<rparr>) (devices demo_devices),
      transparency := [\<lparr>te_device_id = 1, te_kind = ''device-removed'', te_epoch = 4\<rparr>]\<rparr>"
    by (simp add: demo_retired_def remove_device_def retire_device_def demo_devices_def demo_leaf_def Let_def)
  have "device_step ed_demo hex_demo uuid_demo (json_demo demo_payload) [] demo_retired
      (fst (add_authorized_device ed_demo demo_retired 2 (identity_generate ''ann'' 5) (replicate 32 1) ''laptop'' 6))"
    by (rule step_add) (simp add: retired demo_devices_def)
  then show ?thesis
    using retired_device_stays_retired[OF r_into_rtranclp, of ed_demo hex_demo uuid_demo _ "[]" demo_retired _ 1
        "demo_leaf\<lparr>dl_status := Removed, dl_removed_at_epoch := Some 4\<rparr>"]
    by (simp add: retired device_def)
qed

text \<open>
  C37: In every reachable set of at most \<open>2 ^ 32\<close> devices no two devices, retired ones included, share a
  leaf index, and every retirement is in the transparency log with the epoch recorded in the leaf.
\<close>

theorem device_set_leaves_unique:
  assumes "(device_step ed hx show_uuid js bad)\<^sup>*\<^sup>* device_set_new ds"
  shows "(bt_len (devices ds) \<le> 2 ^ 32 \<longrightarrow>
      (\<forall>i j d e. device ds i = Some d \<and> device ds j = Some e \<and> dl_leaf_index d = dl_leaf_index e \<longrightarrow> i = j)) \<and>
    (\<forall>i d. device ds i = Some d \<and> dl_status d \<noteq> Active \<longrightarrow>
      (\<exists>ev. ev \<in> set (transparency ds) \<and> te_device_id ev = i \<and> dl_removed_at_epoch d = Some (te_epoch ev)))"
  using device_steps_inv[OF assms] unfolding device_inv_def device_def by blast

definition demo_add :: "uuid \<Rightarrow> device_set \<Rightarrow> device_set" where
  "demo_add i ds = fst (add_authorized_device ed_demo ds i (identity_generate ''ann'' 5) (replicate 32 1) ''laptop'' 3)"

lemma demo_add_devices:
  "\<exists>d. devices (demo_add i ds) = bt_insert i d (devices ds) \<and> dl_status d = Active"
  by (simp add: demo_add_def add_authorized_device_def insert_authorized_device_def Let_def)
    (rule exI, rule conjI, rule refl, simp)

theorem device_set_leaves_unique_witness:
  "let ds = fst (remove_device (demo_add 2 (demo_add 1 device_set_new)) 1 4)
   in (\<nexists>d e. device ds 1 = Some d \<and> device ds 2 = Some e \<and> dl_leaf_index d = dl_leaf_index e) \<and>
      (\<exists>ev. ev \<in> set (transparency ds) \<and> te_device_id ev = 1)"
proof -
  let ?step = "device_step ed_demo hex_demo uuid_demo (json_demo demo_payload) []"
  define a where "a = demo_add 1 device_set_new"
  define b where "b = demo_add 2 a"
  define ds where "ds = fst (remove_device b 1 4)"
  obtain d1 where d1: "devices a = bt_insert 1 d1 bt_empty" "dl_status d1 = Active"
    using demo_add_devices[of 1 device_set_new] by (auto simp: a_def device_set_new_def)
  obtain d2 where d2: "devices b = bt_insert 2 d2 (devices a)"
    using demo_add_devices[of 2 a] by (auto simp: b_def)
  have ds: "devices ds = bt_insert 1 (d1\<lparr>dl_status := Removed, dl_removed_at_epoch := Some 4\<rparr>) (devices b)"
    using d1 d2 by (simp add: ds_def remove_device_def retire_device_def Let_def)
  have "?step device_set_new a" unfolding a_def demo_add_def by (rule step_add) (simp add: device_set_new_def)
  moreover have "?step a b" unfolding b_def demo_add_def by (rule step_add) (simp add: d1)
  moreover have "?step b ds" unfolding ds_def by (rule step_remove)
  ultimately have steps: "?step\<^sup>*\<^sup>* device_set_new ds" by (meson rtranclp.rtrancl_into_rtrancl rtranclp.rtrancl_refl)
  have len: "bt_len (devices ds) \<le> 2 ^ 32" by (simp add: ds d1 d2 bt_len_insert)
  note unique = device_set_leaves_unique[OF steps]
  have one_not_two: "(1 :: uuid) \<noteq> 2" by simp
  have get: "device ds 1 = Some (d1\<lparr>dl_status := Removed, dl_removed_at_epoch := Some 4\<rparr>)" by (simp add: device_def ds)
  from unique len have "\<nexists>d e. device ds 1 = Some d \<and> device ds 2 = Some e \<and> dl_leaf_index d = dl_leaf_index e"
    by (metis (no_types, lifting) one_not_two)
  moreover from unique get have "\<exists>ev. ev \<in> set (transparency ds) \<and> te_device_id ev = 1" by fastforce
  ultimately show ?thesis by (simp add: ds_def b_def a_def Let_def)
qed

end
