(* ===== verification/Group.thy ===== *)
theory Group
  imports Device_Set
begin

text \<open>
  The epoch-numbered group (\<open>crates/mls-core/src/group.rs\<close>) and the exporter
  (\<open>crates/mls-core/src/exporter.rs\<close>). SHA-256 is the parameter \<open>sha256\<close>. Shown: members that agree on
  the epoch secret agree on the history of the group, exported secrets of different services,
  contexts or epochs differ, and, together with the device set, a retired device never
  sends again.
\<close>

section \<open>Exporter\<close>

datatype export_label = Text | Media | ContentKey

definition export_label_str :: "export_label \<Rightarrow> string" where
  "export_label_str label =
     (case label of
        Text \<Rightarrow> ''discrypt/v1/text''
      | Media \<Rightarrow> ''discrypt/v1/media''
      | ContentKey \<Rightarrow> ''discrypt/v1/content-key'')"

definition exporter_preimage :: "bytes \<Rightarrow> export_label \<Rightarrow> bytes \<Rightarrow> bytes" where
  "exporter_preimage secret label ctx =
     str_bytes ''discrypt-exporter-v1'' @ str_bytes (export_label_str label) @ u64_be (length ctx) @ ctx @ secret"

definition derive_epoch_secret :: "(bytes \<Rightarrow> bytes) \<Rightarrow> bytes \<Rightarrow> export_label \<Rightarrow> bytes \<Rightarrow> bytes" where
  "derive_epoch_secret sha256 secret label ctx = sha256 (exporter_preimage secret label ctx)"

section \<open>Group state\<close>

datatype mls_core_error =
    LeafAlreadyExists nat
  | LeafNotFound nat
  | InactiveLeaf nat
  | SenderNotAuthorized nat
  | StaleSenderEpoch nat nat

record group_state =
  group_id :: string
  group_epoch :: nat
  group_members :: "(nat, device_leaf) btreemap"
  epoch_secret :: bytes

definition group_new :: "(bytes \<Rightarrow> bytes) \<Rightarrow> string \<Rightarrow> group_state" where
  "group_new sha256 gid =
     \<lparr>group_id = gid, group_epoch = 0, group_members = bt_empty, epoch_secret = sha256 (str_bytes gid)\<rparr>"

definition advance_epoch :: "(bytes \<Rightarrow> bytes) \<Rightarrow> group_state \<Rightarrow> string \<Rightarrow> group_state" where
  "advance_epoch sha256 g reason =
     (let epoch = sat_add (group_epoch g) 1
      in g\<lparr>group_epoch := epoch, epoch_secret := sha256 (epoch_secret g @ u64_be epoch @ str_bytes reason)\<rparr>)"

definition add_leaf :: "(bytes \<Rightarrow> bytes) \<Rightarrow> group_state \<Rightarrow> device_leaf \<Rightarrow> mls_core_error + group_state" where
  "add_leaf sha256 g leaf =
     (if dl_status leaf \<noteq> Active then Inl (InactiveLeaf (dl_leaf_index leaf))
      else if bt_contains (group_members g) (dl_leaf_index leaf) then Inl (LeafAlreadyExists (dl_leaf_index leaf))
      else Inr (advance_epoch sha256 (g\<lparr>group_members := bt_insert (dl_leaf_index leaf) leaf (group_members g)\<rparr>) ''add''))"

definition remove_leaf :: "(bytes \<Rightarrow> bytes) \<Rightarrow> group_state \<Rightarrow> nat \<Rightarrow> mls_core_error + group_state" where
  "remove_leaf sha256 g leaf =
     (if bt_contains (group_members g) leaf
      then Inr (advance_epoch sha256 (g\<lparr>group_members := bt_remove leaf (group_members g)\<rparr>) ''remove'')
      else Inl (LeafNotFound leaf))"

definition rotate_leaf :: "(bytes \<Rightarrow> bytes) \<Rightarrow> group_state \<Rightarrow> nat \<Rightarrow> device_leaf \<Rightarrow> mls_core_error + group_state" where
  "rotate_leaf sha256 g compromised_leaf replacement =
     (if \<not> bt_contains (group_members g) compromised_leaf then Inl (LeafNotFound compromised_leaf)
      else if dl_status replacement \<noteq> Active then Inl (InactiveLeaf (dl_leaf_index replacement))
      else if bt_contains (group_members g) (dl_leaf_index replacement)
      then Inl (LeafAlreadyExists (dl_leaf_index replacement))
      else let g1 = advance_epoch sha256 (g\<lparr>group_members := bt_remove compromised_leaf (group_members g)\<rparr>) ''remove-compromised'';
               g2 = g1\<lparr>group_members := bt_insert (dl_leaf_index replacement) replacement (group_members g1)\<rparr>
           in Inr (advance_epoch sha256 g2 ''add-rotation-replacement''))"

definition sender_may_send :: "group_state \<Rightarrow> nat \<Rightarrow> nat \<Rightarrow> bool" where
  "sender_may_send g leaf epoch \<longleftrightarrow>
     epoch = group_epoch g \<and>
     (case bt_get (group_members g) leaf of None \<Rightarrow> False | Some d \<Rightarrow> dl_status d = Active)"

definition validate_sender :: "group_state \<Rightarrow> nat \<Rightarrow> nat \<Rightarrow> mls_core_error + unit" where
  "validate_sender g leaf epoch =
     (if epoch \<noteq> group_epoch g then Inl (StaleSenderEpoch (group_epoch g) epoch)
      else if \<not> sender_may_send g leaf epoch then Inl (SenderNotAuthorized leaf)
      else Inr ())"

definition export :: "(bytes \<Rightarrow> bytes) \<Rightarrow> group_state \<Rightarrow> export_label \<Rightarrow> bytes \<Rightarrow> bytes" where
  "export sha256 g label ctx = derive_epoch_secret sha256 (epoch_secret g) label ctx"

section \<open>Exported secrets are separated\<close>

lemma export_label_prefix_free:
  "str_bytes (export_label_str l) @ r = str_bytes (export_label_str m) @ s \<Longrightarrow> l = m \<and> r = s"
  by (cases l; cases m) (simp_all add: export_label_str_def str_bytes_def)

lemma exporter_preimage_inj:
  assumes "exporter_preimage k l c = exporter_preimage k' l' c'" and "length c < 2 ^ 64" "length c' < 2 ^ 64"
  shows "k = k' \<and> l = l' \<and> c = c'"
proof -
  from assms(1) have "str_bytes (export_label_str l) @ lp_be c @ k = str_bytes (export_label_str l') @ lp_be c' @ k'"
    by (simp add: exporter_preimage_def lp_be_def)
  from export_label_prefix_free[OF this] have "l = l'" "lp_be c @ k = lp_be c' @ k'" by simp_all
  with lp_be_append_inj[OF this(2)] assms(2,3) show ?thesis by simp
qed

text \<open>
  Two exports yield the same secret only if they were made for the same service label, the same
  context and the same epoch secret, or the digest collides on exactly these two inputs.
\<close>

theorem export_separated:
  assumes "export sha256 g label ctx = export sha256 g' label' ctx'"
    and "length ctx < 2 ^ 64" "length ctx' < 2 ^ 64"
  shows "label = label' \<and> ctx = ctx' \<and> epoch_secret g = epoch_secret g' \<or>
    collision sha256 (exporter_preimage (epoch_secret g) label ctx) (exporter_preimage (epoch_secret g') label' ctx')"
  using exporter_preimage_inj[OF _ assms(2,3)] assms(1)
  by (auto simp: export_def derive_epoch_secret_def collision_def)

theorem export_separated_witness:
  "export (\<lambda>b. b) (group_new (\<lambda>b. b) ''g'') Text [1] \<noteq> export (\<lambda>b. b) (group_new (\<lambda>b. b) ''g'') Media [1]"
  using export_separated[of "\<lambda>b. b" "group_new (\<lambda>b. b) ''g''" Text "[1]" "group_new (\<lambda>b. b) ''g''" Media "[1]"]
  by (auto simp: collision_def)

section \<open>Histories\<close>

text \<open>A change of the group with the reasons it mixes into the epoch secret.\<close>

inductive group_step :: "(bytes \<Rightarrow> bytes) \<Rightarrow> group_state \<Rightarrow> string list \<Rightarrow> group_state \<Rightarrow> bool" for sha256 where
  group_add: "add_leaf sha256 g leaf = Inr g' \<Longrightarrow> group_step sha256 g [''add''] g'"
| group_remove: "remove_leaf sha256 g l = Inr g' \<Longrightarrow> group_step sha256 g [''remove''] g'"
| group_rotate: "rotate_leaf sha256 g l leaf = Inr g' \<Longrightarrow>
     group_step sha256 g [''remove-compromised'', ''add-rotation-replacement''] g'"

inductive group_run :: "(bytes \<Rightarrow> bytes) \<Rightarrow> string \<Rightarrow> string list \<Rightarrow> group_state \<Rightarrow> bool" for sha256 gid where
  run_new: "group_run sha256 gid [] (group_new sha256 gid)"
| run_step: "group_run sha256 gid rs g \<Longrightarrow> group_step sha256 g rs' g' \<Longrightarrow> group_run sha256 gid (rs @ rs') g'"

fun chain :: "(bytes \<Rightarrow> bytes) \<Rightarrow> nat \<times> bytes \<Rightarrow> string list \<Rightarrow> nat \<times> bytes" where
  "chain sha256 es [] = es"
| "chain sha256 (e, s) (r # rs) = (let e' = sat_add e 1 in chain sha256 (e', sha256 (s @ u64_be e' @ str_bytes r)) rs)"

lemma chain_append: "chain sha256 es (rs @ rs') = chain sha256 (chain sha256 es rs) rs'"
  by (induction sha256 es rs rule: chain.induct) (simp_all add: Let_def)

lemma group_step_chain:
  "group_step sha256 g rs g' \<Longrightarrow> (group_epoch g', epoch_secret g') = chain sha256 (group_epoch g, epoch_secret g) rs"
  by (induction rule: group_step.induct)
     (auto simp: add_leaf_def remove_leaf_def rotate_leaf_def advance_epoch_def Let_def split: if_splits)

text \<open>The epoch and the secret are a function of the group id and the reasons, whoever is a member.\<close>

lemma group_run_chain:
  "group_run sha256 gid rs g \<Longrightarrow> (group_epoch g, epoch_secret g) = chain sha256 (0, sha256 (str_bytes gid)) rs"
  by (induction rule: group_run.induct) (auto simp: group_new_def chain_append dest: group_step_chain)

lemma removal_secret_from_previous:
  "remove_leaf sha256 g l = Inr g' \<Longrightarrow>
     epoch_secret g' = sha256 (epoch_secret g @ u64_be (sat_add (group_epoch g) 1) @ str_bytes ''remove'')"
  by (auto simp: remove_leaf_def advance_epoch_def Let_def split: if_splits)

fun hashed :: "(bytes \<Rightarrow> bytes) \<Rightarrow> string \<Rightarrow> string list \<Rightarrow> bytes set" where
  "hashed sha256 gid [] = {str_bytes gid}"
| "hashed sha256 gid (r # rs) =
     insert (snd (chain sha256 (0, sha256 (str_bytes gid)) (rev rs)) @ u64_be (Suc (length rs)) @ str_bytes r)
       (hashed sha256 gid rs)"

lemma chain_epoch: "fst (chain sha256 (e, s) rs) = sat_add e (length rs)" if "e \<le> u64_max"
  using that
proof (induction rs arbitrary: e s)
  case (Cons r rs)
  then have "fst (chain sha256 (e, s) (r # rs)) = sat_add (sat_add e 1) (length rs)" by (simp add: Let_def)
  then show ?case by (simp add: sat_add_def min_def)
qed (simp add: sat_add_def)

lemma chain_snoc:
  assumes "length rs < u64_max"
  shows "snd (chain sha256 (0, s) (rs @ [r])) = sha256 (snd (chain sha256 (0, s) rs) @ u64_be (Suc (length rs)) @ str_bytes r)"
  using assms chain_epoch[of 0 sha256 s rs]
  by (cases "chain sha256 (0, s) rs") (simp add: chain_append Let_def sat_add_def min_def)

lemma chain_secret_length:
  "\<forall>m. length (sha256 m) = 32 \<Longrightarrow> length s = 32 \<Longrightarrow> length (snd (chain sha256 (e, s) rs)) = 32"
  by (induction rs arbitrary: e s) (simp_all add: Let_def)

lemma chain_inj:
  assumes "\<forall>m. length (sha256 m) = 32" and "length rs = length rs'" and "length rs \<le> u64_max"
    and "snd (chain sha256 (0, sha256 (str_bytes gid)) (rev rs)) = snd (chain sha256 (0, sha256 (str_bytes gid')) (rev rs'))"
  shows "gid = gid' \<and> rs = rs' \<or> (\<exists>x y. x \<in> hashed sha256 gid rs \<and> y \<in> hashed sha256 gid' rs' \<and> collision sha256 x y)"
  using assms(2-)
proof (induction rs rs' rule: list_induct2)
  case Nil
  then show ?case by (auto simp: collision_def)
next
  case (Cons r rs r' rs')
  let ?s = "\<lambda>g rs. snd (chain sha256 (0, sha256 (str_bytes g)) (rev rs))"
  let ?x = "?s gid rs @ u64_be (Suc (length rs)) @ str_bytes r"
  let ?y = "?s gid' rs' @ u64_be (Suc (length rs')) @ str_bytes r'"
  from Cons.prems Cons.hyps have eq: "sha256 ?x = sha256 ?y" by (simp add: chain_snoc)
  show ?case
  proof (cases "?x = ?y")
    case True
    then have "?s gid rs = ?s gid' rs'" "r = r'"
      using Cons.hyps assms(1) by (simp_all add: append_eq_same_length chain_secret_length)
    with Cons show ?thesis by auto
  qed (use eq in \<open>auto simp: collision_def\<close>)
qed


definition demo_group :: "string \<Rightarrow> group_state" where
  "demo_group gid = advance_epoch sha_demo (group_new sha_demo gid\<lparr>group_members := bt_insert 0 demo_leaf bt_empty\<rparr>) ''add''"

lemma demo_group_run: "group_run sha_demo gid [''add''] (demo_group gid)"
proof -
  have "group_step sha_demo (group_new sha_demo gid) [''add''] (demo_group gid)"
    by (rule group_add[where leaf = demo_leaf]) (simp add: add_leaf_def demo_group_def group_new_def demo_leaf_def)
  from run_step[OF run_new this] show ?thesis by simp
qed

lemma demo_group_epoch: "group_epoch (demo_group gid) = 1"
  by (simp add: demo_group_def advance_epoch_def group_new_def sat_add_def u64_max_def Let_def)


section \<open>Devices and groups together\<close>

text \<open>
  The devices of one account in one group: calls on the device set interleaved with changes of the
  group, which add only active devices of the set.
\<close>

inductive account_step ::
  "(bytes \<Rightarrow> bytes) \<Rightarrow> 'sk ed25519 \<Rightarrow> hex_codec \<Rightarrow> (uuid \<Rightarrow> string) \<Rightarrow> device_pairing_payload json_codec \<Rightarrow> string
     \<Rightarrow> device_set \<times> group_state \<Rightarrow> device_set \<times> group_state \<Rightarrow> bool"
  for sha256 ed hx show_uuid js bad where
  account_device: "device_step ed hx show_uuid js bad ds ds' \<Longrightarrow> account_step sha256 ed hx show_uuid js bad (ds, g) (ds', g)"
| account_add: "d \<in> set (active_devices ds) \<Longrightarrow> add_leaf sha256 g d = Inr g' \<Longrightarrow>
     account_step sha256 ed hx show_uuid js bad (ds, g) (ds, g')"
| account_remove: "remove_leaf sha256 g l = Inr g' \<Longrightarrow> account_step sha256 ed hx show_uuid js bad (ds, g) (ds, g')"
| account_rotate: "d \<in> set (active_devices ds) \<Longrightarrow> rotate_leaf sha256 g l d = Inr g' \<Longrightarrow>
     account_step sha256 ed hx show_uuid js bad (ds, g) (ds, g')"

lemma add_leaf_members:
  "add_leaf sha256 g d = Inr g' \<Longrightarrow> group_members g' = bt_insert (dl_leaf_index d) d (group_members g)"
  by (auto simp: add_leaf_def advance_epoch_def Let_def split: if_splits)

lemma remove_leaf_members: "remove_leaf sha256 g l = Inr g' \<Longrightarrow> group_members g' = bt_remove l (group_members g)"
  by (auto simp: remove_leaf_def advance_epoch_def Let_def split: if_splits)

lemma rotate_leaf_members:
  "rotate_leaf sha256 g l d = Inr g' \<Longrightarrow>
     group_members g' = bt_insert (dl_leaf_index d) d (bt_remove l (group_members g))"
  by (auto simp: rotate_leaf_def advance_epoch_def Let_def split: if_splits)

lemma device_moves_len: "device_move\<^sup>*\<^sup>* ds ds' \<Longrightarrow> bt_len (devices ds) \<le> bt_len (devices ds')"
proof (induction rule: rtranclp_induct)
  case (step y z)
  have "bt_len (devices y) \<le> bt_len (devices z)" using step(2)
    by (induction rule: device_move.induct) (simp_all add: bt_len_insert)
  with step(3) show ?case by simp
qed simp

text \<open>The invariant of the account: a leaf index that belongs to a retired device is not a member.\<close>

definition locked_out :: "uuid \<Rightarrow> device_leaf \<Rightarrow> device_set \<times> group_state \<Rightarrow> bool" where
  "locked_out i d a \<longleftrightarrow> device_inv (fst a) \<and> bt_get (devices (fst a)) i = Some d \<and> dl_status d \<noteq> Active \<and>
     \<not> bt_contains (group_members (snd a)) (dl_leaf_index d)"

lemma active_index_differs:
  assumes "device_inv ds" and "bt_len (devices ds) \<le> 2 ^ 32" and "bt_get (devices ds) i = Some d" "dl_status d \<noteq> Active"
    and "e \<in> set (active_devices ds)"
  shows "dl_leaf_index e \<noteq> dl_leaf_index d"
proof
  assume same: "dl_leaf_index e = dl_leaf_index d"
  from assms(5) obtain j where j: "bt_get (devices ds) j = Some e" and act: "dl_status e = Active"
    by (auto simp: active_devices_def set_bt_values)
  from assms(1-3) j same have "j = i" unfolding device_inv_def by blast
  with j assms(3,4) act show False by simp
qed

lemma account_step_locked_out:
  assumes "account_step sha256 ed hx show_uuid js bad a a'" and "locked_out i d a" and "bt_len (devices (fst a')) \<le> 2 ^ 32"
  shows "locked_out i d a'"
  using assms
proof (induction rule: account_step.induct)
  case (account_device ds ds' g)
  note moves = device_step_moves[OF account_device(1)]
  have "device_inv ds'"
    using moves account_device(2) unfolding locked_out_def
    by (induction rule: rtranclp_induct) (auto intro: device_move_inv)
  with account_device(2) device_moves_frozen[OF moves, of i d] show ?case by (simp add: locked_out_def)
next
  case (account_add e ds g g')
  with active_index_differs[of ds i d e] show ?case by (simp add: locked_out_def add_leaf_members)
next
  case (account_remove g l g' ds)
  then show ?case by (simp add: locked_out_def remove_leaf_members)
next
  case (account_rotate e ds g l g')
  with active_index_differs[of ds i d e] show ?case by (simp add: locked_out_def rotate_leaf_members)
qed

lemma account_steps_locked_out:
  assumes "(account_step sha256 ed hx show_uuid js bad)\<^sup>*\<^sup>* a a'" and "locked_out i d a" and "bt_len (devices (fst a')) \<le> 2 ^ 32"
  shows "locked_out i d a'"
  using assms
proof (induction rule: rtranclp_induct)
  case (step y z)
  have "bt_len (devices (fst y)) \<le> bt_len (devices (fst z))"
    using step(2) by (induction rule: account_step.induct) (auto intro: device_moves_len device_step_moves)
  with step show ?case using account_step_locked_out by (meson le_trans)
qed simp



text \<open>
  A successful rotation retires exactly the compromised leaf in favour of the replacement: afterwards
  only the replacement may send at the new epoch, two epochs later, the compromised leaf and every
  sender that still uses the old epoch are refused, and the other members are untouched.
\<close>

theorem rotation_replaces_leaf:
  assumes "rotate_leaf sha256 g l replacement = Inr g'" and "group_epoch g + 2 \<le> u64_max"
  shows "group_epoch g' = group_epoch g + 2 \<and>
    validate_sender g' (dl_leaf_index replacement) (group_epoch g') = Inr () \<and>
    validate_sender g' l (group_epoch g') = Inl (SenderNotAuthorized l) \<and>
    validate_sender g' m (group_epoch g) = Inl (StaleSenderEpoch (group_epoch g') (group_epoch g)) \<and>
    (m \<noteq> l \<and> m \<noteq> dl_leaf_index replacement \<longrightarrow>
      validate_sender g' m (group_epoch g') = validate_sender g m (group_epoch g))"
proof -
  have ok: "bt_contains (group_members g) l" "dl_status replacement = Active"
    "\<not> bt_contains (group_members g) (dl_leaf_index replacement)"
    using assms(1) by (auto simp: rotate_leaf_def split: if_splits)
  have ep: "group_epoch g' = group_epoch g + 2"
    using assms by (auto simp: rotate_leaf_def advance_epoch_def sat_add_def Let_def min_def split: if_splits)
  from ok have "dl_leaf_index replacement \<noteq> l" by auto
  then show ?thesis
    using ok ep rotate_leaf_members[OF assms(1)]
    by (auto simp: validate_sender_def sender_may_send_def)
qed

theorem rotation_replaces_leaf_witness:
  "\<exists>g'. rotate_leaf sha_demo (demo_group []) 0 (demo_leaf\<lparr>dl_leaf_index := 7\<rparr>) = Inr g' \<and> group_epoch g' = 3 \<and>
     validate_sender g' 7 3 = Inr () \<and> validate_sender g' 0 3 = Inl (SenderNotAuthorized 0)"
proof -
  have ep: "group_epoch (demo_group []) = 1" by (rule demo_group_epoch)
  obtain g' where g': "rotate_leaf sha_demo (demo_group []) 0 (demo_leaf\<lparr>dl_leaf_index := 7\<rparr>) = Inr g'"
    by (simp add: rotate_leaf_def demo_group_def advance_epoch_def demo_leaf_def Let_def)
  from rotation_replaces_leaf[OF g', of 5] have "group_epoch g' = 3 \<and> validate_sender g' 7 3 = Inr () \<and> validate_sender g' 0 3 = Inl (SenderNotAuthorized 0)"
    by (auto simp: ep u64_max_def numeral_3_eq_3)
  with g' show ?thesis by blast
qed

end
