(* ===== verification/Retention.thy ===== *)
theory Retention
  imports Group
begin

text \<open>
  Content-key retention and shredding (\<open>crates/content-keys/src/lib.rs\<close>): retention windows and their
  labels, the state of a message key, policy transitions, and the tombstones of the own devices of an account.
  \<open>chrono\<close> is a parameter: \<open>ck_since\<close> is \<open>signed_duration_since\<close>, \<open>ck_seconds\<close> is \<open>Duration::seconds\<close>, which
  panics out of range (\<open>None\<close>), and instants and durations are any linear orders.
\<close>

section \<open>Windows\<close>

datatype retention_window =
    Hours1 | Hours24 | Days7 | Days30 | Days90
  | CustomSeconds nat
  | UnlimitedWarned

definition window_default :: retention_window where
  "window_default = Days7"

definition window_presets :: "retention_window list" where
  "window_presets = [Hours1, Hours24, Days7, Days30, Days90]"

definition window_label :: "retention_window \<Rightarrow> string" where
  "window_label w =
     (case w of
        Hours1 \<Rightarrow> ''1 hour''
      | Hours24 \<Rightarrow> ''24 hours''
      | Days7 \<Rightarrow> ''7 days''
      | Days30 \<Rightarrow> ''30 days''
      | Days90 \<Rightarrow> ''90 days''
      | CustomSeconds seconds \<Rightarrow> ''custom '' @ nat_str seconds @ '' seconds''
      | UnlimitedWarned \<Rightarrow> ''warned unlimited / never-lock'')"

definition window_seconds :: "retention_window \<Rightarrow> nat option" where
  "window_seconds w =
     (case w of
        Hours1 \<Rightarrow> Some 3600
      | Hours24 \<Rightarrow> Some 86400
      | Days7 \<Rightarrow> Some 604800
      | Days30 \<Rightarrow> Some 2592000
      | Days90 \<Rightarrow> Some 7776000
      | CustomSeconds s \<Rightarrow> Some s
      | UnlimitedWarned \<Rightarrow> None)"

definition window_from_label :: "string \<Rightarrow> retention_window option" where
  "window_from_label label =
     (let normalized = map to_ascii_lowercase (trim label)
      in if normalized \<in> {''1 hour'', ''1h'', ''hour''} then Some Hours1
         else if normalized \<in> {''24 hours'', ''24h'', ''1 day''} then Some Hours24
         else if normalized \<in> {''7 days'', ''7d'', ''7 day default''} then Some Days7
         else if normalized \<in> {''30 days'', ''30d''} then Some Days30
         else if normalized \<in> {''90 days'', ''90d''} then Some Days90
         else if normalized \<in> {''unlimited'', ''never-lock'', ''warned unlimited / never-lock''} then Some UnlimitedWarned
         else (case strip_prefix ''custom '' normalized of
             None \<Rightarrow> None
           | Some rest \<Rightarrow> (case strip_suffix '' seconds'' rest of
                 None \<Rightarrow> None
               | Some seconds \<Rightarrow> map_option CustomSeconds (parse_u64 seconds))))"

datatype retention_policy_source = UserDefault | FromGovernance | FromChannel

record retention_policy =
  rp_window :: retention_window
  rp_source :: retention_policy_source

definition retention_policy_new :: "retention_window \<Rightarrow> retention_policy_source \<Rightarrow> retention_policy" where
  "retention_policy_new window source = \<lparr>rp_window = window, rp_source = source\<rparr>"

definition retention_policy_user_default :: "retention_window \<Rightarrow> retention_policy" where
  "retention_policy_user_default window = retention_policy_new window UserDefault"

definition retention_policy_label :: "retention_policy \<Rightarrow> string" where
  "retention_policy_label p = window_label (rp_window p)"

definition retention_policy_seconds :: "retention_policy \<Rightarrow> nat option" where
  "retention_policy_seconds p = window_seconds (rp_window p)"

definition retention_policy_default :: retention_policy where
  "retention_policy_default = retention_policy_user_default Days7"

section \<open>Key states\<close>

datatype key_state =
    Cached bytes | Locked | Shredded | Decoy bytes | KeyRateLimited | Unavailable

definition content_key_context :: "nat \<Rightarrow> string \<Rightarrow> bytes" where
  "content_key_context author message_id = u32_be author @ u64_be (length message_id) @ str_bytes message_id"

definition derive_content_key :: "(bytes \<Rightarrow> bytes) \<Rightarrow> nat \<Rightarrow> string \<Rightarrow> bytes \<Rightarrow> bytes" where
  "derive_content_key sha256 author message_id secret =
     derive_epoch_secret sha256 secret ContentKey (content_key_context author message_id)"

record ('t, 'd) clock =
  ck_since :: "'t \<Rightarrow> 't \<Rightarrow> 'd"
  ck_seconds :: "int \<Rightarrow> 'd option"

text \<open>\<open>s as i64\<close>.\<close>

definition as_i64 :: "nat \<Rightarrow> int" where
  "as_i64 s = (if s < 2 ^ 63 then int s else int s - 2 ^ 64)"

text \<open>\<open>None\<close> is a panic of \<open>Duration::seconds\<close>.\<close>

definition key_state_at ::
  "('t, 'd::linorder) clock \<Rightarrow> 't \<Rightarrow> 't \<Rightarrow> retention_window \<Rightarrow> bytes \<Rightarrow> bool \<Rightarrow> key_state option" where
  "key_state_at C now sent_at window key tombstoned =
     (if tombstoned then Some Shredded
      else case window_seconds window of
          None \<Rightarrow> Some (Cached key)
        | Some s \<Rightarrow> (case ck_seconds C (as_i64 s) of
              None \<Rightarrow> None
            | Some d \<Rightarrow> Some (if ck_since C now sent_at \<le> d then Cached key else Locked)))"

record 't retention_transition =
  tr_old_window :: retention_window
  tr_new_window :: retention_window
  tr_changed_at :: 't

definition is_shorter :: "retention_window \<Rightarrow> retention_window \<Rightarrow> bool" where
  "is_shorter new_window old_window =
     (case (window_seconds new_window, window_seconds old_window) of
        (Some new, Some old) \<Rightarrow> new < old
      | (Some _, None) \<Rightarrow> True
      | (None, _) \<Rightarrow> False)"

definition state_for_message ::
  "('t::linorder, 'd::linorder) clock \<Rightarrow> 't retention_transition \<Rightarrow> 't \<Rightarrow> 't \<Rightarrow> bytes \<Rightarrow> bool \<Rightarrow> key_state option" where
  "state_for_message C tr now sent_at key tombstoned =
     (if tombstoned then Some Shredded
      else if is_shorter (tr_new_window tr) (tr_old_window tr)
      then key_state_at C now sent_at (tr_new_window tr) key False
      else if sent_at < tr_changed_at tr then key_state_at C now sent_at (tr_old_window tr) key False
      else key_state_at C now sent_at (tr_new_window tr) key False)"

definition transition_key_state ::
  "('t::linorder, 'd::linorder) clock \<Rightarrow> 't \<Rightarrow> 't \<Rightarrow> key_state \<Rightarrow> 't retention_transition \<Rightarrow> bytes \<Rightarrow> key_state option" where
  "transition_key_state C now sent_at current_state tr key =
     (if current_state = Shredded then Some Shredded
      else if current_state = Locked \<and> \<not> is_shorter (tr_new_window tr) (tr_old_window tr) then Some Locked
      else state_for_message C tr now sent_at key False)"

section \<open>Tombstones\<close>

type_synonym tombstones = "string btreeset"

definition tombstone_shred :: "tombstones \<Rightarrow> string \<Rightarrow> tombstones" where
  "tombstone_shred t i = bs_insert i t"

definition tombstone_contains :: "tombstones \<Rightarrow> string \<Rightarrow> bool" where
  "tombstone_contains t i = bs_member t i"

definition tombstone_ids :: "tombstones \<Rightarrow> string list" where
  "tombstone_ids t = bs_elems t"

record device_shred_status =
  ss_device_id :: string
  ss_online :: bool
  ss_seen_tombstones :: tombstones

record cross_device_shred_state =
  global_tombstones :: tombstones
  shred_devices :: "(string, device_shred_status) btreemap"

definition shred_state_default :: cross_device_shred_state where
  "shred_state_default = \<lparr>global_tombstones = bs_empty, shred_devices = bt_empty\<rparr>"

definition see_all :: "string list \<Rightarrow> device_shred_status \<Rightarrow> device_shred_status" where
  "see_all ids dev =
     dev\<lparr>ss_seen_tombstones := fold (\<lambda>i t. tombstone_shred t i) ids (ss_seen_tombstones dev)\<rparr>"

definition register_device :: "cross_device_shred_state \<Rightarrow> string \<Rightarrow> bool \<Rightarrow> cross_device_shred_state" where
  "register_device s device_id online =
     (let dev = \<lparr>ss_device_id = device_id, ss_online = online, ss_seen_tombstones = bs_empty\<rparr>;
          dev = (if online then see_all (tombstone_ids (global_tombstones s)) dev else dev)
      in s\<lparr>shred_devices := bt_insert device_id dev (shred_devices s)\<rparr>)"

definition shred :: "cross_device_shred_state \<Rightarrow> string \<Rightarrow> cross_device_shred_state" where
  "shred s message_id =
     s\<lparr>global_tombstones := tombstone_shred (global_tombstones s) message_id,
       shred_devices := bt_map (\<lambda>_ dev. if ss_online dev then see_all [message_id] dev else dev) (shred_devices s)\<rparr>"

definition merge_tombstones :: "cross_device_shred_state \<Rightarrow> string list \<Rightarrow> cross_device_shred_state" where
  "merge_tombstones s message_ids =
     (let global = fold (\<lambda>i t. tombstone_shred t i) message_ids (global_tombstones s)
      in s\<lparr>global_tombstones := global,
           shred_devices := bt_map (\<lambda>_ dev. if ss_online dev then see_all (tombstone_ids global) dev else dev)
             (shred_devices s)\<rparr>)"

definition shred_tombstone_ids :: "cross_device_shred_state \<Rightarrow> string list" where
  "shred_tombstone_ids s = tombstone_ids (global_tombstones s)"

definition set_online :: "cross_device_shred_state \<Rightarrow> string \<Rightarrow> bool \<Rightarrow> cross_device_shred_state" where
  "set_online s device_id online =
     (case bt_get (shred_devices s) device_id of
        None \<Rightarrow> s
      | Some dev \<Rightarrow>
          let dev = dev\<lparr>ss_online := online\<rparr>;
              dev = (if online then see_all (tombstone_ids (global_tombstones s)) dev else dev)
          in s\<lparr>shred_devices := bt_insert device_id dev (shred_devices s)\<rparr>)"

definition pending_on_device :: "cross_device_shred_state \<Rightarrow> string \<Rightarrow> string \<Rightarrow> bool" where
  "pending_on_device s device_id message_id =
     (case bt_get (shred_devices s) device_id of
        None \<Rightarrow> False
      | Some dev \<Rightarrow> tombstone_contains (global_tombstones s) message_id \<and>
          \<not> tombstone_contains (ss_seen_tombstones dev) message_id)"

definition device_may_serve :: "cross_device_shred_state \<Rightarrow> string \<Rightarrow> string \<Rightarrow> bool" where
  "device_may_serve s device_id message_id =
     (case bt_get (shred_devices s) device_id of
        None \<Rightarrow> False
      | Some dev \<Rightarrow> \<not> tombstone_contains (ss_seen_tombstones dev) message_id)"

section \<open>Labels round trip\<close>

lemma custom_label_trim: "trim (''custom '' @ nat_str n @ '' seconds'') = ''custom '' @ nat_str n @ '' seconds''"
  by (rule trim_id) (simp_all add: strip_one_def utf8_whitespace_def)

lemma custom_label_lower:
  "map to_ascii_lowercase (''custom '' @ nat_str n @ '' seconds'') = ''custom '' @ nat_str n @ '' seconds''"
proof -
  have "map to_ascii_lowercase (nat_str n) = nat_str n"
    using digits_nat_str[of n]
    by (intro map_idI) (auto simp: list_all_iff is_digit_def to_ascii_lowercase_def in_range_def)
  then show ?thesis by (simp add: to_ascii_lowercase_def in_range_def)
qed

text \<open>
  C33: The label that the backend shows for a retention window parses back to that window, for every preset, every
  custom length a \<open>u64\<close> can hold, and the unlimited window.
\<close>

theorem retention_label_round_trip:
  assumes "\<And>s. w = CustomSeconds s \<Longrightarrow> s \<le> u64_max"
  shows "window_from_label (window_label w) = Some w"
proof (cases w)
  case (CustomSeconds n)
  have "strip_prefix ''custom '' (''custom '' @ nat_str n @ '' seconds'') = Some (nat_str n @ '' seconds'')"
    by (rule strip_prefix_append)
  then show ?thesis
    using assms[OF CustomSeconds] custom_label_trim[of n] custom_label_lower[of n]
    by (simp add: CustomSeconds window_from_label_def window_label_def parse_u64_nat_str)
qed (simp add: window_label_def, code_simp)+

theorem retention_label_round_trip_witness:
  "window_from_label ''custom 45 seconds'' = Some (CustomSeconds 45)"
proof -
  have "window_label (CustomSeconds 45) = ''custom 45 seconds''" by code_simp
  moreover have "window_from_label (window_label (CustomSeconds 45)) = Some (CustomSeconds 45)"
    by (rule retention_label_round_trip) (simp add: u64_max_def)
  ultimately show ?thesis by simp
qed

section \<open>Transitions\<close>

text \<open>Documented of \<open>chrono\<close>: the age of a message grows with time, and more seconds are a longer duration.\<close>

definition clock_monotone :: "('t::linorder, 'd::linorder) clock \<Rightarrow> bool" where
  "clock_monotone C \<longleftrightarrow>
     (\<forall>a b s. a \<le> b \<longrightarrow> ck_since C a s \<le> ck_since C b s) \<and>
     (\<forall>m n x y. ck_seconds C m = Some x \<longrightarrow> ck_seconds C n = Some y \<longrightarrow> m \<le> n \<longrightarrow> x \<le> y)"

text \<open>A window whose length is in the range of \<open>Duration::seconds\<close>.\<close>

definition window_in_range :: "('t, 'd) clock \<Rightarrow> retention_window \<Rightarrow> bool" where
  "window_in_range C w \<longleftrightarrow>
     (case window_seconds w of None \<Rightarrow> True | Some s \<Rightarrow> s < 2 ^ 63 \<and> ck_seconds C (int s) \<noteq> None)"

definition clock_demo :: "(int, int) clock" where
  "clock_demo = \<lparr>ck_since = (\<lambda>a b. a - b), ck_seconds = (\<lambda>s. if \<bar>s\<bar> \<le> (2 ^ 63 - 1) div 1000 then Some (1000 * s) else None)\<rparr>"

lemma clock_demo_monotone: "clock_monotone clock_demo"
  by (auto simp: clock_monotone_def clock_demo_def split: if_splits)

lemma key_state_locked:
  "key_state_at C now sent w key False = Some Locked \<longleftrightarrow>
     (\<exists>s d. window_seconds w = Some s \<and> ck_seconds C (as_i64 s) = Some d \<and> d < ck_since C now sent)"
  by (auto simp: key_state_at_def not_le split: option.splits if_splits)

lemma key_state_stays_locked:
  assumes "clock_monotone C" and "now \<le> later" and "key_state_at C now sent w key False = Some Locked"
  shows "key_state_at C later sent w key' False = Some Locked"
proof -
  from assms(3) obtain s d where "window_seconds w = Some s" "ck_seconds C (as_i64 s) = Some d" "d < ck_since C now sent"
    by (auto simp: key_state_locked)
  moreover have "ck_since C now sent \<le> ck_since C later sent" using assms(1,2) by (simp add: clock_monotone_def)
  ultimately show ?thesis unfolding key_state_locked by (intro exI conjI) (auto intro: less_le_trans)
qed

lemma shorter_locks_more:
  assumes "clock_monotone C" and "is_shorter new old" and "window_in_range C old" "window_in_range C new"
    and "key_state_at C now sent old key False = Some Locked"
  shows "key_state_at C now sent new key' False = Some Locked"
proof -
  from assms(5) obtain s d where s: "window_seconds old = Some s" and d: "ck_seconds C (as_i64 s) = Some d"
    and lt: "d < ck_since C now sent"
    by (auto simp: key_state_locked)
  from assms(2) s obtain n where n: "window_seconds new = Some n" "n < s"
    by (auto simp: is_shorter_def split: option.splits)
  from assms(3,4) s n(1) obtain e where e: "ck_seconds C (as_i64 n) = Some e" and r: "s < 2 ^ 63" "n < 2 ^ 63"
    by (auto simp: window_in_range_def as_i64_def)
  from r n(2) have "as_i64 n \<le> as_i64 s" by (simp add: as_i64_def)
  with assms(1) d e have "e \<le> d" unfolding clock_monotone_def by blast
  then have "e < ck_since C now sent" using lt by (rule le_less_trans)
  with n(1) e show ?thesis unfolding key_state_locked by blast
qed

text \<open>
  A key that has outlived the window in force stays locked when the policy changes, whether the new
  window is shorter (the change is retroactive) or longer (it applies only to messages sent after the
  change), and it stays locked as time passes.
\<close>

theorem transition_keeps_expired_keys_locked:
  assumes "clock_monotone C" and "now \<le> later"
    and "window_in_range C (tr_old_window tr)" and "window_in_range C (tr_new_window tr)"
    and "key_state_at C now sent_at (tr_old_window tr) key False = Some Locked"
    and "is_shorter (tr_new_window tr) (tr_old_window tr) \<or> sent_at < tr_changed_at tr"
    and "current \<noteq> Shredded"
  shows "transition_key_state C later sent_at current tr key = Some Locked"
proof -
  have old: "key_state_at C later sent_at (tr_old_window tr) key False = Some Locked"
    using key_state_stays_locked[OF assms(1,2,5)] .
  show ?thesis
  proof (cases "is_shorter (tr_new_window tr) (tr_old_window tr)")
    case True
    with shorter_locks_more[OF assms(1) True assms(3,4) old] assms(7) show ?thesis
      by (simp add: transition_key_state_def state_for_message_def)
  next
    case False
    with old assms(6,7) show ?thesis by (simp add: transition_key_state_def state_for_message_def)
  qed
qed

theorem transition_keeps_expired_keys_locked_witness:
  "transition_key_state clock_demo 9000000 0 (Cached [1])
     \<lparr>tr_old_window = Hours1, tr_new_window = Days7, tr_changed_at = 8000000\<rparr> [1] = Some Locked"
  by (rule transition_keeps_expired_keys_locked[OF clock_demo_monotone, of 7200000])
     (simp_all add: window_in_range_def window_seconds_def clock_demo_def key_state_at_def as_i64_def)

text \<open>
  A locked key can come back all the same: after a longer window that leaves it locked, a second change to
  a shorter window recomputes the state from the age alone. A message locked by a one-hour window is
  readable again at the age of two hours, after the changes to seven days and back to one day.
\<close>

theorem shortening_resurrects_locked_key:
  "key_state_at clock_demo 7200000 0 Hours1 [1] False = Some Locked \<and>
   transition_key_state clock_demo 7200000 0 Locked
     \<lparr>tr_old_window = Hours1, tr_new_window = Days7, tr_changed_at = 7200000\<rparr> [1] = Some Locked \<and>
   transition_key_state clock_demo 7200000 0 Locked
     \<lparr>tr_old_window = Days7, tr_new_window = Hours24, tr_changed_at = 7200000\<rparr> [1] = Some (Cached [1])"
  by (simp add: transition_key_state_def state_for_message_def key_state_at_def is_shorter_def window_seconds_def
      clock_demo_def as_i64_def)

text \<open>The longest custom window is read as a negative duration and locks a message at the moment it is sent.\<close>

theorem longest_custom_window_locks_at_once:
  "key_state_at clock_demo 5 5 (CustomSeconds u64_max) key False = Some Locked"
  by (simp add: key_state_at_def window_seconds_def clock_demo_def as_i64_def u64_max_def)

section \<open>Content keys\<close>

lemma content_key_context_inj:
  assumes "content_key_context a m = content_key_context a' m'" and "a < 2 ^ 32" "a' < 2 ^ 32" "length m < 2 ^ 64" "length m' < 2 ^ 64"
  shows "a = a' \<and> m = m'"
proof -
  from assms have "a = a' \<and> lp_be (str_bytes m) = lp_be (str_bytes m')"
    by (intro be_append_inj[where k = 4]) (simp_all add: content_key_context_def lp_be_def)
  with lp_be_append_inj[of "str_bytes m" "[]" "str_bytes m'" "[]"] assms(4,5) show ?thesis by simp
qed

text \<open>
  Content keys of different messages, authors or epochs differ unless the digest collides on
  exactly the two inputs of the derivation.
\<close>

theorem content_keys_separated:
  assumes "derive_content_key sha256 a m k = derive_content_key sha256 a' m' k'"
    and "a < 2 ^ 32" "a' < 2 ^ 32" "length m + 12 < 2 ^ 64" "length m' + 12 < 2 ^ 64"
  shows "a = a' \<and> m = m' \<and> k = k' \<or>
    collision sha256 (exporter_preimage k ContentKey (content_key_context a m)) (exporter_preimage k' ContentKey (content_key_context a' m'))"
proof -
  have len: "length (content_key_context a m) < 2 ^ 64" "length (content_key_context a' m') < 2 ^ 64"
    using assms(4,5) by (simp_all add: content_key_context_def)
  have m: "length m < 2 ^ 64" "length m' < 2 ^ 64" using assms(4,5) by simp_all
  show ?thesis
    using exporter_preimage_inj[OF _ len] content_key_context_inj[OF _ assms(2,3) m] assms(1)
    by (auto simp: derive_content_key_def derive_epoch_secret_def collision_def)
qed

theorem content_keys_separated_witness:
  "derive_content_key (\<lambda>b. b) 1 ''m1'' [9] \<noteq> derive_content_key (\<lambda>b. b) 1 ''m2'' [9]"
  using content_keys_separated[of "\<lambda>b. b" 1 "''m1''" "[9]" 1 "''m2''" "[9]"] by (auto simp: collision_def)

section \<open>Shredding across devices\<close>

inductive shred_step :: "cross_device_shred_state \<Rightarrow> cross_device_shred_state \<Rightarrow> bool" where
  "shred_step s (register_device s i on)"
| "shred_step s (shred s m)"
| "shred_step s (merge_tombstones s ms)"
| "shred_step s (set_online s i on)"

lemma see_all_simps [simp]:
  "ss_online (see_all ids dev) = ss_online dev"
  "bs_member (ss_seen_tombstones (see_all ids dev)) m \<longleftrightarrow> m \<in> set ids \<or> bs_member (ss_seen_tombstones dev) m"
  by (simp_all add: see_all_def tombstone_shred_def bs_member_fold_insert)

lemma tombstone_ids_iff [simp]: "m \<in> set (tombstone_ids t) \<longleftrightarrow> bs_member t m"
  by (simp add: tombstone_ids_def bs_set_def)

definition shred_inv :: "cross_device_shred_state \<Rightarrow> bool" where
  "shred_inv s \<longleftrightarrow>
     (\<forall>i dev. bt_get (shred_devices s) i = Some dev \<longrightarrow>
        (\<forall>m. (bs_member (ss_seen_tombstones dev) m \<longrightarrow> bs_member (global_tombstones s) m) \<and>
             (ss_online dev \<longrightarrow> bs_member (global_tombstones s) m \<longrightarrow> bs_member (ss_seen_tombstones dev) m)))"

lemma shred_invI:
  assumes "\<And>i dev m. bt_get (shred_devices s) i = Some dev \<Longrightarrow> bs_member (ss_seen_tombstones dev) m \<Longrightarrow> bs_member (global_tombstones s) m"
    and "\<And>i dev m. bt_get (shred_devices s) i = Some dev \<Longrightarrow> ss_online dev \<Longrightarrow> bs_member (global_tombstones s) m \<Longrightarrow>
      bs_member (ss_seen_tombstones dev) m"
  shows "shred_inv s"
  using assms by (auto simp: shred_inv_def)

lemma shred_invD:
  assumes "shred_inv s" and "bt_get (shred_devices s) i = Some dev"
  shows "bs_member (ss_seen_tombstones dev) m \<Longrightarrow> bs_member (global_tombstones s) m"
    and "ss_online dev \<Longrightarrow> bs_member (global_tombstones s) m \<Longrightarrow> bs_member (ss_seen_tombstones dev) m"
  using assms by (auto simp: shred_inv_def)

lemma sync_inv:
  assumes inv: "shred_inv s" and old: "\<And>m. bs_member (global_tombstones s) m \<Longrightarrow> bs_member g m"
    and ids: "\<And>m. m \<in> set ids \<Longrightarrow> bs_member g m" "\<And>m. bs_member g m \<Longrightarrow> bs_member (global_tombstones s) m \<or> m \<in> set ids"
  shows "shred_inv (s\<lparr>global_tombstones := g,
    shred_devices := bt_map (\<lambda>_ dev. if ss_online dev then see_all ids dev else dev) (shred_devices s)\<rparr>)"
proof (rule shred_invI, goal_cases)
  case (1 i dev m)
  then obtain d where d: "bt_get (shred_devices s) i = Some d" and dev: "dev = (if ss_online d then see_all ids d else d)" by auto
  with 1(2) shred_invD(1)[OF inv d, of m] old ids(1) show ?case by (cases "ss_online d") auto
next
  case (2 i dev m)
  then obtain d where d: "bt_get (shred_devices s) i = Some d" and dev: "dev = (if ss_online d then see_all ids d else d)" by auto
  with 2(2,3) shred_invD(2)[OF inv d, of m] ids(2)[of m] show ?case by (cases "ss_online d") auto
qed

lemma shred_step_inv: "shred_step s s' \<Longrightarrow> shred_inv s \<Longrightarrow> shred_inv s'"
proof (induction rule: shred_step.induct)
  case (1 s i on)
  show ?case by (rule shred_invI) (auto simp: register_device_def Let_def split: if_splits dest: shred_invD[OF 1])
next
  case (2 s m)
  show ?case unfolding shred_def by (rule sync_inv[OF 2]) (auto simp: tombstone_shred_def)
next
  case (3 s ms)
  show ?case unfolding merge_tombstones_def Let_def
    by (rule sync_inv[OF 3]) (auto simp: tombstone_shred_def bs_member_fold_insert)
next
  case (4 s i on)
  show ?case
    by (rule shred_invI) (auto simp: set_online_def Let_def split: if_splits option.splits dest: shred_invD[OF 4])
qed

lemma shred_step_grows: "shred_step s s' \<Longrightarrow> bs_member (global_tombstones s) m \<Longrightarrow> bs_member (global_tombstones s') m"
  by (induction rule: shred_step.induct)
     (auto simp: register_device_def shred_def merge_tombstones_def set_online_def tombstone_shred_def Let_def
        bs_member_fold_insert split: option.splits)

text \<open>
  C31: In every state reached by registering devices, shredding, merging and going on- and offline, a
  device can serve a shredded message only while its tombstone is still pending on that device; a
  device that is online has no pending tombstone; and a tombstone is never withdrawn.
\<close>

theorem online_devices_never_serve_shredded:
  assumes "shred_step\<^sup>*\<^sup>* shred_state_default s" and "bt_get (shred_devices s) i = Some dev"
    and "tombstone_contains (global_tombstones s) m" and "shred_step\<^sup>*\<^sup>* s s'"
  shows "(device_may_serve s i m \<longleftrightarrow> pending_on_device s i m) \<and>
    (ss_online dev \<longrightarrow> \<not> device_may_serve s i m) \<and> \<not> device_may_serve (set_online s i True) i m \<and>
    tombstone_contains (global_tombstones s') m"
proof -
  have inv: "shred_inv s"
    using assms(1) by (induction rule: rtranclp_induct) (auto simp: shred_state_default_def shred_inv_def[of "\<lparr>global_tombstones = _, shred_devices = _\<rparr>"] intro: shred_step_inv)
  have "tombstone_contains (global_tombstones s') m"
    using assms(4,3) by (induction rule: rtranclp_induct) (auto simp: tombstone_contains_def intro: shred_step_grows)
  then show ?thesis
    using assms(2,3) shred_invD[OF inv assms(2), of m]
    by (auto simp: device_may_serve_def pending_on_device_def tombstone_contains_def set_online_def Let_def)
qed

theorem online_devices_never_serve_shredded_witness:
  "\<not> device_may_serve (shred (register_device shred_state_default ''phone'' True) ''m1'') ''phone'' ''m1''"
proof -
  let ?a = "register_device shred_state_default ''phone'' True"
  have steps: "shred_step\<^sup>*\<^sup>* shred_state_default (shred ?a ''m1'')"
    by (meson rtranclp.rtrancl_into_rtrancl rtranclp.rtrancl_refl shred_step.intros)
  obtain dev where dev: "bt_get (shred_devices (shred ?a ''m1'')) ''phone'' = Some dev" "ss_online dev"
    by (simp add: shred_def register_device_def Let_def)
  have "tombstone_contains (global_tombstones (shred ?a ''m1'')) ''m1''"
    by (simp add: tombstone_contains_def shred_def tombstone_shred_def)
  from online_devices_never_serve_shredded[OF steps dev(1) this rtranclp.rtrancl_refl] dev(2) show ?thesis by blast
qed

text \<open>
  Registering a known device again as offline replaces its record and forgets the tombstones it has
  already seen, so it may serve a message that it had stopped serving.
\<close>

theorem reregistered_device_serves_again:
  "\<not> device_may_serve (shred (register_device shred_state_default ''phone'' True) ''m1'') ''phone'' ''m1'' \<and>
   device_may_serve (register_device (shred (register_device shred_state_default ''phone'' True) ''m1'') ''phone'' False) ''phone'' ''m1''"
  by (simp add: device_may_serve_def register_device_def shred_def tombstone_contains_def Let_def)

end
