(* ===== verification/Governance.thy ===== *)
theory Governance
  imports BTree_Map Crypto_Params
begin

text \<open>
  Signed governance events and the room state they resolve to (crates/mls-core/src/governance.rs). Events carry
  an Ed25519 signature over canonical bytes; a batch of one epoch is sorted by (epoch, committer,
  content hash) and applied event by event. SHA-256 and Ed25519 are parameters.
\<close>

subsection \<open>Data\<close>

datatype role = Owner | Admin | Member

datatype governance_action =
    SetRole nat role
  | RevokeInvite string
  | SetRetentionSeconds nat "nat option"
  | Ban nat
  | AddDevice nat string
  | RemoveDevice nat string

datatype governance_error = InvalidSignature | OutOfEpoch | Unauthorized | EvictedCommitter

record governance_event =
  ge_epoch :: nat
  ge_committer :: nat
  ge_action :: governance_action
  ge_signer_public_key :: bytes
  ge_signature :: bytes

subsection \<open>Canonical bytes, signatures and order\<close>

definition role_byte :: "role \<Rightarrow> u8" where
  "role_byte r = (case r of Owner \<Rightarrow> 0 | Admin \<Rightarrow> 1 | Member \<Rightarrow> 2)"

definition governance_action_bytes :: "governance_action \<Rightarrow> bytes" where
  "governance_action_bytes action =
     (case action of
        SetRole target role \<Rightarrow> 0 # u32_le target @ [role_byte role]
      | RevokeInvite invite_id \<Rightarrow> 1 # u64_le (length invite_id) @ str_bytes invite_id
      | SetRetentionSeconds author seconds \<Rightarrow>
          2 # u32_le author @ (case seconds of Some s \<Rightarrow> 1 # u64_le s | None \<Rightarrow> [0])
      | Ban target \<Rightarrow> 3 # u32_le target
      | AddDevice owner device_id \<Rightarrow> 4 # u32_le owner @ u64_le (length device_id) @ str_bytes device_id
      | RemoveDevice owner device_id \<Rightarrow> 5 # u32_le owner @ u64_le (length device_id) @ str_bytes device_id)"

definition canonical_signing_bytes :: "nat \<Rightarrow> nat \<Rightarrow> governance_action \<Rightarrow> bytes \<Rightarrow> bytes" where
  "canonical_signing_bytes epoch committer action signer_public_key =
     str_bytes ''discrypt-governance-event'' @ [1] @ u64_le epoch @ u32_le committer @
     u64_le (length signer_public_key) @ signer_public_key @ governance_action_bytes action"

definition signing_bytes :: "governance_event \<Rightarrow> bytes" where
  "signing_bytes ev =
     canonical_signing_bytes (ge_epoch ev) (ge_committer ev) (ge_action ev) (ge_signer_public_key ev)"

definition signed_by :: "'sk ed25519 \<Rightarrow> nat \<Rightarrow> nat \<Rightarrow> governance_action \<Rightarrow> 'sk \<Rightarrow> governance_event" where
  "signed_by ed epoch committer action signing_key =
     (let signer_public_key = ed_public ed signing_key
      in \<lparr>ge_epoch = epoch, ge_committer = committer, ge_action = action,
          ge_signer_public_key = signer_public_key,
          ge_signature = ed_sign ed signing_key
            (canonical_signing_bytes epoch committer action signer_public_key)\<rparr>)"

definition governance_content_hash :: "(bytes \<Rightarrow> bytes) \<Rightarrow> governance_event \<Rightarrow> bytes" where
  "governance_content_hash sha256 ev = sha256 (signing_bytes ev)"

definition verify_signature :: "'sk ed25519 \<Rightarrow> governance_event \<Rightarrow> governance_error + unit" where
  "verify_signature ed ev =
     and_then (ensure (length (ge_signer_public_key ev) = 32) InvalidSignature) (\<lambda>_.
     and_then (ensure (ed_key_ok ed (ge_signer_public_key ev)) InvalidSignature) (\<lambda>_.
     and_then (ensure (ed_sig_ok ed (ge_signature ev)) InvalidSignature) (\<lambda>_.
       ensure (ed_verify ed (ge_signer_public_key ev) (signing_bytes ev) (ge_signature ev)) InvalidSignature)))"

definition signature_valid :: "'sk ed25519 \<Rightarrow> governance_event \<Rightarrow> bool" where
  "signature_valid ed ev = is_ok (verify_signature ed ev)"

type_synonym canonical_event_ref = "nat \<times> nat \<times> bytes"

definition canonical_ref :: "(bytes \<Rightarrow> bytes) \<Rightarrow> governance_event \<Rightarrow> canonical_event_ref" where
  "canonical_ref sha256 ev = (ge_epoch ev, ge_committer ev, governance_content_hash sha256 ev)"

definition order_governance_events :: "(bytes \<Rightarrow> bytes) \<Rightarrow> governance_event list \<Rightarrow> governance_event list" where
  "order_governance_events sha256 events = sort_key (canonical_ref sha256) events"

record governance_log =
  gl_events :: "governance_event list"

definition governance_log_append :: "(bytes \<Rightarrow> bytes) \<Rightarrow> governance_log \<Rightarrow> governance_event \<Rightarrow> governance_log" where
  "governance_log_append sha256 l event =
     l\<lparr>gl_events := order_governance_events sha256 (gl_events l @ [event])\<rparr>"

subsection \<open>Room state\<close>

record governance_state =
  gs_epoch :: nat
  gs_roles :: "(nat, role) btreemap"
  gs_banned :: "nat btreeset"
  gs_revoked_invites :: "string btreeset"
  gs_retention_seconds :: "(nat, nat option) btreemap"
  gs_member_devices :: "(nat, string btreeset) btreemap"

definition governance_new :: "nat \<Rightarrow> nat \<Rightarrow> governance_state" where
  "governance_new epoch owner =
     \<lparr>gs_epoch = epoch, gs_roles = bt_of_list [(owner, Owner)], gs_banned = bs_empty,
      gs_revoked_invites = bs_empty, gs_retention_seconds = bt_empty, gs_member_devices = bt_empty\<rparr>"

definition gov_role :: "governance_state \<Rightarrow> nat \<Rightarrow> role option" where
  "gov_role s leaf = bt_get (gs_roles s) leaf"

definition is_banned :: "governance_state \<Rightarrow> nat \<Rightarrow> bool" where
  "is_banned s leaf = bs_member (gs_banned s) leaf"

definition invite_revoked :: "governance_state \<Rightarrow> string \<Rightarrow> bool" where
  "invite_revoked s invite_id = bs_member (gs_revoked_invites s) invite_id"

definition gov_retention_seconds :: "governance_state \<Rightarrow> nat \<Rightarrow> nat option option" where
  "gov_retention_seconds s author = bt_get (gs_retention_seconds s) author"

definition device_active :: "governance_state \<Rightarrow> nat \<Rightarrow> string \<Rightarrow> bool" where
  "device_active s owner device_id =
     (case bt_get (gs_member_devices s) owner of Some ds \<Rightarrow> bs_member ds device_id | None \<Rightarrow> False)"

definition leaf_index_max :: nat where
  "leaf_index_max = 2 ^ 32 - 1"

definition target_leaf :: "governance_action \<Rightarrow> nat" where
  "target_leaf action =
     (case action of
        SetRole target _ \<Rightarrow> target | Ban target \<Rightarrow> target
      | SetRetentionSeconds author _ \<Rightarrow> author | AddDevice owner _ \<Rightarrow> owner | RemoveDevice owner _ \<Rightarrow> owner
      | RevokeInvite _ \<Rightarrow> leaf_index_max)"

definition admin_authorized :: "governance_state \<Rightarrow> nat \<Rightarrow> governance_action \<Rightarrow> bool" where
  "admin_authorized s committer action =
     (case action of
        SetRole _ _ \<Rightarrow> False
      | RevokeInvite _ \<Rightarrow> True
      | SetRetentionSeconds author _ \<Rightarrow> author = committer \<or> gov_role s author = Some Member
      | Ban target \<Rightarrow> gov_role s target = Some Member
      | AddDevice owner _ \<Rightarrow> owner = committer \<or> gov_role s owner = Some Member
      | RemoveDevice owner _ \<Rightarrow> owner = committer \<or> gov_role s owner = Some Member)"

definition member_authorized :: "nat \<Rightarrow> governance_action \<Rightarrow> bool" where
  "member_authorized committer action =
     (case action of
        SetRetentionSeconds author _ \<Rightarrow> author = committer
      | AddDevice owner _ \<Rightarrow> owner = committer
      | RemoveDevice owner _ \<Rightarrow> owner = committer
      | SetRole _ _ \<Rightarrow> False | RevokeInvite _ \<Rightarrow> False | Ban _ \<Rightarrow> False)"

definition gov_authorized :: "governance_state \<Rightarrow> nat \<Rightarrow> governance_action \<Rightarrow> bool" where
  "gov_authorized s committer action =
     (if bs_member (gs_banned s) (target_leaf action) then False
      else case gov_role s committer of
             Some Owner \<Rightarrow> True
           | Some Admin \<Rightarrow> admin_authorized s committer action
           | Some Member \<Rightarrow> member_authorized committer action
           | None \<Rightarrow> False)"

definition apply_action :: "governance_state \<Rightarrow> governance_action \<Rightarrow> governance_state" where
  "apply_action s action =
     (case action of
        SetRole target role \<Rightarrow> s\<lparr>gs_roles := bt_insert target role (gs_roles s)\<rparr>
      | RevokeInvite invite_id \<Rightarrow> s\<lparr>gs_revoked_invites := bs_insert invite_id (gs_revoked_invites s)\<rparr>
      | SetRetentionSeconds author seconds \<Rightarrow>
          s\<lparr>gs_retention_seconds := bt_insert author seconds (gs_retention_seconds s)\<rparr>
      | Ban target \<Rightarrow>
          s\<lparr>gs_banned := bs_insert target (gs_banned s), gs_roles := bt_remove target (gs_roles s),
            gs_member_devices := bt_remove target (gs_member_devices s)\<rparr>
      | AddDevice owner device_id \<Rightarrow>
          s\<lparr>gs_member_devices := bt_insert owner
              (bs_insert device_id
                (case bt_get (gs_member_devices s) owner of Some ds \<Rightarrow> ds | None \<Rightarrow> bs_empty))
              (gs_member_devices s)\<rparr>
      | RemoveDevice owner device_id \<Rightarrow>
          (case bt_get (gs_member_devices s) owner of
             Some ds \<Rightarrow> s\<lparr>gs_member_devices := bt_insert owner (bs_remove device_id ds) (gs_member_devices s)\<rparr>
           | None \<Rightarrow> s))"

definition apply_event_with_evicted_set ::
  "'sk ed25519 \<Rightarrow> governance_state \<Rightarrow> governance_event \<Rightarrow> nat btreeset
     \<Rightarrow> governance_error + governance_state" where
  "apply_event_with_evicted_set ed s event evicted_this_epoch =
     and_then (verify_signature ed event) (\<lambda>_.
       if ge_epoch event \<noteq> gs_epoch s then Inl OutOfEpoch
       else if bs_member (gs_banned s) (ge_committer event) \<or> bs_member evicted_this_epoch (ge_committer event)
       then Inl EvictedCommitter
       else if \<not> gov_authorized s (ge_committer event) (ge_action event) then Inl Unauthorized
       else Inr (apply_action s (ge_action event)))"

definition apply_event ::
  "'sk ed25519 \<Rightarrow> governance_state \<Rightarrow> governance_event \<Rightarrow> governance_error + governance_state" where
  "apply_event ed s event = apply_event_with_evicted_set ed s event bs_empty"

definition evicted_by :: "governance_state \<Rightarrow> governance_event list \<Rightarrow> nat btreeset" where
  "evicted_by s events =
     bs_of_list (List.map_filter (\<lambda>event. case ge_action event of
        Ban target \<Rightarrow> if ge_epoch event = gs_epoch s then Some target else None
      | _ \<Rightarrow> None) events)"

fun apply_batch ::
  "'sk ed25519 \<Rightarrow> nat btreeset \<Rightarrow> governance_state \<Rightarrow> governance_event list
     \<Rightarrow> governance_state \<times> (governance_error + unit) list" where
  "apply_batch ed evicted s [] = (s, [])"
| "apply_batch ed evicted s (event # events) =
     (case apply_event_with_evicted_set ed s event evicted of
        Inl e \<Rightarrow> (case apply_batch ed evicted s events of (s', rs) \<Rightarrow> (s', Inl e # rs))
      | Inr s1 \<Rightarrow> (case apply_batch ed evicted s1 events of (s', rs) \<Rightarrow> (s', Inr () # rs)))"

definition resolve_epoch_events ::
  "(bytes \<Rightarrow> bytes) \<Rightarrow> 'sk ed25519 \<Rightarrow> governance_state \<Rightarrow> governance_event list
     \<Rightarrow> governance_state \<times> (governance_error + unit) list" where
  "resolve_epoch_events sha256 ed s events =
     (let events = order_governance_events sha256 events
      in apply_batch ed (evicted_by s events) s events)"

subsection \<open>The canonical bytes determine the event\<close>

definition action_in_range :: "governance_action \<Rightarrow> bool" where
  "action_in_range a =
     (case a of
        SetRole t _ \<Rightarrow> t < 2 ^ 32
      | RevokeInvite i \<Rightarrow> length i < 2 ^ 64
      | SetRetentionSeconds t s \<Rightarrow> t < 2 ^ 32 \<and> (case s of Some n \<Rightarrow> n < 2 ^ 64 | None \<Rightarrow> True)
      | Ban t \<Rightarrow> t < 2 ^ 32
      | AddDevice t d \<Rightarrow> t < 2 ^ 32 \<and> length d < 2 ^ 64
      | RemoveDevice t d \<Rightarrow> t < 2 ^ 32 \<and> length d < 2 ^ 64)"

lemma role_byte_inj: "role_byte r = role_byte r' \<longleftrightarrow> r = r'"
  by (cases r; cases r') (simp_all add: role_byte_def)

lemma u32_le_append_inj: "u32_le m @ r = u32_le n @ s \<Longrightarrow> m < 2 ^ 32 \<Longrightarrow> n < 2 ^ 32 \<Longrightarrow> m = n \<and> r = s"
  using le_append_inj[of 4 m r n s] by simp

lemma u64_le_append_inj: "u64_le m @ r = u64_le n @ s \<Longrightarrow> m < 2 ^ 64 \<Longrightarrow> n < 2 ^ 64 \<Longrightarrow> m = n \<and> r = s"
  using le_append_inj[of 8 m r n s] by simp

lemma governance_action_bytes_inj:
  assumes eq: "governance_action_bytes a = governance_action_bytes b"
    and a: "action_in_range a" and b: "action_in_range b"
  shows "a = b"
proof (cases a; cases b)
  fix t r t' r' assume "a = SetRole t r" "b = SetRole t' r'"
  then show ?thesis using eq a b u32_le_append_inj[of t "[role_byte r]" t' "[role_byte r']"]
    by (simp add: governance_action_bytes_def action_in_range_def role_byte_inj)
next
  fix i i' assume "a = RevokeInvite i" "b = RevokeInvite i'"
  then show ?thesis using eq a b u64_le_append_inj[of "length i" "str_bytes i" "length i'" "str_bytes i'"]
    by (simp add: governance_action_bytes_def action_in_range_def)
next
  fix t s t' s' assume ab: "a = SetRetentionSeconds t s" "b = SetRetentionSeconds t' s'"
  then have "t = t' \<and> (case s of Some n \<Rightarrow> 1 # u64_le n | None \<Rightarrow> [0]) = (case s' of Some n \<Rightarrow> 1 # u64_le n | None \<Rightarrow> [0])"
    using eq a b u32_le_append_inj[of t "case s of Some n \<Rightarrow> 1 # u64_le n | None \<Rightarrow> [0]" t']
    by (simp add: governance_action_bytes_def action_in_range_def)
  with ab a b u64_le_append_inj[of "the s" "[]" "the s'" "[]"] show ?thesis
    by (auto simp: action_in_range_def split: option.splits)
next
  fix t t' assume "a = Ban t" "b = Ban t'"
  then show ?thesis using eq a b u32_le_append_inj[of t "[]" t' "[]"]
    by (simp add: governance_action_bytes_def action_in_range_def)
next
  fix t d t' d' assume "a = AddDevice t d" "b = AddDevice t' d'"
  then show ?thesis using eq a b u32_le_append_inj[of t "u64_le (length d) @ str_bytes d" t' "u64_le (length d') @ str_bytes d'"]
      u64_le_append_inj[of "length d" "str_bytes d" "length d'" "str_bytes d'"]
    by (simp add: governance_action_bytes_def action_in_range_def)
next
  fix t d t' d' assume "a = RemoveDevice t d" "b = RemoveDevice t' d'"
  then show ?thesis using eq a b u32_le_append_inj[of t "u64_le (length d) @ str_bytes d" t' "u64_le (length d') @ str_bytes d'"]
      u64_le_append_inj[of "length d" "str_bytes d" "length d'" "str_bytes d'"]
    by (simp add: governance_action_bytes_def action_in_range_def)
qed (use eq in \<open>simp_all add: governance_action_bytes_def\<close>)

lemma canonical_signing_bytes_inj:
  assumes eq: "canonical_signing_bytes e c a k = canonical_signing_bytes e' c' a' k'"
    and r: "e < 2 ^ 64" "e' < 2 ^ 64" "c < 2 ^ 32" "c' < 2 ^ 32" "length k < 2 ^ 64" "length k' < 2 ^ 64"
      "action_in_range a" "action_in_range a'"
  shows "e = e' \<and> c = c' \<and> a = a' \<and> k = k'"
proof -
  from eq have 1: "u64_le e @ u32_le c @ lp_le k @ governance_action_bytes a
      = u64_le e' @ u32_le c' @ lp_le k' @ governance_action_bytes a'"
    by (simp add: canonical_signing_bytes_def lp_le_def)
  from u64_le_append_inj[OF 1] r have e: "e = e'"
    and 2: "u32_le c @ lp_le k @ governance_action_bytes a = u32_le c' @ lp_le k' @ governance_action_bytes a'" by auto
  from u32_le_append_inj[OF 2] r have c: "c = c'"
    and 3: "lp_le k @ governance_action_bytes a = lp_le k' @ governance_action_bytes a'" by auto
  from lp_le_append_inj[OF 3] r have "k = k'" and 4: "governance_action_bytes a = governance_action_bytes a'" by auto
  with e c governance_action_bytes_inj[OF 4] r show ?thesis by simp
qed

subsection \<open>The canonical order\<close>

interpretation gov: canonical_order "canonical_ref sha256" "order_governance_events sha256" for sha256
  by unfold_locales (simp add: order_governance_events_def)

subsection \<open>Steps and the ban invariant\<close>

inductive gov_step :: "(bytes \<Rightarrow> bytes) \<Rightarrow> 'sk ed25519 \<Rightarrow> governance_state \<Rightarrow> governance_state \<Rightarrow> bool" for sha256 ed where
  step_event: "apply_event ed s ev = Inr s' \<Longrightarrow> gov_step sha256 ed s s'"
| step_batch: "resolve_epoch_events sha256 ed s evs = (s', rs) \<Longrightarrow> gov_step sha256 ed s s'"
| step_epoch: "gov_step sha256 ed s (s\<lparr>gs_epoch := e\<rparr>)"

definition ban_inv :: "governance_state \<Rightarrow> bool" where
  "ban_inv s \<longleftrightarrow> (\<forall>x. is_banned s x \<longrightarrow> gov_role s x = None \<and> bt_get (gs_member_devices s) x = None)"

lemma apply_evicted_Inr:
  "apply_event_with_evicted_set ed s ev evicted = Inr s' \<longleftrightarrow>
     verify_signature ed ev = Inr () \<and> ge_epoch ev = gs_epoch s \<and>
     \<not> is_banned s (ge_committer ev) \<and> \<not> bs_member evicted (ge_committer ev) \<and>
     gov_authorized s (ge_committer ev) (ge_action ev) \<and> s' = apply_action s (ge_action ev)"
  by (auto simp: apply_event_with_evicted_set_def and_then_Inr is_banned_def)

lemma gov_authorized_target: "gov_authorized s c a \<Longrightarrow> \<not> is_banned s (target_leaf a)"
  by (auto simp: gov_authorized_def is_banned_def split: if_splits)

lemma apply_action_ban_inv:
  assumes "ban_inv s" and "\<not> is_banned s (target_leaf a)"
  shows "ban_inv (apply_action s a)"
  using assms
  by (cases a) (auto simp: ban_inv_def apply_action_def is_banned_def gov_role_def target_leaf_def split: option.splits)

lemma apply_action_bans: "is_banned s x \<Longrightarrow> is_banned (apply_action s a) x"
  by (cases a) (auto simp: apply_action_def is_banned_def split: option.splits)

lemma apply_batch_inv:
  assumes "ban_inv s" and "apply_batch ed evicted s evs = (s', rs)"
  shows "ban_inv s' \<and> (\<forall>x. is_banned s x \<longrightarrow> is_banned s' x)"
  using assms
proof (induction ed evicted s evs arbitrary: s' rs rule: apply_batch.induct)
  case (2 ed evicted s ev evs)
  show ?case
  proof (cases "apply_event_with_evicted_set ed s ev evicted")
    case (Inl e)
    with 2(1)[OF Inl 2(3)] 2(4) show ?thesis by (auto split: prod.splits)
  next
    case (Inr s1)
    then have "ban_inv s1" "\<forall>x. is_banned s x \<longrightarrow> is_banned s1 x"
      using 2(3) apply_action_ban_inv apply_action_bans gov_authorized_target by (auto simp: apply_evicted_Inr)
    with 2(2)[OF Inr] 2(4) Inr show ?thesis by (auto split: prod.splits)
  qed
qed auto

lemma gov_step_inv:
  assumes "gov_step sha256 ed s s'" and "ban_inv s"
  shows "ban_inv s' \<and> (\<forall>x. is_banned s x \<longrightarrow> is_banned s' x)"
  using assms
proof cases
  case (step_event ev)
  then show ?thesis using assms(2) apply_action_ban_inv apply_action_bans gov_authorized_target
    by (auto simp: apply_event_def apply_evicted_Inr)
next
  case (step_batch evs rs)
  then show ?thesis using apply_batch_inv[OF assms(2)] by (simp add: resolve_epoch_events_def Let_def)
next
  case (step_epoch e)
  then show ?thesis using assms(2) by (simp add: ban_inv_def is_banned_def gov_role_def)
qed

lemma gov_steps_inv:
  "(gov_step sha256 ed)\<^sup>*\<^sup>* s s' \<Longrightarrow> ban_inv s \<Longrightarrow> ban_inv s' \<and> (\<forall>x. is_banned s x \<longrightarrow> is_banned s' x)"
  by (induction rule: rtranclp_induct) (auto dest: gov_step_inv)

lemma governance_new_inv: "ban_inv (governance_new e owner)"
  by (simp add: ban_inv_def governance_new_def is_banned_def)

subsection \<open>Properties\<close>

text \<open>
  C19: A ban is permanent and complete: once a leaf is banned in a reachable room, then after any
  further sequence of events, batches and epoch changes it is still banned, holds no role, has no
  active device, and no event it commits is ever accepted.
\<close>

theorem ban_is_permanent:
  assumes "(gov_step sha256 ed)\<^sup>*\<^sup>* (governance_new e owner) s" and "is_banned s x"
    and "(gov_step sha256 ed)\<^sup>*\<^sup>* s s'"
  shows "is_banned s' x \<and> gov_role s' x = None \<and> \<not> device_active s' x d \<and>
    (ge_committer ev = x \<longrightarrow> \<not> is_ok (apply_event ed s' ev))"
proof -
  from gov_steps_inv[OF assms(1) governance_new_inv] have "ban_inv s" by simp
  with gov_steps_inv[OF assms(3)] assms(2) have "ban_inv s'" "is_banned s' x" by auto
  then show ?thesis
    by (auto simp: ban_inv_def device_active_def apply_event_def apply_evicted_Inr is_ok_iff)
qed

text \<open>A room in which the owner \<open>1\<close> has made \<open>2\<close> a member.\<close>

definition demo_room :: governance_state where
  "demo_room = (governance_new 7 1)\<lparr>gs_roles := bt_of_list [(1, Owner), (2, Member)]\<rparr>"

definition demo_event :: "nat \<Rightarrow> governance_action \<Rightarrow> governance_event" where
  "demo_event committer action = signed_by ed_demo 7 committer action 9"

lemma demo_event_valid: "verify_signature ed_demo (demo_event c a) = Inr ()"
  by (simp add: demo_event_def verify_signature_def signed_by_def ed_demo_def Let_def min_def)

lemma demo_event_simps [simp]:
  "ge_epoch (demo_event c a) = 7" "ge_committer (demo_event c a) = c" "ge_action (demo_event c a) = a"
  by (simp_all add: demo_event_def signed_by_def Let_def)

lemma demo_event_apply:
  assumes "gs_epoch s = 7" and "\<not> is_banned s c" and "gov_authorized s c a"
  shows "apply_event ed_demo s (demo_event c a) = Inr (apply_action s a)"
  using assms by (simp add: apply_event_def apply_evicted_Inr demo_event_valid)

theorem ban_is_permanent_witness:
  "let s1 = apply_action (governance_new 7 1) (SetRole 2 Member); s2 = apply_action s1 (Ban 2)
   in is_banned s2 2 \<and> gov_role s2 2 = None \<and> \<not> is_ok (apply_event ed_demo s2 (demo_event 2 (Ban 1)))"
proof -
  define s0 where "s0 = governance_new 7 1"
  define s1 where "s1 = apply_action s0 (SetRole 2 Member)"
  define s2 where "s2 = apply_action s1 (Ban 2)"
  have "apply_event ed_demo s0 (demo_event 1 (SetRole 2 Member)) = Inr s1"
    unfolding s1_def by (rule demo_event_apply) (simp_all add: s0_def governance_new_def is_banned_def
        gov_authorized_def gov_role_def bt_get_of_list)
  then have 1: "gov_step (\<lambda>b. b) ed_demo s0 s1" by (rule step_event)
  have "apply_event ed_demo s1 (demo_event 1 (Ban 2)) = Inr s2"
    unfolding s2_def by (rule demo_event_apply) (simp_all add: s1_def s0_def governance_new_def is_banned_def
        gov_authorized_def gov_role_def bt_get_of_list apply_action_def target_leaf_def)
  then have "gov_step (\<lambda>b. b) ed_demo s1 s2" by (rule step_event)
  with 1 have steps: "(gov_step (\<lambda>b. b) ed_demo)\<^sup>*\<^sup>* s0 s2" by auto
  have "is_banned s2 2" by (simp add: s2_def apply_action_def is_banned_def)
  from ban_is_permanent[OF steps[unfolded s0_def] this rtranclp.rtrancl_refl, where ev = "demo_event 2 (Ban 1)"]
  show ?thesis by (simp add: s2_def s1_def s0_def Let_def)
qed

text \<open>
  The signed bytes determine the epoch, the committer, the signer key and the whole action: no
  two different in-range events share their canonical bytes.
\<close>

theorem governance_signature_covers_event:
  assumes "signing_bytes ev = signing_bytes ev'"
    and "ge_epoch ev < 2 ^ 64" "ge_committer ev < 2 ^ 32" "length (ge_signer_public_key ev) < 2 ^ 64" "action_in_range (ge_action ev)"
    and "ge_epoch ev' < 2 ^ 64" "ge_committer ev' < 2 ^ 32" "length (ge_signer_public_key ev') < 2 ^ 64" "action_in_range (ge_action ev')"
  shows "ge_epoch ev = ge_epoch ev' \<and> ge_committer ev = ge_committer ev' \<and>
    ge_action ev = ge_action ev' \<and> ge_signer_public_key ev = ge_signer_public_key ev'"
  using canonical_signing_bytes_inj[OF assms(1)[unfolded signing_bytes_def]] assms(2-) by simp

theorem governance_signature_covers_event_witness:
  "ge_action (demo_event 1 (AddDevice 2 ''phone'')) = AddDevice 2 ''phone'' \<and>
   ge_signer_public_key (demo_event 1 (AddDevice 2 ''phone'')) = ge_signer_public_key (demo_event 1 (AddDevice 2 ''phone''))"
  using governance_signature_covers_event[of "demo_event 1 (AddDevice 2 ''phone'')" "demo_event 1 (AddDevice 2 ''phone'')"]
  by (simp add: demo_event_def signed_by_def Let_def action_in_range_def ed_demo_def)



text \<open>
  Only an owner can change the role of an owner or an admin: if an accepted event leaves such a
  leaf with a different role or without one, its committer was an owner.
\<close>

theorem privileged_roles_need_owner:
  assumes "apply_event ed s ev = Inr s'" and "gov_role s x = Some Owner \<or> gov_role s x = Some Admin"
    and "gov_role s' x \<noteq> gov_role s x"
  shows "gov_role s (ge_committer ev) = Some Owner"
proof -
  from assms(1) have auth: "gov_authorized s (ge_committer ev) (ge_action ev)"
    and s': "s' = apply_action s (ge_action ev)" by (auto simp: apply_event_def apply_evicted_Inr)
  from assms(3) have "(\<exists>r. ge_action ev = SetRole x r) \<or> ge_action ev = Ban x"
    unfolding s' by (cases "ge_action ev") (auto simp: apply_action_def gov_role_def split: option.splits if_splits)
  with auth assms(2) show ?thesis
    by (auto simp: gov_authorized_def admin_authorized_def member_authorized_def
        split: if_splits option.splits role.splits)
qed

theorem privileged_roles_need_owner_witness:
  "gov_role (apply_action demo_room (SetRole 1 Admin)) 1 = Some Admin \<and> gov_role demo_room 1 = Some Owner"
proof -
  have "apply_event ed_demo demo_room (demo_event 1 (SetRole 1 Admin)) = Inr (apply_action demo_room (SetRole 1 Admin))"
    by (rule demo_event_apply)
       (simp_all add: demo_room_def governance_new_def is_banned_def gov_authorized_def gov_role_def bt_get_of_list)
  from privileged_roles_need_owner[OF this, of 1] show ?thesis
    by (simp add: demo_room_def gov_role_def apply_action_def bt_get_of_list)
qed

text \<open>
  C28: A batch evicts on the strength of any ban it contains, before checking that ban's signature or
  authority: whenever some event of the batch names \<open>x\<close> as the target of a ban in the current epoch,
  every event committed by \<open>x\<close> in that batch is refused, even if the ban itself is refused too.
\<close>

theorem unverified_ban_suppresses:
  assumes "ban \<in> set evs" and "ge_action ban = Ban x" and "ge_epoch ban = gs_epoch s"
    and "resolve_epoch_events sha256 ed s evs = (s', verdicts)"
    and "i < length evs" and "ge_committer (order_governance_events sha256 evs ! i) = x"
  shows "\<not> is_ok (verdicts ! i)"
proof -
  let ?evs = "order_governance_events sha256 evs"
  have "bs_member (evicted_by s ?evs) x"
    using assms(1-3) by (force simp: evicted_by_def map_filter_def)
  moreover have "length rs = length es \<and>
      (\<forall>i < length es. bs_member ev (ge_committer (es ! i)) \<longrightarrow> \<not> is_ok (rs ! i))"
    if "apply_batch ed ev s es = (s', rs)" for ev s es s' rs
    using that
  proof (induction ed ev s es arbitrary: s' rs rule: apply_batch.induct)
    case (2 ed ev s e es)
    show ?case
    proof (cases "apply_event_with_evicted_set ed s e ev")
      case (Inl err)
      with 2(1)[OF Inl] 2(3) show ?thesis by (auto simp: less_Suc_eq_0_disj split: prod.splits)
    next
      case (Inr s1)
      with 2(2)[OF Inr] 2(3) show ?thesis
        by (auto simp: less_Suc_eq_0_disj apply_evicted_Inr split: prod.splits)
    qed
  qed simp
  ultimately show ?thesis using assms(4-6) by (simp add: resolve_epoch_events_def Let_def)
qed

theorem unverified_ban_suppresses_witness:
  "let forged = \<lparr>ge_epoch = 7, ge_committer = 3, ge_action = Ban 1, ge_signer_public_key = [], ge_signature = []\<rparr>;
       honest = demo_event 1 (SetRole 2 Admin)
   in \<not> is_ok (apply_event ed_demo demo_room forged) \<and> is_ok (apply_event ed_demo demo_room honest) \<and>
      \<not> is_ok (snd (resolve_epoch_events (\<lambda>b. b) ed_demo demo_room [forged, honest]) ! 0)"
proof -
  define forged where "forged = \<lparr>ge_epoch = 7, ge_committer = 3, ge_action = Ban 1, ge_signer_public_key = [], ge_signature = []\<rparr>"
  define honest where "honest = demo_event 1 (SetRole 2 Admin)"
  have "order_governance_events (\<lambda>b. b) [forged, honest] = [honest, forged]"
    by (simp add: order_governance_events_def canonical_ref_def forged_def honest_def)
  then have "\<not> is_ok (snd (resolve_epoch_events (\<lambda>b. b) ed_demo demo_room [forged, honest]) ! 0)"
    by (intro unverified_ban_suppresses[of forged, OF _ _ _ prod.collapse[symmetric]])
       (simp_all add: forged_def honest_def demo_room_def governance_new_def)
  moreover have "apply_event ed_demo demo_room honest = Inr (apply_action demo_room (SetRole 2 Admin))"
    unfolding honest_def by (rule demo_event_apply)
       (simp_all add: demo_room_def governance_new_def is_banned_def gov_authorized_def gov_role_def bt_get_of_list target_leaf_def)
  moreover have "\<not> is_ok (apply_event ed_demo demo_room forged)"
    by (simp add: forged_def apply_event_def apply_event_with_evicted_set_def verify_signature_def)
  ultimately show ?thesis by (simp add: forged_def honest_def)
qed

text \<open>
  The signature is checked against the key inside the event, and that key is never tied to the
  committer leaf: an event that names an owner as committer is accepted whatever key signed it.
\<close>

theorem any_key_commits_for_owner:
  assumes "ed25519_correct ed" and "gov_role s owner = Some Owner" and "\<not> is_banned s owner"
    and "\<not> is_banned s (target_leaf action)"
  shows "apply_event ed s (signed_by ed (gs_epoch s) owner action stranger_key) = Inr (apply_action s action)"
proof -
  have "verify_signature ed (signed_by ed (gs_epoch s) owner action stranger_key) = Inr ()"
    using assms(1) by (simp add: verify_signature_def signed_by_def signing_bytes_def ed25519_correct_def Let_def)
  then show ?thesis
    using assms(2-4)
    by (simp add: apply_event_def apply_evicted_Inr gov_authorized_def signed_by_def is_banned_def Let_def)
qed

theorem any_key_commits_for_owner_witness:
  "apply_event ed_demo demo_room (signed_by ed_demo 7 1 (SetRole 2 Owner) 123) = Inr (apply_action demo_room (SetRole 2 Owner))"
  using any_key_commits_for_owner[OF ed_demo_correct, of demo_room 1 "SetRole 2 Owner" 123]
  by (simp add: demo_room_def governance_new_def gov_role_def bt_get_of_list is_banned_def target_leaf_def)

end
