(* ===== verification/Live_Key.thy ===== *)
theory Live_Key
  imports Retention Governance
begin

text \<open>
  Live-key requests (\<open>crates/content-keys/src/lib.rs\<close>): signed membership proofs, and the oracle that
  releases archival keys to current members under a rate limit. The oracle of a device is built from its MLS group and its resolved
  governance state, so the results here join the models of both: a key is released only to an
  active, unbanned member with a role, for a proof that this member's own device key signed, and at most
  \<open>max_requests\<close> times per rate key.
\<close>

section \<open>Membership proofs\<close>

datatype membership_proof_error =
    InvalidVerifierKey | InvalidSignatureBytes | BadSignature | GroupCommitmentMismatch

record membership_proof =
  mp_requester_leaf :: nat
  mp_epoch :: nat
  mp_group_id :: string
  mp_group_commitment :: bytes
  mp_device_public_key :: bytes
  mp_signature :: bytes

definition live_key_membership_proof_domain :: bytes where
  "live_key_membership_proof_domain = str_bytes ''discrypt-live-key-membership-proof-v1''"

definition membership_proof_transcript :: "nat \<Rightarrow> nat \<Rightarrow> string \<Rightarrow> bytes \<Rightarrow> bytes \<Rightarrow> bytes" where
  "membership_proof_transcript requester_leaf epoch gid commitment public_key =
     live_key_membership_proof_domain @ u32_be requester_leaf @ u64_be epoch @ u64_be (length gid) @
     str_bytes gid @ commitment @ public_key"

definition proof_sign :: "'sk ed25519 \<Rightarrow> nat \<Rightarrow> nat \<Rightarrow> string \<Rightarrow> bytes \<Rightarrow> 'sk \<Rightarrow> membership_proof" where
  "proof_sign ed requester_leaf epoch gid commitment sk =
     (let public_key = ed_public ed sk;
          transcript = membership_proof_transcript requester_leaf epoch gid commitment public_key
      in \<lparr>mp_requester_leaf = requester_leaf, mp_epoch = epoch, mp_group_id = gid, mp_group_commitment = commitment,
          mp_device_public_key = public_key, mp_signature = ed_sign ed sk transcript\<rparr>)"

definition proof_transcript :: "membership_proof \<Rightarrow> bytes" where
  "proof_transcript p =
     membership_proof_transcript (mp_requester_leaf p) (mp_epoch p) (mp_group_id p) (mp_group_commitment p) (mp_device_public_key p)"

definition proof_verify_signature :: "'sk ed25519 \<Rightarrow> membership_proof \<Rightarrow> bytes \<Rightarrow> membership_proof_error + unit" where
  "proof_verify_signature ed p expected =
     (if mp_group_commitment p \<noteq> expected then Inl GroupCommitmentMismatch
      else if \<not> ed_key_ok ed (mp_device_public_key p) then Inl InvalidVerifierKey
      else if \<not> ed_sig_ok ed (mp_signature p) then Inl InvalidSignatureBytes
      else if \<not> ed_verify ed (mp_device_public_key p) (proof_transcript p) (mp_signature p) then Inl BadSignature
      else Inr ())"

definition membership_commitment_preimage :: "nat \<Rightarrow> nat btreeset \<Rightarrow> bytes" where
  "membership_commitment_preimage epoch members =
     str_bytes ''discrypt-live-key-epoch-group-commitment-v1'' @ u64_be epoch @ u64_be (bt_len members) @
     concat (map u32_be (bs_elems members))"

definition derive_membership_group_commitment :: "(bytes \<Rightarrow> bytes) \<Rightarrow> nat \<Rightarrow> nat btreeset \<Rightarrow> bytes" where
  "derive_membership_group_commitment sha256 epoch members = sha256 (membership_commitment_preimage epoch members)"

section \<open>The oracle\<close>

record live_key_response =
  lr_state :: key_state
  lr_authorized :: bool

datatype live_key_failure_response_mode = DecoyKey | UniformUnavailable

datatype local_membership_state_error = EpochMismatch nat nat | InvalidDeviceKey nat

record live_key_request_scope =
  sc_author_leaf :: "nat option"
  sc_network_identity_hash :: "bytes option"

definition scope_new :: live_key_request_scope where
  "scope_new = \<lparr>sc_author_leaf = None, sc_network_identity_hash = None\<rparr>"

definition scope_for_author :: "nat \<Rightarrow> live_key_request_scope" where
  "scope_for_author author_leaf = \<lparr>sc_author_leaf = Some author_leaf, sc_network_identity_hash = None\<rparr>"

definition with_network_identity :: "(bytes \<Rightarrow> bytes) \<Rightarrow> live_key_request_scope \<Rightarrow> bytes \<Rightarrow> live_key_request_scope" where
  "with_network_identity sha256 scope network_identity =
     scope\<lparr>sc_network_identity_hash :=
       Some (sha256 (str_bytes ''discrypt-live-key-rate-limit-network-identity-v1'' @ network_identity))\<rparr>"

text \<open>\<open>LiveKeyRateLimitKey\<close> with its derived order: requester, epoch, author, network identity.\<close>

type_synonym live_key_rate_limit_key = "nat \<times> nat \<times> nat option \<times> bytes option"

definition from_proof_scope :: "membership_proof \<Rightarrow> live_key_request_scope \<Rightarrow> live_key_rate_limit_key" where
  "from_proof_scope p scope = (mp_requester_leaf p, mp_epoch p, sc_author_leaf scope, sc_network_identity_hash scope)"

record live_key_oracle =
  members_by_epoch :: "(nat, nat btreeset) btreemap"
  group_commitments_by_epoch :: "(nat, bytes) btreemap"
  authorized_device_keys :: "(nat \<times> nat, bytes btreeset) btreemap"
  requests_by_rate_key :: "(live_key_rate_limit_key, nat) btreemap"
  max_requests :: nat
  decoy_key :: bytes
  failure_response_mode :: live_key_failure_response_mode

definition oracle_new :: "(bytes \<Rightarrow> bytes) \<Rightarrow> (nat, nat btreeset) btreemap \<Rightarrow> nat \<Rightarrow> live_key_oracle" where
  "oracle_new sha256 members limit =
     \<lparr>members_by_epoch = members,
      group_commitments_by_epoch = bt_map (\<lambda>epoch ms. derive_membership_group_commitment sha256 epoch ms) members,
      authorized_device_keys = bt_empty, requests_by_rate_key = bt_empty, max_requests = max limit 1,
      decoy_key = replicate 32 0x0D, failure_response_mode = DecoyKey\<rparr>"

definition epoch_group_commitment :: "live_key_oracle \<Rightarrow> nat \<Rightarrow> bytes option" where
  "epoch_group_commitment orc epoch = bt_get (group_commitments_by_epoch orc) epoch"

definition oracle_member :: "live_key_oracle \<Rightarrow> nat \<Rightarrow> nat \<Rightarrow> bool" where
  "oracle_member orc epoch leaf =
     (case bt_get (members_by_epoch orc) epoch of None \<Rightarrow> False | Some ms \<Rightarrow> bs_member ms leaf)"

definition authorize_member_device :: "live_key_oracle \<Rightarrow> nat \<Rightarrow> nat \<Rightarrow> bytes \<Rightarrow> live_key_oracle \<times> bool" where
  "authorize_member_device orc epoch leaf verifier =
     (if \<not> oracle_member orc epoch leaf then (orc, False)
      else (orc\<lparr>authorized_device_keys :=
              bt_upsert (epoch, leaf) bs_empty (bs_insert verifier) (authorized_device_keys orc)\<rparr>, True))"

definition with_failure_response_mode :: "live_key_oracle \<Rightarrow> live_key_failure_response_mode \<Rightarrow> live_key_oracle" where
  "with_failure_response_mode orc mode = orc\<lparr>failure_response_mode := mode\<rparr>"

definition failure_response :: "live_key_oracle \<Rightarrow> bool \<Rightarrow> live_key_response" where
  "failure_response orc rate_limited =
     (case failure_response_mode orc of
        DecoyKey \<Rightarrow> if rate_limited then \<lparr>lr_state = KeyRateLimited, lr_authorized = False\<rparr>
                    else \<lparr>lr_state = Decoy (decoy_key orc), lr_authorized = False\<rparr>
      | UniformUnavailable \<Rightarrow> \<lparr>lr_state = Unavailable, lr_authorized = False\<rparr>)"

definition generic_failure_response :: "live_key_oracle \<Rightarrow> live_key_response" where
  "generic_failure_response orc = failure_response orc False"

definition proof_authorized :: "'sk ed25519 \<Rightarrow> live_key_oracle \<Rightarrow> membership_proof \<Rightarrow> bool" where
  "proof_authorized ed orc p =
     (case bt_get (members_by_epoch orc) (mp_epoch p) of
        None \<Rightarrow> False
      | Some members \<Rightarrow>
          if \<not> bs_member members (mp_requester_leaf p) then False
          else case bt_get (group_commitments_by_epoch orc) (mp_epoch p) of
              None \<Rightarrow> False
            | Some expected \<Rightarrow>
                if \<not> is_ok (proof_verify_signature ed p expected) then False
                else case bt_get (authorized_device_keys orc) (mp_epoch p, mp_requester_leaf p) of
                    None \<Rightarrow> False
                  | Some keys \<Rightarrow> bs_member keys (mp_device_public_key p))"

definition request_key_scoped ::
  "'sk ed25519 \<Rightarrow> live_key_oracle \<Rightarrow> membership_proof \<Rightarrow> live_key_request_scope \<Rightarrow> bytes \<Rightarrow> live_key_oracle \<times> live_key_response" where
  "request_key_scoped ed orc p scope key =
     (if \<not> proof_authorized ed orc p then (orc, failure_response orc False)
      else let rate_key = from_proof_scope p scope;
               counter = sat_add (case bt_get (requests_by_rate_key orc) rate_key of None \<Rightarrow> 0 | Some c \<Rightarrow> c) 1;
               orc = orc\<lparr>requests_by_rate_key := bt_insert rate_key counter (requests_by_rate_key orc)\<rparr>
           in if max_requests orc < counter then (orc, failure_response orc True)
              else (orc, \<lparr>lr_state = Cached key, lr_authorized = True\<rparr>))"

definition request_key :: "'sk ed25519 \<Rightarrow> live_key_oracle \<Rightarrow> membership_proof \<Rightarrow> bytes \<Rightarrow> live_key_oracle \<times> live_key_response" where
  "request_key ed orc p key = request_key_scoped ed orc p scope_new key"

definition request_key_for_author ::
  "(bytes \<Rightarrow> bytes) \<Rightarrow> 'sk ed25519 \<Rightarrow> live_key_oracle \<Rightarrow> membership_proof \<Rightarrow> nat \<Rightarrow> string option \<Rightarrow> bytes
     \<Rightarrow> live_key_oracle \<times> live_key_response" where
  "request_key_for_author sha256 ed orc p author_leaf network_identity key =
     (let scope = scope_for_author author_leaf;
          scope = (case network_identity of None \<Rightarrow> scope | Some n \<Rightarrow> with_network_identity sha256 scope (str_bytes n))
      in request_key_scoped ed orc p scope key)"

text \<open>The loop of \<open>from_local_mls_governance_state\<close> over the members of the group.\<close>

fun register_members ::
  "'sk ed25519 \<Rightarrow> nat \<Rightarrow> (nat \<times> device_leaf) list \<Rightarrow> live_key_oracle \<Rightarrow> local_membership_state_error + live_key_oracle" where
  "register_members ed epoch [] orc = Inr orc"
| "register_members ed epoch ((leaf, m) # ms) orc =
     (if \<not> oracle_member orc epoch leaf then register_members ed epoch ms orc
      else if \<not> ed_key_ok ed (dl_device_key m) then Inl (InvalidDeviceKey leaf)
      else register_members ed epoch ms (fst (authorize_member_device orc epoch leaf (dl_device_key m))))"

definition local_active_members :: "group_state \<Rightarrow> governance_state \<Rightarrow> nat btreeset" where
  "local_active_members grp gov =
     bs_of_list (List.map_filter (\<lambda>(leaf, m).
       if dl_status m = Active \<and> gov_role gov leaf \<noteq> None \<and> \<not> is_banned gov leaf then Some leaf else None)
       (bt_entries (group_members grp)))"

definition from_local_mls_governance_state ::
  "(bytes \<Rightarrow> bytes) \<Rightarrow> 'sk ed25519 \<Rightarrow> group_state \<Rightarrow> governance_state \<Rightarrow> nat \<Rightarrow> local_membership_state_error + live_key_oracle" where
  "from_local_mls_governance_state sha256 ed grp gov limit =
     (if group_epoch grp \<noteq> gs_epoch gov then Inl (EpochMismatch (group_epoch grp) (gs_epoch gov))
      else register_members ed (group_epoch grp) (bt_entries (group_members grp))
             (oracle_new sha256 (bt_of_list [(group_epoch grp, local_active_members grp gov)]) limit))"

section \<open>Requests\<close>

type_synonym live_key_request = "membership_proof \<times> live_key_request_scope \<times> bytes"

fun serve :: "'sk ed25519 \<Rightarrow> live_key_oracle \<Rightarrow> live_key_request list \<Rightarrow> live_key_oracle \<times> live_key_response list" where
  "serve ed orc [] = (orc, [])"
| "serve ed orc ((p, scope, key) # rs) =
     (case request_key_scoped ed orc p scope key of
        (orc', resp) \<Rightarrow> (case serve ed orc' rs of (orc'', resps) \<Rightarrow> (orc'', resp # resps)))"

definition rate_count :: "live_key_oracle \<Rightarrow> live_key_rate_limit_key \<Rightarrow> nat" where
  "rate_count orc k = (case bt_get (requests_by_rate_key orc) k of None \<Rightarrow> 0 | Some c \<Rightarrow> c)"

text \<open>A request changes nothing but the counter of its rate key.\<close>

lemma request_frame:
  "request_key_scoped ed orc p scope key = (orc', resp) \<Longrightarrow>
     orc' = orc\<lparr>requests_by_rate_key := requests_by_rate_key orc'\<rparr>"
  by (auto simp: request_key_scoped_def Let_def split: if_splits)

lemma proof_authorized_iff:
  "proof_authorized ed orc p \<longleftrightarrow>
     (\<exists>members expected keys. bt_get (members_by_epoch orc) (mp_epoch p) = Some members \<and> bs_member members (mp_requester_leaf p) \<and>
        bt_get (group_commitments_by_epoch orc) (mp_epoch p) = Some expected \<and> proof_verify_signature ed p expected = Inr () \<and>
        bt_get (authorized_device_keys orc) (mp_epoch p, mp_requester_leaf p) = Some keys \<and> bs_member keys (mp_device_public_key p))"
  by (auto simp: proof_authorized_def is_ok_iff split: option.splits if_splits)

lemma proof_authorized_frame:
  "proof_authorized ed (orc\<lparr>requests_by_rate_key := r\<rparr>) p = proof_authorized ed orc p"
  by (simp add: proof_authorized_iff)

lemma request_max: "request_key_scoped ed orc p scope key = (orc', resp) \<Longrightarrow> max_requests orc' = max_requests orc"
  using request_frame by (metis live_key_oracle.select_convs(5) live_key_oracle.surjective live_key_oracle.update_convs(4))

lemma request_authorized_same:
  "request_key_scoped ed orc p scope key = (orc', resp) \<Longrightarrow> proof_authorized ed orc' q = proof_authorized ed orc q"
  using request_frame proof_authorized_frame by metis

lemma request_count:
  "request_key_scoped ed orc p scope key = (orc', resp) \<Longrightarrow>
     rate_count orc' k = (if proof_authorized ed orc p \<and> k = from_proof_scope p scope then sat_add (rate_count orc k) 1 else rate_count orc k)"
  by (auto simp: request_key_scoped_def rate_count_def Let_def split: if_splits)

lemma request_response:
  "request_key_scoped ed orc p scope key = (orc', resp) \<Longrightarrow>
     lr_authorized resp \<longleftrightarrow> proof_authorized ed orc p \<and> sat_add (rate_count orc (from_proof_scope p scope)) 1 \<le> max_requests orc"
  by (auto simp: request_key_scoped_def rate_count_def failure_response_def Let_def
      split: if_splits live_key_failure_response_mode.splits)

definition valid_for :: "'sk ed25519 \<Rightarrow> live_key_oracle \<Rightarrow> live_key_rate_limit_key \<Rightarrow> live_key_request \<Rightarrow> bool" where
  "valid_for ed orc k = (\<lambda>(p, scope, key). proof_authorized ed orc p \<and> from_proof_scope p scope = k)"

definition released :: "live_key_request list \<Rightarrow> live_key_response list \<Rightarrow> live_key_rate_limit_key \<Rightarrow> nat" where
  "released rs resps k =
     length (filter (\<lambda>((p, scope, key), resp). lr_authorized resp \<and> from_proof_scope p scope = k) (zip rs resps))"

lemma released_Cons:
  "released ((p, scope, key) # rs) (resp # resps) k =
     (if lr_authorized resp \<and> from_proof_scope p scope = k then Suc (released rs resps k) else released rs resps k)"
  by (simp add: released_def)

text \<open>
  C31: Over any sequence of requests, the oracle releases keys for a rate key (requester, epoch, author,
  network identity) exactly to the first \<open>max_requests\<close> valid requests, counting those made before:
  never more, and never fewer while valid requests keep coming.
\<close>

theorem live_key_rate_limit_exact:
  assumes "serve ed orc rs = (orc', resps)"
    and "rate_count orc k + length (filter (valid_for ed orc k) rs) \<le> u64_max"
  shows "released rs resps k = min (length (filter (valid_for ed orc k) rs)) (max_requests orc - rate_count orc k)"
  using assms
proof (induction ed orc rs arbitrary: orc' resps rule: serve.induct)
  case (2 ed orc p scope key rs)
  obtain orc1 resp where req: "request_key_scoped ed orc p scope key = (orc1, resp)" by fastforce
  obtain orc2 resps2 where rest: "serve ed orc1 rs = (orc2, resps2)" by fastforce
  have same: "valid_for ed orc1 k = valid_for ed orc k"
    using request_authorized_same[OF req] by (simp add: valid_for_def fun_eq_iff)
  have max: "max_requests orc1 = max_requests orc" using request_max[OF req] .
  note cnt = request_count[OF req, of k] and resp = request_response[OF req]
  have res: "resps = resp # resps2" using 2(2) by (simp add: req rest)
  show ?case
  proof (cases "valid_for ed orc k (p, scope, key)")
    case True
    then have auth: "proof_authorized ed orc p" and k: "from_proof_scope p scope = k" by (auto simp: valid_for_def)
    have le: "Suc (rate_count orc k) \<le> u64_max" using 2(3) True by simp
    then have c1: "rate_count orc1 k = Suc (rate_count orc k)" using cnt auth k by (simp add: sat_add_def)
    have "released rs resps2 k = min (length (filter (valid_for ed orc k) rs)) (max_requests orc - Suc (rate_count orc k))"
      using 2(1)[OF req[symmetric] rest] 2(3) True by (simp add: same max c1)
    moreover have "lr_authorized resp \<longleftrightarrow> rate_count orc k < max_requests orc"
      using resp auth k le by (simp add: sat_add_def) auto
    ultimately show ?thesis using True k by (auto simp: res released_Cons)
  next
    case False
    then have c1: "rate_count orc1 k = rate_count orc k" using cnt by (auto simp: valid_for_def)
    have "released rs resps2 k = min (length (filter (valid_for ed orc k) rs)) (max_requests orc - rate_count orc k)"
      using 2(1)[OF req[symmetric] rest] 2(3) False by (simp add: same max c1)
    moreover have "\<not> (lr_authorized resp \<and> from_proof_scope p scope = k)" using resp False by (auto simp: valid_for_def)
    ultimately show ?thesis using False by (simp add: res released_Cons)
  qed
qed (simp add: released_def)

section \<open>Who receives a key\<close>

lemma register_members_frame:
  "register_members ed epoch ms orc = Inr orc' \<Longrightarrow> members_by_epoch orc' = members_by_epoch orc \<and>
     group_commitments_by_epoch orc' = group_commitments_by_epoch orc \<and> max_requests orc' = max_requests orc \<and>
     requests_by_rate_key orc' = requests_by_rate_key orc"
  by (induction ed epoch ms orc rule: register_members.induct)
     (auto simp: authorize_member_device_def split: if_splits)

text \<open>The device keys that registration adds are those of the members it passed.\<close>

lemma register_members_keys:
  assumes "register_members ed epoch ms orc = Inr orc'"
    and "bt_get (authorized_device_keys orc') (e, l) = Some ks" and "bs_member ks pk"
  shows "(\<exists>ks. bt_get (authorized_device_keys orc) (e, l) = Some ks \<and> bs_member ks pk) \<or>
    e = epoch \<and> (\<exists>m. (l, m) \<in> set ms \<and> dl_device_key m = pk)"
  using assms
proof (induction ed epoch ms orc rule: register_members.induct)
  case (2 ed epoch leaf m ms orc)
  show ?case
  proof (cases "oracle_member orc epoch leaf \<and> ed_key_ok ed (dl_device_key m)")
    case True
    then have "(\<exists>ks. bt_get (authorized_device_keys (fst (authorize_member_device orc epoch leaf (dl_device_key m)))) (e, l) = Some ks \<and> bs_member ks pk) \<or>
        e = epoch \<and> (\<exists>m. (l, m) \<in> set ms \<and> dl_device_key m = pk)"
      using 2 by simp
    then show ?thesis
      by (auto simp: authorize_member_device_def bt_get_upsert split: if_splits option.splits)
  next
    case False
    then show ?thesis using 2 by (auto split: if_splits)
  qed
qed auto

lemma local_active_members_iff:
  "bs_member (local_active_members grp gov) leaf \<longleftrightarrow>
     (\<exists>m. bt_get (group_members grp) leaf = Some m \<and> dl_status m = Active) \<and> gov_role gov leaf \<noteq> None \<and> \<not> is_banned gov leaf"
proof -
  have "bs_member (local_active_members grp gov) leaf \<longleftrightarrow>
      (\<exists>(l, m) \<in> set (bt_entries (group_members grp)).
        dl_status m = Active \<and> gov_role gov l \<noteq> None \<and> \<not> is_banned gov l \<and> l = leaf)"
    by (auto simp: local_active_members_def set_map_filter split: if_splits) (blast | force)+
  also have "\<dots> \<longleftrightarrow> (\<exists>m. (leaf, m) \<in> set (bt_entries (group_members grp)) \<and> dl_status m = Active) \<and>
      gov_role gov leaf \<noteq> None \<and> \<not> is_banned gov leaf" by auto
  finally show ?thesis by (simp add: set_bt_entries)
qed

lemma failure_response_frame: "failure_response (orc\<lparr>requests_by_rate_key := r\<rparr>) b = failure_response orc b"
  by (simp add: failure_response_def split: live_key_failure_response_mode.split)

lemma request_result:
  "request_key_scoped ed orc p scope key = (orc', resp) \<Longrightarrow>
     (lr_authorized resp \<longrightarrow> proof_authorized ed orc p \<and> lr_state resp = Cached key) \<and>
     (\<not> lr_authorized resp \<longrightarrow> resp = failure_response orc False \<or> resp = failure_response orc True)"
  by (auto simp: request_key_scoped_def failure_response_frame Let_def split: if_splits)
     (auto simp: failure_response_def split: live_key_failure_response_mode.splits)

lemma serve_authorized:
  "serve ed orc rs = (orc', resps) \<Longrightarrow> i < length rs \<Longrightarrow> length resps = length rs \<and>
     (lr_authorized (resps ! i) \<longrightarrow> proof_authorized ed orc (fst (rs ! i)) \<and> lr_state (resps ! i) = Cached (snd (snd (rs ! i)))) \<and>
     (\<not> lr_authorized (resps ! i) \<longrightarrow> resps ! i = failure_response orc False \<or> resps ! i = failure_response orc True)"
proof (induction ed orc rs arbitrary: orc' resps i rule: serve.induct)
  case (2 ed orc p scope key rs)
  obtain orc1 resp where req: "request_key_scoped ed orc p scope key = (orc1, resp)" by fastforce
  obtain orc2 resps2 where rest: "serve ed orc1 rs = (orc2, resps2)" by fastforce
  have resps: "resps = resp # resps2" using 2(2) by (simp add: req rest)
  have fail: "failure_response orc1 b = failure_response orc b" for b
    using request_frame[OF req] failure_response_frame by metis
  note IH = 2(1)[OF req[symmetric] rest, unfolded fail request_authorized_same[OF req]]
  have "length resps2 = length rs" using IH[of 0] rest by (cases rs) auto
  then show ?case
    using request_result[OF req] IH[of "i - 1"] 2(3) by (cases i) (auto simp: resps)
qed simp

text \<open>
  C7: The oracle that a device builds from its own group and governance state releases a key only for a
  proof of the current epoch by a leaf that is an active member of the group, holds a role and is not banned, signed by
  the device key of exactly that leaf over the commitment to the current membership. Every other answer is
  one of two fixed failure responses, which depend neither on the proof nor on the requested key.
\<close>

theorem local_oracle_releases_to_members_only:
  assumes "from_local_mls_governance_state sha256 ed grp gov limit = Inr orc"
    and "serve ed orc rs = (orc', resps)" and "i < length rs" and "rs ! i = (p, scope, key)"
  shows "if lr_authorized (resps ! i)
    then lr_state (resps ! i) = Cached key \<and> mp_epoch p = group_epoch grp \<and> group_epoch grp = gs_epoch gov \<and>
      gov_role gov (mp_requester_leaf p) \<noteq> None \<and> \<not> is_banned gov (mp_requester_leaf p) \<and>
      (\<exists>m. bt_get (group_members grp) (mp_requester_leaf p) = Some m \<and> dl_status m = Active \<and> dl_device_key m = mp_device_public_key p) \<and>
      ed_verify ed (mp_device_public_key p) (proof_transcript p) (mp_signature p) \<and>
      mp_group_commitment p = derive_membership_group_commitment sha256 (group_epoch grp) (local_active_members grp gov)
    else resps ! i = failure_response orc False \<or> resps ! i = failure_response orc True"
proof -
  let ?new = "oracle_new sha256 (bt_of_list [(group_epoch grp, local_active_members grp gov)]) limit"
  from assms(1) have ep: "group_epoch grp = gs_epoch gov"
    and reg: "register_members ed (group_epoch grp) (bt_entries (group_members grp)) ?new = Inr orc"
    by (auto simp: from_local_mls_governance_state_def split: if_splits)
  note frame = register_members_frame[OF reg]
  have sole: "bt_get (members_by_epoch orc) e = Some ms \<longleftrightarrow> e = group_epoch grp \<and> ms = local_active_members grp gov" for e ms
    using frame by (auto simp: oracle_new_def bt_get_of_list)
  show ?thesis
  proof (cases "lr_authorized (resps ! i)")
    case True
    with serve_authorized[OF assms(2,3)] assms(4) have auth: "proof_authorized ed orc p" and st: "lr_state (resps ! i) = Cached key"
      by auto
    then obtain keys expected where mem: "mp_epoch p = group_epoch grp" "bs_member (local_active_members grp gov) (mp_requester_leaf p)"
      and com: "bt_get (group_commitments_by_epoch orc) (mp_epoch p) = Some expected" and ver: "proof_verify_signature ed p expected = Inr ()"
      and keys: "bt_get (authorized_device_keys orc) (mp_epoch p, mp_requester_leaf p) = Some keys" "bs_member keys (mp_device_public_key p)"
      by (auto simp: proof_authorized_iff sole)
    have "expected = derive_membership_group_commitment sha256 (group_epoch grp) (local_active_members grp gov)"
      using com frame mem(1) by (simp add: oracle_new_def bt_get_of_list)
    moreover have "\<exists>m. (mp_requester_leaf p, m) \<in> set (bt_entries (group_members grp)) \<and> dl_device_key m = mp_device_public_key p"
      using register_members_keys[OF reg keys] by (simp add: oracle_new_def)
    ultimately show ?thesis
      using True st mem ep ver by (auto simp: local_active_members_iff set_bt_entries proof_verify_signature_def split: if_splits)
  next
    case False
    with serve_authorized[OF assms(2,3)] show ?thesis by auto
  qed
qed

text \<open>
  The group id is part of the signed transcript and nothing compares it with the group of the oracle:
  a member's proof is accepted whatever group it names. Two groups at the same epoch with the same
  leaf numbers have the same commitment, so a proof made for one is valid for the other.
\<close>

theorem proof_accepted_for_any_group_id:
  assumes "ed25519_correct ed" and "oracle_member orc epoch leaf" and "epoch_group_commitment orc epoch = Some c"
    and "bt_get (authorized_device_keys orc) (epoch, leaf) = Some keys" and "bs_member keys (ed_public ed sk)"
  shows "proof_authorized ed orc (proof_sign ed leaf epoch any_group_id c sk)"
  using assms
  by (auto simp: proof_authorized_iff proof_sign_def proof_verify_signature_def proof_transcript_def oracle_member_def
      epoch_group_commitment_def ed25519_correct_def Let_def split: option.splits)

definition demo_member :: device_leaf where
  "demo_member = demo_leaf\<lparr>dl_leaf_index := 1, dl_device_key := ed_public ed_demo 77\<rparr>"

definition demo_room_group :: group_state where
  "demo_room_group = \<lparr>group_id = ''room'', group_epoch = 7, group_members = bt_insert 1 demo_member bt_empty, epoch_secret = []\<rparr>"

definition demo_oracle :: live_key_oracle where
  "demo_oracle = fst (authorize_member_device
     (oracle_new sha_demo (bt_of_list [(7, local_active_members demo_room_group demo_room)]) 1) 7 1 (ed_public ed_demo 77))"

definition demo_proof :: membership_proof where
  "demo_proof = proof_sign ed_demo 1 7 ''room''
     (derive_membership_group_commitment sha_demo 7 (local_active_members demo_room_group demo_room)) 77"

lemma demo_active: "bs_member (local_active_members demo_room_group demo_room) 1"
  by (simp add: local_active_members_iff demo_room_group_def demo_member_def demo_leaf_def demo_room_def governance_new_def
      gov_role_def is_banned_def bt_get_of_list)

lemma demo_oracle_built: "from_local_mls_governance_state sha_demo ed_demo demo_room_group demo_room 1 = Inr demo_oracle"
proof -
  have entries: "bt_entries (group_members demo_room_group) = [(1, demo_member)]"
    by (simp add: demo_room_group_def bt_entries_insert)
  have "oracle_member (oracle_new sha_demo (bt_of_list [(7, local_active_members demo_room_group demo_room)]) 1) 7 1"
    using demo_active by (simp add: oracle_member_def oracle_new_def bt_get_of_list)
  moreover have "ed_key_ok ed_demo (ed_public ed_demo 77)" using ed_demo_correct by (simp add: ed25519_correct_def)
  moreover have "group_epoch demo_room_group = 7" "gs_epoch demo_room = 7" "dl_device_key demo_member = ed_public ed_demo 77"
    by (simp_all add: demo_room_group_def demo_room_def governance_new_def demo_member_def)
  ultimately show ?thesis
    by (simp add: from_local_mls_governance_state_def entries demo_oracle_def)
qed

lemma demo_proof_authorized: "proof_authorized ed_demo demo_oracle demo_proof"
  using demo_active unfolding demo_proof_def
  by (intro proof_accepted_for_any_group_id[OF ed_demo_correct])
     (simp_all add: demo_oracle_def authorize_member_device_def oracle_member_def oracle_new_def epoch_group_commitment_def
       bt_get_of_list bt_get_upsert, simp)

theorem live_key_rate_limit_exact_witness:
  "released [(demo_proof, scope_new, [1]), (demo_proof, scope_new, [2])]
     (snd (serve ed_demo demo_oracle [(demo_proof, scope_new, [1]), (demo_proof, scope_new, [2])])) (from_proof_scope demo_proof scope_new) = 1"
proof -
  have "max_requests demo_oracle = 1" "rate_count demo_oracle k = 0" for k
    by (simp_all add: demo_oracle_def authorize_member_device_def oracle_new_def rate_count_def)
  with live_key_rate_limit_exact[OF prod.collapse[symmetric], where orc = demo_oracle and k = "from_proof_scope demo_proof scope_new"
      and rs = "[(demo_proof, scope_new, [1]), (demo_proof, scope_new, [2])]" and ed = ed_demo]
  show ?thesis using demo_proof_authorized by (simp add: valid_for_def u64_max_def)
qed

theorem local_oracle_releases_to_members_only_witness:
  "if lr_authorized (snd (serve ed_demo demo_oracle [(demo_proof, scope_new, [1])]) ! 0)
   then gov_role demo_room (mp_requester_leaf demo_proof) \<noteq> None \<and> \<not> is_banned demo_room (mp_requester_leaf demo_proof)
   else False"
proof -
  have "lr_authorized (snd (request_key_scoped ed_demo demo_oracle demo_proof scope_new [1]))"
    using demo_proof_authorized
    by (simp add: request_key_scoped_def demo_oracle_def authorize_member_device_def oracle_new_def Let_def sat_add_def u64_max_def)
  then have "lr_authorized (snd (serve ed_demo demo_oracle [(demo_proof, scope_new, [1])]) ! 0)"
    by (auto split: prod.splits)
  with local_oracle_releases_to_members_only[OF demo_oracle_built prod.collapse[symmetric],
      where i = 0 and rs = "[(demo_proof, scope_new, [1])]" and p = demo_proof and scope = scope_new and key = "[1]"]
  show ?thesis by simp
qed

section \<open>Transcripts\<close>

text \<open>
  The signed transcript determines the requester, the epoch, the group id, the membership commitment and the
  device key of a proof, so no field can be exchanged under a valid signature.
\<close>

theorem membership_transcript_covers_proof:
  assumes "proof_transcript p = proof_transcript q"
    and "mp_requester_leaf p < 2 ^ 32" "mp_epoch p < 2 ^ 64" "length (mp_group_id p) < 2 ^ 64"
      "length (mp_group_commitment p) = 32" "length (mp_device_public_key p) = 32"
    and "mp_requester_leaf q < 2 ^ 32" "mp_epoch q < 2 ^ 64" "length (mp_group_id q) < 2 ^ 64"
      "length (mp_group_commitment q) = 32" "length (mp_device_public_key q) = 32"
  shows "q = p\<lparr>mp_signature := mp_signature q\<rparr>"
proof -
  let ?t = "\<lambda>p. mp_group_commitment p @ mp_device_public_key p"
  from assms have 1: "mp_requester_leaf p = mp_requester_leaf q \<and>
      u64_be (mp_epoch p) @ lp_be (str_bytes (mp_group_id p)) @ ?t p = u64_be (mp_epoch q) @ lp_be (str_bytes (mp_group_id q)) @ ?t q"
    by (intro be_append_inj[where k = 4]) (simp_all add: proof_transcript_def membership_proof_transcript_def lp_be_def)
  with assms have 2: "mp_epoch p = mp_epoch q \<and> lp_be (str_bytes (mp_group_id p)) @ ?t p = lp_be (str_bytes (mp_group_id q)) @ ?t q"
    by (intro be_append_inj[where k = 8]) simp_all
  with assms have "str_bytes (mp_group_id p) = str_bytes (mp_group_id q) \<and> ?t p = ?t q"
    by (intro lp_be_append_inj) simp_all
  with 1 2 assms show ?thesis by (simp add: append_eq_same_length)
qed

theorem membership_transcript_covers_proof_witness:
  "demo_proof\<lparr>mp_signature := []\<rparr> = demo_proof\<lparr>mp_signature := mp_signature (demo_proof\<lparr>mp_signature := []\<rparr>)\<rparr>"
  by (rule membership_transcript_covers_proof)
     (simp_all add: proof_transcript_def demo_proof_def proof_sign_def derive_membership_group_commitment_def ed_demo_def Let_def)

end
