(* ===== verification/Sframe.thy ===== *)
theory Sframe
  imports Group Replay_Guard
begin

text \<open>
  Media frame protection (\<open>crates/media/src/sframe.rs\<close>): sender bindings with derived key ids, per-sender
  keys from the MLS exporter, authenticated frames, and the receiver with its replay window.
  SHA-256 and AES-GCM are parameters. The window discharges the \<open>replay_guard\<close> contract, so the
  results of that locale hold for media too; the main theorem follows frames from the
  sender through an arbitrary delivery schedule to the receiver.
\<close>

section \<open>Sender bindings\<close>

definition default_replay_window :: nat where
  "default_replay_window = 64"

definition nonce_len :: nat where
  "nonce_len = 12"

record sender_binding =
  sb_kid :: bytes
  sb_group_id :: string
  sb_epoch :: nat
  sb_leaf_index :: nat
  sb_device_id :: string

datatype media_error =
    UnknownSender | MediaReplay | AuthenticationFailed | BindingMismatch | KidBindingMismatch | DuplicateKid
  | InvalidBinding | CounterOverflow | InvalidAudioFrame string | OpusEncodeFailed string | OpusDecodeFailed string
  | PlaybackFailed string | InvalidPlaybackVolume nat | MediaMuted | MediaTransportFailed string

definition validate_without_kid :: "sender_binding \<Rightarrow> media_error + unit" where
  "validate_without_kid b =
     (if blank (sb_group_id b) \<or> blank (sb_device_id b) then Inl InvalidBinding else Inr ())"

definition binding_validate :: "sender_binding \<Rightarrow> media_error + unit" where
  "binding_validate b =
     and_then (validate_without_kid b) (\<lambda>_. if sb_kid b = [] then Inl InvalidBinding else Inr ())"

definition kid_preimage :: "sender_binding \<Rightarrow> bytes \<Rightarrow> bytes" where
  "kid_preimage b secret =
     str_bytes ''discrypt-sframe-kid-v1'' @ u64_be (length (sb_group_id b)) @ str_bytes (sb_group_id b) @
     u64_be (sb_epoch b) @ u32_be (sb_leaf_index b) @ u64_be (length (sb_device_id b)) @ str_bytes (sb_device_id b) @ secret"

definition derived_kid :: "(bytes \<Rightarrow> bytes) \<Rightarrow> sender_binding \<Rightarrow> bytes \<Rightarrow> bytes" where
  "derived_kid sha256 b secret = take 16 (sha256 (kid_preimage b secret))"

definition derive_for_epoch ::
  "(bytes \<Rightarrow> bytes) \<Rightarrow> bytes \<Rightarrow> string \<Rightarrow> nat \<Rightarrow> nat \<Rightarrow> string \<Rightarrow> media_error + sender_binding" where
  "derive_for_epoch sha256 secret gid epoch leaf device_id =
     (let b = \<lparr>sb_kid = [], sb_group_id = gid, sb_epoch = epoch, sb_leaf_index = leaf, sb_device_id = device_id\<rparr>
      in and_then (validate_without_kid b) (\<lambda>_.
           let b = b\<lparr>sb_kid := derived_kid sha256 b secret\<rparr>
           in and_then (binding_validate b) (\<lambda>_. Inr b)))"

definition verify_derived_kid :: "(bytes \<Rightarrow> bytes) \<Rightarrow> sender_binding \<Rightarrow> bytes \<Rightarrow> media_error + unit" where
  "verify_derived_kid sha256 b secret =
     and_then (binding_validate b) (\<lambda>_.
       if sb_kid b = derived_kid sha256 b secret then Inr () else Inl KidBindingMismatch)"

definition binding_context :: "sender_binding \<Rightarrow> bytes" where
  "binding_context b =
     str_bytes ''discrypt-sframe-binding-v1'' @ u64_be (length (sb_kid b)) @ sb_kid b @
     u64_be (length (sb_group_id b)) @ str_bytes (sb_group_id b) @ u64_be (sb_epoch b) @ u32_be (sb_leaf_index b) @
     u64_be (length (sb_device_id b)) @ str_bytes (sb_device_id b)"

definition binding_hash :: "(bytes \<Rightarrow> bytes) \<Rightarrow> sender_binding \<Rightarrow> bytes" where
  "binding_hash sha256 b = sha256 (binding_context b)"

definition nonce_for :: "(bytes \<Rightarrow> bytes) \<Rightarrow> bytes \<Rightarrow> nat \<Rightarrow> bytes" where
  "nonce_for sha256 hash counter =
     take nonce_len (sha256 (str_bytes ''discrypt-sframe-nonce-v1'' @ hash @ u64_be counter))"

definition frame_aad :: "sender_binding \<Rightarrow> nat \<Rightarrow> bytes" where
  "frame_aad b counter = binding_context b @ u64_be counter"

section \<open>Keys and frames\<close>

record protected_frame =
  pf_kid :: bytes
  pf_counter :: nat
  pf_ciphertext :: bytes

record verified_frame =
  vf_binding :: sender_binding
  vf_counter :: nat
  vf_plaintext :: bytes

record sframe_key =
  sk_bytes :: bytes
  sk_kid :: bytes
  sk_binding_hash :: bytes

definition sframe_key_derive :: "(bytes \<Rightarrow> bytes) \<Rightarrow> bytes \<Rightarrow> sender_binding \<Rightarrow> media_error + sframe_key" where
  "sframe_key_derive sha256 secret b =
     and_then (verify_derived_kid sha256 b secret) (\<lambda>_.
       Inr \<lparr>sk_bytes = derive_epoch_secret sha256 secret Media (binding_context b), sk_kid = sb_kid b,
            sk_binding_hash = binding_hash sha256 b\<rparr>)"

definition sframe_fingerprint :: "(bytes \<Rightarrow> bytes) \<Rightarrow> sframe_key \<Rightarrow> bytes" where
  "sframe_fingerprint sha256 k =
     sha256 (str_bytes ''discrypt-sframe-key-fingerprint-v1'' @ sk_binding_hash k @ sk_bytes k)"

definition verify_binding :: "(bytes \<Rightarrow> bytes) \<Rightarrow> sframe_key \<Rightarrow> sender_binding \<Rightarrow> media_error + unit" where
  "verify_binding sha256 k b =
     and_then (binding_validate b) (\<lambda>_.
       if sk_kid k = sb_kid b \<and> sk_binding_hash k = binding_hash sha256 b then Inr () else Inl BindingMismatch)"

definition key_protect ::
  "(bytes \<Rightarrow> bytes) \<Rightarrow> aead \<Rightarrow> sframe_key \<Rightarrow> sender_binding \<Rightarrow> nat \<Rightarrow> bytes \<Rightarrow> media_error + protected_frame" where
  "key_protect sha256 ae k b counter plaintext =
     and_then (verify_binding sha256 k b) (\<lambda>_.
       case ae_encrypt ae (sk_bytes k) (nonce_for sha256 (sk_binding_hash k) counter) (frame_aad b counter) plaintext of
         None \<Rightarrow> Inl AuthenticationFailed
       | Some c \<Rightarrow> Inr \<lparr>pf_kid = sb_kid b, pf_counter = counter, pf_ciphertext = c\<rparr>)"

definition key_open :: "(bytes \<Rightarrow> bytes) \<Rightarrow> aead \<Rightarrow> sframe_key \<Rightarrow> sender_binding \<Rightarrow> protected_frame \<Rightarrow> media_error + bytes" where
  "key_open sha256 ae k b frame =
     and_then (verify_binding sha256 k b) (\<lambda>_.
       if pf_kid frame \<noteq> sk_kid k then Inl BindingMismatch
       else ok_or AuthenticationFailed
         (ae_decrypt ae (sk_bytes k) (nonce_for sha256 (sk_binding_hash k) (pf_counter frame))
            (frame_aad b (pf_counter frame)) (pf_ciphertext frame)))"

definition derive_media_key :: "(bytes \<Rightarrow> bytes) \<Rightarrow> bytes \<Rightarrow> sender_binding \<Rightarrow> media_error + sframe_key" where
  "derive_media_key sha256 secret b = sframe_key_derive sha256 secret b"

definition protect_frame ::
  "(bytes \<Rightarrow> bytes) \<Rightarrow> aead \<Rightarrow> sframe_key \<Rightarrow> sender_binding \<Rightarrow> nat \<Rightarrow> bytes \<Rightarrow> media_error + protected_frame" where
  "protect_frame sha256 ae k b counter plaintext = key_protect sha256 ae k b counter plaintext"

section \<open>Sender\<close>

record sframe_sender =
  ss_binding :: sender_binding
  ss_key :: sframe_key
  ss_next_counter :: nat

definition sframe_sender_new :: "(bytes \<Rightarrow> bytes) \<Rightarrow> bytes \<Rightarrow> sender_binding \<Rightarrow> media_error + sframe_sender" where
  "sframe_sender_new sha256 secret b =
     and_then (sframe_key_derive sha256 secret b) (\<lambda>k. Inr \<lparr>ss_binding = b, ss_key = k, ss_next_counter = 0\<rparr>)"

definition sender_new_for_epoch ::
  "(bytes \<Rightarrow> bytes) \<Rightarrow> bytes \<Rightarrow> string \<Rightarrow> nat \<Rightarrow> nat \<Rightarrow> string \<Rightarrow> media_error + sframe_sender" where
  "sender_new_for_epoch sha256 secret gid epoch leaf device_id =
     and_then (derive_for_epoch sha256 secret gid epoch leaf device_id) (sframe_sender_new sha256 secret)"

definition rotate_for_epoch ::
  "(bytes \<Rightarrow> bytes) \<Rightarrow> sframe_sender \<Rightarrow> bytes \<Rightarrow> string \<Rightarrow> nat \<Rightarrow> nat \<Rightarrow> string \<Rightarrow> media_error + sframe_sender" where
  "rotate_for_epoch sha256 s secret gid epoch leaf device_id =
     and_then (derive_for_epoch sha256 secret gid epoch leaf device_id) (\<lambda>b.
       and_then (sframe_key_derive sha256 secret b) (\<lambda>k.
         Inr (s\<lparr>ss_binding := b, ss_key := k, ss_next_counter := 0\<rparr>)))"

definition sender_protect ::
  "(bytes \<Rightarrow> bytes) \<Rightarrow> aead \<Rightarrow> sframe_sender \<Rightarrow> bytes \<Rightarrow> sframe_sender \<times> (media_error + protected_frame)" where
  "sender_protect sha256 ae s plaintext =
     (case key_protect sha256 ae (ss_key s) (ss_binding s) (ss_next_counter s) plaintext of
        Inl e \<Rightarrow> (s, Inl e)
      | Inr frame \<Rightarrow>
          (case checked_add (ss_next_counter s) 1 of
             None \<Rightarrow> (s, Inl CounterOverflow)
           | Some n \<Rightarrow> (s\<lparr>ss_next_counter := n\<rparr>, Inr frame)))"

section \<open>Receiver\<close>

record bound_media_key =
  bk_binding :: sender_binding
  bk_key :: sframe_key

type_synonym media_key_registry = "(bytes, bound_media_key) btreemap"

definition register_sender ::
  "(bytes \<Rightarrow> bytes) \<Rightarrow> media_key_registry \<Rightarrow> bytes \<Rightarrow> sender_binding \<Rightarrow> media_error + media_key_registry" where
  "register_sender sha256 reg secret b =
     (if bt_contains reg (sb_kid b) then Inl DuplicateKid
      else and_then (sframe_key_derive sha256 secret b) (\<lambda>k.
        Inr (bt_insert (sb_kid b) \<lparr>bk_binding = b, bk_key = k\<rparr> reg)))"

definition binding_for_kid :: "media_key_registry \<Rightarrow> bytes \<Rightarrow> sender_binding option" where
  "binding_for_kid reg kid = map_option bk_binding (bt_get reg kid)"

definition registry_open :: "(bytes \<Rightarrow> bytes) \<Rightarrow> aead \<Rightarrow> media_key_registry \<Rightarrow> protected_frame \<Rightarrow> media_error + verified_frame" where
  "registry_open sha256 ae reg frame =
     and_then (ok_or UnknownSender (bt_get reg (pf_kid frame))) (\<lambda>bound.
       and_then (key_open sha256 ae (bk_key bound) (bk_binding bound) frame) (\<lambda>plaintext.
         Inr \<lparr>vf_binding = bk_binding bound, vf_counter = pf_counter frame, vf_plaintext = plaintext\<rparr>))"

record replay_state =
  rs_max_seen :: nat
  rs_seen :: "nat btreeset"

record replay_window =
  rw_window_size :: nat
  rw_seen_by_kid :: "(bytes, replay_state) btreemap"

definition replay_window_new :: "nat \<Rightarrow> replay_window" where
  "replay_window_new window_size = \<lparr>rw_window_size = max window_size 1, rw_seen_by_kid = bt_empty\<rparr>"

definition replay_window_default :: replay_window where
  "replay_window_default = replay_window_new default_replay_window"

definition window_accept :: "replay_window \<Rightarrow> bytes \<Rightarrow> nat \<Rightarrow> replay_window \<times> (media_error + unit)" where
  "window_accept w kid counter =
     (let state = (case bt_get (rw_seen_by_kid w) kid of
                     Some s \<Rightarrow> s
                   | None \<Rightarrow> \<lparr>rs_max_seen = counter, rs_seen = bs_empty\<rparr>);
          w = w\<lparr>rw_seen_by_kid := bt_insert kid state (rw_seen_by_kid w)\<rparr>;
          floor = rs_max_seen state - (rw_window_size w - 1)
      in if counter < floor \<or> bs_member (rs_seen state) counter then (w, Inl MediaReplay)
         else
           let max_seen = (if counter > rs_max_seen state then counter else rs_max_seen state);
               new_floor = max_seen - (rw_window_size w - 1);
               seen = bs_insert counter (bs_filter (\<lambda>s. s \<ge> new_floor) (rs_seen state))
           in (w\<lparr>rw_seen_by_kid := bt_insert kid \<lparr>rs_max_seen = max_seen, rs_seen = seen\<rparr> (rw_seen_by_kid w)\<rparr>, Inr ()))"

record sframe_receiver =
  sr_registry :: media_key_registry
  sr_replay :: replay_window

definition sframe_receiver_new :: "media_key_registry \<Rightarrow> replay_window \<Rightarrow> sframe_receiver" where
  "sframe_receiver_new reg replay = \<lparr>sr_registry = reg, sr_replay = replay\<rparr>"

definition receiver_open ::
  "(bytes \<Rightarrow> bytes) \<Rightarrow> aead \<Rightarrow> sframe_receiver \<Rightarrow> protected_frame \<Rightarrow> sframe_receiver \<times> (media_error + verified_frame)" where
  "receiver_open sha256 ae r frame =
     (case registry_open sha256 ae (sr_registry r) frame of
        Inl e \<Rightarrow> (r, Inl e)
      | Inr verified \<Rightarrow>
          (case window_accept (sr_replay r) (pf_kid frame) (pf_counter frame) of
             (w, Inl e) \<Rightarrow> (r\<lparr>sr_replay := w\<rparr>, Inl e)
           | (w, Inr _) \<Rightarrow> (r\<lparr>sr_replay := w\<rparr>, Inr verified)))"

section \<open>The replay window is a replay guard\<close>

definition media_view :: "replay_window \<Rightarrow> bytes \<Rightarrow> window_view option" where
  "media_view w kid = map_option (\<lambda>s. (rs_max_seen s, rs_seen s)) (bt_get (rw_seen_by_kid w) kid)"

definition media_step :: "replay_window \<Rightarrow> bytes \<Rightarrow> nat \<Rightarrow> replay_window \<times> bool" where
  "media_step w kid counter = (case window_accept w kid counter of (w', r) \<Rightarrow> (w', is_ok r))"

lemmas media_step_unfold = media_step_def window_accept_def media_view_def Let_def window_floor_def

interpretation media: replay_guard rw_window_size media_view media_step
proof
  fix t k n k' hi seen
  show "rw_window_size (fst (media_step t k n)) = rw_window_size t"
    by (auto simp: media_step_unfold)
  show "k' \<noteq> k \<Longrightarrow> media_view (fst (media_step t k n)) k' = media_view t k'"
    by (auto simp: media_step_unfold)
  show "media_view t k = None \<Longrightarrow> snd (media_step t k n) \<and>
          media_view (fst (media_step t k n)) k = Some (n, bs_insert n bs_empty)"
    by (auto simp: media_step_unfold intro!: bs_eqI)
  assume v: "media_view t k = Some (hi, seen)"
  show "snd (media_step t k n) \<longleftrightarrow> window_floor (rw_window_size t) hi \<le> n \<and> \<not> bs_member seen n"
    using v by (auto simp: media_step_unfold)
  show "snd (media_step t k n) \<Longrightarrow> media_view (fst (media_step t k n)) k =
          Some (max hi n, bs_insert n (bs_filter (\<lambda>s. window_floor (rw_window_size t) (max hi n) \<le> s) seen))"
    using v by (auto simp: media_step_unfold max_def)
  show "\<not> snd (media_step t k n) \<Longrightarrow> media_view (fst (media_step t k n)) k = Some (hi, seen)"
    using v by (auto simp: media_step_unfold)
qed

lemma media_new_tracks: "media.tracks {} (replay_window_new w)"
  by (rule media.tracks_fresh) (simp add: media_view_def replay_window_new_def)

section \<open>Receiving\<close>

fun receive_all ::
  "(bytes \<Rightarrow> bytes) \<Rightarrow> aead \<Rightarrow> sframe_receiver \<Rightarrow> protected_frame list \<Rightarrow> sframe_receiver \<times> (media_error + verified_frame) list" where
  "receive_all sha256 ae r [] = (r, [])"
| "receive_all sha256 ae r (f # fs) =
     (case receiver_open sha256 ae r f of (r1, res) \<Rightarrow> (case receive_all sha256 ae r1 fs of (r2, rs) \<Rightarrow> (r2, res # rs)))"

definition frame_id :: "protected_frame \<Rightarrow> bytes \<times> nat" where
  "frame_id f = (pf_kid f, pf_counter f)"

lemma receiver_open_registry [simp]: "sr_registry (fst (receiver_open sha256 ae r f)) = sr_registry r"
  by (simp add: receiver_open_def split: sum.split prod.split)

text \<open>
  One call in terms of the guard: an unauthenticated frame changes nothing, an authenticated one is
  offered to the window, which decides as the full history would.
\<close>

lemma receiver_open_fail:
  "registry_open sha256 ae (sr_registry r) f = Inl e \<Longrightarrow> receiver_open sha256 ae r f = (r, Inl e)"
  by (simp add: receiver_open_def)

lemma receiver_open_step:
  assumes v: "registry_open sha256 ae (sr_registry r) f = Inr v" and t: "media.tracks hist (sr_replay r)"
  shows "if replay_spec (rw_window_size (sr_replay r)) hist (pf_kid f) (pf_counter f)
    then snd (receiver_open sha256 ae r f) = Inr v \<and>
      media.tracks (insert (frame_id f) hist) (sr_replay (fst (receiver_open sha256 ae r f)))
    else snd (receiver_open sha256 ae r f) = Inl MediaReplay \<and>
      media.tracks hist (sr_replay (fst (receiver_open sha256 ae r f)))"
proof -
  obtain w res where acc: "window_accept (sr_replay r) (pf_kid f) (pf_counter f) = (w, res)" by fastforce
  then have step: "media_step (sr_replay r) (pf_kid f) (pf_counter f) = (w, is_ok res)" by (simp add: media_step_def)
  have err: "res = Inl MediaReplay" if "\<not> is_ok res"
    using acc that by (auto simp: window_accept_def Let_def split: if_splits)
  note dec = media.admitted_iff_spec[OF t, of "pf_kid f" "pf_counter f", unfolded step snd_conv]
  show ?thesis
  proof (cases "is_ok res")
    case True
    with media.tracks_step_admit[OF t, of "pf_kid f" "pf_counter f"] step acc v dec show ?thesis
      by (auto simp: receiver_open_def frame_id_def is_ok_iff)
  next
    case False
    with media.tracks_step_refuse[OF t, of "pf_kid f" "pf_counter f"] step acc v dec err show ?thesis
      by (auto simp: receiver_open_def)
  qed
qed

lemma receiver_open_window: "rw_window_size (sr_replay (fst (receiver_open sha256 ae r f))) = rw_window_size (sr_replay r)"
proof (cases "registry_open sha256 ae (sr_registry r) f")
  case (Inr v)
  have "rw_window_size (fst (window_accept (sr_replay r) (pf_kid f) (pf_counter f))) = rw_window_size (sr_replay r)"
    by (simp add: window_accept_def Let_def)
  with Inr show ?thesis by (auto simp: receiver_open_def split: prod.split sum.split)
qed (simp add: receiver_open_fail)

text \<open>The results that the specification prescribes: a memory of every frame accepted so far.\<close>

fun receive_spec :: "nat \<Rightarrow> (protected_frame \<Rightarrow> media_error + verified_frame) \<Rightarrow> (bytes \<times> nat) set \<Rightarrow> protected_frame list
    \<Rightarrow> (media_error + verified_frame) list" where
  "receive_spec w auth hist [] = []"
| "receive_spec w auth hist (f # fs) =
     (case auth f of
        Inl e \<Rightarrow> Inl e # receive_spec w auth hist fs
      | Inr v \<Rightarrow>
          if replay_spec w hist (pf_kid f) (pf_counter f)
          then Inr v # receive_spec w auth (insert (frame_id f) hist) fs
          else Inl MediaReplay # receive_spec w auth hist fs)"

lemma receive_all_spec:
  "media.tracks hist (sr_replay r) \<Longrightarrow>
     snd (receive_all sha256 ae r fs) =
       receive_spec (rw_window_size (sr_replay r)) (registry_open sha256 ae (sr_registry r)) hist fs"
proof (induction fs arbitrary: r hist)
  case (Cons f fs)
  obtain r1 res where open': "receiver_open sha256 ae r f = (r1, res)" by fastforce
  have reg: "sr_registry r1 = sr_registry r" using receiver_open_registry[of sha256 ae r f] open' by simp
  have win: "rw_window_size (sr_replay r1) = rw_window_size (sr_replay r)" using receiver_open_window[of sha256 ae r f] open' by simp
  have unf: "snd (receive_all sha256 ae r (f # fs)) = res # snd (receive_all sha256 ae r1 fs)"
    by (simp add: open' split: prod.split)
  show ?case
  proof (cases "registry_open sha256 ae (sr_registry r) f")
    case (Inl e)
    with open' have "r1 = r" "res = Inl e" by (simp_all add: receiver_open_fail)
    with Inl Cons show ?thesis by (simp only: unf) simp
  next
    case (Inr v)
    note step = receiver_open_step[OF Inr Cons.prems, unfolded open' fst_conv snd_conv]
    show ?thesis
    proof (cases "replay_spec (rw_window_size (sr_replay r)) hist (pf_kid f) (pf_counter f)")
      case True
      with step Cons.IH[of "insert (frame_id f) hist" r1] Inr show ?thesis by (simp add: unf reg win del: receive_all.simps)
    next
      case False
      with step Cons.IH[of hist r1] Inr show ?thesis by (simp add: unf reg win del: receive_all.simps)
    qed
  qed
qed simp

text \<open>
  C13: A receiver answers every sequence of frames, forged, duplicated and reordered ones included, as
  one that remembers all accepted frames forever: a frame that fails authentication is refused and
  leaves no trace, and an authentic frame is accepted exactly if its sender and counter were not
  accepted before and the counter is not below the window.
\<close>

theorem receiver_refines_history:
  "snd (receive_all sha256 ae (sframe_receiver_new reg (replay_window_new w)) fs) =
     receive_spec (max w 1) (registry_open sha256 ae reg) {} fs"
  using receive_all_spec[of "{}" "sframe_receiver_new reg (replay_window_new w)" sha256 ae fs] media_new_tracks[of w]
  by (simp add: sframe_receiver_new_def) (simp add: replay_window_new_def)

section \<open>Authenticity\<close>

text \<open>The registries that registrations build.\<close>

inductive registered :: "(bytes \<Rightarrow> bytes) \<Rightarrow> (bytes \<times> sender_binding) list \<Rightarrow> media_key_registry \<Rightarrow> bool" for sha256 where
  registered_none: "registered sha256 [] bt_empty"
| registered_add: "registered sha256 regs reg \<Longrightarrow> register_sender sha256 reg secret b = Inr reg' \<Longrightarrow>
     registered sha256 ((secret, b) # regs) reg'"

lemma registered_lookup:
  "registered sha256 regs reg \<Longrightarrow> bt_get reg kid = Some bound \<Longrightarrow>
     \<exists>secret. (secret, bk_binding bound) \<in> set regs \<and> kid = sb_kid (bk_binding bound) \<and>
       sframe_key_derive sha256 secret (bk_binding bound) = Inr (bk_key bound)"
proof (induction arbitrary: kid bound rule: registered.induct)
  case (registered_add regs reg secret b reg')
  from registered_add(2) obtain k where k: "sframe_key_derive sha256 secret b = Inr k"
    and reg': "reg' = bt_insert (sb_kid b) \<lparr>bk_binding = b, bk_key = k\<rparr> reg"
    by (auto simp: register_sender_def and_then_Inr split: if_splits)
  show ?case
  proof (cases "kid = sb_kid b")
    case True
    with registered_add(4) have "bound = \<lparr>bk_binding = b, bk_key = k\<rparr>" by (simp add: reg')
    with k True show ?thesis by auto
  next
    case False
    with registered_add(4) have "bt_get reg kid = Some bound" by (simp add: reg')
    from registered_add(3)[OF this] show ?thesis by auto
  qed
qed simp

lemma key_protect_id:
  "key_protect sha256 ae k b counter p = Inr f \<Longrightarrow> pf_kid f = sb_kid b \<and> pf_counter f = counter"
  by (auto simp: key_protect_def and_then_Inr split: option.splits)

lemma key_open_protect:
  assumes "aead_correct ae"
  shows "key_open sha256 ae k b f = Inr p \<longleftrightarrow> key_protect sha256 ae k b (pf_counter f) p = Inr f"
proof (cases "verify_binding sha256 k b")
  case (Inr u)
  then have "sk_kid k = sb_kid b" by (auto simp: verify_binding_def and_then_Inr split: if_splits)
  moreover have "ae_decrypt ae key n a c = Some m \<longleftrightarrow> ae_encrypt ae key n a m = Some c" for key n a c m
    using assms by (simp add: aead_correct_def)
  ultimately show ?thesis
    using Inr by (cases f) (auto simp: key_open_def key_protect_def split: option.splits)
qed (simp add: key_open_def key_protect_def)

text \<open>
  C33: Every frame that a receiver opens, after whatever traffic, was protected with the media key of a
  registered sender: it is exactly the frame which the key derived from that sender's epoch secret and
  binding produces for the counter in the header and the plaintext that is returned, and the reported
  binding is that sender's.
\<close>

theorem opened_frame_authentic:
  assumes "aead_correct ae" and "registered sha256 regs reg"
    and "receive_all sha256 ae (sframe_receiver_new reg (replay_window_new w)) fs = (r, results)"
    and "receiver_open sha256 ae r f = (r', Inr v)"
  shows "\<exists>secret k. (secret, vf_binding v) \<in> set regs \<and> sframe_key_derive sha256 secret (vf_binding v) = Inr k \<and>
    protect_frame sha256 ae k (vf_binding v) (vf_counter v) (vf_plaintext v) = Inr f \<and>
    pf_kid f = sb_kid (vf_binding v) \<and> pf_counter f = vf_counter v"
proof -
  have "sr_registry (fst (receive_all sha256 ae r0 fs)) = sr_registry r0" for r0
  proof (induction fs arbitrary: r0)
    case (Cons f fs)
    obtain r1 res where 1: "receiver_open sha256 ae r0 f = (r1, res)" by fastforce
    have "sr_registry r1 = sr_registry r0" using receiver_open_registry[of sha256 ae r0 f] 1 by simp
    with Cons[of r1] show ?case by (auto simp: 1 split: prod.splits)
  qed simp
  from this[of "sframe_receiver_new reg (replay_window_new w)"] assms(3) have reg: "sr_registry r = reg"
    by (simp add: sframe_receiver_new_def)
  from assms(4) have "registry_open sha256 ae reg f = Inr v"
    by (auto simp: receiver_open_def reg split: sum.splits prod.splits)
  then obtain bound where b: "bt_get reg (pf_kid f) = Some bound" and v: "vf_binding v = bk_binding bound" "vf_counter v = pf_counter f"
    and o: "key_open sha256 ae (bk_key bound) (bk_binding bound) f = Inr (vf_plaintext v)"
    by (auto simp: registry_open_def and_then_Inr)
  from registered_lookup[OF assms(2) b] o v show ?thesis
    by (auto simp: protect_frame_def key_open_protect[OF assms(1)])
qed

section \<open>From sender to receiver\<close>

fun protect_all ::
  "(bytes \<Rightarrow> bytes) \<Rightarrow> aead \<Rightarrow> sframe_sender \<Rightarrow> bytes list \<Rightarrow> sframe_sender \<times> (media_error + protected_frame) list" where
  "protect_all sha256 ae s [] = (s, [])"
| "protect_all sha256 ae s (p # ps) =
     (case sender_protect sha256 ae s p of (s1, res) \<Rightarrow> (case protect_all sha256 ae s1 ps of (s2, rs) \<Rightarrow> (s2, res # rs)))"

lemma protect_all_frames:
  "snd (protect_all sha256 ae s ps) = map Inr frames \<Longrightarrow> length frames = length ps \<and>
     (\<forall>i < length ps. key_protect sha256 ae (ss_key s) (ss_binding s) (ss_next_counter s + i) (ps ! i) = Inr (frames ! i))"
proof (induction ps arbitrary: s frames)
  case (Cons p ps)
  obtain s1 res where 1: "sender_protect sha256 ae s p = (s1, res)" by fastforce
  obtain s2 rs where 2: "protect_all sha256 ae s1 ps = (s2, rs)" by fastforce
  from Cons.prems 1 2 obtain f fs where fs: "frames = f # fs" and f: "res = Inr f" and rs: "rs = map Inr fs" by (cases frames) auto
  from 1 f have kp: "key_protect sha256 ae (ss_key s) (ss_binding s) (ss_next_counter s) p = Inr f"
    and s1: "s1 = s\<lparr>ss_next_counter := ss_next_counter s + 1\<rparr>"
    by (auto simp: sender_protect_def checked_add_Some split: sum.splits option.splits)
  from Cons.IH[of s1 fs] 2 rs have IH: "length fs = length ps"
    "\<And>i. i < length ps \<Longrightarrow> key_protect sha256 ae (ss_key s) (ss_binding s) (Suc (ss_next_counter s + i)) (ps ! i) = Inr (fs ! i)"
    by (simp_all add: s1)
  show ?case
  proof (intro conjI allI impI)
    fix i
    assume "i < length (p # ps)"
    then show "key_protect sha256 ae (ss_key s) (ss_binding s) (ss_next_counter s + i) ((p # ps) ! i) = Inr (frames ! i)"
      using kp IH(2)[of "i - 1"] by (cases i) (simp_all add: fs)
  qed (simp add: fs IH(1))
qed simp

fun delivery_spec :: "nat \<Rightarrow> sender_binding \<Rightarrow> bytes list \<Rightarrow> nat set \<Rightarrow> nat list \<Rightarrow> (media_error + verified_frame) list" where
  "delivery_spec w b ps seen [] = []"
| "delivery_spec w b ps seen (i # is) =
     (if i \<notin> seen \<and> (\<forall>m \<in> seen. window_floor w m \<le> i)
      then Inr \<lparr>vf_binding = b, vf_counter = i, vf_plaintext = ps ! i\<rparr> # delivery_spec w b ps (insert i seen) is
      else Inl MediaReplay # delivery_spec w b ps seen is)"

lemma receive_delivery_spec:
  assumes "\<And>i. i \<in> set is \<Longrightarrow> pf_kid (fs ! i) = kid \<and> pf_counter (fs ! i) = i \<and>
      auth (fs ! i) = Inr \<lparr>vf_binding = b, vf_counter = i, vf_plaintext = ps ! i\<rparr>"
  shows "receive_spec w auth (Pair kid ` seen) (map (\<lambda>i. fs ! i) is) = delivery_spec w b ps seen is"
  using assms
proof (induction "is" arbitrary: seen)
  case (Cons i "is")
  have spec: "replay_spec w (Pair kid ` seen) kid i \<longleftrightarrow> i \<notin> seen \<and> (\<forall>m \<in> seen. window_floor w m \<le> i)"
    by (auto simp: replay_spec_def)
  have IH: "receive_spec w auth (Pair kid ` seen) (map (\<lambda>i. fs ! i) is) = delivery_spec w b ps seen is" for seen
    by (rule Cons.IH) (rule Cons.prems, simp)
  have i: "pf_kid (fs ! i) = kid" "pf_counter (fs ! i) = i" "auth (fs ! i) = Inr \<lparr>vf_binding = b, vf_counter = i, vf_plaintext = ps ! i\<rparr>"
    using Cons.prems[of i] by simp_all
  show ?case
    using IH[of seen] IH[of "insert i seen"] by (simp add: i spec frame_id_def)
qed simp

text \<open>
  C3: End to end. Whatever a sender protects, a receiver that registered the sender's binding opens,
  under every delivery schedule with losses, duplicates and reordering: each frame is delivered with its
  own plaintext and the sender's binding the first time it arrives inside the window, and is refused as
  a replay otherwise.
\<close>

theorem media_end_to_end:
  assumes "aead_correct ae"
    and "sframe_sender_new sha256 secret b = Inr s"
    and "snd (protect_all sha256 ae s plaintexts) = map Inr frames"
    and "register_sender sha256 reg secret b = Inr reg'"
    and "set schedule \<subseteq> {..<length plaintexts}"
  shows "snd (receive_all sha256 ae (sframe_receiver_new reg' (replay_window_new w)) (map (\<lambda>i. frames ! i) schedule)) =
    delivery_spec (max w 1) b plaintexts {} schedule"
proof -
  from assms(2) obtain k where k: "sframe_key_derive sha256 secret b = Inr k" and s: "s = \<lparr>ss_binding = b, ss_key = k, ss_next_counter = 0\<rparr>"
    by (auto simp: sframe_sender_new_def and_then_Inr)
  have reg': "bt_get reg' (sb_kid b) = Some \<lparr>bk_binding = b, bk_key = k\<rparr>"
    using assms(4) k by (auto simp: register_sender_def split: if_splits)
  have kp: "key_protect sha256 ae k b i (plaintexts ! i) = Inr (frames ! i)" if "i < length plaintexts" for i
    using protect_all_frames[OF assms(3)] that by (simp add: s)
  have "pf_kid (frames ! i) = sb_kid b \<and> pf_counter (frames ! i) = i \<and>
      registry_open sha256 ae reg' (frames ! i) = Inr \<lparr>vf_binding = b, vf_counter = i, vf_plaintext = plaintexts ! i\<rparr>"
    if "i \<in> set schedule" for i
  proof -
    from that assms(5) have "i < length plaintexts" by auto
    note p = kp[OF this]
    then have id: "pf_kid (frames ! i) = sb_kid b" "pf_counter (frames ! i) = i"
      by (auto dest: key_protect_id)
    with p have "key_open sha256 ae k b (frames ! i) = Inr (plaintexts ! i)" by (simp add: key_open_protect[OF assms(1)])
    with id show ?thesis by (simp add: registry_open_def reg')
  qed
  from receive_delivery_spec[where seen = "{}", OF this]
    receive_all_spec[of "{}" "sframe_receiver_new reg' (replay_window_new w)" sha256 ae "map (\<lambda>i. frames ! i) schedule"] media_new_tracks[of w]
  show ?thesis by (simp add: sframe_receiver_new_def) (simp add: replay_window_new_def)
qed

section \<open>Keys and key ids\<close>

definition binding_in_range :: "sender_binding \<Rightarrow> bool" where
  "binding_in_range b \<longleftrightarrow> length (sb_kid b) < 2 ^ 64 \<and> length (sb_group_id b) < 2 ^ 64 \<and> sb_epoch b < 2 ^ 64 \<and>
     sb_leaf_index b < 2 ^ 32 \<and> length (sb_device_id b) < 2 ^ 64 \<and> length (binding_context b) < 2 ^ 64"

lemma binding_context_inj:
  assumes "binding_context b = binding_context c" and "binding_in_range b" "binding_in_range c"
  shows "b = c"
proof -
  let ?t3 = "\<lambda>b. lp_be (str_bytes (sb_device_id b))"
  let ?t2 = "\<lambda>b. u32_be (sb_leaf_index b) @ ?t3 b"
  let ?t1 = "\<lambda>b. u64_be (sb_epoch b) @ ?t2 b"
  from assms have 1: "sb_kid b = sb_kid c \<and> lp_be (str_bytes (sb_group_id b)) @ ?t1 b = lp_be (str_bytes (sb_group_id c)) @ ?t1 c"
    by (intro lp_be_append_inj) (simp_all add: binding_context_def binding_in_range_def lp_be_def)
  with assms have 2: "str_bytes (sb_group_id b) = str_bytes (sb_group_id c) \<and> ?t1 b = ?t1 c"
    by (intro lp_be_append_inj) (simp_all add: binding_in_range_def)
  with assms have 3: "sb_epoch b = sb_epoch c \<and> ?t2 b = ?t2 c"
    by (intro be_append_inj[where k = 8]) (simp_all add: binding_in_range_def)
  with assms have 4: "sb_leaf_index b = sb_leaf_index c \<and> ?t3 b = ?t3 c"
    by (intro be_append_inj[where k = 4]) (simp_all add: binding_in_range_def)
  with assms have "str_bytes (sb_device_id b) = str_bytes (sb_device_id c) \<and> ([] :: bytes) = []"
    by (intro lp_be_append_inj) (simp_all add: binding_in_range_def)
  with 1 2 3 4 show ?thesis by simp
qed

text \<open>
  Two senders have the same media key only if they have the same binding (key id, group,
  epoch, leaf and device) and the same epoch secret, or the digest collides on exactly the two inputs of the derivation.
\<close>

theorem media_keys_separated:
  assumes "sframe_key_derive sha256 secret b = Inr k" and "sframe_key_derive sha256 secret' c = Inr k'"
    and "sk_bytes k = sk_bytes k'" and "binding_in_range b" "binding_in_range c"
  shows "b = c \<and> secret = secret' \<or>
    collision sha256 (exporter_preimage secret Media (binding_context b)) (exporter_preimage secret' Media (binding_context c))"
proof -
  from assms(1-3) have eq: "sha256 (exporter_preimage secret Media (binding_context b)) =
      sha256 (exporter_preimage secret' Media (binding_context c))"
    by (auto simp: sframe_key_derive_def and_then_Inr derive_epoch_secret_def)
  show ?thesis
    using eq exporter_preimage_inj[of secret Media "binding_context b" secret' Media "binding_context c"]
      binding_context_inj[of b c] assms(4,5)
    by (auto simp: collision_def binding_in_range_def)
qed

section \<open>Witnesses\<close>

definition demo_binding :: "nat \<Rightarrow> sender_binding" where
  "demo_binding leaf = (let b = \<lparr>sb_kid = [], sb_group_id = ''g'', sb_epoch = 3, sb_leaf_index = leaf, sb_device_id = ''d''\<rparr>
     in b\<lparr>sb_kid := derived_kid sha_demo b [7]\<rparr>)"

lemma demo_binding_key: "\<exists>k. sframe_key_derive sha_demo [7] (demo_binding leaf) = Inr k"
proof -
  have blank: "\<not> blank ''g''" "\<not> blank ''d''" by code_simp+
  have "length (derived_kid sha_demo b [7]) = 16" for b by (simp add: derived_kid_def)
  then have ne: "derived_kid sha_demo b [7] \<noteq> []" for b by (metis length_0_conv zero_neq_numeral)
  then show ?thesis
    using blank
    by (simp add: demo_binding_def sframe_key_derive_def verify_derived_kid_def binding_validate_def validate_without_kid_def Let_def)
       (simp add: derived_kid_def kid_preimage_def)
qed

definition demo_key :: sframe_key where
  "demo_key = \<lparr>sk_bytes = derive_epoch_secret sha_demo [7] Media (binding_context (demo_binding 5)), sk_kid = sb_kid (demo_binding 5),
     sk_binding_hash = binding_hash sha_demo (demo_binding 5)\<rparr>"

lemma demo_key: "sframe_key_derive sha_demo [7] (demo_binding 5) = Inr demo_key"
  using demo_binding_key[of 5] by (auto simp: sframe_key_derive_def and_then_Inr demo_key_def)

lemma demo_binding_in_range: "leaf < 2 ^ 32 \<Longrightarrow> binding_in_range (demo_binding leaf)"
  by (simp add: binding_in_range_def demo_binding_def derived_kid_def binding_context_def Let_def)

definition demo_frame :: "nat \<Rightarrow> bytes \<Rightarrow> protected_frame" where
  "demo_frame i p = \<lparr>pf_kid = sb_kid (demo_binding 5), pf_counter = i,
     pf_ciphertext = nonce_for sha_demo (sk_binding_hash demo_key) i @ frame_aad (demo_binding 5) i @ p\<rparr>"

lemma demo_protect: "key_protect sha_demo aead_demo demo_key (demo_binding 5) i p = Inr (demo_frame i p)"
proof -
  have "binding_validate (demo_binding 5) = Inr ()"
    using demo_key by (auto simp: sframe_key_derive_def verify_derived_kid_def and_then_Inr)
  then have "verify_binding sha_demo demo_key (demo_binding 5) = Inr ()"
    by (simp add: verify_binding_def demo_key_def)
  then show ?thesis by (simp add: key_protect_def aead_demo_def demo_frame_def)
qed

definition demo_registry :: media_key_registry where
  "demo_registry = bt_insert (sb_kid (demo_binding 5)) \<lparr>bk_binding = demo_binding 5, bk_key = demo_key\<rparr> bt_empty"

lemma demo_register: "register_sender sha_demo bt_empty [7] (demo_binding 5) = Inr demo_registry"
  by (simp add: register_sender_def demo_key demo_registry_def)

theorem media_end_to_end_witness:
  "snd (receive_all sha_demo aead_demo (sframe_receiver_new demo_registry (replay_window_new 4))
     [demo_frame 1 [20], demo_frame 0 [10], demo_frame 1 [20]]) =
   [Inr \<lparr>vf_binding = demo_binding 5, vf_counter = 1, vf_plaintext = [20]\<rparr>,
    Inr \<lparr>vf_binding = demo_binding 5, vf_counter = 0, vf_plaintext = [10]\<rparr>, Inl MediaReplay]"
proof -
  let ?s = "\<lparr>ss_binding = demo_binding 5, ss_key = demo_key, ss_next_counter = 0\<rparr>"
  have s: "sframe_sender_new sha_demo [7] (demo_binding 5) = Inr ?s" by (simp add: sframe_sender_new_def demo_key)
  have f: "snd (protect_all sha_demo aead_demo ?s [[10], [20]]) = map Inr [demo_frame 0 [10], demo_frame 1 [20]]"
    by (simp add: sender_protect_def demo_protect checked_add_def u64_max_def)
  from media_end_to_end[OF aead_demo_correct s f demo_register, of "[1, 0, 1]" 4] show ?thesis
    by (simp add: window_floor_def)
qed

theorem opened_frame_authentic_witness:
  "\<exists>secret k. (secret, demo_binding 5) \<in> set [([7], demo_binding 5)] \<and> sframe_key_derive sha_demo secret (demo_binding 5) = Inr k \<and>
     protect_frame sha_demo aead_demo k (demo_binding 5) 5 [20] = Inr (demo_frame 5 [20])"
proof -
  have reg: "registered sha_demo [([7], demo_binding 5)] demo_registry"
    by (rule registered_add[OF registered_none demo_register])
  let ?r = "sframe_receiver_new demo_registry (replay_window_new 4)"
  have "key_open sha_demo aead_demo demo_key (demo_binding 5) (demo_frame 5 [20]) = Inr [20]"
    unfolding key_open_protect[OF aead_demo_correct] using demo_protect by (simp add: demo_frame_def)
  then have "registry_open sha_demo aead_demo demo_registry (demo_frame 5 [20]) =
      Inr \<lparr>vf_binding = demo_binding 5, vf_counter = 5, vf_plaintext = [20]\<rparr>"
    by (simp add: registry_open_def demo_registry_def demo_frame_def)
  then have "\<exists>r'. receiver_open sha_demo aead_demo ?r (demo_frame 5 [20]) =
      (r', Inr \<lparr>vf_binding = demo_binding 5, vf_counter = 5, vf_plaintext = [20]\<rparr>)"
    by (simp add: receiver_open_def sframe_receiver_new_def window_accept_def replay_window_new_def Let_def)
  then obtain r' where open': "receiver_open sha_demo aead_demo ?r (demo_frame 5 [20]) =
      (r', Inr \<lparr>vf_binding = demo_binding 5, vf_counter = 5, vf_plaintext = [20]\<rparr>)" by blast
  have "receive_all sha_demo aead_demo ?r [] = (?r, [])" by simp
  from opened_frame_authentic[OF aead_demo_correct reg this open'] show ?thesis by auto
qed

theorem media_keys_separated_witness:
  "collision sha_demo (exporter_preimage [7] Media (binding_context (demo_binding 5))) (exporter_preimage [7] Media (binding_context (demo_binding 2)))"
proof -
  obtain k where k: "sframe_key_derive sha_demo [7] (demo_binding 2) = Inr k" using demo_binding_key by blast
  have "sha_demo (exporter_preimage [7] Media ctx) = take 32 (str_bytes ''discrypt-exporter-v1'' @ str_bytes (export_label_str Media))" for ctx
    by (simp add: sha_demo_def exporter_preimage_def export_label_str_def)
  then have "sk_bytes demo_key = sk_bytes k"
    using k by (auto simp: demo_key_def sframe_key_derive_def and_then_Inr derive_epoch_secret_def)
  moreover have "demo_binding 5 \<noteq> demo_binding 2" by (simp add: demo_binding_def Let_def)
  ultimately show ?thesis
    using media_keys_separated[OF demo_key k] demo_binding_in_range[of 5] demo_binding_in_range[of 2] by simp
qed

end
