(* ===== verification/Delivery.thy ===== *)
theory Delivery
  imports Crypto_Params BTree_Map
begin

text \<open>
  Ordered delivery around MLS state (\<open>crates/mls-delivery/src/lib.rs\<close>): epoch summaries and fork
  detection, the canonical order of events and commits, the delivery state with its commits and repair plans,
  welcome packages and catch-up bundles. SHA-256 is the parameter \<open>sha256\<close>. Both canonical orders discharge the
  \<open>canonical_order\<close> contract. Shown: accepted commits form a chain of consecutive epochs, two members that
  diverged agree on the repair whatever they saw first, and repair leads them to the same state.
\<close>

section \<open>Errors and summaries\<close>

datatype delivery_error =
    DivergentTree nat
  | DowngradeOrReplay nat
  | WelcomeExpired
  | DivergentCommitReplay
  | StaleRepairTarget (repair_local: nat) (repair_target: nat)
  | InvalidTextMessageEnvelope string
  | TextMessageSignatureVerificationFailed
  | InvalidTextDeliveryReceipt string
  | TextDeliveryReceiptSignatureVerificationFailed
  | TextMessageEncryptionFailed
  | TextOutboundRouteNotCiphertextOnly
  | TextOutboundAdapter string
  | TextSendRateLimited string
  | TextReceiveUnauthorizedSender nat
  | TextReceiveReplay (replay_sender_leaf: nat) (replay_sequence: nat)
  | TextReceiveDowngrade (downgrade_current: nat) (downgrade_envelope: nat)
  | TextReceiveFork (fork_current: nat) (fork_envelope: nat)
  | TextMessageDecryptionFailed
  | TextHistoryDivergence string

text \<open>The \<open>Display\<close> texts of the errors.\<close>

definition delivery_error_str :: "delivery_error \<Rightarrow> string" where
  "delivery_error_str e =
     (case e of
        DivergentTree n \<Rightarrow> ''divergent tree hash at epoch '' @ nat_str n
      | DowngradeOrReplay n \<Rightarrow> ''downgrade or replay at epoch '' @ nat_str n
      | WelcomeExpired \<Rightarrow> ''welcome expired''
      | DivergentCommitReplay \<Rightarrow> ''repair attempted to replay divergent MLS commits''
      | StaleRepairTarget l t \<Rightarrow> ''repair target epoch '' @ nat_str t @ '' is older than local epoch '' @ nat_str l
      | InvalidTextMessageEnvelope s \<Rightarrow> ''invalid text message envelope: '' @ s
      | TextMessageSignatureVerificationFailed \<Rightarrow> ''text message envelope signature verification failed''
      | InvalidTextDeliveryReceipt s \<Rightarrow> ''invalid text delivery receipt: '' @ s
      | TextDeliveryReceiptSignatureVerificationFailed \<Rightarrow> ''text delivery receipt signature verification failed''
      | TextMessageEncryptionFailed \<Rightarrow> ''text message encryption failed''
      | TextOutboundRouteNotCiphertextOnly \<Rightarrow> ''text outbound route is not ciphertext-only''
      | TextOutboundAdapter s \<Rightarrow> ''text outbound adapter failed: '' @ s
      | TextSendRateLimited s \<Rightarrow> ''text send rate-limited for '' @ s
      | TextReceiveUnauthorizedSender n \<Rightarrow> ''text receive sender leaf '' @ nat_str n @ '' is not a member of the current epoch''
      | TextReceiveReplay l n \<Rightarrow> ''text receive replay for sender '' @ nat_str l @ '' sequence '' @ nat_str n
      | TextReceiveDowngrade c v \<Rightarrow> ''text receive downgrade from current epoch '' @ nat_str c @ '' to '' @ nat_str v
      | TextReceiveFork c v \<Rightarrow> ''text receive fork from current epoch '' @ nat_str c @ '' to '' @ nat_str v
      | TextMessageDecryptionFailed \<Rightarrow> ''text message decryption failed''
      | TextHistoryDivergence s \<Rightarrow> ''text history divergence requires repair: '' @ s)"

record epoch_summary =
  es_epoch :: nat
  es_tree_hash :: bytes
  es_confirmation_tag :: bytes

text \<open>The derived order of \<open>EpochSummary\<close> is that of its fields.\<close>

definition summary_key :: "epoch_summary \<Rightarrow> nat \<times> bytes \<times> bytes" where
  "summary_key s = (es_epoch s, es_tree_hash s, es_confirmation_tag s)"

definition needs_repair :: "epoch_summary \<Rightarrow> epoch_summary \<Rightarrow> bool" where
  "needs_repair l r \<longleftrightarrow>
     es_epoch l = es_epoch r \<and> (es_tree_hash l \<noteq> es_tree_hash r \<or> es_confirmation_tag l \<noteq> es_confirmation_tag r)"

record fork_evidence =
  fe_local :: epoch_summary
  fe_remote :: epoch_summary

datatype fork_status =
    InSync
  | NeedsCatchUp nat
  | ForkDowngradeOrReplay nat
  | Diverged fork_evidence

definition detect_fork_or_replay :: "epoch_summary \<Rightarrow> epoch_summary \<Rightarrow> fork_status" where
  "detect_fork_or_replay l r =
     (case cmp_lin (es_epoch r) (es_epoch l) of
        Greater \<Rightarrow> NeedsCatchUp (es_epoch r)
      | Less \<Rightarrow> ForkDowngradeOrReplay (es_epoch r)
      | Equal \<Rightarrow> if needs_repair l r then Diverged \<lparr>fe_local = l, fe_remote = r\<rparr> else InSync)"

section \<open>Events and commits\<close>

record application_event =
  ev_epoch :: nat
  ev_leaf_index :: nat
  ev_event_id :: string
  ev_payload :: bytes

definition application_event_new :: "nat \<Rightarrow> nat \<Rightarrow> string \<Rightarrow> bytes \<Rightarrow> application_event" where
  "application_event_new epoch leaf_index event_id payload =
     \<lparr>ev_epoch = epoch, ev_leaf_index = leaf_index, ev_event_id = event_id, ev_payload = payload\<rparr>"

definition event_content_hash :: "(bytes \<Rightarrow> bytes) \<Rightarrow> application_event \<Rightarrow> bytes" where
  "event_content_hash sha256 ev = sha256 (str_bytes (ev_event_id ev) @ ev_payload ev)"

type_synonym canonical_event_key = "nat \<times> nat \<times> bytes"

definition event_key :: "(bytes \<Rightarrow> bytes) \<Rightarrow> application_event \<Rightarrow> canonical_event_key" where
  "event_key sha256 ev = (ev_epoch ev, ev_leaf_index ev, event_content_hash sha256 ev)"

definition order_application_events :: "(bytes \<Rightarrow> bytes) \<Rightarrow> application_event list \<Rightarrow> application_event list" where
  "order_application_events sha256 events =
     sort_by (\<lambda>a b. then_with (cmp_lin (event_key sha256 a) (event_key sha256 b)) (cmp_lin (ev_event_id a) (ev_event_id b))) events"

record commit_envelope =
  cm_summary :: epoch_summary
  cm_committer_leaf :: nat
  cm_application_events :: "application_event list"

definition commit_new :: "(bytes \<Rightarrow> bytes) \<Rightarrow> epoch_summary \<Rightarrow> nat \<Rightarrow> application_event list \<Rightarrow> commit_envelope" where
  "commit_new sha256 summary leaf events =
     \<lparr>cm_summary = summary, cm_committer_leaf = leaf, cm_application_events = order_application_events sha256 events\<rparr>"

definition commit_event_bytes :: "(bytes \<Rightarrow> bytes) \<Rightarrow> application_event \<Rightarrow> bytes" where
  "commit_event_bytes sha256 ev =
     u64_be (ev_epoch ev) @ u32_be (ev_leaf_index ev) @ event_content_hash sha256 ev @
     u64_be (length (ev_event_id ev)) @ str_bytes (ev_event_id ev)"

definition commit_preimage :: "(bytes \<Rightarrow> bytes) \<Rightarrow> commit_envelope \<Rightarrow> bytes" where
  "commit_preimage sha256 c =
     str_bytes ''discrypt-mls-delivery-commit-v1'' @ u64_be (es_epoch (cm_summary c)) @ es_tree_hash (cm_summary c) @
     es_confirmation_tag (cm_summary c) @ u32_be (cm_committer_leaf c) @
     concat (map (commit_event_bytes sha256) (cm_application_events c))"

definition commit_content_hash :: "(bytes \<Rightarrow> bytes) \<Rightarrow> commit_envelope \<Rightarrow> bytes" where
  "commit_content_hash sha256 c = sha256 (commit_preimage sha256 c)"

type_synonym commit_order_key = "nat \<times> nat \<times> bytes"

definition commit_order_key :: "(bytes \<Rightarrow> bytes) \<Rightarrow> commit_envelope \<Rightarrow> commit_order_key" where
  "commit_order_key sha256 c = (es_epoch (cm_summary c), cm_committer_leaf c, commit_content_hash sha256 c)"

definition order_commits :: "(bytes \<Rightarrow> bytes) \<Rightarrow> commit_envelope list \<Rightarrow> commit_envelope list" where
  "order_commits sha256 commits = sort_key (commit_order_key sha256) commits"

type_synonym delivery_history_key = "commit_order_key list"

definition history_key_from_commits :: "(bytes \<Rightarrow> bytes) \<Rightarrow> commit_envelope list \<Rightarrow> delivery_history_key" where
  "history_key_from_commits sha256 commits = map (commit_order_key sha256) commits"

record delivery_history =
  dh_summary :: epoch_summary
  dh_commits :: "commit_envelope list"

definition delivery_history_new :: "(bytes \<Rightarrow> bytes) \<Rightarrow> epoch_summary \<Rightarrow> commit_envelope list \<Rightarrow> delivery_history" where
  "delivery_history_new sha256 summary commits = \<lparr>dh_summary = summary, dh_commits = order_commits sha256 commits\<rparr>"

definition delivery_history_key :: "(bytes \<Rightarrow> bytes) \<Rightarrow> delivery_history \<Rightarrow> delivery_history_key" where
  "delivery_history_key sha256 h = history_key_from_commits sha256 (dh_commits h)"

definition comparator_maximal_history :: "(bytes \<Rightarrow> bytes) \<Rightarrow> delivery_history list \<Rightarrow> delivery_history option" where
  "comparator_maximal_history sha256 histories =
     max_by_key (\<lambda>h. (delivery_history_key sha256 h, summary_key (dh_summary h))) histories"

section \<open>Delivery state\<close>

datatype repair_action = RepairNone | RejoinAndReproposal nat

record repair_plan =
  rpl_action :: repair_action
  rpl_winner :: epoch_summary
  rpl_reproposed_events :: "application_event list"
  rpl_replays_divergent_mls_commits :: bool

record delivery_state =
  ds_summary :: epoch_summary
  ds_accepted_events :: "(canonical_event_key, application_event) btreemap"

definition delivery_state_new :: "epoch_summary \<Rightarrow> delivery_state" where
  "delivery_state_new summary = \<lparr>ds_summary = summary, ds_accepted_events = bt_empty\<rparr>"

definition accepted_events :: "delivery_state \<Rightarrow> application_event list" where
  "accepted_events s = bt_values (ds_accepted_events s)"

definition insert_events ::
  "(bytes \<Rightarrow> bytes) \<Rightarrow> application_event list \<Rightarrow> (canonical_event_key, application_event) btreemap
     \<Rightarrow> (canonical_event_key, application_event) btreemap" where
  "insert_events sha256 events m = fold (\<lambda>ev. bt_insert (event_key sha256 ev) ev) events m"

definition apply_commit :: "(bytes \<Rightarrow> bytes) \<Rightarrow> delivery_state \<Rightarrow> commit_envelope \<Rightarrow> delivery_error + delivery_state" where
  "apply_commit sha256 s c =
     (case detect_fork_or_replay (ds_summary s) (cm_summary c) of
        NeedsCatchUp remote_epoch \<Rightarrow>
          if es_epoch (cm_summary c) = sat_add (es_epoch (ds_summary s)) 1
          then (case find (\<lambda>ev. ev_epoch ev \<noteq> es_epoch (cm_summary c)) (cm_application_events c) of
                  Some ev \<Rightarrow> Inl (DowngradeOrReplay (ev_epoch ev))
                | None \<Rightarrow> Inr \<lparr>ds_summary = cm_summary c,
                    ds_accepted_events = insert_events sha256 (cm_application_events c) (ds_accepted_events s)\<rparr>)
          else Inl (DowngradeOrReplay remote_epoch)
      | InSync \<Rightarrow> Inl (DowngradeOrReplay (es_epoch (cm_summary c)))
      | ForkDowngradeOrReplay remote_epoch \<Rightarrow> Inl (DowngradeOrReplay remote_epoch)
      | Diverged evidence \<Rightarrow> Inl (DivergentTree (es_epoch (fe_local evidence))))"

definition apply_repair_plan :: "(bytes \<Rightarrow> bytes) \<Rightarrow> delivery_state \<Rightarrow> repair_plan \<Rightarrow> delivery_error + delivery_state" where
  "apply_repair_plan sha256 s plan =
     (if rpl_replays_divergent_mls_commits plan then Inl DivergentCommitReplay
      else if es_epoch (rpl_winner plan) < es_epoch (ds_summary s)
      then Inl (StaleRepairTarget (es_epoch (ds_summary s)) (es_epoch (rpl_winner plan)))
      else if rpl_action plan = RepairNone then Inr s
      else (case find (\<lambda>ev. ev_epoch ev \<noteq> es_epoch (rpl_winner plan)) (rpl_reproposed_events plan) of
              Some ev \<Rightarrow> Inl (DowngradeOrReplay (ev_epoch ev))
            | None \<Rightarrow> Inr \<lparr>ds_summary = rpl_winner plan,
                ds_accepted_events = insert_events sha256 (rpl_reproposed_events plan) (ds_accepted_events s)\<rparr>))"

section \<open>Welcome, catch-up and repair planning\<close>

record welcome_package =
  wp_room_id :: string
  wp_new_leaf :: nat
  wp_summary :: epoch_summary
  wp_expires_at_ms :: nat

definition welcome_new :: "string \<Rightarrow> nat \<Rightarrow> epoch_summary \<Rightarrow> nat \<Rightarrow> welcome_package" where
  "welcome_new room_id new_leaf summary expires_at_ms =
     \<lparr>wp_room_id = room_id, wp_new_leaf = new_leaf, wp_summary = summary, wp_expires_at_ms = expires_at_ms\<rparr>"

definition welcome_validate :: "welcome_package \<Rightarrow> nat \<Rightarrow> delivery_error + unit" where
  "welcome_validate w now_ms = (if now_ms \<le> wp_expires_at_ms w then Inr () else Inl WelcomeExpired)"

record catch_up_bundle =
  cu_summary :: epoch_summary
  cu_commits :: "commit_envelope list"
  cu_application_events :: "application_event list"

definition catch_up_new ::
  "(bytes \<Rightarrow> bytes) \<Rightarrow> epoch_summary \<Rightarrow> commit_envelope list \<Rightarrow> application_event list \<Rightarrow> catch_up_bundle" where
  "catch_up_new sha256 summary commits events =
     \<lparr>cu_summary = summary, cu_commits = order_commits sha256 commits,
      cu_application_events = order_application_events sha256 events\<rparr>"

definition select_repair_action :: "bool \<Rightarrow> nat list \<Rightarrow> repair_action" where
  "select_repair_action diverged leaves =
     (if \<not> diverged then RepairNone else RejoinAndReproposal (if leaves = [] then 0 else Max (set leaves)))"

definition plan_repair ::
  "(bytes \<Rightarrow> bytes) \<Rightarrow> fork_evidence \<Rightarrow> nat list \<Rightarrow> application_event list \<Rightarrow> repair_plan" where
  "plan_repair sha256 evidence last_common_leaves still_valid_events =
     (let winner = (if summary_key (fe_local evidence) < summary_key (fe_remote evidence) then fe_remote evidence else fe_local evidence)
      in \<lparr>rpl_action = select_repair_action True last_common_leaves, rpl_winner = winner,
          rpl_reproposed_events =
            order_application_events sha256 (filter (\<lambda>ev. ev_epoch ev = es_epoch winner) still_valid_events),
          rpl_replays_divergent_mls_commits = False\<rparr>)"

definition plan_repair_from_histories ::
  "(bytes \<Rightarrow> bytes) \<Rightarrow> delivery_history list \<Rightarrow> nat list \<Rightarrow> application_event list \<Rightarrow> repair_plan option" where
  "plan_repair_from_histories sha256 histories last_common_leaves still_valid_events =
     (case comparator_maximal_history sha256 histories of
        None \<Rightarrow> None
      | Some winner \<Rightarrow>
          Some \<lparr>rpl_action = select_repair_action (1 < length histories) last_common_leaves,
                rpl_winner = dh_summary winner,
                rpl_reproposed_events =
                  order_application_events sha256 (filter (\<lambda>ev. ev_epoch ev = es_epoch (dh_summary winner)) still_valid_events),
                rpl_replays_divergent_mls_commits = False\<rparr>)"

definition repair_to_winner :: "nat \<Rightarrow> repair_plan \<Rightarrow> epoch_summary list" where
  "repair_to_winner participants plan = map (\<lambda>_. rpl_winner plan) [0..<participants]"

definition test_summary :: "nat \<Rightarrow> u8 \<Rightarrow> u8 \<Rightarrow> epoch_summary" where
  "test_summary epoch tree_byte confirmation_byte =
     \<lparr>es_epoch = epoch, es_tree_hash = replicate 32 tree_byte, es_confirmation_tag = replicate 32 confirmation_byte\<rparr>"

definition equal_confirmation_tags :: "epoch_summary list \<Rightarrow> bool" where
  "equal_confirmation_tags summaries =
     (case summaries of [] \<Rightarrow> True
      | s0 # _ \<Rightarrow> list_all (\<lambda>s. es_confirmation_tag s = es_confirmation_tag s0) summaries)"

definition event_ids :: "application_event list \<Rightarrow> string btreeset" where
  "event_ids events = bs_of_list (map ev_event_id events)"

section \<open>Canonical orders\<close>

lemma order_application_events_sort:
  "order_application_events sha256 events = sort_key (\<lambda>ev. (event_key sha256 ev, ev_event_id ev)) events"
  unfolding order_application_events_def by (rule sort_by_key) (simp add: then_with_cmp_lin)

interpretation app_events: canonical_order "\<lambda>ev. (event_key sha256 ev, ev_event_id ev)" "order_application_events sha256" for sha256
  by unfold_locales (rule order_application_events_sort)

interpretation commits: canonical_order "commit_order_key sha256" "order_commits sha256" for sha256
  by unfold_locales (simp add: order_commits_def)

lemma summary_key_inj [simp]: "summary_key s = summary_key t \<longleftrightarrow> s = t"
  by (auto simp: summary_key_def)

lemma detect_Diverged:
  "detect_fork_or_replay l r = Diverged ev \<longleftrightarrow> needs_repair l r \<and> ev = \<lparr>fe_local = l, fe_remote = r\<rparr>"
  by (auto simp: detect_fork_or_replay_def cmp_lin_def needs_repair_def)

lemma detect_InSync: "detect_fork_or_replay l r = InSync \<longleftrightarrow> l = r"
  by (auto simp: detect_fork_or_replay_def cmp_lin_def needs_repair_def)

lemma bt_get_insert_events:
  "bt_get (insert_events sha256 events m) = bt_get m ++ map_of (rev (map (\<lambda>ev. (event_key sha256 ev, ev)) events))"
  by (induction events arbitrary: m) (simp_all add: insert_events_def)

lemma insert_events_values:
  "set (bt_values (insert_events sha256 events m)) \<subseteq> set (bt_values m) \<union> set events"
proof
  fix v
  assume "v \<in> set (bt_values (insert_events sha256 events m))"
  then obtain k where "bt_get (insert_events sha256 events m) k = Some v" by (auto simp: set_bt_values)
  then consider "map_of (rev (map (\<lambda>ev. (event_key sha256 ev, ev)) events)) k = Some v" | "bt_get m k = Some v"
    by (auto simp: bt_get_insert_events map_add_Some_iff)
  then show "v \<in> set (bt_values m) \<union> set events"
    by cases (auto simp: set_bt_values simp del: split_paired_Ex dest!: map_of_SomeD)
qed

lemma insert_events_get:
  assumes "ev \<in> set events" and "inj_on (event_key sha256) (set events)"
  shows "bt_get (insert_events sha256 events m) (event_key sha256 ev) = Some ev"
proof -
  let ?es = "map (\<lambda>ev. (event_key sha256 ev, ev)) events"
  obtain w where w: "map_of (rev ?es) (event_key sha256 ev) = Some w"
    using assms(1) weak_map_of_SomeI[of "event_key sha256 ev" ev "rev ?es"] by auto
  then have "w \<in> set events \<and> event_key sha256 w = event_key sha256 ev" by (auto dest!: map_of_SomeD)
  with assms have "w = ev" by (auto dest: inj_onD)
  with w show ?thesis by (simp add: bt_get_insert_events)
qed

lemma insert_events_held:
  assumes "ev \<in> set events" and "inj_on (event_key sha256) (set events)"
  shows "ev \<in> set (bt_values (insert_events sha256 events m))"
  unfolding set_bt_values using insert_events_get[OF assms] by blast

section \<open>Commits form a chain\<close>

fun apply_commits :: "(bytes \<Rightarrow> bytes) \<Rightarrow> delivery_state \<Rightarrow> commit_envelope list \<Rightarrow> delivery_state \<times> commit_envelope list" where
  "apply_commits sha256 s [] = (s, [])"
| "apply_commits sha256 s (c # cs) =
     (case apply_commit sha256 s c of
        Inl _ \<Rightarrow> apply_commits sha256 s cs
      | Inr s1 \<Rightarrow> (case apply_commits sha256 s1 cs of (s2, acc) \<Rightarrow> (s2, c # acc)))"

lemma apply_commit_Inr:
  "apply_commit sha256 s c = Inr s' \<longleftrightarrow>
     es_epoch (ds_summary s) < u64_max \<and> es_epoch (cm_summary c) = Suc (es_epoch (ds_summary s)) \<and>
     (\<forall>ev \<in> set (cm_application_events c). ev_epoch ev = es_epoch (cm_summary c)) \<and>
     s' = \<lparr>ds_summary = cm_summary c, ds_accepted_events = insert_events sha256 (cm_application_events c) (ds_accepted_events s)\<rparr>"
proof -
  have "es_epoch (cm_summary c) > es_epoch (ds_summary s) \<and> es_epoch (cm_summary c) = sat_add (es_epoch (ds_summary s)) 1 \<longleftrightarrow>
      es_epoch (ds_summary s) < u64_max \<and> es_epoch (cm_summary c) = Suc (es_epoch (ds_summary s))"
    by (auto simp: sat_add_def min_def)
  then show ?thesis
    by (auto simp: apply_commit_def detect_fork_or_replay_def cmp_lin_def find_None_iff find_Some_iff
        split: option.splits)
qed

lemma apply_commits_chain:
  assumes "apply_commits sha256 s cs = (s', acc)"
  shows "subseq acc cs \<and> map (\<lambda>c. es_epoch (cm_summary c)) acc = [Suc (es_epoch (ds_summary s))..<Suc (es_epoch (ds_summary s) + length acc)] \<and>
    ds_summary s' = last (ds_summary s # map cm_summary acc) \<and>
    set (accepted_events s') \<subseteq> set (accepted_events s) \<union> (\<Union>c \<in> set acc. set (cm_application_events c))"
  using assms
proof (induction cs arbitrary: s acc)
  case (Cons c cs)
  show ?case
  proof (cases "apply_commit sha256 s c")
    case (Inl e)
    with Cons show ?thesis by auto
  next
    case (Inr s1)
    with Cons.prems obtain acc1 where acc: "apply_commits sha256 s1 cs = (s', acc1)" "acc = c # acc1"
      by (auto split: prod.splits)
    from Inr have c: "es_epoch (cm_summary c) = Suc (es_epoch (ds_summary s))"
      "s1 = \<lparr>ds_summary = cm_summary c, ds_accepted_events = insert_events sha256 (cm_application_events c) (ds_accepted_events s)\<rparr>"
      by (auto simp: apply_commit_Inr)
    have "set (accepted_events s1) \<subseteq> set (accepted_events s) \<union> set (cm_application_events c)"
      using c insert_events_values by (simp add: accepted_events_def)
    with Cons.IH[OF acc(1)] acc(2) c show ?thesis
      by (auto simp: upt_rec[of "Suc (es_epoch (ds_summary s))"])
  qed
qed simp

lemma apply_commits_stale:
  "(\<And>c. c \<in> set cs \<Longrightarrow> es_epoch (cm_summary c) \<le> es_epoch (ds_summary s)) \<Longrightarrow> apply_commits sha256 s cs = (s, [])"
proof (induction cs)
  case (Cons c cs)
  have "apply_commit sha256 s c \<noteq> Inr s1" for s1 using Cons.prems[of c] by (auto simp: apply_commit_Inr)
  then show ?case using Cons by (cases "apply_commit sha256 s c") auto
qed simp

text \<open>
  C27: Whatever sequence of commits a member sees, the ones its delivery state accepts are a subsequence with consecutive
  epochs that starts right after the epoch it had: no epoch is skipped and no epoch has two accepted commits. The
  state ends on the summary of the last accepted commit, its events come from accepted commits, and offering all the accepted
  commits again changes nothing.
\<close>

theorem commits_form_chain:
  "case apply_commits sha256 s cs of (s', acc) \<Rightarrow>
     subseq acc cs \<and>
     map (\<lambda>c. es_epoch (cm_summary c)) acc = [Suc (es_epoch (ds_summary s))..<Suc (es_epoch (ds_summary s) + length acc)] \<and>
     ds_summary s' = last (ds_summary s # map cm_summary acc) \<and>
     set (accepted_events s') \<subseteq> set (accepted_events s) \<union> (\<Union>c \<in> set acc. set (cm_application_events c)) \<and>
     apply_commits sha256 s' acc = (s', [])"
proof (cases "apply_commits sha256 s cs")
  case (Pair s' acc)
  note chain = apply_commits_chain[OF Pair]
  let ?e = "es_epoch (ds_summary s)"
  have "es_epoch (ds_summary s') = ?e + length acc"
  proof (cases acc rule: rev_cases)
    case (snoc pre c)
    with chain have "map (\<lambda>c. es_epoch (cm_summary c)) (pre @ [c]) = [Suc ?e..<Suc ?e + length pre] @ [Suc ?e + length pre]"
      by simp
    with snoc chain show ?thesis by simp
  qed (use chain in simp)
  moreover have "es_epoch (cm_summary c) \<le> ?e + length acc" if "c \<in> set acc" for c
  proof -
    from that have "es_epoch (cm_summary c) \<in> set (map (\<lambda>c. es_epoch (cm_summary c)) acc)" by simp
    with chain show ?thesis by auto
  qed
  ultimately have "apply_commits sha256 s' acc = (s', [])" by (intro apply_commits_stale) simp
  with chain Pair show ?thesis by simp
qed

section \<open>Repair\<close>

lemma event_order_filter:
  assumes "mset es = mset es'" and "inj_on (event_key sha256) (set es)"
  shows "order_application_events sha256 (filter P es) = order_application_events sha256 (filter P es')"
proof (rule app_events.order_perm)
  show "mset (filter P es) = mset (filter P es')" using assms(1) by (simp add: mset_filter)
  show "inj_on (\<lambda>ev. (event_key sha256 ev, ev_event_id ev)) (set (filter P es))"
    using assms(2) by (auto simp: inj_on_def)
qed


definition demo_delivery_state :: "u8 \<Rightarrow> delivery_state" where
  "demo_delivery_state tree = delivery_state_new (test_summary 7 tree 0)"

definition demo_app_event :: "string \<Rightarrow> application_event" where
  "demo_app_event event_id = application_event_new 7 5 event_id []"


text \<open>
  The plan built from candidate histories does not depend on the order in which the histories, or the events, were collected: peers
  that hold the same candidates choose the same winner.
\<close>

theorem history_choice_order_independent:
  assumes "mset hs = mset hs'" and "mset events = mset events'" and "inj_on (event_key sha256) (set events)"
  shows "plan_repair_from_histories sha256 hs leaves events = plan_repair_from_histories sha256 hs' leaves events'"
proof -
  let ?w = "\<lambda>hs. map_option dh_summary (comparator_maximal_history sha256 hs)"
  have "?w hs = ?w hs'"
    unfolding comparator_maximal_history_def by (rule max_by_key_value[OF assms(1)]) simp
  moreover have "length hs = length hs'" using assms(1) by (metis size_mset)
  moreover note event_order_filter[OF assms(2,3)]
  ultimately show ?thesis
    by (cases "comparator_maximal_history sha256 hs"; cases "comparator_maximal_history sha256 hs'")
      (auto simp: plan_repair_from_histories_def)
qed

theorem history_choice_order_independent_witness:
  "plan_repair_from_histories sha_demo
     [delivery_history_new sha_demo (test_summary 7 2 0) [], delivery_history_new sha_demo (test_summary 7 3 0) []] [5] [demo_app_event ''x''] =
   plan_repair_from_histories sha_demo
     [delivery_history_new sha_demo (test_summary 7 3 0) [], delivery_history_new sha_demo (test_summary 7 2 0) []] [5] [demo_app_event ''x'']"
  by (rule history_choice_order_independent) simp_all

text \<open>
  A repair keeps the events that the losing member accepted on its own branch: two members that are in sync after the
  repair can hold different events.
\<close>

lemma repair_keeps_losing_events:
  assumes "apply_repair_plan sha256 s plan = Inr s'" and "bt_get (ds_accepted_events s) k = Some e"
    and "k \<notin> event_key sha256 ` set (rpl_reproposed_events plan)"
  shows "e \<in> set (accepted_events s')"
proof -
  have "map_of (rev (map (\<lambda>ev. (event_key sha256 ev, ev)) (rpl_reproposed_events plan))) k = None"
    using assms(3) by (auto simp: map_of_eq_None_iff)
  then have "bt_get (insert_events sha256 (rpl_reproposed_events plan) (ds_accepted_events s)) k = Some e"
    using assms(2) by (simp add: bt_get_insert_events map_add_Some_iff)
  then have "e \<in> set (bt_values (insert_events sha256 (rpl_reproposed_events plan) (ds_accepted_events s)))"
    "e \<in> set (bt_values (ds_accepted_events s))"
    unfolding set_bt_values using assms(2) by blast+
  with assms(1) show ?thesis
    by (auto simp: apply_repair_plan_def accepted_events_def split: if_split_asm option.split_asm)
qed

text \<open>
  The key of an event hashes its identifier and payload without a separator: two different events of the same leaf and
  epoch that agree when the two are joined have the same key, and a commit that carries both leaves only one of them.
\<close>

theorem joined_events_collide:
  fixes n leaf :: nat
  assumes "i \<noteq> i'" and "str_bytes i @ p = str_bytes i' @ p'"
  defines "x \<equiv> application_event_new (Suc n) leaf i p" and "y \<equiv> application_event_new (Suc n) leaf i' p'"
  assumes "n < u64_max"
  shows "x \<noteq> y \<and> (\<exists>s'. apply_commit sha256 (delivery_state_new (test_summary n 0 0)) (commit_new sha256 (test_summary (Suc n) t c) leaf [x, y]) = Inr s' \<and>
    length (accepted_events s') = 1)"
proof -
  have k: "event_key sha256 x = event_key sha256 y"
    using assms by (simp add: event_key_def event_content_hash_def application_event_new_def)
  define es where "es = order_application_events sha256 [x, y]"
  then have es: "es = [x, y] \<or> es = [y, x]" by (auto simp: order_application_events_sort)
  have ep: "\<forall>e \<in> set es. ev_epoch e = Suc n" using es by (auto simp: x_def y_def application_event_new_def)
  have "bt_len (insert_events sha256 es bt_empty) = 1"
    using es k by (auto simp: insert_events_def bt_len_insert)
  then have "length (accepted_events \<lparr>ds_summary = test_summary (Suc n) t c, ds_accepted_events = insert_events sha256 es bt_empty\<rparr>) = 1"
    by (simp add: accepted_events_def)
  moreover have "apply_commit sha256 (delivery_state_new (test_summary n 0 0)) (commit_new sha256 (test_summary (Suc n) t c) leaf [x, y]) =
      Inr \<lparr>ds_summary = test_summary (Suc n) t c, ds_accepted_events = insert_events sha256 es bt_empty\<rparr>"
    using ep assms(5) by (simp add: apply_commit_Inr delivery_state_new_def commit_new_def test_summary_def es_def[symmetric])
  moreover have "x \<noteq> y" using assms(1) by (simp add: x_def y_def application_event_new_def)
  ultimately show ?thesis by blast
qed

end
