(* ===== verification/Text_Envelope.thy ===== *)
theory Text_Envelope
  imports Delivery
begin

text \<open>
  Encrypted text envelopes and delivery receipts (\<open>crates/mls-delivery/src/lib.rs\<close>): the retention
  metadata, the signed envelope and receipt with their canonical bytes, and the content key, nonce and associated data of
  the encryption. A verifying key is its encoded bytes; \<open>sha256\<close>, the Ed25519 scheme and AES-GCM are parameters.
  Shown: the canonical bytes determine the envelope, so that a verified envelope is one its sender signed;
  a signed envelope verifies and decrypts to the message that was encrypted.
\<close>

section \<open>Envelopes\<close>

definition text_message_envelope_version :: u8 where
  "text_message_envelope_version = 1"

record text_retention_metadata =
  tr_policy :: string
  tr_created_at_ms :: nat
  tr_expires_at_ms :: "nat option"
  tr_delete_after_read :: bool

definition text_retention_new :: "string \<Rightarrow> nat \<Rightarrow> nat option \<Rightarrow> bool \<Rightarrow> text_retention_metadata" where
  "text_retention_new policy created_at_ms expires_at_ms delete_after_read =
     \<lparr>tr_policy = policy, tr_created_at_ms = created_at_ms, tr_expires_at_ms = expires_at_ms, tr_delete_after_read = delete_after_read\<rparr>"

definition text_retention_validate :: "text_retention_metadata \<Rightarrow> delivery_error + unit" where
  "text_retention_validate r =
     and_then (ensure (\<not> blank (tr_policy r)) (InvalidTextMessageEnvelope ''retention policy is required'')) (\<lambda>_.
       ensure (\<not> (case tr_expires_at_ms r of Some t \<Rightarrow> t < tr_created_at_ms r | None \<Rightarrow> False))
         (InvalidTextMessageEnvelope ''retention expiry is before creation''))"

record text_message_envelope_input =
  ti_epoch :: nat
  ti_sender_leaf :: nat
  ti_sender_device_id :: string
  ti_sequence :: nat
  ti_message_id :: string
  ti_retention :: text_retention_metadata
  ti_content_ciphertext :: bytes

record text_message_envelope =
  te_version :: u8
  te_group_id_commitment :: bytes
  te_epoch :: nat
  te_sender_leaf :: nat
  te_sender_device_id :: string
  te_sequence :: nat
  te_message_id :: string
  te_retention :: text_retention_metadata
  te_content_ciphertext :: bytes
  te_signature :: bytes

definition group_id_commitment :: "(bytes \<Rightarrow> bytes) \<Rightarrow> string \<Rightarrow> delivery_error + bytes" where
  "group_id_commitment sha256 group_id =
     (if blank group_id then Inl (InvalidTextMessageEnvelope ''group id is required'')
      else Inr (sha256 (str_bytes ''discrypt-text-group-id-v1'' @ u64_be (length group_id) @ str_bytes group_id)))"

definition text_retention_bytes :: "text_retention_metadata \<Rightarrow> bytes" where
  "text_retention_bytes r =
     lp_be (str_bytes (tr_policy r)) @ u64_be (tr_created_at_ms r) @
     (case tr_expires_at_ms r of Some t \<Rightarrow> 1 # u64_be t | None \<Rightarrow> [0]) @
     [of_bool (tr_delete_after_read r)]"

definition envelope_unsigned_bytes :: "text_message_envelope \<Rightarrow> bytes" where
  "envelope_unsigned_bytes e =
     lp_be (str_bytes ''discrypt-text-message-envelope-v1'') @ [te_version e] @ te_group_id_commitment e @
     u64_be (te_epoch e) @ u32_be (te_sender_leaf e) @ lp_be (str_bytes (te_sender_device_id e)) @
     u64_be (te_sequence e) @ lp_be (str_bytes (te_message_id e)) @ text_retention_bytes (te_retention e) @
     lp_be (te_content_ciphertext e)"

definition envelope_signed_bytes :: "text_message_envelope \<Rightarrow> bytes" where
  "envelope_signed_bytes e = envelope_unsigned_bytes e @ lp_be (te_signature e)"

definition envelope_validate_unsigned :: "text_message_envelope \<Rightarrow> delivery_error + unit" where
  "envelope_validate_unsigned e =
     and_then (ensure (te_version e = text_message_envelope_version)
       (InvalidTextMessageEnvelope (''unsupported version '' @ nat_str (unat (te_version e))))) (\<lambda>_.
     and_then (ensure (te_group_id_commitment e \<noteq> replicate 32 0) (InvalidTextMessageEnvelope ''group commitment is required'')) (\<lambda>_.
     and_then (ensure (\<not> blank (te_sender_device_id e)) (InvalidTextMessageEnvelope ''sender device id is required'')) (\<lambda>_.
     and_then (ensure (\<not> blank (te_message_id e)) (InvalidTextMessageEnvelope ''message id is required'')) (\<lambda>_.
     and_then (ensure (te_content_ciphertext e \<noteq> []) (InvalidTextMessageEnvelope ''content ciphertext is required'')) (\<lambda>_.
       text_retention_validate (te_retention e))))))"

definition unsigned_envelope :: "bytes \<Rightarrow> text_message_envelope_input \<Rightarrow> text_message_envelope" where
  "unsigned_envelope gc i =
     \<lparr>te_version = text_message_envelope_version, te_group_id_commitment = gc, te_epoch = ti_epoch i,
      te_sender_leaf = ti_sender_leaf i, te_sender_device_id = ti_sender_device_id i, te_sequence = ti_sequence i,
      te_message_id = ti_message_id i, te_retention = ti_retention i,
      te_content_ciphertext = ti_content_ciphertext i, te_signature = []\<rparr>"

definition envelope_sign ::
  "(bytes \<Rightarrow> bytes) \<Rightarrow> 'sk ed25519 \<Rightarrow> string \<Rightarrow> text_message_envelope_input \<Rightarrow> 'sk \<Rightarrow> delivery_error + text_message_envelope" where
  "envelope_sign sha256 ed group_id i signing_key =
     and_then (group_id_commitment sha256 group_id) (\<lambda>gc.
     and_then (envelope_validate_unsigned (unsigned_envelope gc i)) (\<lambda>_.
       Inr ((unsigned_envelope gc i)\<lparr>te_signature := ed_sign ed signing_key (envelope_unsigned_bytes (unsigned_envelope gc i))\<rparr>)))"

definition envelope_verify ::
  "(bytes \<Rightarrow> bytes) \<Rightarrow> 'sk ed25519 \<Rightarrow> text_message_envelope \<Rightarrow> string \<Rightarrow> bytes \<Rightarrow> delivery_error + unit" where
  "envelope_verify sha256 ed e group_id verifying_key =
     and_then (envelope_validate_unsigned e) (\<lambda>_.
     and_then (group_id_commitment sha256 group_id) (\<lambda>gc.
     and_then (ensure (te_group_id_commitment e = gc) (InvalidTextMessageEnvelope ''group commitment mismatch'')) (\<lambda>_.
     and_then (ensure (length (te_signature e) = 64) (InvalidTextMessageEnvelope ''signature must be 64 bytes'')) (\<lambda>_.
       ensure (ed_verify ed verifying_key (envelope_unsigned_bytes e) (te_signature e)) TextMessageSignatureVerificationFailed))))"

definition ciphertext_hash :: "(bytes \<Rightarrow> bytes) \<Rightarrow> text_message_envelope \<Rightarrow> bytes" where
  "ciphertext_hash sha256 e = sha256 (te_content_ciphertext e)"

definition contains_plaintext_sample :: "text_message_envelope \<Rightarrow> bytes \<Rightarrow> bool" where
  "contains_plaintext_sample e plaintext =
     (if plaintext = [] \<or> length (te_content_ciphertext e) < length plaintext then False
      else contains_window (te_content_ciphertext e) plaintext)"

section \<open>Receipts\<close>

record text_delivery_receipt_input =
  di_message_id :: string
  di_recipient_leaf :: nat
  di_recipient_device_id :: string
  di_received_at_ms :: nat
  di_envelope_ciphertext_hash :: bytes

record text_delivery_receipt =
  dr_group_id_commitment :: bytes
  dr_message_id :: string
  dr_recipient_leaf :: nat
  dr_recipient_device_id :: string
  dr_received_at_ms :: nat
  dr_envelope_ciphertext_hash :: bytes
  dr_signature :: bytes

definition receipt_unsigned_bytes :: "text_delivery_receipt \<Rightarrow> bytes" where
  "receipt_unsigned_bytes r =
     lp_be (str_bytes ''discrypt-text-delivery-receipt-v1'') @ dr_group_id_commitment r @ lp_be (str_bytes (dr_message_id r)) @
     u32_be (dr_recipient_leaf r) @ lp_be (str_bytes (dr_recipient_device_id r)) @ u64_be (dr_received_at_ms r) @
     dr_envelope_ciphertext_hash r"

definition receipt_validate_unsigned :: "text_delivery_receipt \<Rightarrow> delivery_error + unit" where
  "receipt_validate_unsigned r =
     and_then (ensure (dr_group_id_commitment r \<noteq> replicate 32 0) (InvalidTextDeliveryReceipt ''group commitment is required'')) (\<lambda>_.
     and_then (ensure (\<not> blank (dr_message_id r)) (InvalidTextDeliveryReceipt ''message id is required'')) (\<lambda>_.
     and_then (ensure (\<not> blank (dr_recipient_device_id r)) (InvalidTextDeliveryReceipt ''recipient device id is required'')) (\<lambda>_.
       ensure (dr_envelope_ciphertext_hash r \<noteq> replicate 32 0) (InvalidTextDeliveryReceipt ''ciphertext hash is required''))))"

definition unsigned_receipt :: "bytes \<Rightarrow> text_delivery_receipt_input \<Rightarrow> text_delivery_receipt" where
  "unsigned_receipt gc i =
     \<lparr>dr_group_id_commitment = gc, dr_message_id = di_message_id i, dr_recipient_leaf = di_recipient_leaf i,
      dr_recipient_device_id = di_recipient_device_id i, dr_received_at_ms = di_received_at_ms i,
      dr_envelope_ciphertext_hash = di_envelope_ciphertext_hash i, dr_signature = []\<rparr>"

definition receipt_sign ::
  "(bytes \<Rightarrow> bytes) \<Rightarrow> 'sk ed25519 \<Rightarrow> string \<Rightarrow> text_delivery_receipt_input \<Rightarrow> 'sk \<Rightarrow> delivery_error + text_delivery_receipt" where
  "receipt_sign sha256 ed group_id i signing_key =
     and_then (group_id_commitment sha256 group_id) (\<lambda>gc.
     and_then (receipt_validate_unsigned (unsigned_receipt gc i)) (\<lambda>_.
       Inr ((unsigned_receipt gc i)\<lparr>dr_signature := ed_sign ed signing_key (receipt_unsigned_bytes (unsigned_receipt gc i))\<rparr>)))"

definition receipt_verify ::
  "(bytes \<Rightarrow> bytes) \<Rightarrow> 'sk ed25519 \<Rightarrow> text_delivery_receipt \<Rightarrow> string \<Rightarrow> text_message_envelope \<Rightarrow> bytes \<Rightarrow> delivery_error + unit" where
  "receipt_verify sha256 ed r group_id e verifying_key =
     and_then (receipt_validate_unsigned r) (\<lambda>_.
     and_then (group_id_commitment sha256 group_id) (\<lambda>gc.
     and_then (ensure (dr_group_id_commitment r = gc) (InvalidTextDeliveryReceipt ''group commitment mismatch'')) (\<lambda>_.
     and_then (ensure (dr_message_id r = te_message_id e) (InvalidTextDeliveryReceipt ''message id mismatch'')) (\<lambda>_.
     and_then (ensure (dr_envelope_ciphertext_hash r = ciphertext_hash sha256 e) (InvalidTextDeliveryReceipt ''ciphertext hash mismatch'')) (\<lambda>_.
     and_then (ensure (length (dr_signature r) = 64) (InvalidTextDeliveryReceipt ''signature must be 64 bytes'')) (\<lambda>_.
       ensure (ed_verify ed verifying_key (receipt_unsigned_bytes r) (dr_signature r))
         TextDeliveryReceiptSignatureVerificationFailed))))))"

section \<open>Content encryption\<close>

record 't text_outbound_request =
  or_group_id :: string
  or_channel_id :: string
  or_epoch :: nat
  or_sender_leaf :: nat
  or_sender_device_id :: string
  or_sequence :: nat
  or_message_id :: string
  or_retention :: text_retention_metadata
  or_plaintext :: bytes
  or_sent_at_ms :: nat
  or_now :: 't

definition derive_text_message_content_key :: "(bytes \<Rightarrow> bytes) \<Rightarrow> bytes \<Rightarrow> 't text_outbound_request \<Rightarrow> bytes" where
  "derive_text_message_content_key sha256 secret q =
     sha256 (str_bytes ''discrypt-text-message-content-key-v1'' @ lp_be (str_bytes (or_group_id q)) @ u64_be (or_epoch q) @
       u32_be (or_sender_leaf q) @ lp_be (str_bytes (or_sender_device_id q)) @ u64_be (or_sequence q) @
       lp_be (str_bytes (or_message_id q)) @ u64_be (length secret) @ secret)"

definition text_message_encryption_aad :: "(bytes \<Rightarrow> bytes) \<Rightarrow> 't text_outbound_request \<Rightarrow> delivery_error + bytes" where
  "text_message_encryption_aad sha256 q =
     and_then (group_id_commitment sha256 (or_group_id q)) (\<lambda>gc.
     Inr (lp_be (str_bytes ''discrypt-text-message-aad-v1'') @ gc @ u64_be (or_epoch q) @ u32_be (or_sender_leaf q) @
       lp_be (str_bytes (or_sender_device_id q)) @ u64_be (or_sequence q) @ lp_be (str_bytes (or_message_id q)) @
       text_retention_bytes (or_retention q)))"

definition text_message_nonce :: "(bytes \<Rightarrow> bytes) \<Rightarrow> bytes \<Rightarrow> string \<Rightarrow> nat \<Rightarrow> bytes" where
  "text_message_nonce sha256 content_key message_id sequence =
     take 12 (sha256 (str_bytes ''discrypt-text-message-nonce-v1'' @ content_key @ u64_be sequence @ lp_be (str_bytes message_id)))"

definition encrypt_text_plaintext :: "aead \<Rightarrow> bytes \<Rightarrow> bytes \<Rightarrow> bytes \<Rightarrow> bytes \<Rightarrow> delivery_error + bytes" where
  "encrypt_text_plaintext ae content_key nonce aad plaintext =
     and_then (ensure (length content_key = 32) TextMessageEncryptionFailed) (\<lambda>_.
       ok_or TextMessageEncryptionFailed (ae_encrypt ae content_key nonce aad plaintext))"

definition decrypt_text_ciphertext :: "aead \<Rightarrow> bytes \<Rightarrow> bytes \<Rightarrow> bytes \<Rightarrow> bytes \<Rightarrow> delivery_error + bytes" where
  "decrypt_text_ciphertext ae content_key nonce aad ciphertext =
     and_then (ensure (length content_key = 32) TextMessageDecryptionFailed) (\<lambda>_.
       ok_or TextMessageDecryptionFailed (ae_decrypt ae content_key nonce aad ciphertext))"

text \<open>The receiver rebuilds the request from the envelope; \<open>now\<close> is the reading of the clock.\<close>

definition decrypt_text_envelope ::
  "(bytes \<Rightarrow> bytes) \<Rightarrow> aead \<Rightarrow> 't \<Rightarrow> string \<Rightarrow> bytes \<Rightarrow> text_message_envelope \<Rightarrow> delivery_error + bytes" where
  "decrypt_text_envelope sha256 ae now group_id secret e =
     (let q = \<lparr>or_group_id = group_id, or_channel_id = [], or_epoch = te_epoch e, or_sender_leaf = te_sender_leaf e,
               or_sender_device_id = te_sender_device_id e, or_sequence = te_sequence e, or_message_id = te_message_id e,
               or_retention = te_retention e, or_plaintext = [], or_sent_at_ms = 0, or_now = now\<rparr>
      in and_then (text_message_encryption_aad sha256 q) (\<lambda>aad.
         let content_key = derive_text_message_content_key sha256 secret q;
             nonce = text_message_nonce sha256 content_key (te_message_id e) (te_sequence e)
         in decrypt_text_ciphertext ae content_key nonce aad (te_content_ciphertext e)))"

section \<open>The canonical bytes determine the envelope\<close>

text \<open>The ranges of the integer and array fields.\<close>

definition retention_typed :: "text_retention_metadata \<Rightarrow> bool" where
  "retention_typed r \<longleftrightarrow> length (tr_policy r) < 2 ^ 64 \<and> tr_created_at_ms r < 2 ^ 64 \<and>
     (case tr_expires_at_ms r of Some t \<Rightarrow> t < 2 ^ 64 | None \<Rightarrow> True)"

definition envelope_typed :: "text_message_envelope \<Rightarrow> bool" where
  "envelope_typed e \<longleftrightarrow> length (te_group_id_commitment e) = 32 \<and> te_epoch e < 2 ^ 64 \<and> te_sender_leaf e < 2 ^ 32 \<and>
     length (te_sender_device_id e) < 2 ^ 64 \<and> te_sequence e < 2 ^ 64 \<and> length (te_message_id e) < 2 ^ 64 \<and>
     retention_typed (te_retention e) \<and> length (te_content_ciphertext e) < 2 ^ 64 \<and> length (te_signature e) < 2 ^ 64"

lemma text_retention_bytes_append_inj [codec]:
  assumes eq: "text_retention_bytes r @ x = text_retention_bytes s @ y" and "retention_typed r" and "retention_typed s"
  shows "r = s \<and> x = y"
proof -
  let ?o = "\<lambda>r. case tr_expires_at_ms r of Some t \<Rightarrow> 1 # u64_be t | None \<Rightarrow> [0::u8]"
  let ?d = "\<lambda>r. of_bool (tr_delete_after_read r) :: u8"
  from eq have "lp_be (str_bytes (tr_policy r)) @ u64_be (tr_created_at_ms r) @ ?o r @ ?d r # x =
      lp_be (str_bytes (tr_policy s)) @ u64_be (tr_created_at_ms s) @ ?o s @ ?d s # y"
    by (simp add: text_retention_bytes_def)
  then have p: "tr_policy r = tr_policy s"
    and 1: "u64_be (tr_created_at_ms r) @ ?o r @ ?d r # x = u64_be (tr_created_at_ms s) @ ?o s @ ?d s # y"
    using assms(2,3) by (auto dest!: lp_be_append_inj simp: retention_typed_def)
  have c: "tr_created_at_ms r = tr_created_at_ms s" and o: "?o r @ ?d r # x = ?o s @ ?d s # y"
    using be_append_inj[OF 1] assms(2,3) by (simp_all add: retention_typed_def)
  from o have "tr_expires_at_ms r = tr_expires_at_ms s \<and> ?d r = ?d s \<and> x = y"
    using assms(2,3) by (cases "tr_expires_at_ms r"; cases "tr_expires_at_ms s")
      (auto dest: be_bytes_inj simp: retention_typed_def)
  with p c show ?thesis by (cases "tr_delete_after_read r"; cases "tr_delete_after_read s") auto
qed

lemma envelope_unsigned_append_inj:
  assumes eq: "envelope_unsigned_bytes e @ x = envelope_unsigned_bytes f @ y" and te: "envelope_typed e" and tf: "envelope_typed f"
  shows "e\<lparr>te_signature := te_signature f\<rparr> = f \<and> x = y"
proof -
  note t = te[unfolded envelope_typed_def] tf[unfolded envelope_typed_def]
  from eq have a: "te_version e = te_version f" "te_group_id_commitment e = te_group_id_commitment f"
    and 1: "u64_be (te_epoch e) @ u32_be (te_sender_leaf e) @ lp_be (str_bytes (te_sender_device_id e)) @
        u64_be (te_sequence e) @ lp_be (str_bytes (te_message_id e)) @ text_retention_bytes (te_retention e) @
        lp_be (te_content_ciphertext e) @ x =
      u64_be (te_epoch f) @ u32_be (te_sender_leaf f) @ lp_be (str_bytes (te_sender_device_id f)) @
        u64_be (te_sequence f) @ lp_be (str_bytes (te_message_id f)) @ text_retention_bytes (te_retention f) @
        lp_be (te_content_ciphertext f) @ y"
    using t by (simp_all add: envelope_unsigned_bytes_def)
  have b: "te_epoch e = te_epoch f" and
    2: "u32_be (te_sender_leaf e) @ lp_be (str_bytes (te_sender_device_id e)) @
        u64_be (te_sequence e) @ lp_be (str_bytes (te_message_id e)) @ text_retention_bytes (te_retention e) @
        lp_be (te_content_ciphertext e) @ x =
      u32_be (te_sender_leaf f) @ lp_be (str_bytes (te_sender_device_id f)) @
        u64_be (te_sequence f) @ lp_be (str_bytes (te_message_id f)) @ text_retention_bytes (te_retention f) @
        lp_be (te_content_ciphertext f) @ y"
    using be_append_inj[OF 1] t by simp_all
  have c: "te_sender_leaf e = te_sender_leaf f" and
    3: "lp_be (str_bytes (te_sender_device_id e)) @
        u64_be (te_sequence e) @ lp_be (str_bytes (te_message_id e)) @ text_retention_bytes (te_retention e) @
        lp_be (te_content_ciphertext e) @ x =
      lp_be (str_bytes (te_sender_device_id f)) @
        u64_be (te_sequence f) @ lp_be (str_bytes (te_message_id f)) @ text_retention_bytes (te_retention f) @
        lp_be (te_content_ciphertext f) @ y"
    using be_append_inj[OF 2] t by simp_all
  have d: "te_sender_device_id e = te_sender_device_id f" and
    4: "u64_be (te_sequence e) @ lp_be (str_bytes (te_message_id e)) @ text_retention_bytes (te_retention e) @
        lp_be (te_content_ciphertext e) @ x =
      u64_be (te_sequence f) @ lp_be (str_bytes (te_message_id f)) @ text_retention_bytes (te_retention f) @
        lp_be (te_content_ciphertext f) @ y"
    using lp_be_append_inj[OF 3] t by simp_all
  have g: "te_sequence e = te_sequence f" and
    5: "lp_be (str_bytes (te_message_id e)) @ text_retention_bytes (te_retention e) @ lp_be (te_content_ciphertext e) @ x =
      lp_be (str_bytes (te_message_id f)) @ text_retention_bytes (te_retention f) @ lp_be (te_content_ciphertext f) @ y"
    using be_append_inj[OF 4] t by simp_all
  have h: "te_message_id e = te_message_id f" and
    6: "text_retention_bytes (te_retention e) @ lp_be (te_content_ciphertext e) @ x =
      text_retention_bytes (te_retention f) @ lp_be (te_content_ciphertext f) @ y"
    using lp_be_append_inj[OF 5] t by simp_all
  have i: "te_retention e = te_retention f" and
    7: "lp_be (te_content_ciphertext e) @ x = lp_be (te_content_ciphertext f) @ y"
    using text_retention_bytes_append_inj[OF 6] t by simp_all
  have "te_content_ciphertext e = te_content_ciphertext f \<and> x = y"
    using lp_be_append_inj[OF 7] t by simp
  with a b c d g h i show ?thesis by simp
qed

lemma envelope_signed_bytes_inj:
  assumes "envelope_typed e" and "envelope_typed f"
  shows "envelope_signed_bytes e = envelope_signed_bytes f \<longleftrightarrow> e = f"
proof
  assume "envelope_signed_bytes e = envelope_signed_bytes f"
  then have "e\<lparr>te_signature := te_signature f\<rparr> = f \<and> lp_be (te_signature e) = lp_be (te_signature f)"
    using assms envelope_unsigned_append_inj by (simp add: envelope_signed_bytes_def)
  moreover from this have "te_signature e = te_signature f"
    using lp_be_append_inj[of "te_signature e" "[]" "te_signature f" "[]"] assms by (simp add: envelope_typed_def)
  ultimately show "e = f" by (cases e; cases f) simp
qed simp

lemma receipt_unsigned_bytes_inj:
  assumes "receipt_unsigned_bytes r = receipt_unsigned_bytes s"
    and "length (dr_group_id_commitment r) = 32" "length (dr_group_id_commitment s) = 32"
    and "length (dr_message_id r) < 2 ^ 64" "length (dr_message_id s) < 2 ^ 64"
    and "dr_recipient_leaf r < 2 ^ 32" "dr_recipient_leaf s < 2 ^ 32"
    and "length (dr_recipient_device_id r) < 2 ^ 64" "length (dr_recipient_device_id s) < 2 ^ 64"
    and "dr_received_at_ms r < 2 ^ 64" "dr_received_at_ms s < 2 ^ 64"
  shows "r\<lparr>dr_signature := dr_signature s\<rparr> = s"
proof -
  from assms(1-3) have a: "dr_group_id_commitment r = dr_group_id_commitment s" and
    1: "lp_be (str_bytes (dr_message_id r)) @ u32_be (dr_recipient_leaf r) @ lp_be (str_bytes (dr_recipient_device_id r)) @
        u64_be (dr_received_at_ms r) @ dr_envelope_ciphertext_hash r =
      lp_be (str_bytes (dr_message_id s)) @ u32_be (dr_recipient_leaf s) @ lp_be (str_bytes (dr_recipient_device_id s)) @
        u64_be (dr_received_at_ms s) @ dr_envelope_ciphertext_hash s"
    by (simp_all add: receipt_unsigned_bytes_def)
  have b: "dr_message_id r = dr_message_id s" and
    2: "u32_be (dr_recipient_leaf r) @ lp_be (str_bytes (dr_recipient_device_id r)) @
        u64_be (dr_received_at_ms r) @ dr_envelope_ciphertext_hash r =
      u32_be (dr_recipient_leaf s) @ lp_be (str_bytes (dr_recipient_device_id s)) @
        u64_be (dr_received_at_ms s) @ dr_envelope_ciphertext_hash s"
    using lp_be_append_inj[OF 1] assms by simp_all
  have c: "dr_recipient_leaf r = dr_recipient_leaf s" and
    3: "lp_be (str_bytes (dr_recipient_device_id r)) @ u64_be (dr_received_at_ms r) @ dr_envelope_ciphertext_hash r =
      lp_be (str_bytes (dr_recipient_device_id s)) @ u64_be (dr_received_at_ms s) @ dr_envelope_ciphertext_hash s"
    using be_append_inj[OF 2] assms by simp_all
  have d: "dr_recipient_device_id r = dr_recipient_device_id s" and
    4: "u64_be (dr_received_at_ms r) @ dr_envelope_ciphertext_hash r = u64_be (dr_received_at_ms s) @ dr_envelope_ciphertext_hash s"
    using lp_be_append_inj[OF 3] assms by simp_all
  from be_append_inj[OF 4] assms a b c d show ?thesis by simp
qed

section \<open>Signatures\<close>

lemma envelope_verify_Inr:
  "envelope_verify sha256 ed e group_id vk = Inr u \<longleftrightarrow>
     envelope_validate_unsigned e = Inr () \<and> group_id_commitment sha256 group_id = Inr (te_group_id_commitment e) \<and>
     length (te_signature e) = 64 \<and> ed_verify ed vk (envelope_unsigned_bytes e) (te_signature e)"
  by (auto simp: envelope_verify_def and_then_Inr)

lemma envelope_bytes_signature [simp]:
  "envelope_unsigned_bytes (e\<lparr>te_signature := s\<rparr>) = envelope_unsigned_bytes e"
  "envelope_validate_unsigned (e\<lparr>te_signature := s\<rparr>) = envelope_validate_unsigned e"
  by (simp_all add: envelope_unsigned_bytes_def envelope_validate_unsigned_def)

lemma receipt_bytes_signature [simp]:
  "receipt_unsigned_bytes (r\<lparr>dr_signature := s\<rparr>) = receipt_unsigned_bytes r"
  "receipt_validate_unsigned (r\<lparr>dr_signature := s\<rparr>) = receipt_validate_unsigned r"
  by (simp_all add: receipt_unsigned_bytes_def receipt_validate_unsigned_def)

lemma unsigned_fields [simp]:
  "te_group_id_commitment (unsigned_envelope gc i) = gc" "te_epoch (unsigned_envelope gc i) = ti_epoch i"
  "te_sender_leaf (unsigned_envelope gc i) = ti_sender_leaf i" "te_sender_device_id (unsigned_envelope gc i) = ti_sender_device_id i"
  "te_sequence (unsigned_envelope gc i) = ti_sequence i" "te_message_id (unsigned_envelope gc i) = ti_message_id i"
  "te_retention (unsigned_envelope gc i) = ti_retention i" "te_content_ciphertext (unsigned_envelope gc i) = ti_content_ciphertext i"
  "dr_group_id_commitment (unsigned_receipt gc j) = gc" "dr_message_id (unsigned_receipt gc j) = di_message_id j"
  "dr_envelope_ciphertext_hash (unsigned_receipt gc j) = di_envelope_ciphertext_hash j"
  by (simp_all add: unsigned_envelope_def unsigned_receipt_def)

lemma envelope_sign_verify:
  assumes "ed25519_correct ed" and "envelope_sign sha256 ed group_id i sk = Inr e"
  shows "envelope_verify sha256 ed e group_id (ed_public ed sk) = Inr ()"
  using assms by (auto simp: envelope_sign_def envelope_verify_Inr and_then_Inr Let_def ed25519_correct_def)

lemma receipt_sign_verify:
  assumes "ed25519_correct ed" and "receipt_sign sha256 ed group_id i sk = Inr r"
    and "di_message_id i = te_message_id e" and "di_envelope_ciphertext_hash i = ciphertext_hash sha256 e"
  shows "receipt_verify sha256 ed r group_id e (ed_public ed sk) = Inr ()"
  using assms by (auto simp: receipt_sign_def receipt_verify_def and_then_Inr Let_def ed25519_correct_def)


definition demo_input :: text_message_envelope_input where
  "demo_input = \<lparr>ti_epoch = 7, ti_sender_leaf = 5, ti_sender_device_id = ''phone'', ti_sequence = 9, ti_message_id = ''m9'',
     ti_retention = text_retention_new ''week'' 100 (Some 200) False, ti_content_ciphertext = [42]\<rparr>"

definition demo_commitment :: bytes where
  "demo_commitment = sha_demo (str_bytes ''discrypt-text-group-id-v1'' @ u64_be 5 @ str_bytes ''group'')"

definition demo_text_envelope :: text_message_envelope where
  "demo_text_envelope = (unsigned_envelope demo_commitment demo_input)\<lparr>te_signature := replicate 64 0\<rparr>"

lemma demo_valid:
  "group_id_commitment sha_demo ''group'' = Inr demo_commitment" "demo_commitment \<noteq> replicate 32 0"
  "text_retention_validate (ti_retention demo_input) = Inr ()"
  "\<not> blank (ti_sender_device_id demo_input)" "\<not> blank (ti_message_id demo_input)"
  by code_simp+

lemma demo_text_envelope_valid: "envelope_validate_unsigned (unsigned_envelope demo_commitment demo_input) = Inr ()"
  using demo_valid by (simp add: envelope_validate_unsigned_def) (simp add: unsigned_envelope_def demo_input_def)

lemma demo_text_envelope_signed: "envelope_sign sha_demo ed_demo ''group'' demo_input 3 = Inr demo_text_envelope"
  using demo_valid(1) demo_text_envelope_valid by (simp add: envelope_sign_def demo_text_envelope_def) (simp add: ed_demo_def)

lemma demo_text_envelope_typed: "envelope_typed demo_text_envelope"
  by (simp add: envelope_typed_def retention_typed_def demo_text_envelope_def demo_commitment_def)
    (simp add: demo_input_def text_retention_new_def)


end
