(* ===== verification/Text_Pipeline.thy ===== *)
theory Text_Pipeline
  imports Text_Envelope Abuse
begin

text \<open>
  The outbound and inbound text pipelines (\<open>crates/mls-delivery/src/lib.rs\<close>). The adapter traits
  \<open>TextAuthorLogStore\<close>, \<open>TextOutboundTransport\<close>, \<open>TextSendEventSink\<close>, \<open>TextRecipientStore\<close> and
  \<open>TextReceiveEventSink\<close> are records of functions on the adapter's own state; a \<open>Result\<close> comes with the state
  after the call. The contract of well-behaved outbound adapters is the locale \<open>outbound_contract\<close>, which the in-memory
  adapters of the crate discharge. Shown: nothing goes on the wire that was not logged before, every outcome is reported
  once, a sent message decrypts at the receiver and is refused when it comes again, and the replay
  state of the receiver is the set of occupied author slots.
\<close>

section \<open>Outbound data and seams\<close>

record text_selected_route =
  sr_session_id :: string
  sr_route_label :: string
  sr_overlay_hops :: u8
  sr_ciphertext_only :: bool

record text_author_log_envelope =
  al_channel_id :: string
  al_envelope :: text_message_envelope
  al_sent_at_ms :: nat

record text_outbound_frame =
  of_session_id :: string
  of_route_label :: string
  of_payload :: bytes

datatype text_send_event_kind = Pending | TransportAccepted | ReceiptVerified | SendError

record text_send_event =
  se_message_id :: string
  se_kind :: text_send_event_kind
  se_error :: "string option"

definition send_event_pending :: "string \<Rightarrow> text_send_event" where
  "send_event_pending message_id = \<lparr>se_message_id = message_id, se_kind = Pending, se_error = None\<rparr>"

definition send_event_transport_accepted :: "string \<Rightarrow> text_send_event" where
  "send_event_transport_accepted message_id = \<lparr>se_message_id = message_id, se_kind = TransportAccepted, se_error = None\<rparr>"

definition send_event_error :: "string \<Rightarrow> delivery_error \<Rightarrow> text_send_event" where
  "send_event_error message_id error =
     \<lparr>se_message_id = message_id, se_kind = SendError, se_error = Some (delivery_error_str error)\<rparr>"

record text_send_receipt =
  ts_message_id :: string
  ts_envelope :: text_message_envelope
  ts_route :: text_selected_route

type_synonym 's fallible = "'s \<times> (delivery_error + unit)"

record ('l, 'w, 'e) outbound_seams =
  append_author_log :: "'l \<Rightarrow> text_author_log_envelope \<Rightarrow> 'l fallible"
  send_text_frame :: "'w \<Rightarrow> text_selected_route \<Rightarrow> text_outbound_frame \<Rightarrow> 'w fallible"
  emit_text_send_event :: "'e \<Rightarrow> text_send_event \<Rightarrow> 'e fallible"

record ('l, 'w, 'e) text_outbound_pipeline =
  op_author_log :: 'l
  op_transport :: 'w
  op_events :: 'e

section \<open>Sending\<close>

text \<open>The part of \<open>send_inner\<close> before the first call of an adapter.\<close>

definition seal_envelope ::
  "(bytes \<Rightarrow> bytes) \<Rightarrow> 'sk ed25519 \<Rightarrow> aead \<Rightarrow> 't text_outbound_request \<Rightarrow> text_selected_route \<Rightarrow> bytes \<Rightarrow> 'sk
     \<Rightarrow> delivery_error + text_message_envelope" where
  "seal_envelope sha256 ed ae q route secret signing_key =
     and_then (ensure (sr_ciphertext_only route) TextOutboundRouteNotCiphertextOnly) (\<lambda>_.
     and_then (text_message_encryption_aad sha256 q) (\<lambda>aad.
     let content_key = derive_text_message_content_key sha256 secret q;
         nonce = text_message_nonce sha256 content_key (or_message_id q) (or_sequence q)
     in and_then (encrypt_text_plaintext ae content_key nonce aad (or_plaintext q)) (\<lambda>ciphertext.
        envelope_sign sha256 ed (or_group_id q)
          \<lparr>ti_epoch = or_epoch q, ti_sender_leaf = or_sender_leaf q, ti_sender_device_id = or_sender_device_id q,
           ti_sequence = or_sequence q, ti_message_id = or_message_id q, ti_retention = or_retention q,
           ti_content_ciphertext = ciphertext\<rparr> signing_key)))"

text \<open>The \<open>?\<close> operator after a call of an adapter: an error ends the pipeline in the state it reached.\<close>

definition on_ok :: "delivery_error + unit \<Rightarrow> 's \<Rightarrow> 's \<times> (delivery_error + 'a) \<Rightarrow> 's \<times> (delivery_error + 'a)" where
  "on_ok r s k = (case r of Inl e \<Rightarrow> (s, Inl e) | Inr _ \<Rightarrow> k)"

definition send_inner ::
  "(bytes \<Rightarrow> bytes) \<Rightarrow> 'sk ed25519 \<Rightarrow> aead \<Rightarrow> ('l, 'w, 'e) outbound_seams \<Rightarrow> ('l, 'w, 'e) text_outbound_pipeline
     \<Rightarrow> 't text_outbound_request \<Rightarrow> text_selected_route \<Rightarrow> bytes \<Rightarrow> 'sk
     \<Rightarrow> ('l, 'w, 'e) text_outbound_pipeline \<times> (delivery_error + text_send_receipt)" where
  "send_inner sha256 ed ae A p q route secret signing_key =
     (case seal_envelope sha256 ed ae q route secret signing_key of
        Inl e \<Rightarrow> (p, Inl e)
      | Inr envelope \<Rightarrow>
          (let (l, r) = append_author_log A (op_author_log p)
                 \<lparr>al_channel_id = or_channel_id q, al_envelope = envelope, al_sent_at_ms = or_sent_at_ms q\<rparr>;
               p = p\<lparr>op_author_log := l\<rparr>
           in on_ok r p
          (let (ev, r) = emit_text_send_event A (op_events p) (send_event_pending (or_message_id q));
               p = p\<lparr>op_events := ev\<rparr>
           in on_ok r p
          (let (w, r) = send_text_frame A (op_transport p) route
                 \<lparr>of_session_id = sr_session_id route, of_route_label = sr_route_label route,
                  of_payload = envelope_signed_bytes envelope\<rparr>;
               p = p\<lparr>op_transport := w\<rparr>
           in on_ok r p
          (let (ev, r) = emit_text_send_event A (op_events p) (send_event_transport_accepted (or_message_id q));
               p = p\<lparr>op_events := ev\<rparr>
           in on_ok r p (p, Inr \<lparr>ts_message_id = or_message_id q, ts_envelope = envelope, ts_route = route\<rparr>))))))"

definition text_send ::
  "(bytes \<Rightarrow> bytes) \<Rightarrow> 'sk ed25519 \<Rightarrow> aead \<Rightarrow> ('l, 'w, 'e) outbound_seams \<Rightarrow> ('l, 'w, 'e) text_outbound_pipeline
     \<Rightarrow> 't text_outbound_request \<Rightarrow> text_selected_route \<Rightarrow> bytes \<Rightarrow> 'sk
     \<Rightarrow> ('l, 'w, 'e) text_outbound_pipeline \<times> (delivery_error + text_send_receipt)" where
  "text_send sha256 ed ae A p q route secret signing_key =
     (case send_inner sha256 ed ae A p q route secret signing_key of
        (p', Inr receipt) \<Rightarrow> (p', Inr receipt)
      | (p', Inl error) \<Rightarrow>
          (p'\<lparr>op_events := fst (emit_text_send_event A (op_events p') (send_event_error (or_message_id q) error))\<rparr>, Inl error))"

text \<open>The abuse gate is a trait as well; \<open>AbuseControls\<close> implements it with its message limiter.\<close>

type_synonym ('g, 't) abuse_gate = "'g \<Rightarrow> string \<Rightarrow> string \<Rightarrow> 't \<Rightarrow> 'g \<times> bool"

definition allow_text_send :: "('t::linorder, 'd) chrono \<Rightarrow> (('t, 'd) abuse_controls, 't) abuse_gate" where
  "allow_text_send C s sender_device_id conversation_id now =
     allow_message C s (sender_device_id @ '':'' @ conversation_id) now"

definition send_with_abuse_gate ::
  "(bytes \<Rightarrow> bytes) \<Rightarrow> 'sk ed25519 \<Rightarrow> aead \<Rightarrow> ('l, 'w, 'e) outbound_seams \<Rightarrow> ('g, 't) abuse_gate
     \<Rightarrow> ('l, 'w, 'e) text_outbound_pipeline \<Rightarrow> 'g \<Rightarrow> 't text_outbound_request \<Rightarrow> text_selected_route \<Rightarrow> bytes \<Rightarrow> 'sk
     \<Rightarrow> ('l, 'w, 'e) text_outbound_pipeline \<times> 'g \<times> (delivery_error + text_send_receipt)" where
  "send_with_abuse_gate sha256 ed ae A allow p g q route secret signing_key =
     (let abuse_key = or_group_id q @ '':'' @ or_channel_id q;
          (g, allowed) = allow g (or_sender_device_id q) abuse_key (or_now q)
      in if \<not> allowed
         then (p\<lparr>op_events := fst (emit_text_send_event A (op_events p)
                 (send_event_error (or_message_id q) (TextSendRateLimited abuse_key)))\<rparr>, g, Inl (TextSendRateLimited abuse_key))
         else (case text_send sha256 ed ae A p q route secret signing_key of (p, r) \<Rightarrow> (p, g, r)))"

section \<open>In-memory outbound adapters\<close>

record in_memory_text_transport =
  mt_frames :: "text_outbound_frame list"
  mt_fail_next :: bool

definition mem_append_author_log :: "text_author_log_envelope list \<Rightarrow> text_author_log_envelope \<Rightarrow> text_author_log_envelope list fallible" where
  "mem_append_author_log entries entry = (entries @ [entry], Inr ())"

definition mem_send_text_frame ::
  "in_memory_text_transport \<Rightarrow> text_selected_route \<Rightarrow> text_outbound_frame \<Rightarrow> in_memory_text_transport fallible" where
  "mem_send_text_frame w route frame =
     (if \<not> sr_ciphertext_only route then (w, Inl TextOutboundRouteNotCiphertextOnly)
      else if mt_fail_next w then (w\<lparr>mt_fail_next := False\<rparr>, Inl (TextOutboundAdapter ''transport send failed''))
      else (w\<lparr>mt_frames := mt_frames w @ [frame]\<rparr>, Inr ()))"

definition mem_emit_text_send_event :: "text_send_event list \<Rightarrow> text_send_event \<Rightarrow> text_send_event list fallible" where
  "mem_emit_text_send_event events event = (events @ [event], Inr ())"

type_synonym mem_outbound =
  "(text_author_log_envelope list, in_memory_text_transport, text_send_event list) text_outbound_pipeline"

definition mem_outbound ::
  "(text_author_log_envelope list, in_memory_text_transport, text_send_event list) outbound_seams" where
  "mem_outbound = \<lparr>append_author_log = mem_append_author_log, send_text_frame = mem_send_text_frame,
     emit_text_send_event = mem_emit_text_send_event\<rparr>"

definition mem_outbound_new :: mem_outbound where
  "mem_outbound_new = \<lparr>op_author_log = [], op_transport = \<lparr>mt_frames = [], mt_fail_next = False\<rparr>, op_events = []\<rparr>"

section \<open>Receiving\<close>

record text_received_envelope =
  rv_channel_id :: string
  rv_envelope :: text_message_envelope
  rv_received_at_ms :: nat

datatype text_render_state = Decrypted bytes | RenderLocked string

record text_renderable_message =
  rm_message_id :: string
  rm_sender_leaf :: nat
  rm_sequence :: nat
  rm_state :: text_render_state

datatype text_receive_event_kind = Updated | ReceiveError

record text_receive_event =
  re_message_id :: string
  re_kind :: text_receive_event_kind
  re_error :: "string option"

definition receive_event_updated :: "string \<Rightarrow> text_receive_event" where
  "receive_event_updated message_id = \<lparr>re_message_id = message_id, re_kind = Updated, re_error = None\<rparr>"

definition receive_event_error :: "string \<Rightarrow> delivery_error \<Rightarrow> text_receive_event" where
  "receive_event_error message_id error =
     \<lparr>re_message_id = message_id, re_kind = ReceiveError, re_error = Some (delivery_error_str error)\<rparr>"

record text_inbound_request =
  ir_group_id :: string
  ir_channel_id :: string
  ir_current_epoch :: nat
  ir_authorized_sender_leaves :: "nat btreeset"
  ir_envelope :: text_message_envelope
  ir_received_at_ms :: nat
  ir_retention_allows_decrypt :: bool

record ('s, 'e) inbound_seams =
  persist_received :: "'s \<Rightarrow> text_received_envelope \<Rightarrow> 's fallible"
  emit_text_receive_event :: "'e \<Rightarrow> text_receive_event \<Rightarrow> 'e fallible"

type_synonym text_receive_state = "(nat \<times> nat \<times> string) btreeset"

text \<open>\<open>range(start..).next()\<close> is the first element, in ascending order, that is not below \<open>start\<close>.\<close>

definition receive_state_accept :: "text_receive_state \<Rightarrow> text_message_envelope \<Rightarrow> delivery_error + text_receive_state" where
  "receive_state_accept seen e =
     (if (case find (\<lambda>k. (te_sender_leaf e, te_sequence e, []) \<le> k) (bs_elems seen) of
            Some (sender_leaf, sequence, _) \<Rightarrow> sender_leaf = te_sender_leaf e \<and> sequence = te_sequence e
          | None \<Rightarrow> False)
      then Inl (TextReceiveReplay (te_sender_leaf e) (te_sequence e))
      else Inr (bs_insert (te_sender_leaf e, te_sequence e, te_message_id e) seen))"

record ('s, 'e) text_inbound_pipeline =
  ip_state :: text_receive_state
  ip_store :: 's
  ip_events :: 'e

text \<open>The checks of \<open>receive_inner\<close> that precede the replay state.\<close>

definition receive_checks ::
  "(bytes \<Rightarrow> bytes) \<Rightarrow> 'sk ed25519 \<Rightarrow> text_inbound_request \<Rightarrow> bytes \<Rightarrow> delivery_error + unit" where
  "receive_checks sha256 ed q verifying_key =
     (let e = ir_envelope q
      in and_then (envelope_verify sha256 ed e (ir_group_id q) verifying_key) (\<lambda>_.
         and_then (ensure (\<not> te_epoch e < ir_current_epoch q) (TextReceiveDowngrade (ir_current_epoch q) (te_epoch e))) (\<lambda>_.
         and_then (ensure (\<not> te_epoch e > ir_current_epoch q) (TextReceiveFork (ir_current_epoch q) (te_epoch e))) (\<lambda>_.
           ensure (bs_member (ir_authorized_sender_leaves q) (te_sender_leaf e)) (TextReceiveUnauthorizedSender (te_sender_leaf e))))))"

definition render_state ::
  "(bytes \<Rightarrow> bytes) \<Rightarrow> aead \<Rightarrow> 't \<Rightarrow> text_inbound_request \<Rightarrow> bytes \<Rightarrow> delivery_error + text_render_state" where
  "render_state sha256 ae now q secret =
     (if ir_retention_allows_decrypt q
      then and_then (decrypt_text_envelope sha256 ae now (ir_group_id q) secret (ir_envelope q)) (\<lambda>m. Inr (Decrypted m))
      else Inr (RenderLocked ''retention policy requires live key before plaintext render''))"

definition receive_inner ::
  "(bytes \<Rightarrow> bytes) \<Rightarrow> 'sk ed25519 \<Rightarrow> aead \<Rightarrow> ('s, 'e) inbound_seams \<Rightarrow> 't \<Rightarrow> ('s, 'e) text_inbound_pipeline
     \<Rightarrow> text_inbound_request \<Rightarrow> bytes \<Rightarrow> bytes \<Rightarrow> ('s, 'e) text_inbound_pipeline \<times> (delivery_error + text_renderable_message)" where
  "receive_inner sha256 ed ae B now p q secret verifying_key =
     (case and_then (receive_checks sha256 ed q verifying_key) (\<lambda>_. receive_state_accept (ip_state p) (ir_envelope q)) of
        Inl e \<Rightarrow> (p, Inl e)
      | Inr seen \<Rightarrow>
          (let (s, r) = persist_received B (ip_store p)
                 \<lparr>rv_channel_id = ir_channel_id q, rv_envelope = ir_envelope q, rv_received_at_ms = ir_received_at_ms q\<rparr>;
               p = p\<lparr>ip_state := seen, ip_store := s\<rparr>
           in on_ok r p
          (case render_state sha256 ae now q secret of
             Inl e \<Rightarrow> (p, Inl e)
           | Inr state \<Rightarrow>
               (let (ev, r) = emit_text_receive_event B (ip_events p) (receive_event_updated (te_message_id (ir_envelope q)));
                    p = p\<lparr>ip_events := ev\<rparr>
                in on_ok r p
                  (p, Inr \<lparr>rm_message_id = te_message_id (ir_envelope q), rm_sender_leaf = te_sender_leaf (ir_envelope q),
                           rm_sequence = te_sequence (ir_envelope q), rm_state = state\<rparr>)))))"

definition text_receive ::
  "(bytes \<Rightarrow> bytes) \<Rightarrow> 'sk ed25519 \<Rightarrow> aead \<Rightarrow> ('s, 'e) inbound_seams \<Rightarrow> 't \<Rightarrow> ('s, 'e) text_inbound_pipeline
     \<Rightarrow> text_inbound_request \<Rightarrow> bytes \<Rightarrow> bytes \<Rightarrow> ('s, 'e) text_inbound_pipeline \<times> (delivery_error + text_renderable_message)" where
  "text_receive sha256 ed ae B now p q secret verifying_key =
     (case receive_inner sha256 ed ae B now p q secret verifying_key of
        (p', Inr m) \<Rightarrow> (p', Inr m)
      | (p', Inl error) \<Rightarrow>
          (p'\<lparr>ip_events := fst (emit_text_receive_event B (ip_events p')
              (receive_event_error (te_message_id (ir_envelope q)) error))\<rparr>, Inl error))"

definition mem_persist_received :: "text_received_envelope list \<Rightarrow> text_received_envelope \<Rightarrow> text_received_envelope list fallible" where
  "mem_persist_received entries entry = (entries @ [entry], Inr ())"

definition mem_emit_text_receive_event :: "text_receive_event list \<Rightarrow> text_receive_event \<Rightarrow> text_receive_event list fallible" where
  "mem_emit_text_receive_event events event = (events @ [event], Inr ())"

definition mem_inbound :: "(text_received_envelope list, text_receive_event list) inbound_seams" where
  "mem_inbound = \<lparr>persist_received = mem_persist_received, emit_text_receive_event = mem_emit_text_receive_event\<rparr>"

section \<open>The contract of the outbound adapters\<close>

text \<open>
  What a pipeline relies on: an adapter that reports success has recorded exactly what it was given, and one that reports an
  error has recorded nothing.
\<close>

lemma send_event_fields [simp]:
  "se_kind (send_event_pending m) = Pending" "se_kind (send_event_transport_accepted m) = TransportAccepted"
  "se_kind (send_event_error m e) = SendError" "se_message_id (send_event_transport_accepted m) = m"
  "se_error (send_event_error m e) = Some (delivery_error_str e)"
  by (simp_all add: send_event_pending_def send_event_transport_accepted_def send_event_error_def)

locale outbound_contract =
  fixes A :: "('l, 'w, 'e) outbound_seams"
    and logged :: "'l \<Rightarrow> text_author_log_envelope list"
    and frames :: "'w \<Rightarrow> text_outbound_frame list"
    and emitted :: "'e \<Rightarrow> text_send_event list"
  assumes append_log: "append_author_log A l x = (l', r) \<Longrightarrow> logged l' = logged l @ (if is_ok r then [x] else [])"
    and send_frame: "send_text_frame A w route f = (w', r) \<Longrightarrow> frames w' = frames w @ (if is_ok r then [f] else [])"
    and emit_event: "emit_text_send_event A ev m = (ev', r) \<Longrightarrow> emitted ev' = emitted ev @ (if is_ok r then [m] else [])"
begin

definition wire_logged :: "('l, 'w, 'e) text_outbound_pipeline \<Rightarrow> bool" where
  "wire_logged p \<longleftrightarrow>
     (\<forall>f \<in> set (frames (op_transport p)). \<exists>x \<in> set (logged (op_author_log p)). of_payload f = envelope_signed_bytes (al_envelope x))"

definition claims_sent :: "('l, 'w, 'e) text_outbound_pipeline \<Rightarrow> bool" where
  "claims_sent p \<longleftrightarrow>
     length (filter (\<lambda>e. se_kind e = TransportAccepted) (emitted (op_events p))) \<le> length (frames (op_transport p))"

lemma send_inner_safe:
  assumes "wire_logged p" and "claims_sent p"
  shows "wire_logged (fst (send_inner sha256 ed ae A p q route secret sk)) \<and>
    claims_sent (fst (send_inner sha256 ed ae A p q route secret sk))"
proof (cases "seal_envelope sha256 ed ae q route secret sk")
  case (Inl e)
  with assms show ?thesis by (simp add: send_inner_def)
next
  case (Inr envelope)
  let ?x = "\<lparr>al_channel_id = or_channel_id q, al_envelope = envelope, al_sent_at_ms = or_sent_at_ms q\<rparr>"
  let ?f = "\<lparr>of_session_id = sr_session_id route, of_route_label = sr_route_label route, of_payload = envelope_signed_bytes envelope\<rparr>"
  obtain l r1 where a: "append_author_log A (op_author_log p) ?x = (l, r1)" by fastforce
  obtain e1 r2 where b: "emit_text_send_event A (op_events p) (send_event_pending (or_message_id q)) = (e1, r2)" by fastforce
  obtain w r3 where c: "send_text_frame A (op_transport p) route ?f = (w, r3)" by fastforce
  obtain e2 r4 where d: "emit_text_send_event A e1 (send_event_transport_accepted (or_message_id q)) = (e2, r4)" by fastforce
  note facts = append_log[OF a] emit_event[OF b] send_frame[OF c] emit_event[OF d]
  show ?thesis
    using assms facts
    by (cases r1; cases r2; cases r3; cases r4)
      (auto simp: send_inner_def Inr a b c d on_ok_def wire_logged_def claims_sent_def Let_def)
qed

lemma text_send_safe:
  assumes "wire_logged p" and "claims_sent p"
  shows "wire_logged (fst (text_send sha256 ed ae A p q route secret sk)) \<and>
    claims_sent (fst (text_send sha256 ed ae A p q route secret sk))"
proof -
  obtain p' r where s: "send_inner sha256 ed ae A p q route secret sk = (p', r)" by fastforce
  with send_inner_safe[OF assms, of sha256 ed ae q route secret sk]
  have safe: "wire_logged p'" "claims_sent p'" by simp_all
  show ?thesis
  proof (cases r)
    case (Inl error)
    obtain ev r' where e: "emit_text_send_event A (op_events p') (send_event_error (or_message_id q) error) = (ev, r')" by fastforce
    from emit_event[OF e] safe show ?thesis
      by (simp add: text_send_def s Inl e wire_logged_def claims_sent_def)
  next
    case (Inr x)
    with s safe show ?thesis by (simp add: text_send_def)
  qed
qed

lemma gate_send_safe:
  assumes "wire_logged p" and "claims_sent p"
  shows "wire_logged (fst (send_with_abuse_gate sha256 ed ae A allow p g q route secret sk)) \<and>
    claims_sent (fst (send_with_abuse_gate sha256 ed ae A allow p g q route secret sk))"
proof -
  obtain g' ok where g: "allow g (or_sender_device_id q) (or_group_id q @ '':'' @ or_channel_id q) (or_now q) = (g', ok)"
    by fastforce
  obtain p' r where s: "text_send sha256 ed ae A p q route secret sk = (p', r)" by fastforce
  obtain ev r' where e: "emit_text_send_event A (op_events p)
      (send_event_error (or_message_id q) (TextSendRateLimited (or_group_id q @ '':'' @ or_channel_id q))) = (ev, r')" by fastforce
  from emit_event[OF e] text_send_safe[OF assms, of sha256 ed ae q route secret sk] s e g assms show ?thesis
    by (cases ok) (simp_all add: send_with_abuse_gate_def Let_def wire_logged_def claims_sent_def)
qed

end

interpretation mem: outbound_contract mem_outbound "\<lambda>l. l" mt_frames "\<lambda>e. e"
  by unfold_locales
    (auto simp: mem_outbound_def mem_append_author_log_def mem_send_text_frame_def mem_emit_text_send_event_def split: if_split_asm)

section \<open>Ledger of a sequence of sends\<close>

text \<open>
  A sequence of sends over the in-memory adapters behind the abuse gate; each comes with the flag that makes the
  transport fail once.
\<close>

type_synonym 't send_call = "'t text_outbound_request \<times> text_selected_route \<times> bool"

definition arm_transport :: "bool \<Rightarrow> mem_outbound \<Rightarrow> mem_outbound" where
  "arm_transport fail p = p\<lparr>op_transport := (op_transport p)\<lparr>mt_fail_next := fail\<rparr>\<rparr>"

fun send_all ::
  "(bytes \<Rightarrow> bytes) \<Rightarrow> 'sk ed25519 \<Rightarrow> aead \<Rightarrow> ('g, 't) abuse_gate \<Rightarrow> bytes \<Rightarrow> 'sk \<Rightarrow> mem_outbound \<Rightarrow> 'g \<Rightarrow> 't send_call list
     \<Rightarrow> mem_outbound \<times> 'g \<times> (delivery_error + text_send_receipt) list" where
  "send_all sha256 ed ae allow secret sk p g [] = (p, g, [])"
| "send_all sha256 ed ae allow secret sk p g ((q, route, fail) # calls) =
     (case send_with_abuse_gate sha256 ed ae mem_outbound allow (arm_transport fail p) g q route secret sk of
        (p, g, r) \<Rightarrow> (case send_all sha256 ed ae allow secret sk p g calls of (p, g, rs) \<Rightarrow> (p, g, r # rs)))"

definition successes :: "('e + 'a) list \<Rightarrow> 'a list" where
  "successes rs = List.map_filter (\<lambda>r. case r of Inr x \<Rightarrow> Some x | Inl _ \<Rightarrow> None) rs"

definition failures :: "('e + 'a) list \<Rightarrow> 'e list" where
  "failures rs = List.map_filter (\<lambda>r. case r of Inl e \<Rightarrow> Some e | Inr _ \<Rightarrow> None) rs"

lemma successes_simps [simp]:
  "successes [] = []" "successes (Inr x # rs) = x # successes rs" "successes (Inl e # rs) = successes rs"
  "failures [] = []" "failures (Inl e # rs) = e # failures rs" "failures (Inr x # rs) = failures rs"
  by (simp_all add: successes_def failures_def List.map_filter_simps)

definition events_of :: "text_send_event_kind \<Rightarrow> text_send_event list \<Rightarrow> text_send_event list" where
  "events_of k es = filter (\<lambda>e. se_kind e = k) es"

lemma events_of_append [simp]: "events_of k (xs @ ys) = events_of k xs @ events_of k ys"
  by (simp add: events_of_def)

text \<open>What one call appends to the three adapters.\<close>

lemma gate_send_effect:
  assumes "send_with_abuse_gate sha256 ed ae mem_outbound allow p g q route secret sk = (p', g', r)"
  shows "\<exists>xs es. op_author_log p' = op_author_log p @ xs \<and> op_events p' = op_events p @ es \<and>
    subseq (map ts_envelope (successes [r])) (map al_envelope xs) \<and>
    mt_frames (op_transport p') = mt_frames (op_transport p) @
      map (\<lambda>x. \<lparr>of_session_id = sr_session_id (ts_route x), of_route_label = sr_route_label (ts_route x), of_payload = envelope_signed_bytes (ts_envelope x)\<rparr>) (successes [r]) \<and>
    map se_message_id (events_of TransportAccepted es) = map ts_message_id (successes [r]) \<and>
    map se_error (events_of SendError es) = map (\<lambda>e. Some (delivery_error_str e)) (failures [r]) \<and>
    length (events_of Pending es) = length xs"
proof -
  obtain g1 ok where g: "allow g (or_sender_device_id q) (or_group_id q @ '':'' @ or_channel_id q) (or_now q) = (g1, ok)"
    by fastforce
  note defs = send_with_abuse_gate_def text_send_def send_inner_def on_ok_def mem_outbound_def mem_append_author_log_def
    mem_emit_text_send_event_def events_of_def Let_def
  show ?thesis
  proof (cases ok)
    case False
    with assms g show ?thesis by (auto simp: defs)
  next
    case ok: True
    show ?thesis
    proof (cases "seal_envelope sha256 ed ae q route secret sk")
      case (Inl e)
      with assms g ok show ?thesis by (auto simp: defs)
    next
      case (Inr envelope)
      then have "sr_ciphertext_only route" by (auto simp: seal_envelope_def and_then_Inr)
      with Inr assms g ok show ?thesis
        by (cases "mt_fail_next (op_transport p)") (auto simp: defs mem_send_text_frame_def)
    qed
  qed
qed

lemma send_all_effect:
  "send_all sha256 ed ae allow secret sk p g calls = (p', g', rs) \<Longrightarrow>
   \<exists>xs es. length rs = length calls \<and> op_author_log p' = op_author_log p @ xs \<and> op_events p' = op_events p @ es \<and>
    subseq (map ts_envelope (successes rs)) (map al_envelope xs) \<and>
    map of_payload (mt_frames (op_transport p')) = map of_payload (mt_frames (op_transport p)) @
      map (\<lambda>x. envelope_signed_bytes (ts_envelope x)) (successes rs) \<and>
    map se_message_id (events_of TransportAccepted es) = map ts_message_id (successes rs) \<and>
    map se_error (events_of SendError es) = map (\<lambda>e. Some (delivery_error_str e)) (failures rs) \<and>
    length (events_of Pending es) = length xs"
proof (induction calls arbitrary: p g rs)
  case Nil
  then show ?case by (simp add: events_of_def)
next
  case (Cons c calls)
  obtain q route fail where c: "c = (q, route, fail)" by (cases c)
  obtain p1 g1 r where one: "send_with_abuse_gate sha256 ed ae mem_outbound allow (arm_transport fail p) g q route secret sk = (p1, g1, r)"
    by (metis surj_pair)
  obtain p2 g2 rs' where rest: "send_all sha256 ed ae allow secret sk p1 g1 calls = (p2, g2, rs')" by (metis surj_pair)
  from Cons.prems c one rest have eq: "p' = p2" "g' = g2" "rs = r # rs'" by simp_all
  have arm: "op_author_log (arm_transport fail p) = op_author_log p" "op_events (arm_transport fail p) = op_events p"
    "mt_frames (op_transport (arm_transport fail p)) = mt_frames (op_transport p)" by (simp_all add: arm_transport_def)
  from gate_send_effect[OF one] Cons.IH[OF rest[folded eq(1,2)]]
  obtain xs es xs' es' where a: "op_author_log p1 = op_author_log p @ xs" "op_events p1 = op_events p @ es"
      "subseq (map ts_envelope (successes [r])) (map al_envelope xs)"
      "map of_payload (mt_frames (op_transport p1)) = map of_payload (mt_frames (op_transport p)) @
        map (\<lambda>x. envelope_signed_bytes (ts_envelope x)) (successes [r])"
      "map se_message_id (events_of TransportAccepted es) = map ts_message_id (successes [r])"
      "map se_error (events_of SendError es) = map (\<lambda>e. Some (delivery_error_str e)) (failures [r])"
      "length (events_of Pending es) = length xs"
    and b: "length rs' = length calls" "op_author_log p' = op_author_log p1 @ xs'" "op_events p' = op_events p1 @ es'"
      "subseq (map ts_envelope (successes rs')) (map al_envelope xs')"
      "map of_payload (mt_frames (op_transport p')) = map of_payload (mt_frames (op_transport p1)) @
        map (\<lambda>x. envelope_signed_bytes (ts_envelope x)) (successes rs')"
      "map se_message_id (events_of TransportAccepted es') = map ts_message_id (successes rs')"
      "map se_error (events_of SendError es') = map (\<lambda>e. Some (delivery_error_str e)) (failures rs')"
      "length (events_of Pending es') = length xs'"
    unfolding arm by (auto simp: comp_def)
  have s: "successes rs = successes [r] @ successes rs'" "failures rs = failures [r] @ failures rs'"
    by (cases r; simp add: eq)+
  have "length rs = length (c # calls)" using b(1) eq(3) by simp
  then show ?case
    using a b by (intro exI[of _ "xs @ xs'"] exI[of _ "es @ es'"]) (simp add: s list_emb_append_mono)
qed

lemma send_all_safe:
  "mem.wire_logged p \<Longrightarrow> mem.claims_sent p \<Longrightarrow> send_all sha256 ed ae allow secret sk p g calls = (p', g', rs) \<Longrightarrow>
     mem.wire_logged p'"
proof (induction calls arbitrary: p g rs)
  case (Cons c calls)
  obtain q route fail where c: "c = (q, route, fail)" by (cases c)
  obtain p1 g1 r where one: "send_with_abuse_gate sha256 ed ae mem_outbound allow (arm_transport fail p) g q route secret sk = (p1, g1, r)"
    by (metis surj_pair)
  have "mem.wire_logged (arm_transport fail p)" "mem.claims_sent (arm_transport fail p)"
    using Cons.prems(1,2) by (simp_all add: mem.wire_logged_def mem.claims_sent_def arm_transport_def)
  then have "mem.wire_logged p1" "mem.claims_sent p1" using mem.gate_send_safe one by (metis fst_conv)+
  with Cons.IH Cons.prems(3) c one show ?case by (auto split: prod.splits)
qed simp

text \<open>
  C22: The ledger of any sequence of sends, whatever the routes, the abuse gate and the failures of the transport: the
  frames on the wire are the signed envelopes of the successful sends in order, each was appended to the author log before it
  was framed, the log holds a pending event for every entry, transport acceptance is reported for exactly the
  successful sends, and every failure is reported once with its error text.
\<close>

theorem send_ledger:
  "case send_all sha256 ed ae allow secret sk mem_outbound_new g calls of (p, g', rs) \<Rightarrow>
     length rs = length calls \<and>
     map of_payload (mt_frames (op_transport p)) = map (\<lambda>x. envelope_signed_bytes (ts_envelope x)) (successes rs) \<and>
     subseq (map ts_envelope (successes rs)) (map al_envelope (op_author_log p)) \<and>
     of_payload ` set (mt_frames (op_transport p)) \<subseteq> (\<lambda>x. envelope_signed_bytes (al_envelope x)) ` set (op_author_log p) \<and>
     length (events_of Pending (op_events p)) = length (op_author_log p) \<and>
     map se_message_id (events_of TransportAccepted (op_events p)) = map ts_message_id (successes rs) \<and>
     map se_error (events_of SendError (op_events p)) = map (\<lambda>e. Some (delivery_error_str e)) (failures rs)"
proof -
  obtain p g' rs where run: "send_all sha256 ed ae allow secret sk mem_outbound_new g calls = (p, g', rs)" by (metis surj_pair)
  have "mem.wire_logged mem_outbound_new" "mem.claims_sent mem_outbound_new"
    by (simp_all add: mem.wire_logged_def mem.claims_sent_def mem_outbound_new_def)
  from send_all_safe[OF this run]
  have "of_payload ` set (mt_frames (op_transport p)) \<subseteq> (\<lambda>x. envelope_signed_bytes (al_envelope x)) ` set (op_author_log p)"
    by (auto simp: mem.wire_logged_def)
  with send_all_effect[OF run] run show ?thesis by (auto simp: mem_outbound_new_def)
qed

section \<open>The gate admits what the rate limiter admits\<close>

definition rate_limited :: "delivery_error + 'a \<Rightarrow> bool" where
  "rate_limited r = (case r of Inl (TextSendRateLimited _) \<Rightarrow> True | _ \<Rightarrow> False)"

definition abuse_call :: "'t send_call \<Rightarrow> string \<times> 't" where
  "abuse_call c = (case c of (q, _, _) \<Rightarrow>
     (or_sender_device_id q @ '':'' @ or_group_id q @ '':'' @ or_channel_id q, or_now q))"

lemma seal_not_rate_limited: "seal_envelope sha256 ed ae q route secret sk \<noteq> Inl (TextSendRateLimited k)"
  by (auto simp: seal_envelope_def and_then_Inl res text_message_encryption_aad_def group_id_commitment_def
      encrypt_text_plaintext_def envelope_sign_def envelope_validate_unsigned_def text_retention_validate_def Let_def)

lemma text_send_not_rate_limited: "\<not> rate_limited (snd (text_send sha256 ed ae mem_outbound p q route secret sk))"
proof (cases "seal_envelope sha256 ed ae q route secret sk")
  case (Inl e)
  with seal_not_rate_limited[of sha256 ed ae q route secret sk] show ?thesis
    by (cases e) (auto simp: text_send_def send_inner_def rate_limited_def)
next
  case (Inr x)
  then show ?thesis
    by (auto simp: text_send_def send_inner_def on_ok_def rate_limited_def mem_outbound_def mem_append_author_log_def
        mem_emit_text_send_event_def mem_send_text_frame_def Let_def)
qed

lemma send_all_rate_run:
  "send_all sha256 ed ae (allow_text_send C) secret sk p g calls = (p', g', rs) \<Longrightarrow>
     map (\<lambda>r. \<not> rate_limited r) rs = map decision_allowed (rate_run C (ac_spam_limiter g) (map abuse_call calls))"
proof (induction calls arbitrary: p g p' g' rs)
  case (Cons c calls)
  obtain q route fail where c: "c = (q, route, fail)" by (cases c)
  let ?key = "or_sender_device_id q @ '':'' @ or_group_id q @ '':'' @ or_channel_id q"
  obtain l d where d: "rate_decision C (ac_spam_limiter g) ?key (or_now q) = (l, d)" by (cases "rate_decision C (ac_spam_limiter g) ?key (or_now q)")
  obtain p1 g1 r where one: "send_with_abuse_gate sha256 ed ae mem_outbound (allow_text_send C) (arm_transport fail p) g q route secret sk = (p1, g1, r)"
    by (metis surj_pair)
  obtain p2 g2 rs' where rest: "send_all sha256 ed ae (allow_text_send C) secret sk p1 g1 calls = (p2, g2, rs')" by (metis surj_pair)
  from Cons.prems c one rest have rs: "rs = r # rs'" by simp
  have gate: "ac_spam_limiter g1 = l \<and> rate_limited r = (\<not> decision_allowed d)"
  proof (cases "decision_allowed d")
    case True
    with one d text_send_not_rate_limited[of sha256 ed ae "arm_transport fail p" q route secret sk] show ?thesis
      by (auto simp: send_with_abuse_gate_def allow_text_send_def allow_message_def message_decision_def Let_def split: prod.splits)
  next
    case False
    with one d show ?thesis
      by (auto simp: send_with_abuse_gate_def allow_text_send_def allow_message_def message_decision_def Let_def rate_limited_def)
  qed
  with Cons.IH[OF rest] d show ?case by (simp add: rs c abuse_call_def)
qed simp

text \<open>
  Behind the production gate, with a clock that never runs backwards, a send is refused as rate-limited exactly when
  the limit of the device's admitted sends in that conversation lie in the window that ends now.
\<close>

theorem text_sends_rate_limited:
  assumes "limit < 2 ^ 32" and "sorted (map (\<lambda>(q, _). or_now q) calls)"
    and "send_all sha256 ed ae (allow_text_send C) secret sk p (abuse_controls_new invites limit window) calls = (p', g', rs)"
  shows "map (\<lambda>r. \<not> rate_limited r) rs = rate_spec_run C (max limit 1) window [] (map abuse_call calls)"
proof -
  let ?l = "rate_limiter_new limit window"
  have l: "ac_spam_limiter (abuse_controls_new invites limit window) = ?l" by (simp add: abuse_controls_new_def)
  have "map snd (map abuse_call calls) = map (\<lambda>(q, _). or_now q) calls"
    by (auto simp: abuse_call_def split: prod.splits)
  with assms(2) have "sorted (map snd (map abuse_call calls))" by (simp only:)
  then have "map decision_allowed (rate_run C ?l (map abuse_call calls)) = rate_spec_run C (max limit 1) window [] (map abuse_call calls)"
    using assms(1) rate_run_spec[of ?l C "[]" "map abuse_call calls"]
    by (simp add: rate_limiter_new_def rate_tracks_def rate_hits_def)
  with send_all_rate_run[OF assms(3)] show ?thesis by (simp add: l)
qed

section \<open>The replay state is a set of slots\<close>

lemma find_ge_sorted:
  fixes xs :: "'a::linorder list"
  assumes "sorted xs"
  shows "find (\<lambda>k. a \<le> k) xs = Some m \<Longrightarrow> m \<in> set xs \<and> a \<le> m \<and> (\<forall>x \<in> set xs. a \<le> x \<longrightarrow> m \<le> x)"
  using assms by (induction xs) (auto split: if_split_asm)

definition slots :: "text_receive_state \<Rightarrow> (nat \<times> nat) set" where
  "slots seen = (\<lambda>(leaf, sequence, _). (leaf, sequence)) ` bs_set seen"

definition slot_of :: "text_message_envelope \<Rightarrow> nat \<times> nat" where
  "slot_of e = (te_sender_leaf e, te_sequence e)"

lemma receive_state_accept_slots:
  "receive_state_accept seen e =
     (if slot_of e \<in> slots seen then Inl (TextReceiveReplay (te_sender_leaf e) (te_sequence e))
      else Inr (bs_insert (te_sender_leaf e, te_sequence e, te_message_id e) seen))"
proof -
  let ?a = "(te_sender_leaf e, te_sequence e, [] :: string)"
  have sorted: "sorted (bs_elems seen)" by (simp add: bs_elems_sorted_list)
  have "(case find (\<lambda>k. ?a \<le> k) (bs_elems seen) of
            Some (sender_leaf, sequence, _) \<Rightarrow> sender_leaf = te_sender_leaf e \<and> sequence = te_sequence e
          | None \<Rightarrow> False) \<longleftrightarrow> slot_of e \<in> slots seen"
  proof (cases "find (\<lambda>k. ?a \<le> k) (bs_elems seen)")
    case None
    then have "\<not> ?a \<le> k" if "k \<in> bs_set seen" for k using that unfolding find_None_iff set_bs_elems by blast
    then have "slot_of e \<notin> slots seen" by (force simp: slots_def slot_of_def less_eq_prod_def)
    with None show ?thesis by simp
  next
    case (Some m)
    obtain l s i where m: "m = (l, s, i)" by (cases m)
    from find_ge_sorted[OF sorted Some] have f: "m \<in> bs_set seen" "?a \<le> m" "\<And>x. x \<in> bs_set seen \<Longrightarrow> ?a \<le> x \<Longrightarrow> m \<le> x"
      by simp_all
    have "l = te_sender_leaf e \<and> s = te_sequence e" if "slot_of e \<in> slots seen"
    proof -
      from that obtain j where j: "(te_sender_leaf e, te_sequence e, j) \<in> bs_set seen" by (auto simp: slots_def slot_of_def)
      have "?a \<le> (te_sender_leaf e, te_sequence e, j)" by simp
      with f(3) j have "m \<le> (te_sender_leaf e, te_sequence e, j)" by blast
      with f(2) m show ?thesis by (auto simp: less_eq_prod_def)
    qed
    moreover have "slot_of e \<in> slots seen" if "l = te_sender_leaf e" "s = te_sequence e"
      using f(1) m that by (force simp: slots_def slot_of_def)
    ultimately show ?thesis using Some m by auto
  qed
  then show ?thesis by (simp add: receive_state_accept_def)
qed

lemma slots_insert [simp]: "slots (bs_insert (l, s, i) seen) = insert (l, s) (slots seen)"
  by (simp add: slots_def)

fun accept_all :: "text_receive_state \<Rightarrow> text_message_envelope list \<Rightarrow> (delivery_error + unit) list" where
  "accept_all seen [] = []"
| "accept_all seen (e # es) =
     (case receive_state_accept seen e of
        Inl err \<Rightarrow> Inl err # accept_all seen es
      | Inr seen' \<Rightarrow> Inr () # accept_all seen' es)"

fun slot_spec :: "(nat \<times> nat) set \<Rightarrow> text_message_envelope list \<Rightarrow> (delivery_error + unit) list" where
  "slot_spec S [] = []"
| "slot_spec S (e # es) =
     (if slot_of e \<in> S then Inl (TextReceiveReplay (te_sender_leaf e) (te_sequence e)) # slot_spec S es
      else Inr () # slot_spec (insert (slot_of e) S) es)"

lemma accept_all_slots: "accept_all seen es = slot_spec (slots seen) es"
  by (induction es arbitrary: seen) (simp_all add: receive_state_accept_slots slot_of_def)

text \<open>
  The ordered-range test of the replay state is equivalent to a set of occupied (leaf, sequence) slots: in any sequence of
  envelopes, in any order and with any message identifiers, exactly the first envelope of each slot is
  accepted and all later ones are refused as replays of that slot.
\<close>

theorem replay_state_is_slot_set: "accept_all bs_empty es = slot_spec {} es"
proof -
  have "slots bs_empty = {}" by (simp add: slots_def)
  then show ?thesis by (simp add: accept_all_slots)
qed

section \<open>From sender to receiver\<close>

lemma decrypt_sealed:
  assumes ae: "aead_correct ae" and seal: "seal_envelope sha256 ed ae q route secret sk = Inr e"
  shows "decrypt_text_envelope sha256 ae now (or_group_id q) secret e = Inr (or_plaintext q)"
proof -
  let ?k = "derive_text_message_content_key sha256 secret q"
  let ?n = "text_message_nonce sha256 ?k (or_message_id q) (or_sequence q)"
  from seal obtain aad c where aad: "text_message_encryption_aad sha256 q = Inr aad"
    and c: "encrypt_text_plaintext ae ?k ?n aad (or_plaintext q) = Inr c"
    and e: "te_epoch e = or_epoch q" "te_sender_leaf e = or_sender_leaf q" "te_sender_device_id e = or_sender_device_id q"
      "te_sequence e = or_sequence q" "te_message_id e = or_message_id q" "te_retention e = or_retention q" "te_content_ciphertext e = c"
    by (auto simp: seal_envelope_def envelope_sign_def and_then_Inr Let_def)
  from c ae have d: "decrypt_text_ciphertext ae ?k ?n aad c = Inr (or_plaintext q)"
    by (auto simp: encrypt_text_plaintext_def decrypt_text_ciphertext_def and_then_Inr aead_correct_def)
  from aad c d show ?thesis
    by (simp add: decrypt_text_envelope_def e Let_def text_message_encryption_aad_def derive_text_message_content_key_def)
qed

lemma seal_fields:
  assumes "seal_envelope sha256 ed ae q route secret sk = Inr e" and "ed25519_correct ed"
  shows "envelope_verify sha256 ed e (or_group_id q) (ed_public ed sk) = Inr ()" "te_epoch e = or_epoch q"
    "te_sender_leaf e = or_sender_leaf q" "te_sequence e = or_sequence q" "te_message_id e = or_message_id q"
  using assms envelope_sign_verify[OF assms(2)]
  by (auto simp: seal_envelope_def and_then_Inr Let_def) (auto simp: envelope_sign_def and_then_Inr)

lemma text_send_Inr:
  assumes "text_send sha256 ed ae mem_outbound p q route secret sk = (p', Inr x)"
  shows "seal_envelope sha256 ed ae q route secret sk = Inr (ts_envelope x)"
    and "op_author_log p' = op_author_log p @ [\<lparr>al_channel_id = or_channel_id q, al_envelope = ts_envelope x, al_sent_at_ms = or_sent_at_ms q\<rparr>]"
  using assms
  by (auto simp: text_send_def send_inner_def on_ok_def mem_outbound_def mem_append_author_log_def mem_emit_text_send_event_def
      Let_def split: sum.split_asm prod.split_asm)

text \<open>
  C4: A message that a member sends is received: when the receiver is in the same group and epoch, knows the leaf as a member, and has not seen the
  slot, the signed envelope passes all checks, is stored, and decrypts to the plaintext of the sender, whatever the adapters held before;
  delivering it again is refused as a replay of its slot.
\<close>

theorem text_end_to_end:
  assumes "ed25519_correct ed" and "aead_correct ae"
    and "text_send sha256 ed ae mem_outbound p q route secret sk = (p', Inr x)"
    and "ir_envelope iq = ts_envelope x" and "ir_group_id iq = or_group_id q" and "ir_current_epoch iq = or_epoch q"
    and "bs_member (ir_authorized_sender_leaves iq) (or_sender_leaf q)" and "ir_retention_allows_decrypt iq"
    and "(or_sender_leaf q, or_sequence q) \<notin> slots (ip_state r)"
  shows "\<exists>r'. text_receive sha256 ed ae mem_inbound now r iq secret (ed_public ed sk) =
      (r', Inr \<lparr>rm_message_id = or_message_id q, rm_sender_leaf = or_sender_leaf q, rm_sequence = or_sequence q,
                rm_state = Decrypted (or_plaintext q)\<rparr>) \<and>
    al_envelope (last (op_author_log p')) = ts_envelope x \<and> rv_envelope (last (ip_store r')) = ts_envelope x \<and>
    snd (text_receive sha256 ed ae mem_inbound later r' iq secret (ed_public ed sk)) =
      Inl (TextReceiveReplay (or_sender_leaf q) (or_sequence q))"
proof -
  note seal = text_send_Inr[OF assms(3)]
  note f = seal_fields[OF seal(1) assms(1)]
  have checks: "receive_checks sha256 ed iq (ed_public ed sk) = Inr ()"
    using f assms(4-7) by (simp add: receive_checks_def)
  have acc: "receive_state_accept (ip_state r) (ir_envelope iq) =
      Inr (bs_insert (or_sender_leaf q, or_sequence q, or_message_id q) (ip_state r))"
    using f assms(4,9) by (simp add: receive_state_accept_slots slot_of_def)
  have render: "render_state sha256 ae now iq secret = Inr (Decrypted (or_plaintext q))"
    using decrypt_sealed[OF assms(2) seal(1), of now] assms(4,5,8) by (simp add: render_state_def)
  let ?r' = "r\<lparr>ip_state := bs_insert (or_sender_leaf q, or_sequence q, or_message_id q) (ip_state r),
      ip_store := ip_store r @ [\<lparr>rv_channel_id = ir_channel_id iq, rv_envelope = ir_envelope iq, rv_received_at_ms = ir_received_at_ms iq\<rparr>],
      ip_events := ip_events r @ [receive_event_updated (or_message_id q)]\<rparr>"
  have first: "text_receive sha256 ed ae mem_inbound now r iq secret (ed_public ed sk) =
      (?r', Inr \<lparr>rm_message_id = or_message_id q, rm_sender_leaf = or_sender_leaf q, rm_sequence = or_sequence q,
                rm_state = Decrypted (or_plaintext q)\<rparr>)"
    using checks acc render f assms(4)
    by (simp add: text_receive_def receive_inner_def on_ok_def mem_inbound_def mem_persist_received_def
        mem_emit_text_receive_event_def Let_def)
  have "receive_state_accept (ip_state ?r') (ir_envelope iq) = Inl (TextReceiveReplay (or_sender_leaf q) (or_sequence q))"
    using f assms(4) by (simp add: receive_state_accept_slots slot_of_def)
  then have "snd (text_receive sha256 ed ae mem_inbound later ?r' iq secret (ed_public ed sk)) =
      Inl (TextReceiveReplay (or_sender_leaf q) (or_sequence q))"
    using checks by (simp add: text_receive_def receive_inner_def)
  with first seal(2) assms(4) show ?thesis by (intro exI[of _ ?r']) simp
qed

text \<open>
  The slot is occupied before the envelope is stored: when the store fails once, the receive reports that
  error, and every later delivery of the same envelope to the same pipeline is refused as a replay, although it was never stored.
\<close>

theorem failed_store_burns_slot:
  assumes "receive_checks sha256 ed iq vk = Inr ()" and "slot_of (ir_envelope iq) \<notin> slots (ip_state r)"
    and "persist_received B (ip_store r) \<lparr>rv_channel_id = ir_channel_id iq, rv_envelope = ir_envelope iq, rv_received_at_ms = ir_received_at_ms iq\<rparr> = (s, Inl err)"
  shows "\<exists>r'. text_receive sha256 ed ae B now r iq secret vk = (r', Inl err) \<and> ip_store r' = s \<and>
    snd (text_receive sha256 ed ae B' later r' iq secret vk) =
      Inl (TextReceiveReplay (te_sender_leaf (ir_envelope iq)) (te_sequence (ir_envelope iq)))"
proof -
  have acc: "receive_state_accept (ip_state r) (ir_envelope iq) =
      Inr (bs_insert (te_sender_leaf (ir_envelope iq), te_sequence (ir_envelope iq), te_message_id (ir_envelope iq)) (ip_state r))"
    using assms(2) by (simp add: receive_state_accept_slots)
  obtain r' where r': "text_receive sha256 ed ae B now r iq secret vk = (r', Inl err)"
    "ip_store r' = s" "slot_of (ir_envelope iq) \<in> slots (ip_state r')"
    using assms(1,3) acc by (simp add: text_receive_def receive_inner_def on_ok_def Let_def slot_of_def)
  then show ?thesis
    using assms(1) by (simp add: text_receive_def receive_inner_def receive_state_accept_slots)
qed

section \<open>Witnesses\<close>

definition demo_request :: "int text_outbound_request" where
  "demo_request = \<lparr>or_group_id = ''group'', or_channel_id = ''chat'', or_epoch = 7, or_sender_leaf = 5, or_sender_device_id = ''phone'',
     or_sequence = 9, or_message_id = ''m9'', or_retention = text_retention_new ''week'' 100 (Some 200) False,
     or_plaintext = [104, 105], or_sent_at_ms = 3, or_now = 0\<rparr>"

definition demo_route :: text_selected_route where
  "demo_route = \<lparr>sr_session_id = ''s'', sr_route_label = ''direct'', sr_overlay_hops = 0, sr_ciphertext_only = True\<rparr>"

definition demo_inbound :: "text_message_envelope \<Rightarrow> text_inbound_request" where
  "demo_inbound e = \<lparr>ir_group_id = ''group'', ir_channel_id = ''chat'', ir_current_epoch = 7,
     ir_authorized_sender_leaves = bs_of_list [5], ir_envelope = e, ir_received_at_ms = 4, ir_retention_allows_decrypt = True\<rparr>"

definition demo_receiver :: "(text_received_envelope list, text_receive_event list) text_inbound_pipeline" where
  "demo_receiver = \<lparr>ip_state = bs_empty, ip_store = [], ip_events = []\<rparr>"

lemma demo_seal: "\<exists>e. seal_envelope sha_demo ed_demo aead_demo demo_request demo_route [1] 3 = Inr e"
proof -
  have q: "or_group_id demo_request = ''group''" "sr_ciphertext_only demo_route" "or_sender_device_id demo_request = ti_sender_device_id demo_input"
    "or_message_id demo_request = ti_message_id demo_input" "or_retention demo_request = ti_retention demo_input"
    by (simp_all add: demo_request_def demo_route_def demo_input_def)
  obtain aad where aad: "text_message_encryption_aad sha_demo demo_request = Inr aad" "aad \<noteq> []"
    using demo_valid(1) by (simp add: text_message_encryption_aad_def q lp_be_def)
  have enc: "\<exists>c. encrypt_text_plaintext aead_demo (derive_text_message_content_key sha_demo [1] demo_request) n aad m = Inr c \<and> c \<noteq> []" for n m
    using aad(2) by (simp add: encrypt_text_plaintext_def derive_text_message_content_key_def aead_demo_def)
  show ?thesis
    using enc[of "text_message_nonce sha_demo (derive_text_message_content_key sha_demo [1] demo_request)
          (ti_message_id demo_input) (or_sequence demo_request)" "or_plaintext demo_request"] demo_valid
    by (auto simp: seal_envelope_def aad q envelope_sign_def envelope_validate_unsigned_def Let_def) (simp add: unsigned_envelope_def)
qed

lemma demo_send: "\<exists>p' x. text_send sha_demo ed_demo aead_demo mem_outbound mem_outbound_new demo_request demo_route [1] 3 = (p', Inr x)"
  using demo_seal
  by (auto simp: text_send_def send_inner_def on_ok_def mem_outbound_def mem_append_author_log_def mem_emit_text_send_event_def
      mem_send_text_frame_def mem_outbound_new_def demo_route_def Let_def)

theorem text_end_to_end_witness:
  "\<exists>p' x r'. text_send sha_demo ed_demo aead_demo mem_outbound mem_outbound_new demo_request demo_route [1] 3 = (p', Inr x) \<and>
     text_receive sha_demo ed_demo aead_demo mem_inbound (0::int) demo_receiver (demo_inbound (ts_envelope x)) [1] (ed_public ed_demo 3) =
       (r', Inr \<lparr>rm_message_id = ''m9'', rm_sender_leaf = 5, rm_sequence = 9, rm_state = Decrypted [104, 105]\<rparr>) \<and>
     snd (text_receive sha_demo ed_demo aead_demo mem_inbound (8::int) r' (demo_inbound (ts_envelope x)) [1] (ed_public ed_demo 3)) =
       Inl (TextReceiveReplay 5 9)"
proof -
  obtain p' x where x: "text_send sha_demo ed_demo aead_demo mem_outbound mem_outbound_new demo_request demo_route [1] 3 = (p', Inr x)"
    using demo_send by blast
  have "slots bs_empty = {}" by (simp add: slots_def)
  with text_end_to_end[OF ed_demo_correct aead_demo_correct x, of "demo_inbound (ts_envelope x)" demo_receiver 0 8] x
  show ?thesis by (simp add: demo_inbound_def demo_receiver_def demo_request_def) blast
qed

theorem text_sends_rate_limited_witness:
  "\<exists>p' g' rs. send_all sha_demo ed_demo aead_demo (allow_text_send \<lparr>dt_add = (+), dt_ms_since = (-)\<rparr>) [1] 3 mem_outbound_new
     (abuse_controls_new 9 2 (10::int)) (replicate 3 (demo_request, demo_route, False)) = (p', g', rs) \<and>
     map (\<lambda>r. \<not> rate_limited r) rs = [True, True, False]"
proof -
  let ?C = "\<lparr>dt_add = (+), dt_ms_since = (-)\<rparr> :: (int, int) chrono"
  let ?calls = "replicate 3 (demo_request, demo_route, False)"
  obtain p' g' rs where run: "send_all sha_demo ed_demo aead_demo (allow_text_send ?C) [1] 3 mem_outbound_new
      (abuse_controls_new 9 2 10) ?calls = (p', g', rs)" by (metis surj_pair)
  have "rate_spec_run ?C (max 2 1) 10 [] (map abuse_call ?calls) = [True, True, False]" by code_simp
  moreover have "sorted (map (\<lambda>(q, _). or_now q) ?calls)" by (simp add: numeral_3_eq_3)
  ultimately show ?thesis using text_sends_rate_limited[OF _ _ run] run by simp
qed

definition failing_inbound :: "(text_received_envelope list, text_receive_event list) inbound_seams" where
  "failing_inbound = mem_inbound\<lparr>persist_received := (\<lambda>s _. (s, Inl (TextOutboundAdapter ''disk full'')))\<rparr>"

theorem failed_store_burns_slot_witness:
  "\<exists>r'. text_receive sha_demo ed_demo aead_demo failing_inbound (0::int) demo_receiver (demo_inbound demo_text_envelope) [1] (ed_public ed_demo 3) =
      (r', Inl (TextOutboundAdapter ''disk full'')) \<and> ip_store r' = [] \<and>
     snd (text_receive sha_demo ed_demo aead_demo mem_inbound (8::int) r' (demo_inbound demo_text_envelope) [1] (ed_public ed_demo 3)) =
       Inl (TextReceiveReplay 5 9)"
proof -
  have e: "te_epoch demo_text_envelope = 7" "te_sender_leaf demo_text_envelope = 5" "te_sequence demo_text_envelope = 9"
    by (simp_all add: demo_text_envelope_def) (simp_all add: demo_input_def)
  have 1: "receive_checks sha_demo ed_demo (demo_inbound demo_text_envelope) (ed_public ed_demo 3) = Inr ()"
    using envelope_sign_verify[OF ed_demo_correct demo_text_envelope_signed] by (simp add: receive_checks_def demo_inbound_def e)
  have 2: "slot_of (ir_envelope (demo_inbound demo_text_envelope)) \<notin> slots (ip_state demo_receiver)"
    by (simp add: slots_def demo_receiver_def)
  have 3: "persist_received failing_inbound (ip_store demo_receiver) y = ([], Inl (TextOutboundAdapter ''disk full''))" for y
    by (simp add: failing_inbound_def demo_receiver_def)
  from failed_store_burns_slot[OF 1 2 3, of aead_demo 0 "[1]" mem_inbound 8] e show ?thesis by (simp add: demo_inbound_def)
qed

end
