(* ===== verification/Bounded_Cache.thy ===== *)
theory Bounded_Cache
  imports BTree_Map
begin

text \<open>
  The contract of a bounded cache that evicts its oldest entry, stated once. The recipient cache of the
  delivery crate (\<open>TextHistoryMergeState\<close>, crates/mls-delivery/src/lib.rs) and that of the storage crate
  (\<open>BoundedRecipientCache\<close>, crates/storage/src/lib.rs) both store an entry under its identifier and, above their
  capacity, remove the entry of least age; they differ in whether an entry with a known identifier is
  refused or replaces the old one. What a reader relies on, that the cache always holds the newest entries
  ever put into it, is proved here for any cache that obeys the contract.
\<close>

section \<open>Maps keyed by an identifier of their entries\<close>

definition keyed :: "('v \<Rightarrow> 'k::linorder) \<Rightarrow> ('k, 'v) btreemap \<Rightarrow> bool" where
  "keyed ident m \<longleftrightarrow> (\<forall>k x. bt_get m k = Some x \<longrightarrow> ident x = k)"

definition entries_of :: "('k::linorder, 'v) btreemap \<Rightarrow> 'v set" where
  "entries_of m = set (bt_values m)"

lemma entries_of_iff: "x \<in> entries_of m \<longleftrightarrow> (\<exists>k. bt_get m k = Some x)"
  by (simp add: entries_of_def set_bt_values)

lemma keyed_empty [simp]: "keyed ident bt_empty" "entries_of bt_empty = {}"
  by (simp_all add: keyed_def entries_of_def bt_values_def)

lemma keyed_insert [simp]: "keyed ident m \<Longrightarrow> keyed ident (bt_insert (ident x) x m)"
  by (simp add: keyed_def)

lemma keyed_remove [simp]: "keyed ident m \<Longrightarrow> keyed ident (bt_remove k m)"
  by (simp add: keyed_def)

lemma keyed_get: "keyed ident m \<Longrightarrow> x \<in> entries_of m \<longleftrightarrow> bt_get m (ident x) = Some x"
  unfolding keyed_def entries_of_iff by metis

lemma keyed_lookup: "keyed ident m \<Longrightarrow> bt_get m k = Some x \<longleftrightarrow> x \<in> entries_of m \<and> ident x = k"
  using keyed_get[of ident m x] by (auto simp: keyed_def)

lemma entries_insert:
  assumes "keyed ident m"
  shows "entries_of (bt_insert (ident x) x m) = insert x {z \<in> entries_of m. ident z \<noteq> ident x}"
proof -
  have "y \<in> entries_of (bt_insert (ident x) x m) \<longleftrightarrow> y \<in> insert x {z \<in> entries_of m. ident z \<noteq> ident x}" for y
    using keyed_get[OF assms, of y] keyed_get[OF keyed_insert[OF assms], of y x] by auto
  then show ?thesis by blast
qed

lemma entries_remove:
  assumes "keyed ident m"
  shows "entries_of (bt_remove k m) = {z \<in> entries_of m. ident z \<noteq> k}"
proof -
  have "y \<in> entries_of (bt_remove k m) \<longleftrightarrow> y \<in> {z \<in> entries_of m. ident z \<noteq> k}" for y
    using keyed_get[OF assms, of y] keyed_get[OF keyed_remove[OF assms], of y k] by auto
  then show ?thesis by blast
qed

lemma keyed_held:
  assumes "keyed ident m"
  shows "finite (entries_of m) \<and> inj_on ident (entries_of m) \<and> card (entries_of m) = bt_len m"
proof -
  have inj: "inj_on ident (entries_of m)" using keyed_get[OF assms] by (intro inj_onI) (metis option.inject)
  have "ident ` entries_of m = dom (bt_get m)"
    using keyed_lookup[OF assms] by (auto simp: image_iff)
  then have "card (entries_of m) = bt_len m" using card_image[OF inj] by (simp add: bt_len_card)
  with inj show ?thesis by (simp add: entries_of_def)
qed

lemma entries_remove_one:
  assumes "keyed ident m" and "x \<in> entries_of m"
  shows "entries_of (bt_remove (ident x) m) = entries_of m - {x}"
  using keyed_held[OF assms(1)] assms(2) by (auto simp: entries_remove[OF assms(1)] inj_on_def)

text \<open>The oldest entry of a map that is not empty, and its removal.\<close>

lemma oldest_entry:
  assumes "keyed ident m" and "0 < bt_len m"
  obtains x where "min_by_key age (bt_values m) = Some x" "x \<in> entries_of m" "\<And>y. y \<in> entries_of m \<Longrightarrow> age x \<le> age y"
    "bt_get m (ident x) = Some x" "bt_len (bt_remove (ident x) m) = bt_len m - 1"
proof -
  have "bt_values m \<noteq> []" using assms(2) by (metis length_bt_values list.size(3) not_less_zero)
  then obtain x where x: "min_by_key age (bt_values m) = Some x" by (cases "min_by_key age (bt_values m)") auto
  from min_by_key_Some[OF x] have "x \<in> entries_of m" "\<And>y. y \<in> entries_of m \<Longrightarrow> age x \<le> age y" by (auto simp: entries_of_def)
  moreover from this(1) have "bt_get m (ident x) = Some x" using keyed_get[OF assms(1)] by blast
  ultimately show thesis using that[OF x] by (simp add: bt_len_remove bt_contains_def)
qed

section \<open>The contract\<close>

text \<open>
  Each entry of \<open>U\<close> that is not in the cache \<open>K\<close> shares its identifier with another one, or the cache is full of
  entries that are not older.
\<close>

definition newest_of :: "('v \<Rightarrow> 'k) \<Rightarrow> ('v \<Rightarrow> 'a::linorder) \<Rightarrow> nat \<Rightarrow> 'v set \<Rightarrow> 'v set \<Rightarrow> bool" where
  "newest_of ident age cap K U \<longleftrightarrow>
     K \<subseteq> U \<and>
     (\<forall>x \<in> U. x \<in> K \<or> (\<exists>z \<in> U. z \<noteq> x \<and> ident z = ident x) \<or> card K = cap \<and> (\<forall>y \<in> K. age x \<le> age y))"

text \<open>Entries with the same identifier have the same age.\<close>

definition ages_agree :: "('v \<Rightarrow> 'k) \<Rightarrow> ('v \<Rightarrow> 'a::linorder) \<Rightarrow> 'v set \<Rightarrow> bool" where
  "ages_agree ident age U \<longleftrightarrow> (\<forall>x \<in> U. \<forall>y \<in> U. ident x = ident y \<longrightarrow> age x = age y)"

fun put_all :: "('v \<Rightarrow> 's \<Rightarrow> 's option) \<Rightarrow> 'v list \<Rightarrow> 's \<Rightarrow> 's option" where
  "put_all put [] s = Some s"
| "put_all put (x # xs) s = Option.bind (put x s) (put_all put xs)"

text \<open>The set the cache holds before it evicts.\<close>

definition offered :: "('v \<Rightarrow> 'k) \<Rightarrow> bool \<Rightarrow> 'v \<Rightarrow> 'v set \<Rightarrow> 'v set" where
  "offered ident replaces x K =
     (if (\<exists>z \<in> K. ident z = ident x) \<and> \<not> replaces then K else insert x {z \<in> K. ident z \<noteq> ident x})"

definition evicted_to :: "('v \<Rightarrow> 'a::linorder) \<Rightarrow> nat \<Rightarrow> 'v set \<Rightarrow> 'v set \<Rightarrow> bool" where
  "evicted_to age cap B K' \<longleftrightarrow>
     (if card B \<le> cap then K' = B else \<exists>m \<in> B. (\<forall>y \<in> B. age m \<le> age y) \<and> K' = B - {m})"

lemma card_offered:
  assumes "finite K" and "inj_on ident K"
  shows "card (offered ident replaces x K) = (if \<exists>z \<in> K. ident z = ident x then card K else Suc (card K))"
proof (cases "\<exists>z \<in> K. ident z = ident x")
  case True
  then obtain z where z: "z \<in> K" "ident z = ident x" by blast
  have "{w \<in> K. ident w \<noteq> ident x} = K - {z}" using z assms(2) by (auto simp: inj_on_def)
  moreover have "x \<notin> K - {z}" using z assms(2) by (auto simp: inj_on_def)
  moreover have "Suc (card (K - {z})) = card K" using z(1) assms(1) by (metis card_Suc_Diff1)
  ultimately show ?thesis using True assms(1) by (simp add: offered_def)
next
  case False
  then have "{w \<in> K. ident w \<noteq> ident x} = K" "x \<notin> K" by auto
  with False assms(1) show ?thesis by (simp add: offered_def)
qed

locale newest_cache =
  fixes ident :: "'v \<Rightarrow> 'k" and age :: "'v \<Rightarrow> 'a::linorder" and replaces :: bool
    and cap :: "'s \<Rightarrow> nat" and holds :: "'s \<Rightarrow> 'v set" and ok :: "'s \<Rightarrow> bool" and put :: "'v \<Rightarrow> 's \<Rightarrow> 's option"
  assumes held: "ok s \<Longrightarrow> finite (holds s) \<and> inj_on ident (holds s) \<and> card (holds s) \<le> cap s"
    and put_law: "ok s \<Longrightarrow> \<exists>s'. put x s = Some s' \<and> ok s' \<and> cap s' = cap s \<and>
        evicted_to age (cap s) (offered ident replaces x (holds s)) (holds s')"
begin

lemma put_newest:
  assumes "ok s" and nw: "newest_of ident age (cap s) (holds s) U" and "replaces \<longrightarrow> ages_agree ident age (insert x U)"
    and put: "put x s = Some s'"
  shows "newest_of ident age (cap s') (holds s') (insert x U)"
proof -
  let ?K = "holds s" and ?B = "offered ident replaces x (holds s)" and ?K' = "holds s'"
  from put_law[OF assms(1), of x] put have cap: "cap s' = cap s" and ev: "evicted_to age (cap s) ?B ?K'" by auto
  from held[OF assms(1)] have fin: "finite ?K" "inj_on ident ?K" "card ?K \<le> cap s" by auto
  have KU: "?K \<subseteq> U" using nw by (simp add: newest_of_def)
  have BU: "?B \<subseteq> insert x U" using KU by (auto simp: offered_def)
  have finB: "finite ?B" using fin(1) by (simp add: offered_def)
  have sub: "?K' \<subseteq> ?B" using ev by (auto simp: evicted_to_def split: if_split_asm)
  have conflict: "y \<in> ?B \<or> (\<exists>z \<in> insert x U. z \<noteq> y \<and> ident z = ident y)" if "y \<in> insert x ?K" for y
    using that KU by (auto simp: offered_def split: if_split_asm)
  have old: "card ?K' = cap s \<and> (\<forall>w \<in> ?K'. age y \<le> age w)"
    if full: "card ?K = cap s" and low: "\<forall>w \<in> ?K. age y \<le> age w" for y
  proof (cases "\<exists>z \<in> ?K. ident z = ident x")
    case True
    then obtain z where z: "z \<in> ?K" "ident z = ident x" by blast
    have "card ?B = card ?K" using card_offered[OF fin(1,2), of replaces x] True by simp
    then have K': "?K' = ?B" using ev full by (simp add: evicted_to_def)
    have "age x = age z" if replaces
      using that assms(3) z KU by (auto simp: ages_agree_def)
    then have "age y \<le> age w" if "w \<in> ?B" for w
      using that low z(1) True by (cases replaces) (auto simp: offered_def)
    with K' \<open>card ?B = card ?K\<close> full show ?thesis by simp
  next
    case False
    then have B: "?B = insert x ?K" "x \<notin> ?K" by (auto simp: offered_def)
    then have "card ?B = Suc (cap s)" using fin(1) full by simp
    with ev obtain m where m: "m \<in> ?B" "\<forall>w \<in> ?B. age m \<le> age w" "?K' = ?B - {m}"
      by (auto simp: evicted_to_def)
    have "card ?K' = cap s" using m(1,3) \<open>card ?B = Suc (cap s)\<close> finB by simp
    moreover have "age y \<le> age w" if "w \<in> ?K'" for w
    proof (cases "w = x")
      case True
      with that m B have "m \<in> ?K" by auto
      then have "age y \<le> age m" using low by blast
      with m(2) that sub show ?thesis by (auto intro: order_trans)
    next
      case False
      with that m(3) B low show ?thesis by blast
    qed
    ultimately show ?thesis by blast
  qed
  have dropped: "y \<in> ?K' \<or> card ?K' = cap s \<and> (\<forall>w \<in> ?K'. age y \<le> age w)" if "y \<in> ?B" for y
  proof (cases "card ?B \<le> cap s")
    case False
    with ev obtain m where m: "m \<in> ?B" "\<forall>w \<in> ?B. age m \<le> age w" "?K' = ?B - {m}" by (auto simp: evicted_to_def)
    have "card ?B \<le> Suc (cap s)" using card_offered[OF fin(1,2), of replaces x] fin(3) by (simp split: if_split_asm)
    then have "card ?K' = cap s" using m(1,3) finB False by simp
    with m that show ?thesis by auto
  qed (use ev that in \<open>simp add: evicted_to_def\<close>)
  have "y \<in> ?K' \<or> (\<exists>z \<in> insert x U. z \<noteq> y \<and> ident z = ident y) \<or> card ?K' = cap s \<and> (\<forall>w \<in> ?K'. age y \<le> age w)"
    if "y \<in> insert x U" for y
  proof (cases "y \<in> insert x ?K")
    case True
    with conflict dropped show ?thesis by blast
  next
    case False
    with that nw have "(\<exists>z \<in> U. z \<noteq> y \<and> ident z = ident y) \<or> card ?K = cap s \<and> (\<forall>w \<in> ?K. age y \<le> age w)"
      by (auto simp: newest_of_def)
    with old show ?thesis by blast
  qed
  with sub BU show ?thesis unfolding newest_of_def cap by blast
qed

lemma ages_agree_mono: "ages_agree ident age U \<Longrightarrow> V \<subseteq> U \<Longrightarrow> ages_agree ident age V"
  by (auto simp: ages_agree_def)

lemma put_all_newest:
  "ok s \<Longrightarrow> newest_of ident age (cap s) (holds s) U \<Longrightarrow> (replaces \<longrightarrow> ages_agree ident age (U \<union> set xs)) \<Longrightarrow>
     \<exists>s'. put_all put xs s = Some s' \<and> ok s' \<and> cap s' = cap s \<and> newest_of ident age (cap s) (holds s') (U \<union> set xs)"
proof (induction xs arbitrary: s U)
  case (Cons x xs)
  obtain s1 where s1: "put x s = Some s1" "ok s1" "cap s1 = cap s" using put_law[OF Cons.prems(1), of x] by blast
  have "replaces \<longrightarrow> ages_agree ident age (insert x U)" using Cons.prems(3) by (auto intro: ages_agree_mono)
  from Cons.IH[OF s1(2) put_newest[OF Cons.prems(1,2) this s1(1)]] Cons.prems(3) show ?case by (auto simp: s1)
qed auto

lemma put_all_total:
  "ok s \<Longrightarrow> \<exists>s'. put_all put xs s = Some s' \<and> ok s' \<and> cap s' = cap s"
proof (induction xs arbitrary: s)
  case (Cons x xs)
  obtain s1 where s1: "put x s = Some s1" "ok s1" "cap s1 = cap s" using put_law[OF Cons.prems, of x] by blast
  with Cons.IH[OF s1(2)] show ?case by auto
qed auto

end

end
