(* ===== verification/Text_History.thy ===== *)
theory Text_History
  imports Text_Pipeline Bounded_Cache
begin

text \<open>
  Replicated text history (\<open>TextHistoryMergeState\<close>, crates/mls-delivery/src/lib.rs): the author log with its
  index of message identifiers, the bounded cache of received ciphertext, and the merge reports. The
  eviction loop is a partial function whose value \<open>None\<close> means that it does not return; the caches
  that merging builds are shown to make it return. Shown: a slot and a message identifier are taken once and for all, a snapshot
  rebuilds the log at another replica, batches may arrive in any order, and the cache keeps the newest entries.
\<close>

section \<open>Model\<close>

type_synonym text_author_log_slot = "nat \<times> nat"

datatype text_history_merge_event_kind = Inserted | DuplicateSuppressed | RepairRequested | RecipientCacheEvicted

record text_history_merge_event =
  he_kind :: text_history_merge_event_kind
  he_message_id :: string
  he_sender_leaf :: nat
  he_sequence :: nat
  he_detail :: string

definition merge_event :: "text_history_merge_event_kind \<Rightarrow> text_message_envelope \<Rightarrow> string \<Rightarrow> text_history_merge_event" where
  "merge_event kind e detail =
     \<lparr>he_kind = kind, he_message_id = te_message_id e, he_sender_leaf = te_sender_leaf e, he_sequence = te_sequence e,
      he_detail = detail\<rparr>"

definition merge_event_inserted :: "text_message_envelope \<Rightarrow> text_history_merge_event" where
  "merge_event_inserted e = merge_event Inserted e ''accepted into causal history''"

definition merge_event_duplicate :: "text_message_envelope \<Rightarrow> text_history_merge_event" where
  "merge_event_duplicate e = merge_event DuplicateSuppressed e ''exact signed envelope duplicate suppressed''"

definition merge_event_repair :: "text_message_envelope \<Rightarrow> string \<Rightarrow> text_history_merge_event" where
  "merge_event_repair e detail = merge_event RepairRequested e detail"

definition merge_event_evicted :: "text_received_envelope \<Rightarrow> text_history_merge_event" where
  "merge_event_evicted x = merge_event RecipientCacheEvicted (rv_envelope x) ''evicted oldest recipient ciphertext cache entry''"

record text_history_merge_report =
  hr_inserted :: nat
  hr_duplicates_suppressed :: nat
  hr_repair_events :: nat
  hr_evicted_from_recipient_cache :: nat
  hr_events :: "text_history_merge_event list"

definition merge_report_default :: text_history_merge_report where
  "merge_report_default = \<lparr>hr_inserted = 0, hr_duplicates_suppressed = 0, hr_repair_events = 0,
     hr_evicted_from_recipient_cache = 0, hr_events = []\<rparr>"

definition report_push :: "text_history_merge_event \<Rightarrow> text_history_merge_report \<Rightarrow> text_history_merge_report" where
  "report_push event r =
     (let r = (case he_kind event of
                 Inserted \<Rightarrow> r\<lparr>hr_inserted := hr_inserted r + 1\<rparr>
               | DuplicateSuppressed \<Rightarrow> r\<lparr>hr_duplicates_suppressed := hr_duplicates_suppressed r + 1\<rparr>
               | RepairRequested \<Rightarrow> r\<lparr>hr_repair_events := hr_repair_events r + 1\<rparr>
               | RecipientCacheEvicted \<Rightarrow> r\<lparr>hr_evicted_from_recipient_cache := hr_evicted_from_recipient_cache r + 1\<rparr>)
      in r\<lparr>hr_events := hr_events r @ [event]\<rparr>)"

record text_history_merge_state =
  hs_author_log :: "(text_author_log_slot, text_author_log_envelope) btreemap"
  hs_message_index :: "(string, text_author_log_slot) btreemap"
  hs_recipient_cache_capacity :: nat
  hs_recipient_cache :: "(string, text_received_envelope) btreemap"

definition with_recipient_cache_capacity :: "nat \<Rightarrow> text_history_merge_state" where
  "with_recipient_cache_capacity capacity =
     \<lparr>hs_author_log = bt_empty, hs_message_index = bt_empty, hs_recipient_cache_capacity = max capacity 1,
      hs_recipient_cache = bt_empty\<rparr>"

definition merge_state_default :: text_history_merge_state where
  "merge_state_default = with_recipient_cache_capacity 256"

definition merge_one_author_entry ::
  "text_author_log_envelope \<Rightarrow> text_history_merge_state \<times> text_history_merge_report
     \<Rightarrow> text_history_merge_state \<times> text_history_merge_report" where
  "merge_one_author_entry x sr =
     (let (s, r) = sr; e = al_envelope x; slot = slot_of e
      in case bt_get (hs_author_log s) slot of
           Some old \<Rightarrow>
             if envelope_signed_bytes (al_envelope old) = envelope_signed_bytes e
             then (s, report_push (merge_event_duplicate e) r)
             else (s, report_push (merge_event_repair e
                 (''author slot fork at leaf '' @ nat_str (fst slot) @ '' sequence '' @ nat_str (snd slot) @ ''; kept '' @
                  te_message_id (al_envelope old) @ '', rejected '' @ te_message_id e)) r)
         | None \<Rightarrow>
             (case bt_get (hs_message_index s) (te_message_id e) of
                Some old_slot \<Rightarrow>
                  (s, report_push (merge_event_repair e
                    (''message id reused in slot '' @ nat_str (fst old_slot) @ '':'' @ nat_str (snd old_slot) @
                     '', rejected slot '' @ nat_str (fst slot) @ '':'' @ nat_str (snd slot))) r)
              | None \<Rightarrow>
                  (s\<lparr>hs_message_index := bt_insert (te_message_id e) slot (hs_message_index s),
                     hs_author_log := bt_insert slot x (hs_author_log s)\<rparr>,
                   report_push (merge_event_inserted e) r)))"

definition author_order :: "text_author_log_envelope list \<Rightarrow> text_author_log_envelope list" where
  "author_order entries =
     sort_by (\<lambda>l r. then_with (then_with (cmp_lin (slot_of (al_envelope l)) (slot_of (al_envelope r)))
                (cmp_lin (te_epoch (al_envelope l)) (te_epoch (al_envelope r))))
                (cmp_lin (te_message_id (al_envelope l)) (te_message_id (al_envelope r)))) entries"

definition merge_author_log ::
  "text_history_merge_state \<Rightarrow> text_author_log_envelope list \<Rightarrow> text_history_merge_state \<times> text_history_merge_report" where
  "merge_author_log s entries = fold merge_one_author_entry (author_order entries) (s, merge_report_default)"

definition received_key :: "text_received_envelope \<Rightarrow> nat \<times> string" where
  "received_key x = (rv_received_at_ms x, te_message_id (rv_envelope x))"

partial_function (option) evict_recipient_cache ::
  "text_history_merge_state \<Rightarrow> text_history_merge_report \<Rightarrow> (text_history_merge_state \<times> text_history_merge_report) option" where
  "evict_recipient_cache s r =
     (if bt_len (hs_recipient_cache s) \<le> hs_recipient_cache_capacity s then Some (s, r)
      else case min_by_key received_key (bt_values (hs_recipient_cache s)) of
             None \<Rightarrow> Some (s, r)
           | Some x \<Rightarrow>
               (case bt_get (hs_recipient_cache s) (te_message_id (rv_envelope x)) of
                  Some evicted \<Rightarrow>
                    evict_recipient_cache (s\<lparr>hs_recipient_cache := bt_remove (te_message_id (rv_envelope x)) (hs_recipient_cache s)\<rparr>)
                      (report_push (merge_event_evicted evicted) r)
                | None \<Rightarrow> evict_recipient_cache s r))"

definition cache_one_received ::
  "text_received_envelope \<Rightarrow> text_history_merge_state \<times> text_history_merge_report
     \<Rightarrow> (text_history_merge_state \<times> text_history_merge_report) option" where
  "cache_one_received x sr =
     (let (s, r) = sr; e = rv_envelope x
      in case bt_get (hs_recipient_cache s) (te_message_id e) of
           Some old \<Rightarrow>
             Some (s, report_push
               (if envelope_signed_bytes (rv_envelope old) = envelope_signed_bytes e then merge_event_duplicate e
                else merge_event_repair e ''recipient cache message-id fork; kept existing ciphertext'') r)
         | None \<Rightarrow>
             evict_recipient_cache (s\<lparr>hs_recipient_cache := bt_insert (te_message_id e) x (hs_recipient_cache s)\<rparr>)
               (report_push (merge_event_inserted e) r))"

fun cache_received ::
  "text_received_envelope list \<Rightarrow> text_history_merge_state \<times> text_history_merge_report
     \<Rightarrow> (text_history_merge_state \<times> text_history_merge_report) option" where
  "cache_received [] sr = Some sr"
| "cache_received (x # xs) sr = Option.bind (cache_one_received x sr) (cache_received xs)"

definition merge_received_cache ::
  "text_history_merge_state \<Rightarrow> text_received_envelope list \<Rightarrow> (text_history_merge_state \<times> text_history_merge_report) option" where
  "merge_received_cache s entries = cache_received (sort_key received_key entries) (s, merge_report_default)"

definition author_log_snapshot :: "text_history_merge_state \<Rightarrow> text_author_log_envelope list" where
  "author_log_snapshot s = bt_values (hs_author_log s)"

definition recipient_cache_snapshot :: "text_history_merge_state \<Rightarrow> text_received_envelope list" where
  "recipient_cache_snapshot s = sort_key received_key (bt_values (hs_recipient_cache s))"

section \<open>Invariant\<close>

abbreviation msg_id :: "text_received_envelope \<Rightarrow> string" where
  "msg_id x \<equiv> te_message_id (rv_envelope x)"

definition log_ok :: "text_history_merge_state \<Rightarrow> bool" where
  "log_ok s \<longleftrightarrow>
     (\<forall>slot x. bt_get (hs_author_log s) slot = Some x \<longrightarrow> slot_of (al_envelope x) = slot) \<and>
     (\<forall>i slot. bt_get (hs_message_index s) i = Some slot \<longleftrightarrow>
        (\<exists>x. bt_get (hs_author_log s) slot = Some x \<and> te_message_id (al_envelope x) = i))"

lemma log_ok_slot: "log_ok s \<Longrightarrow> bt_get (hs_author_log s) slot = Some x \<Longrightarrow> slot_of (al_envelope x) = slot"
  unfolding log_ok_def by blast

lemma log_ok_index:
  "log_ok s \<Longrightarrow> bt_get (hs_message_index s) i = Some slot \<longleftrightarrow>
     (\<exists>x. bt_get (hs_author_log s) slot = Some x \<and> te_message_id (al_envelope x) = i)"
  unfolding log_ok_def by blast

lemma log_okI:
  assumes "\<And>slot x. bt_get (hs_author_log s) slot = Some x \<Longrightarrow> slot_of (al_envelope x) = slot"
    and "\<And>i slot. bt_get (hs_message_index s) i = Some slot \<longleftrightarrow>
        (\<exists>x. bt_get (hs_author_log s) slot = Some x \<and> te_message_id (al_envelope x) = i)"
  shows "log_ok s"
  unfolding log_ok_def using assms by blast

definition cache_keyed :: "text_history_merge_state \<Rightarrow> bool" where
  "cache_keyed s \<longleftrightarrow> keyed msg_id (hs_recipient_cache s)"

definition cache_ok :: "text_history_merge_state \<Rightarrow> bool" where
  "cache_ok s \<longleftrightarrow> cache_keyed s \<and> bt_len (hs_recipient_cache s) \<le> hs_recipient_cache_capacity s"

lemma history_new: "log_ok (with_recipient_cache_capacity c)" "cache_ok (with_recipient_cache_capacity c)"
  by (simp_all add: log_ok_def cache_ok_def cache_keyed_def with_recipient_cache_capacity_def)

lemma report_push_events [simp]: "hr_events (report_push ev r) = hr_events r @ [ev]"
  by (simp add: report_push_def Let_def split: text_history_merge_event_kind.split)

subsection \<open>The author log\<close>

text \<open>One entry either takes a free slot with a free message identifier or changes nothing.\<close>

lemma merge_one_cases:
  obtains (taken) "fst (merge_one_author_entry x (s, r)) = s"
      "slot_of (al_envelope x) \<in> dom (bt_get (hs_author_log s)) \<or> te_message_id (al_envelope x) \<in> dom (bt_get (hs_message_index s))"
  | (free) "bt_get (hs_author_log s) (slot_of (al_envelope x)) = None" "bt_get (hs_message_index s) (te_message_id (al_envelope x)) = None"
      "merge_one_author_entry x (s, r) =
        (s\<lparr>hs_message_index := bt_insert (te_message_id (al_envelope x)) (slot_of (al_envelope x)) (hs_message_index s),
           hs_author_log := bt_insert (slot_of (al_envelope x)) x (hs_author_log s)\<rparr>,
         report_push (merge_event_inserted (al_envelope x)) r)"
proof (cases "bt_get (hs_author_log s) (slot_of (al_envelope x))")
  case (Some old)
  then show ?thesis by (intro taken) (auto simp: merge_one_author_entry_def Let_def)
next
  case None
  then show ?thesis
    by (cases "bt_get (hs_message_index s) (te_message_id (al_envelope x))")
      (auto intro: taken free simp: merge_one_author_entry_def Let_def)
qed

lemma merge_one_log_ok:
  assumes "log_ok s"
  shows "log_ok (fst (merge_one_author_entry x (s, r)))"
proof (cases rule: merge_one_cases[of x s r])
  case taken
  with assms show ?thesis by simp
next
  case free
  let ?e = "al_envelope x"
  note idx = log_ok_index[OF assms]
  show ?thesis unfolding free(3) fst_conv
  proof (rule log_okI)
    fix slot y i
    assume "bt_get (hs_author_log (s\<lparr>hs_message_index := bt_insert (te_message_id ?e) (slot_of ?e) (hs_message_index s),
        hs_author_log := bt_insert (slot_of ?e) x (hs_author_log s)\<rparr>)) slot = Some y"
    then show "slot_of (al_envelope y) = slot" using log_ok_slot[OF assms] by (simp split: if_split_asm)
  next
    fix slot i
    have "slot_of ?e \<noteq> slot" if "bt_get (hs_message_index s) i = Some slot"
      using that idx free(1) by auto
    moreover have "te_message_id ?e \<noteq> te_message_id (al_envelope y)" if "bt_get (hs_author_log s) slot = Some y" for y
      using that idx[of "te_message_id (al_envelope y)" slot] free(2) by auto
    ultimately show "(bt_get (hs_message_index (s\<lparr>hs_message_index := bt_insert (te_message_id ?e) (slot_of ?e) (hs_message_index s),
        hs_author_log := bt_insert (slot_of ?e) x (hs_author_log s)\<rparr>)) i = Some slot) \<longleftrightarrow>
      (\<exists>y. bt_get (hs_author_log (s\<lparr>hs_message_index := bt_insert (te_message_id ?e) (slot_of ?e) (hs_message_index s),
        hs_author_log := bt_insert (slot_of ?e) x (hs_author_log s)\<rparr>)) slot = Some y \<and> te_message_id (al_envelope y) = i)"
      using idx[of i slot] by (cases "slot = slot_of ?e"; cases "i = te_message_id ?e") auto
  qed
qed

lemma merge_one_keeps:
  "bt_get (hs_author_log s) slot = Some y \<Longrightarrow> bt_get (hs_author_log (fst (merge_one_author_entry x (s, r)))) slot = Some y"
  by (cases rule: merge_one_cases[of x s r]) auto

lemma merge_one_cache [simp]:
  "hs_recipient_cache (fst (merge_one_author_entry x sr)) = hs_recipient_cache (fst sr)"
  "hs_recipient_cache_capacity (fst (merge_one_author_entry x sr)) = hs_recipient_cache_capacity (fst sr)"
  by (cases sr; cases rule: merge_one_cases[of x "fst sr" "snd sr"]; simp)+

lemma fold_merge_log:
  assumes "log_ok (fst sr)"
  shows "log_ok (fst (fold merge_one_author_entry xs sr)) \<and>
    bt_get (hs_author_log (fst sr)) \<subseteq>\<^sub>m bt_get (hs_author_log (fst (fold merge_one_author_entry xs sr))) \<and>
    hs_recipient_cache (fst (fold merge_one_author_entry xs sr)) = hs_recipient_cache (fst sr) \<and>
    hs_recipient_cache_capacity (fst (fold merge_one_author_entry xs sr)) = hs_recipient_cache_capacity (fst sr)"
  using assms
proof (induction xs arbitrary: sr)
  case (Cons x xs)
  obtain s r where sr: "sr = (s, r)" by (cases sr)
  let ?sr = "merge_one_author_entry x sr"
  have "log_ok (fst ?sr)" using Cons.prems merge_one_log_ok sr by simp
  moreover have "bt_get (hs_author_log s) \<subseteq>\<^sub>m bt_get (hs_author_log (fst ?sr))"
    unfolding map_le_def sr using merge_one_keeps by fastforce
  ultimately show ?case using Cons.IH[of ?sr] by (auto simp: sr intro: map_le_trans)
qed simp

section \<open>Order of batches\<close>

lemma author_order_sort:
  "author_order entries = sort_key (\<lambda>x. ((slot_of (al_envelope x), te_epoch (al_envelope x)), te_message_id (al_envelope x))) entries"
  unfolding author_order_def by (rule sort_by_key) (simp add: then_with_cmp_lin)

interpretation author_batch: canonical_order
  "\<lambda>x. ((slot_of (al_envelope x), te_epoch (al_envelope x)), te_message_id (al_envelope x))" author_order
  by unfold_locales (rule author_order_sort)

interpretation received_batch: canonical_order received_key "sort_key received_key"
  by unfold_locales simp

text \<open>
  A replica reaches the same state with the same report whatever the order in which the entries of a batch arrived, provided that
  no two different entries of the author log agree in slot, epoch and message identifier, and no two received entries in time and
  message identifier.
\<close>

theorem merge_batch_order_independent:
  assumes "mset xs = mset xs'" and "mset ys = mset ys'"
    and "inj_on (\<lambda>x. (slot_of (al_envelope x), te_epoch (al_envelope x), te_message_id (al_envelope x))) (set xs)"
    and "inj_on received_key (set ys)"
  shows "merge_author_log s xs = merge_author_log s xs' \<and> merge_received_cache s ys = merge_received_cache s ys'"
proof -
  have "inj_on (\<lambda>x. ((slot_of (al_envelope x), te_epoch (al_envelope x)), te_message_id (al_envelope x))) (set xs)"
    using assms(3) by (auto simp: inj_on_def)
  then have "author_order xs = author_order xs'" by (rule author_batch.order_perm[OF assms(1)])
  moreover have "sort_key received_key ys = sort_key received_key ys'" by (rule received_batch.order_perm[OF assms(2,4)])
  ultimately show ?thesis by (simp add: merge_author_log_def merge_received_cache_def)
qed

section \<open>Snapshots rebuild the log\<close>

lemma values_sorted_by_slot:
  assumes "log_ok s"
  shows "map (\<lambda>x. slot_of (al_envelope x)) (author_log_snapshot s) = bt_keys (hs_author_log s)"
proof -
  have "slot_of (al_envelope x) = k" if "(k, x) \<in> set (bt_entries (hs_author_log s))" for k x
    using that log_ok_slot[OF assms] by (simp add: set_bt_entries)
  then show ?thesis by (auto simp: author_log_snapshot_def bt_values_def bt_keys_def)
qed

lemma snapshot_order:
  assumes "log_ok s"
  shows "author_order (author_log_snapshot s) = author_log_snapshot s"
proof -
  have sd: "sorted_wrt (<) (map (\<lambda>x. slot_of (al_envelope x)) (author_log_snapshot s))"
    unfolding values_sorted_by_slot[OF assms] by (simp add: bt_keys_def bt_entries_sorted)
  then have "sorted (map (\<lambda>x. ((slot_of (al_envelope x), te_epoch (al_envelope x)), te_message_id (al_envelope x))) (author_log_snapshot s))"
    unfolding sorted_wrt_map by (rule sorted_wrt_mono_rel[rotated]) (simp add: less_eq_prod_def)
  then show ?thesis by (simp add: author_order_sort sort_key_id_if_sorted)
qed

text \<open>Merging entries with fresh, distinct slots and identifiers inserts them all.\<close>

lemma fold_merge_fresh:
  assumes "distinct (map (\<lambda>x. slot_of (al_envelope x)) xs)" and "distinct (map (\<lambda>x. te_message_id (al_envelope x)) xs)"
    and "\<And>x. x \<in> set xs \<Longrightarrow> bt_get (hs_author_log s) (slot_of (al_envelope x)) = None \<and>
           bt_get (hs_message_index s) (te_message_id (al_envelope x)) = None"
  shows "fst (fold merge_one_author_entry xs (s, r)) =
     s\<lparr>hs_message_index := fold (\<lambda>x. bt_insert (te_message_id (al_envelope x)) (slot_of (al_envelope x))) xs (hs_message_index s),
       hs_author_log := fold (\<lambda>x. bt_insert (slot_of (al_envelope x)) x) xs (hs_author_log s)\<rparr> \<and>
     hr_events (snd (fold merge_one_author_entry xs (s, r))) = hr_events r @ map (\<lambda>x. merge_event_inserted (al_envelope x)) xs"
  using assms
proof (induction xs arbitrary: s r)
  case (Cons x xs)
  let ?e = "al_envelope x"
  let ?s = "s\<lparr>hs_message_index := bt_insert (te_message_id ?e) (slot_of ?e) (hs_message_index s),
           hs_author_log := bt_insert (slot_of ?e) x (hs_author_log s)\<rparr>"
  have one: "merge_one_author_entry x (s, r) = (?s, report_push (merge_event_inserted ?e) r)"
    using Cons.prems(3)[of x] by (simp add: merge_one_author_entry_def Let_def)
  have "bt_get (hs_author_log ?s) (slot_of (al_envelope y)) = None \<and> bt_get (hs_message_index ?s) (te_message_id (al_envelope y)) = None"
    if "y \<in> set xs" for y
  proof -
    have "slot_of ?e \<notin> (\<lambda>x. slot_of (al_envelope x)) ` set xs" "te_message_id ?e \<notin> (\<lambda>x. te_message_id (al_envelope x)) ` set xs"
      using Cons.prems(1,2) by simp_all
    then have "slot_of (al_envelope y) \<noteq> slot_of ?e" "te_message_id (al_envelope y) \<noteq> te_message_id ?e"
      using that by (metis image_eqI)+
    then show ?thesis using Cons.prems(3)[of y] that by simp
  qed
  with Cons.IH[of ?s "report_push (merge_event_inserted ?e) r"] Cons.prems(1,2) show ?case
    by (simp add: one)
qed simp

lemma snapshot_ids_distinct:
  assumes "log_ok s"
  shows "distinct (map (\<lambda>x. te_message_id (al_envelope x)) (author_log_snapshot s))"
proof -
  let ?f = "\<lambda>x. slot_of (al_envelope x)" and ?g = "\<lambda>x. te_message_id (al_envelope x)"
  have d: "distinct (map ?f (author_log_snapshot s))" by (simp add: values_sorted_by_slot[OF assms])
  have "inj_on ?g (set (author_log_snapshot s))"
  proof (rule inj_onI)
    fix x y
    assume "x \<in> set (author_log_snapshot s)" "y \<in> set (author_log_snapshot s)" and g: "?g x = ?g y"
    then obtain k l where "bt_get (hs_author_log s) k = Some x" "bt_get (hs_author_log s) l = Some y"
      unfolding author_log_snapshot_def set_bt_values by blast
    with assms g have "bt_get (hs_message_index s) (?g x) = Some k" "bt_get (hs_message_index s) (?g x) = Some l"
      using log_ok_index[OF assms] by metis+
    then show "x = y" using \<open>bt_get (hs_author_log s) k = Some x\<close> \<open>bt_get (hs_author_log s) l = Some y\<close> by simp
  qed
  moreover have "distinct (author_log_snapshot s)" using d by (simp add: distinct_map)
  ultimately show ?thesis by (simp add: distinct_map)
qed

lemma rebuild_log:
  assumes "log_ok s"
  shows "fold (\<lambda>x. bt_insert (slot_of (al_envelope x)) x) (author_log_snapshot s) bt_empty = hs_author_log s"
proof (rule bt_eqI)
  let ?es = "map (\<lambda>x. (slot_of (al_envelope x), x)) (author_log_snapshot s)"
  have "?es = bt_entries (hs_author_log s)"
  proof -
    have "slot_of (al_envelope x) = k" if "(k, x) \<in> set (bt_entries (hs_author_log s))" for k x
      using that log_ok_slot[OF assms] by (simp add: set_bt_entries)
    then show ?thesis unfolding author_log_snapshot_def bt_values_def map_map by (intro map_idI) auto
  qed
  moreover have "fold (\<lambda>x. bt_insert (slot_of (al_envelope x)) x) (author_log_snapshot s) bt_empty = bt_of_list ?es"
    by (simp add: bt_of_list_def fold_map comp_def)
  moreover have "map_of (rev (bt_entries (hs_author_log s))) = map_of (bt_entries (hs_author_log s))"
    using distinct_bt_keys[of "hs_author_log s"] by (subst map_of_inject_set) (simp_all add: bt_keys_def flip: rev_map)
  ultimately show "bt_get (fold (\<lambda>x. bt_insert (slot_of (al_envelope x)) x) (author_log_snapshot s) bt_empty) k = bt_get (hs_author_log s) k" for k
    by (simp add: bt_get_of_list) (simp add: bt_get_map_of)
qed

lemma fold_merge_duplicates:
  assumes "\<And>x. x \<in> set xs \<Longrightarrow> bt_get (hs_author_log s) (slot_of (al_envelope x)) = Some x"
  shows "fst (fold merge_one_author_entry xs (s, r)) = s \<and>
    hr_events (snd (fold merge_one_author_entry xs (s, r))) = hr_events r @ map (\<lambda>x. merge_event_duplicate (al_envelope x)) xs"
  using assms
proof (induction xs arbitrary: r)
  case (Cons x xs)
  then have "merge_one_author_entry x (s, r) = (s, report_push (merge_event_duplicate (al_envelope x)) r)"
    by (simp add: merge_one_author_entry_def Let_def)
  with Cons show ?case by simp
qed simp

text \<open>
  A replica that merges the snapshot of another one into an empty history holds the same author log: every entry is reported as
  inserted and none needs repair. Merging the snapshot once more, in any order, changes nothing and reports every entry as a duplicate.
\<close>

theorem snapshot_rebuilds_log:
  fixes c :: nat
  assumes "log_ok s"
  defines "m \<equiv> merge_author_log (with_recipient_cache_capacity c) (author_log_snapshot s)"
  shows "author_log_snapshot (fst m) = author_log_snapshot s \<and>
    hr_events (snd m) = map (\<lambda>x. merge_event_inserted (al_envelope x)) (author_log_snapshot s) \<and>
    fst (merge_author_log (fst m) (author_log_snapshot s)) = fst m \<and>
    hr_events (snd (merge_author_log (fst m) (author_log_snapshot s))) =
      map (\<lambda>x. merge_event_duplicate (al_envelope x)) (author_log_snapshot s)"
proof -
  let ?s0 = "with_recipient_cache_capacity c" and ?xs = "author_log_snapshot s"
  have d: "distinct (map (\<lambda>x. slot_of (al_envelope x)) ?xs)" by (simp add: values_sorted_by_slot[OF assms(1)])
  note fresh = fold_merge_fresh[OF d snapshot_ids_distinct[OF assms(1)], of ?s0 merge_report_default]
  have m: "hs_author_log (fst m) = hs_author_log s" "hr_events (snd m) = map (\<lambda>x. merge_event_inserted (al_envelope x)) ?xs"
    using fresh rebuild_log[OF assms(1)]
    by (simp_all add: m_def merge_author_log_def snapshot_order[OF assms(1)] with_recipient_cache_capacity_def merge_report_default_def)
  have "bt_get (hs_author_log (fst m)) (slot_of (al_envelope x)) = Some x" if "x \<in> set ?xs" for x
  proof -
    from that obtain k where "bt_get (hs_author_log s) k = Some x" unfolding author_log_snapshot_def set_bt_values by blast
    then show ?thesis using log_ok_slot[OF assms(1)] m(1) by metis
  qed
  then have "fst (merge_author_log (fst m) ?xs) = fst m \<and>
      hr_events (snd (merge_author_log (fst m) ?xs)) = map (\<lambda>x. merge_event_duplicate (al_envelope x)) ?xs"
    using fold_merge_duplicates[of ?xs "fst m" merge_report_default]
    by (simp add: merge_author_log_def snapshot_order[OF assms(1)]) (simp add: merge_report_default_def)
  moreover have "author_log_snapshot (fst m) = ?xs" using m(1) by (simp add: author_log_snapshot_def)
  ultimately show ?thesis using m(2) by simp
qed

section \<open>The eviction loop\<close>

text \<open>One round of the loop, when it is over its bound.\<close>

lemma evict_step:
  assumes k: "cache_keyed s" and over: "hs_recipient_cache_capacity s < bt_len (hs_recipient_cache s)"
  obtains x where "x \<in> entries_of (hs_recipient_cache s)"
    "\<And>y. y \<in> entries_of (hs_recipient_cache s) \<Longrightarrow> received_key x \<le> received_key y"
    "bt_len (bt_remove (msg_id x) (hs_recipient_cache s)) = bt_len (hs_recipient_cache s) - 1"
    "\<And>r. evict_recipient_cache s r =
      evict_recipient_cache (s\<lparr>hs_recipient_cache := bt_remove (msg_id x) (hs_recipient_cache s)\<rparr>)
        (report_push (merge_event_evicted x) r)"
proof -
  have "0 < bt_len (hs_recipient_cache s)" using over by simp
  then obtain x where x: "min_by_key received_key (bt_values (hs_recipient_cache s)) = Some x"
    "x \<in> entries_of (hs_recipient_cache s)" "\<And>y. y \<in> entries_of (hs_recipient_cache s) \<Longrightarrow> received_key x \<le> received_key y"
    "bt_get (hs_recipient_cache s) (msg_id x) = Some x"
    "bt_len (bt_remove (msg_id x) (hs_recipient_cache s)) = bt_len (hs_recipient_cache s) - 1"
    by (rule oldest_entry[OF k[unfolded cache_keyed_def], of received_key]) blast
  show thesis
  proof (rule that[OF x(2,3,5)])
    show "evict_recipient_cache s r =
      evict_recipient_cache (s\<lparr>hs_recipient_cache := bt_remove (msg_id x) (hs_recipient_cache s)\<rparr>)
        (report_push (merge_event_evicted x) r)" for r
      using over x(1,4) by (subst evict_recipient_cache.simps) simp
  qed
qed

text \<open>
  C39: The eviction loop ends for every cache whose entries are stored under their message identifier, however far it is over its
  capacity: it stops with the cache at its capacity, or untouched when it was within it, leaves the author log alone, and reports
  one eviction for each entry it removed.
\<close>

theorem eviction_terminates:
  assumes "cache_keyed s"
  shows "\<exists>s' r'. evict_recipient_cache s r = Some (s', r') \<and> cache_keyed s' \<and>
    bt_len (hs_recipient_cache s') = min (bt_len (hs_recipient_cache s)) (hs_recipient_cache_capacity s) \<and>
    hs_author_log s' = hs_author_log s \<and> hs_message_index s' = hs_message_index s \<and>
    hs_recipient_cache_capacity s' = hs_recipient_cache_capacity s \<and>
    length (hr_events r') = length (hr_events r) + (bt_len (hs_recipient_cache s) - bt_len (hs_recipient_cache s'))"
  using assms
proof (induction "bt_len (hs_recipient_cache s)" arbitrary: s r rule: less_induct)
  case less
  show ?case
  proof (cases "bt_len (hs_recipient_cache s) \<le> hs_recipient_cache_capacity s")
    case True
    then show ?thesis using less.prems by (subst evict_recipient_cache.simps) simp
  next
    case False
    then have over: "hs_recipient_cache_capacity s < bt_len (hs_recipient_cache s)" by simp
    obtain x where x: "bt_len (bt_remove (msg_id x) (hs_recipient_cache s)) = bt_len (hs_recipient_cache s) - 1"
      and step: "evict_recipient_cache s r =
        evict_recipient_cache (s\<lparr>hs_recipient_cache := bt_remove (msg_id x) (hs_recipient_cache s)\<rparr>)
          (report_push (merge_event_evicted x) r)"
      by (rule evict_step[OF less.prems over]) blast
    let ?s = "s\<lparr>hs_recipient_cache := bt_remove (msg_id x) (hs_recipient_cache s)\<rparr>"
    have k: "cache_keyed ?s" using less.prems by (simp add: cache_keyed_def)
    from x over have "bt_len (hs_recipient_cache ?s) < bt_len (hs_recipient_cache s)" by simp
    from less.hyps[OF this k, of "report_push (merge_event_evicted x) r"] x over
    show ?thesis unfolding step by auto
  qed
qed

section \<open>The cache keeps the newest entries\<close>

abbreviation cached :: "text_history_merge_state \<Rightarrow> text_received_envelope set" where
  "cached s \<equiv> entries_of (hs_recipient_cache s)"

lemma evict_one:
  assumes "cache_keyed s" and "bt_len (hs_recipient_cache s) = Suc (hs_recipient_cache_capacity s)"
  shows "\<exists>x. x \<in> cached s \<and> (\<forall>y \<in> cached s. received_key x \<le> received_key y) \<and>
    bt_len (bt_remove (msg_id x) (hs_recipient_cache s)) = hs_recipient_cache_capacity s \<and>
    evict_recipient_cache s r = Some (s\<lparr>hs_recipient_cache := bt_remove (msg_id x) (hs_recipient_cache s)\<rparr>,
      report_push (merge_event_evicted x) r)"
proof -
  have over: "hs_recipient_cache_capacity s < bt_len (hs_recipient_cache s)" using assms(2) by simp
  obtain x where x: "x \<in> cached s" "\<And>y. y \<in> cached s \<Longrightarrow> received_key x \<le> received_key y"
    "bt_len (bt_remove (msg_id x) (hs_recipient_cache s)) = bt_len (hs_recipient_cache s) - 1"
    "\<And>r. evict_recipient_cache s r =
      evict_recipient_cache (s\<lparr>hs_recipient_cache := bt_remove (msg_id x) (hs_recipient_cache s)\<rparr>)
        (report_push (merge_event_evicted x) r)"
    by (rule evict_step[OF assms(1) over]) blast
  then have "evict_recipient_cache s r = Some (s\<lparr>hs_recipient_cache := bt_remove (msg_id x) (hs_recipient_cache s)\<rparr>,
      report_push (merge_event_evicted x) r)"
    unfolding x(4) using assms(2) by (subst evict_recipient_cache.simps) simp
  with x(1,2,3) assms(2) show ?thesis by auto
qed

text \<open>What one received entry does to the state.\<close>

lemma cache_one_law:
  assumes ok: "cache_ok s"
  shows "\<exists>s' r'. cache_one_received x (s, r) = Some (s', r') \<and> cache_ok s' \<and> hs_author_log s' = hs_author_log s \<and>
    hs_message_index s' = hs_message_index s \<and> hs_recipient_cache_capacity s' = hs_recipient_cache_capacity s \<and>
    evicted_to received_key (hs_recipient_cache_capacity s) (offered msg_id False x (cached s)) (cached s')"
proof -
  let ?m = "hs_recipient_cache s"
  have k: "keyed msg_id ?m" and bound: "bt_len ?m \<le> hs_recipient_cache_capacity s" using ok by (simp_all add: cache_ok_def cache_keyed_def)
  note held = keyed_held[OF k]
  show ?thesis
  proof (cases "bt_get ?m (msg_id x)")
    case (Some old)
    then have "old \<in> cached s" "msg_id old = msg_id x" using keyed_lookup[OF k] by auto
    then have "offered msg_id False x (cached s) = cached s" by (auto simp: offered_def)
    with Some ok bound held show ?thesis by (auto simp: cache_one_received_def Let_def evicted_to_def)
  next
    case None
    let ?s = "s\<lparr>hs_recipient_cache := bt_insert (msg_id x) x ?m\<rparr>" and ?r = "report_push (merge_event_inserted (rv_envelope x)) r"
    have k': "keyed msg_id (bt_insert (msg_id x) x ?m)" using k by (rule keyed_insert)
    have run: "cache_one_received x (s, r) = evict_recipient_cache ?s ?r" using None by (simp add: cache_one_received_def Let_def)
    have len: "bt_len (bt_insert (msg_id x) x ?m) = Suc (bt_len ?m)" using None by (simp add: bt_len_insert bt_contains_def)
    have "msg_id z \<noteq> msg_id x" if "z \<in> cached s" for z using that None keyed_get[OF k, of z] by auto
    then have B: "offered msg_id False x (cached s) = cached ?s" by (auto simp: offered_def entries_insert[OF k])
    have card: "card (cached ?s) = Suc (bt_len ?m)" using keyed_held[OF k'] len by simp
    show ?thesis
    proof (cases "bt_len ?m < hs_recipient_cache_capacity s")
      case True
      then have "evict_recipient_cache ?s ?r = Some (?s, ?r)" using len by (subst evict_recipient_cache.simps) simp
      then show ?thesis using run k' len True B card by (auto simp: cache_ok_def cache_keyed_def evicted_to_def)
    next
      case False
      then have "bt_len (hs_recipient_cache ?s) = Suc (hs_recipient_cache_capacity ?s)" using bound len by simp
      then obtain m where m: "m \<in> cached ?s" "\<forall>y \<in> cached ?s. received_key m \<le> received_key y"
        "bt_len (bt_remove (msg_id m) (hs_recipient_cache ?s)) = hs_recipient_cache_capacity ?s"
        "evict_recipient_cache ?s ?r = Some (?s\<lparr>hs_recipient_cache := bt_remove (msg_id m) (hs_recipient_cache ?s)\<rparr>, report_push (merge_event_evicted m) ?r)"
        using evict_one[of ?s ?r] k' by (auto simp: cache_keyed_def)
      let ?t = "?s\<lparr>hs_recipient_cache := bt_remove (msg_id m) (hs_recipient_cache ?s)\<rparr>"
      have "cached ?t = cached ?s - {m}" using entries_remove_one[OF k'] m(1) by simp
      then have "evicted_to received_key (hs_recipient_cache_capacity s) (offered msg_id False x (cached s)) (cached ?t)"
        using m(1,2) False card bound unfolding B evicted_to_def by auto
      moreover have "cache_ok ?t" using k' m(3) by (simp add: cache_ok_def cache_keyed_def)
      ultimately show ?thesis using run m(4) by auto
    qed
  qed
qed

interpretation text_cache: newest_cache msg_id received_key False
  "\<lambda>sr. hs_recipient_cache_capacity (fst sr)" "\<lambda>sr. cached (fst sr)" "\<lambda>sr. cache_ok (fst sr)" cache_one_received
proof
  fix sr :: "text_history_merge_state \<times> text_history_merge_report" and x
  assume "cache_ok (fst sr)"
  then show "finite (cached (fst sr)) \<and> inj_on msg_id (cached (fst sr)) \<and> card (cached (fst sr)) \<le> hs_recipient_cache_capacity (fst sr)"
    using keyed_held by (auto simp: cache_ok_def cache_keyed_def)
  from cache_one_law[OF \<open>cache_ok (fst sr)\<close>, of x "snd sr"] show
    "\<exists>s'. cache_one_received x sr = Some s' \<and> cache_ok (fst s') \<and>
      hs_recipient_cache_capacity (fst s') = hs_recipient_cache_capacity (fst sr) \<and>
      evicted_to received_key (hs_recipient_cache_capacity (fst sr)) (offered msg_id False x (cached (fst sr))) (cached (fst s'))"
    by auto
qed

lemma cache_received_put_all: "cache_received xs sr = put_all cache_one_received xs sr"
proof (induction xs arbitrary: sr)
  case (Cons x xs)
  then have "cache_received xs = put_all cache_one_received xs" by blast
  then show ?case by simp
qed simp

lemma cache_received_frame:
  "cache_ok (fst sr) \<Longrightarrow> cache_received xs sr = Some sr' \<Longrightarrow>
     hs_author_log (fst sr') = hs_author_log (fst sr) \<and> hs_message_index (fst sr') = hs_message_index (fst sr)"
proof (induction xs arbitrary: sr)
  case (Cons x xs)
  from cache_one_law[OF Cons.prems(1), of x "snd sr"] obtain s1 r1 where one: "cache_one_received x sr = Some (s1, r1)" "cache_ok s1"
    "hs_author_log s1 = hs_author_log (fst sr)" "hs_message_index s1 = hs_message_index (fst sr)" by auto
  with Cons.IH[of "(s1, r1)"] Cons.prems(2) show ?case by simp
qed simp

section \<open>Sequences of merges\<close>

datatype merge_call = MergeAuthors "text_author_log_envelope list" | MergeReceived "text_received_envelope list"

fun merge_all :: "merge_call list \<Rightarrow> text_history_merge_state \<Rightarrow> text_history_merge_state option" where
  "merge_all [] s = Some s"
| "merge_all (MergeAuthors xs # cs) s = merge_all cs (fst (merge_author_log s xs))"
| "merge_all (MergeReceived xs # cs) s = Option.bind (merge_received_cache s xs) (\<lambda>(s', _). merge_all cs s')"

fun received_of :: "merge_call list \<Rightarrow> text_received_envelope list" where
  "received_of [] = []"
| "received_of (MergeAuthors xs # cs) = received_of cs"
| "received_of (MergeReceived xs # cs) = xs @ received_of cs"

lemma merge_all_ok:
  "log_ok s \<Longrightarrow> cache_ok s \<Longrightarrow> newest_of msg_id received_key (hs_recipient_cache_capacity s) (cached s) U \<Longrightarrow>
     \<exists>s'. merge_all cs s = Some s' \<and> log_ok s' \<and> cache_ok s' \<and> hs_recipient_cache_capacity s' = hs_recipient_cache_capacity s \<and>
       bt_get (hs_author_log s) \<subseteq>\<^sub>m bt_get (hs_author_log s') \<and>
       newest_of msg_id received_key (hs_recipient_cache_capacity s) (cached s') (U \<union> set (received_of cs))"
proof (induction cs arbitrary: s U)
  case (Cons c cs)
  show ?case
  proof (cases c)
    case (MergeAuthors xs)
    let ?s = "fst (merge_author_log s xs)"
    from fold_merge_log[of "(s, merge_report_default)" "author_order xs"] Cons.prems
    have "log_ok ?s" "cache_ok ?s" "hs_recipient_cache_capacity ?s = hs_recipient_cache_capacity s" "cached ?s = cached s"
      "bt_get (hs_author_log s) \<subseteq>\<^sub>m bt_get (hs_author_log ?s)"
      by (auto simp: merge_author_log_def cache_ok_def cache_keyed_def)
    with Cons.IH[of ?s U] Cons.prems(3) MergeAuthors show ?thesis by (auto intro: map_le_trans)
  next
    case (MergeReceived xs)
    let ?xs = "sort_key received_key xs"
    from text_cache.put_all_newest[of "(s, merge_report_default)" U ?xs] Cons.prems obtain s1 r where
      s1: "merge_received_cache s xs = Some (s1, r)" "cache_ok s1" "hs_recipient_cache_capacity s1 = hs_recipient_cache_capacity s"
        "newest_of msg_id received_key (hs_recipient_cache_capacity s) (cached s1) (U \<union> set xs)"
      by (auto simp: merge_received_cache_def cache_received_put_all)
    have same: "hs_author_log s1 = hs_author_log s" "hs_message_index s1 = hs_message_index s"
      using cache_received_frame[of "(s, merge_report_default)" ?xs "(s1, r)"] s1(1) Cons.prems(2)
      by (simp_all add: merge_received_cache_def)
    then have "log_ok s1" using Cons.prems(1) unfolding log_ok_def by simp
    from Cons.IH[OF this s1(2), of "U \<union> set xs"] MergeReceived s1 same show ?thesis by (auto simp: Un_assoc)
  qed
qed auto

lemma cached_new: "newest_of msg_id received_key n (cached (with_recipient_cache_capacity c)) {}"
  by (simp add: newest_of_def with_recipient_cache_capacity_def)

text \<open>
  C21: Every sequence of merges of author logs and received entries, starting from an empty history, returns; the index agrees with the
  author log, each slot and each message identifier belongs to one envelope, the cache stays within its capacity, and what a prefix of the
  sequence put into the author log is never replaced or removed by the rest.
\<close>

theorem history_append_only:
  "\<exists>s s'. merge_all cs (with_recipient_cache_capacity c) = Some s \<and> merge_all cs' s = Some s' \<and>
     log_ok s' \<and> cache_ok s' \<and> bt_len (hs_recipient_cache s') \<le> max c 1 \<and>
     bt_get (hs_author_log s) \<subseteq>\<^sub>m bt_get (hs_author_log s')"
proof -
  from merge_all_ok[OF history_new cached_new, of cs c] obtain s U where
    s: "merge_all cs (with_recipient_cache_capacity c) = Some s" "log_ok s" "cache_ok s" "hs_recipient_cache_capacity s = max c 1"
      "newest_of msg_id received_key (max c 1) (cached s) U"
    by (auto simp: with_recipient_cache_capacity_def)
  from merge_all_ok[OF s(2,3), of U cs'] s show ?thesis by (auto simp: cache_ok_def)
qed

text \<open>
  After any sequence of merges the recipient cache is within its capacity and holds the newest of all entries ever received: an entry that
  is not cached shares its message identifier with another received one, or the cache is full of entries that are not older, by receive time and then
  message identifier.
\<close>

theorem recipient_cache_keeps_newest:
  "\<exists>s. merge_all cs (with_recipient_cache_capacity c) = Some s \<and> bt_len (hs_recipient_cache s) \<le> max c 1 \<and>
     newest_of msg_id received_key (max c 1) (cached s) (set (received_of cs))"
  using merge_all_ok[OF history_new cached_new, of cs c] by (auto simp: with_recipient_cache_capacity_def cache_ok_def)

section \<open>Witnesses\<close>

definition demo_logged :: "nat \<Rightarrow> string \<Rightarrow> text_author_log_envelope" where
  "demo_logged sequence i = \<lparr>al_channel_id = ''chat'', al_envelope = demo_text_envelope\<lparr>te_sequence := sequence, te_message_id := i\<rparr>, al_sent_at_ms = 3\<rparr>"

definition demo_received :: "nat \<Rightarrow> string \<Rightarrow> text_received_envelope" where
  "demo_received at i = \<lparr>rv_channel_id = ''chat'', rv_envelope = demo_text_envelope\<lparr>te_message_id := i\<rparr>, rv_received_at_ms = at\<rparr>"

definition demo_history :: text_history_merge_state where
  "demo_history = fst (merge_author_log (with_recipient_cache_capacity 3) [demo_logged 9 ''b'', demo_logged 7 ''a''])"

lemma demo_slots [simp]:
  "slot_of (al_envelope (demo_logged n i)) = (5, n)" "te_message_id (al_envelope (demo_logged n i)) = i"
  "msg_id (demo_received t i) = i" "received_key (demo_received t i) = (t, i)"
  by (simp_all add: slot_of_def demo_logged_def demo_received_def received_key_def demo_text_envelope_def) (simp add: demo_input_def)

lemma demo_history_ok: "log_ok demo_history" "cache_ok (with_recipient_cache_capacity 2)"
  using fold_merge_log[of "(with_recipient_cache_capacity 3, merge_report_default)"] history_new
  by (simp_all add: demo_history_def merge_author_log_def)

theorem merge_batch_order_independent_witness:
  "merge_author_log demo_history [demo_logged 11 ''c'', demo_logged 7 ''d''] = merge_author_log demo_history [demo_logged 7 ''d'', demo_logged 11 ''c''] \<and>
   merge_received_cache demo_history [demo_received 5 ''x'', demo_received 4 ''y''] = merge_received_cache demo_history [demo_received 4 ''y'', demo_received 5 ''x'']"
  by (rule merge_batch_order_independent) auto

theorem snapshot_rebuilds_log_witness:
  "author_log_snapshot (fst (merge_author_log (with_recipient_cache_capacity 5) (author_log_snapshot demo_history))) = author_log_snapshot demo_history"
  using snapshot_rebuilds_log[OF demo_history_ok(1)] by blast

theorem eviction_terminates_witness:
  "\<exists>s' r'. evict_recipient_cache ((with_recipient_cache_capacity 2)\<lparr>hs_recipient_cache :=
       bt_insert ''a'' (demo_received 5 ''a'') (bt_insert ''b'' (demo_received 4 ''b'') (bt_insert ''c'' (demo_received 6 ''c'') bt_empty))\<rparr>)
       merge_report_default = Some (s', r') \<and> bt_len (hs_recipient_cache s') = 2 \<and> length (hr_events r') = 1"
proof -
  let ?s = "(with_recipient_cache_capacity 2)\<lparr>hs_recipient_cache :=
       bt_insert ''a'' (demo_received 5 ''a'') (bt_insert ''b'' (demo_received 4 ''b'') (bt_insert ''c'' (demo_received 6 ''c'') bt_empty))\<rparr>"
  have "cache_keyed ?s" by (auto simp: cache_keyed_def keyed_def split: if_split_asm)
  moreover have "bt_len (hs_recipient_cache ?s) = 3" "hs_recipient_cache_capacity ?s = 2"
    by (simp_all add: bt_len_insert with_recipient_cache_capacity_def)
  ultimately show ?thesis using eviction_terminates[of ?s merge_report_default] by (auto simp: merge_report_default_def)
qed

end
