(* ===== verification/Storage.thy ===== *)
theory Storage
  imports Retention Bounded_Cache
begin

text \<open>
  The local store (\<open>crates/storage/src/lib.rs\<close>): the author log of the own devices with its atomic merge, the bounded
  recipient cache with its eviction loop, and cooperative shredding with tombstones. SHA-256 and \<open>hex\<close> are
  parameters. A method that can fail after it changed the store returns the store with its result; the eviction
  loop is a partial function. Shown: merging logs computes their union or reports a conflict, whatever the
  order and the direction; the cache keeps the newest entries; a shredded message never decrypts again.
\<close>

unbundle bit_operations_syntax

section \<open>Author log\<close>

datatype author_log_error =
    EmptyDeviceId
  | EmptyMessageId
  | SequenceFork (fork_author_leaf: nat) (fork_device_id: string) (fork_sequence: nat)
  | MessageIdReused string

datatype author_log_append_outcome = AppendInserted | AppendDuplicate

record author_log_merge_report =
  lr_inserted :: nat
  lr_duplicates :: nat

type_synonym author_log_key = "nat \<times> string \<times> nat"

record author_log_entry =
  ae_author_leaf :: nat
  ae_device_id :: string
  ae_sequence :: nat
  ae_epoch :: nat
  ae_message_id :: string
  ae_ciphertext :: bytes

definition stable_message_id ::
  "(bytes \<Rightarrow> bytes) \<Rightarrow> hex_codec \<Rightarrow> nat \<Rightarrow> string \<Rightarrow> nat \<Rightarrow> nat \<Rightarrow> bytes \<Rightarrow> string" where
  "stable_message_id sha256 hx author_leaf device_id sequence epoch ciphertext =
     ''msg_'' @ hx_encode hx (sha256 (str_bytes ''discrypt:v1:author-log-message-id'' @ u32_be author_leaf @
       u64_be (length device_id) @ str_bytes device_id @ u64_be sequence @ u64_be epoch @ sha256 ciphertext))"

definition author_entry_new_stable ::
  "(bytes \<Rightarrow> bytes) \<Rightarrow> hex_codec \<Rightarrow> nat \<Rightarrow> string \<Rightarrow> nat \<Rightarrow> nat \<Rightarrow> bytes \<Rightarrow> author_log_entry" where
  "author_entry_new_stable sha256 hx author_leaf device_id sequence epoch ciphertext =
     \<lparr>ae_author_leaf = author_leaf, ae_device_id = device_id, ae_sequence = sequence, ae_epoch = epoch,
      ae_message_id = stable_message_id sha256 hx author_leaf device_id sequence epoch ciphertext,
      ae_ciphertext = ciphertext\<rparr>"

definition has_stable_message_id :: "(bytes \<Rightarrow> bytes) \<Rightarrow> hex_codec \<Rightarrow> author_log_entry \<Rightarrow> bool" where
  "has_stable_message_id sha256 hx e \<longleftrightarrow>
     ae_message_id e = stable_message_id sha256 hx (ae_author_leaf e) (ae_device_id e) (ae_sequence e) (ae_epoch e) (ae_ciphertext e)"

definition author_entry_key :: "author_log_entry \<Rightarrow> author_log_key" where
  "author_entry_key e = (ae_author_leaf e, ae_device_id e, ae_sequence e)"

section \<open>Recipient cache\<close>

datatype local_decrypt_error =
    DecryptMissing string
  | DecryptShredded string
  | DecryptLocked string
  | DecryptUnavailable string

record recipient_cache_entry =
  ce_message_id :: string
  ce_ciphertext :: bytes
  ce_key_state :: key_state
  ce_received_at_ms :: nat

record bounded_recipient_cache =
  bc_capacity :: nat
  bc_entries :: "(string, recipient_cache_entry) btreemap"

definition bounded_cache_new :: "nat \<Rightarrow> bounded_recipient_cache" where
  "bounded_cache_new capacity = \<lparr>bc_capacity = max capacity 1, bc_entries = bt_empty\<rparr>"

definition cache_age :: "recipient_cache_entry \<Rightarrow> nat \<times> string" where
  "cache_age x = (ce_received_at_ms x, ce_message_id x)"

partial_function (option) cache_evict ::
  "nat \<Rightarrow> (string, recipient_cache_entry) btreemap \<Rightarrow> (string, recipient_cache_entry) btreemap option" where
  "cache_evict capacity m =
     (if bt_len m \<le> capacity then Some m
      else case min_by_key cache_age (bt_values m) of
             None \<Rightarrow> Some m
           | Some x \<Rightarrow> cache_evict capacity (bt_remove (ce_message_id x) m))"

definition bounded_cache_insert :: "recipient_cache_entry \<Rightarrow> bounded_recipient_cache \<Rightarrow> bounded_recipient_cache option" where
  "bounded_cache_insert x c =
     map_option (\<lambda>m. c\<lparr>bc_entries := m\<rparr>) (cache_evict (bc_capacity c) (bt_insert (ce_message_id x) x (bc_entries c)))"

text \<open>Zeroizing the key bytes and setting the state to \<open>Shredded\<close> leaves no key in the entry.\<close>

definition shred_entry :: "recipient_cache_entry \<Rightarrow> recipient_cache_entry" where
  "shred_entry x = x\<lparr>ce_key_state := Shredded\<rparr>"

definition cache_shred :: "bounded_recipient_cache \<Rightarrow> string \<Rightarrow> bounded_recipient_cache \<times> bool" where
  "cache_shred c message_id =
     (case bt_get (bc_entries c) message_id of
        None \<Rightarrow> (c, False)
      | Some x \<Rightarrow> (c\<lparr>bc_entries := bt_insert message_id (shred_entry x) (bc_entries c)\<rparr>, True))"

definition xor_harness_ciphertext :: "bytes \<Rightarrow> bytes \<Rightarrow> bytes" where
  "xor_harness_ciphertext ciphertext key = map (\<lambda>(i, b). b XOR key ! (i mod length key)) (enumerate 0 ciphertext)"

definition decrypt_for_harness :: "bounded_recipient_cache \<Rightarrow> string \<Rightarrow> local_decrypt_error + bytes" where
  "decrypt_for_harness c message_id =
     and_then (ok_or (DecryptMissing message_id) (bt_get (bc_entries c) message_id)) (\<lambda>x.
       case ce_key_state x of
         Cached key \<Rightarrow> Inr (xor_harness_ciphertext (ce_ciphertext x) key)
       | Shredded \<Rightarrow> Inl (DecryptShredded message_id)
       | Locked \<Rightarrow> Inl (DecryptLocked message_id)
       | _ \<Rightarrow> Inl (DecryptUnavailable message_id))"

section \<open>Local store\<close>

record local_store =
  ls_author_log :: "(author_log_key, author_log_entry) btreemap"
  ls_recipient_cache :: bounded_recipient_cache
  ls_message_tombstones :: "string btreeset"

definition local_store_new :: "nat \<Rightarrow> local_store" where
  "local_store_new capacity =
     \<lparr>ls_author_log = bt_empty, ls_recipient_cache = bounded_cache_new capacity, ls_message_tombstones = bs_empty\<rparr>"

definition insert_author_log_entry ::
  "local_store \<Rightarrow> author_log_entry \<Rightarrow> author_log_error + local_store \<times> author_log_append_outcome" where
  "insert_author_log_entry s e =
     and_then (ensure (\<not> blank (ae_device_id e)) EmptyDeviceId) (\<lambda>_.
     and_then (ensure (\<not> blank (ae_message_id e)) EmptyMessageId) (\<lambda>_.
       let key = author_entry_key e
       in case bt_get (ls_author_log s) key of
            Some old \<Rightarrow>
              if old = e then Inr (s, AppendDuplicate)
              else Inl (SequenceFork (ae_author_leaf e) (ae_device_id e) (ae_sequence e))
          | None \<Rightarrow>
              if list_ex (\<lambda>(k, old). ae_message_id old = ae_message_id e \<and> k \<noteq> key) (bt_entries (ls_author_log s))
              then Inl (MessageIdReused (ae_message_id e))
              else Inr (s\<lparr>ls_author_log := bt_insert key e (ls_author_log s)\<rparr>, AppendInserted)))"

definition append_sent :: "local_store \<Rightarrow> author_log_entry \<Rightarrow> author_log_error + local_store \<times> author_log_append_outcome" where
  "append_sent s e = insert_author_log_entry s e"

fun merge_entries ::
  "local_store \<Rightarrow> author_log_merge_report \<Rightarrow> author_log_entry list \<Rightarrow> local_store \<times> (author_log_error + author_log_merge_report)" where
  "merge_entries s r [] = (s, Inr r)"
| "merge_entries s r (e # es) =
     (case insert_author_log_entry s e of
        Inl err \<Rightarrow> (s, Inl err)
      | Inr (s', AppendInserted) \<Rightarrow> merge_entries s' (r\<lparr>lr_inserted := lr_inserted r + 1\<rparr>) es
      | Inr (s', AppendDuplicate) \<Rightarrow> merge_entries s' (r\<lparr>lr_duplicates := lr_duplicates r + 1\<rparr>) es)"

definition merge_author_logs ::
  "local_store \<Rightarrow> author_log_entry list \<Rightarrow> local_store \<times> (author_log_error + author_log_merge_report)" where
  "merge_author_logs s entries = merge_entries s \<lparr>lr_inserted = 0, lr_duplicates = 0\<rparr> entries"

definition merge_author_logs_atomic ::
  "local_store \<Rightarrow> author_log_entry list \<Rightarrow> local_store \<times> (author_log_error + author_log_merge_report)" where
  "merge_author_logs_atomic s entries =
     (case merge_author_logs s entries of (candidate, Inr r) \<Rightarrow> (candidate, Inr r) | (_, Inl err) \<Rightarrow> (s, Inl err))"

definition store_log_snapshot :: "local_store \<Rightarrow> author_log_entry list" where
  "store_log_snapshot s = bt_values (ls_author_log s)"

definition author_log_for :: "local_store \<Rightarrow> nat \<Rightarrow> author_log_entry list" where
  "author_log_for s author_leaf = filter (\<lambda>e. ae_author_leaf e = author_leaf) (bt_values (ls_author_log s))"

definition ordered_author_message_ids :: "local_store \<Rightarrow> string list" where
  "ordered_author_message_ids s = map ae_message_id (bt_values (ls_author_log s))"

definition next_sequence_for_device :: "local_store \<Rightarrow> nat \<Rightarrow> string \<Rightarrow> nat" where
  "next_sequence_for_device s author_leaf device_id =
     (let seqs = map (\<lambda>(_, _, n). n) (filter (\<lambda>(l, d, _). l = author_leaf \<and> d = device_id) (bt_keys (ls_author_log s)))
      in sat_add (if seqs = [] then 0 else Max (set seqs)) 1)"

definition store_cache_received :: "local_store \<Rightarrow> recipient_cache_entry \<Rightarrow> local_store option" where
  "store_cache_received s x =
     (let x = (if bs_member (ls_message_tombstones s) (ce_message_id x) then shred_entry x else x)
      in map_option (\<lambda>c. s\<lparr>ls_recipient_cache := c\<rparr>) (bounded_cache_insert x (ls_recipient_cache s)))"

definition cooperative_shred_message :: "local_store \<Rightarrow> string \<Rightarrow> local_store" where
  "cooperative_shred_message s message_id =
     s\<lparr>ls_message_tombstones := bs_insert message_id (ls_message_tombstones s),
       ls_recipient_cache := fst (cache_shred (ls_recipient_cache s) message_id)\<rparr>"

definition store_merge_tombstones :: "local_store \<Rightarrow> string list \<Rightarrow> local_store" where
  "store_merge_tombstones s message_ids = fold (\<lambda>i s. cooperative_shred_message s i) message_ids s"

definition decrypt_cached_message :: "local_store \<Rightarrow> string \<Rightarrow> local_decrypt_error + bytes" where
  "decrypt_cached_message s message_id =
     (if bs_member (ls_message_tombstones s) message_id then Inl (DecryptShredded message_id)
      else decrypt_for_harness (ls_recipient_cache s) message_id)"

section \<open>Merging author logs\<close>

definition log_valid :: "local_store \<Rightarrow> bool" where
  "log_valid s \<longleftrightarrow> keyed author_entry_key (ls_author_log s) \<and> inj_on ae_message_id (entries_of (ls_author_log s)) \<and>
     (\<forall>e \<in> entries_of (ls_author_log s). \<not> blank (ae_device_id e) \<and> \<not> blank (ae_message_id e))"

text \<open>Entries that can live in one log: named, one per position, one per message identifier.\<close>

definition compatible :: "author_log_entry set \<Rightarrow> bool" where
  "compatible E \<longleftrightarrow> (\<forall>e \<in> E. \<not> blank (ae_device_id e) \<and> \<not> blank (ae_message_id e)) \<and>
     inj_on author_entry_key E \<and> inj_on ae_message_id E"

abbreviation log_entries :: "local_store \<Rightarrow> author_log_entry set" where
  "log_entries s \<equiv> entries_of (ls_author_log s)"

lemma log_valid_compatible: "log_valid s \<longleftrightarrow> keyed author_entry_key (ls_author_log s) \<and> compatible (log_entries s)"
  using keyed_held by (auto simp: log_valid_def compatible_def)

lemma message_id_taken:
  assumes k: "keyed author_entry_key m" and free: "bt_get m (author_entry_key e) = None"
  shows "list_ex (\<lambda>(k, old). ae_message_id old = ae_message_id e \<and> k \<noteq> author_entry_key e) (bt_entries m) \<longleftrightarrow>
    ae_message_id e \<in> ae_message_id ` entries_of m"
proof
  assume "list_ex (\<lambda>(k, old). ae_message_id old = ae_message_id e \<and> k \<noteq> author_entry_key e) (bt_entries m)"
  then obtain k old where "(k, old) \<in> set (bt_entries m)" "ae_message_id old = ae_message_id e" unfolding list_ex_iff by blast
  then show "ae_message_id e \<in> ae_message_id ` entries_of m"
    unfolding set_bt_entries using keyed_lookup[OF k] by (metis image_eqI)
next
  assume "ae_message_id e \<in> ae_message_id ` entries_of m"
  then obtain old where old: "old \<in> entries_of m" "ae_message_id old = ae_message_id e" by force
  then have "bt_get m (author_entry_key old) = Some old" using keyed_get[OF k] by blast
  moreover from this free have "author_entry_key old \<noteq> author_entry_key e" by force
  ultimately show "list_ex (\<lambda>(k, old). ae_message_id old = ae_message_id e \<and> k \<noteq> author_entry_key e) (bt_entries m)"
    unfolding list_ex_iff using old(2) by (intro bexI[of _ "(author_entry_key old, old)"]) (simp_all add: set_bt_entries)
qed

text \<open>Insertion in terms of the set of entries.\<close>

lemma insert_entry_char:
  assumes "log_valid s"
  shows "insert_author_log_entry s e =
      (if blank (ae_device_id e) then Inl EmptyDeviceId else if blank (ae_message_id e) then Inl EmptyMessageId
       else if e \<in> log_entries s then Inr (s, AppendDuplicate)
       else if author_entry_key e \<in> author_entry_key ` log_entries s then Inl (SequenceFork (ae_author_leaf e) (ae_device_id e) (ae_sequence e))
       else if ae_message_id e \<in> ae_message_id ` log_entries s then Inl (MessageIdReused (ae_message_id e))
       else Inr (s\<lparr>ls_author_log := bt_insert (author_entry_key e) e (ls_author_log s)\<rparr>, AppendInserted))"
proof -
  have k: "keyed author_entry_key (ls_author_log s)" using assms by (simp add: log_valid_def)
  show ?thesis
  proof (cases "bt_get (ls_author_log s) (author_entry_key e)")
    case None
    have "author_entry_key e \<notin> author_entry_key ` log_entries s"
    proof
      assume "author_entry_key e \<in> author_entry_key ` log_entries s"
      then obtain old where "old \<in> log_entries s" "author_entry_key old = author_entry_key e" by (metis imageE)
      then show False using None keyed_get[OF k, of old] by simp
    qed
    moreover from this have "e \<notin> log_entries s" by blast
    ultimately show ?thesis using None message_id_taken[OF k None] by (simp add: insert_author_log_entry_def Let_def)
  next
    case (Some old)
    then have o: "old \<in> log_entries s" "author_entry_key old = author_entry_key e" using keyed_lookup[OF k] by simp_all
    have "e \<in> log_entries s \<longleftrightarrow> old = e" using Some o(1) keyed_get[OF k, of e] by auto
    moreover have "author_entry_key e \<in> author_entry_key ` log_entries s" using o by (metis image_eqI)
    ultimately show ?thesis using Some by (simp add: insert_author_log_entry_def Let_def)
  qed
qed

lemma compatible_insert:
  assumes "compatible E"
  shows "compatible (insert e E) \<longleftrightarrow> \<not> blank (ae_device_id e) \<and> \<not> blank (ae_message_id e) \<and>
    (e \<in> E \<or> author_entry_key e \<notin> author_entry_key ` E \<and> ae_message_id e \<notin> ae_message_id ` E)"
proof (cases "e \<in> E")
  case True
  with assms show ?thesis by (simp add: insert_absorb) (simp add: compatible_def)
next
  case False
  with assms show ?thesis by (auto simp: compatible_def)
qed

lemma insert_entry_ok:
  assumes "log_valid s"
  shows "is_ok (insert_author_log_entry s e) \<longleftrightarrow> compatible (insert e (log_entries s))"
  using assms compatible_insert[of "log_entries s" e] unfolding insert_entry_char[OF assms]
  by (simp add: log_valid_compatible)

lemma insert_entry_Inr:
  assumes "log_valid s" and ins: "insert_author_log_entry s e = Inr (s', out)"
  shows "log_valid s' \<and> log_entries s' = insert e (log_entries s) \<and> (out = AppendDuplicate \<longleftrightarrow> e \<in> log_entries s) \<and>
    ls_recipient_cache s' = ls_recipient_cache s \<and> ls_message_tombstones s' = ls_message_tombstones s"
proof -
  have k: "keyed author_entry_key (ls_author_log s)" using assms(1) by (simp add: log_valid_def)
  have comp: "compatible (insert e (log_entries s))" using insert_entry_ok[OF assms(1), of e] ins by simp
  show ?thesis
  proof (cases "e \<in> log_entries s")
    case True
    with ins assms(1) show ?thesis unfolding insert_entry_char[OF assms(1)] by (auto split: if_split_asm)
  next
    case False
    with ins have s': "s' = s\<lparr>ls_author_log := bt_insert (author_entry_key e) e (ls_author_log s)\<rparr>" "out = AppendInserted"
      and fresh: "author_entry_key e \<notin> author_entry_key ` log_entries s"
      unfolding insert_entry_char[OF assms(1)] by (auto split: if_split_asm)
    have "{z \<in> log_entries s. author_entry_key z \<noteq> author_entry_key e} = log_entries s" using fresh by (auto dest: sym)
    then have "log_entries s' = insert e (log_entries s)" by (simp add: s' entries_insert[OF k])
    with False comp k show ?thesis by (simp add: s' log_valid_compatible)
  qed
qed

lemma merge_entries_exact:
  "log_valid s \<Longrightarrow> merge_entries s r es = (s', res) \<Longrightarrow>
     log_valid s' \<and> (is_ok res \<longleftrightarrow> compatible (log_entries s \<union> set es)) \<and> log_entries s \<subseteq> log_entries s' \<and>
     (is_ok res \<longrightarrow> log_entries s' = log_entries s \<union> set es) \<and>
     ls_recipient_cache s' = ls_recipient_cache s \<and> ls_message_tombstones s' = ls_message_tombstones s"
proof (induction es arbitrary: s r)
  case Nil
  then show ?case by (auto simp: log_valid_compatible)
next
  case (Cons e es)
  have mono: "compatible B" if "compatible A" "B \<subseteq> A" for A B
    using that by (auto simp: compatible_def intro: inj_on_subset)
  show ?case
  proof (cases "insert_author_log_entry s e")
    case (Inl err)
    then have "\<not> compatible (insert e (log_entries s))" using insert_entry_ok[OF Cons.prems(1), of e] by simp
    then have "\<not> compatible (log_entries s \<union> set (e # es))" using mono by (metis Un_upper1 Un_upper2 insert_subset list.set_intros(1) subsetD)
    with Inl Cons.prems show ?thesis by auto
  next
    case (Inr so)
    obtain s1 out where so: "so = (s1, out)" by (cases so)
    note ok = insert_entry_Inr[OF Cons.prems(1) Inr[unfolded so]]
    obtain r1 where "merge_entries s1 r1 es = (s', res)" using Cons.prems(2) Inr so by (cases out) auto
    from Cons.IH[OF _ this] ok show ?thesis by auto
  qed
qed

lemma log_determined:
  assumes "log_valid a" and "log_valid b" and "log_entries a = log_entries b"
  shows "ls_author_log a = ls_author_log b"
proof (rule bt_eqI)
  fix k
  have ka: "keyed author_entry_key (ls_author_log a)" and kb: "keyed author_entry_key (ls_author_log b)"
    using assms(1,2) by (simp_all add: log_valid_def)
  have "bt_get (ls_author_log a) k = Some x \<longleftrightarrow> bt_get (ls_author_log b) k = Some x" for x
    unfolding keyed_lookup[OF ka] keyed_lookup[OF kb] assms(3) ..
  then show "bt_get (ls_author_log a) k = bt_get (ls_author_log b) k"
    by (cases "bt_get (ls_author_log a) k") (metis not_None_eq)+
qed

text \<open>
  C8: Two devices that exchange their author logs agree: merging the log of one into the other succeeds exactly when it
  succeeds in the opposite direction, whatever the order in which the entries arrive, and then both hold the union of the two logs,
  position by position; when it fails, the atomic merge leaves both as they were.
\<close>

theorem author_logs_converge:
  assumes "log_valid a" and "log_valid b" and "set es = set (store_log_snapshot a)" and "set fs = set (store_log_snapshot b)"
    and "merge_author_logs_atomic a fs = (a', ra)" and "merge_author_logs_atomic b es = (b', rb)"
  shows "(is_ok ra \<longleftrightarrow> is_ok rb) \<and>
    (if is_ok ra then ls_author_log a' = ls_author_log b' \<and> log_entries a' = log_entries a \<union> log_entries b
     else a' = a \<and> b' = b)"
proof -
  have sets: "set es = log_entries a" "set fs = log_entries b"
    using assms(3,4) by (simp_all add: store_log_snapshot_def entries_of_def)
  obtain a1 r1 where m1: "merge_author_logs a fs = (a1, r1)" by fastforce
  obtain b1 r2 where m2: "merge_author_logs b es = (b1, r2)" by fastforce
  note e1 = merge_entries_exact[OF assms(1) m1[unfolded merge_author_logs_def]]
  note e2 = merge_entries_exact[OF assms(2) m2[unfolded merge_author_logs_def]]
  have ok: "is_ok r1 \<longleftrightarrow> is_ok r2" using e1 e2 by (simp add: sets Un_commute)
  show ?thesis
  proof (cases "is_ok r1")
    case True
    then have "a' = a1" "b' = b1" "ra = r1" "rb = r2"
      using assms(5,6) m1 m2 ok by (auto simp: merge_author_logs_atomic_def is_ok_iff)
    moreover have "ls_author_log a1 = ls_author_log b1"
      using e1 e2 True ok by (intro log_determined) (auto simp: sets)
    ultimately show ?thesis using e1 True ok by (simp add: sets)
  next
    case False
    then show ?thesis using assms(5,6) m1 m2 ok
      by (cases r1; cases r2) (auto simp: merge_author_logs_atomic_def)
  qed
qed

definition demo_log_entry :: "nat \<Rightarrow> author_log_entry" where
  "demo_log_entry leaf = \<lparr>ae_author_leaf = leaf, ae_device_id = ''d'', ae_sequence = 1, ae_epoch = 0,
     ae_message_id = (if leaf = 1 then ''m1'' else ''m2''), ae_ciphertext = [7]\<rparr>"

definition demo_own_store :: "nat \<Rightarrow> local_store" where
  "demo_own_store leaf = (local_store_new 4)\<lparr>ls_author_log := bt_insert (leaf, ''d'', 1) (demo_log_entry leaf) bt_empty\<rparr>"

lemma demo_not_blank: "\<not> blank ''d''" "\<not> blank ''m1''" "\<not> blank ''m2''"
  by code_simp+

lemma demo_own_entries: "keyed author_entry_key (ls_author_log (demo_own_store leaf))" "log_entries (demo_own_store leaf) = {demo_log_entry leaf}"
  using keyed_insert[of author_entry_key bt_empty "demo_log_entry leaf"] entries_insert[of author_entry_key bt_empty "demo_log_entry leaf"]
  by (simp_all add: demo_own_store_def author_entry_key_def demo_log_entry_def)

lemma demo_own_valid: "log_valid (demo_own_store leaf)"
  using demo_own_entries[of leaf] demo_not_blank by (simp add: log_valid_def demo_log_entry_def)

lemma demo_merge_ok: "is_ok (snd (merge_author_logs_atomic (demo_own_store 1) [demo_log_entry 2]))"
  by (simp add: merge_author_logs_atomic_def merge_author_logs_def insert_entry_char[OF demo_own_valid] demo_own_entries demo_not_blank
      demo_log_entry_def author_entry_key_def)

theorem author_logs_converge_witness:
  "\<exists>a' b' r r'. merge_author_logs_atomic (demo_own_store 1) [demo_log_entry 2] = (a', Inr r) \<and>
     merge_author_logs_atomic (demo_own_store 2) [demo_log_entry 1] = (b', Inr r') \<and>
     ls_author_log a' = ls_author_log b' \<and> log_entries a' = {demo_log_entry 1, demo_log_entry 2}"
proof -
  obtain a' ra where a: "merge_author_logs_atomic (demo_own_store 1) [demo_log_entry 2] = (a', ra)" by fastforce
  obtain b' rb where b: "merge_author_logs_atomic (demo_own_store 2) [demo_log_entry 1] = (b', rb)" by fastforce
  have snap: "set (store_log_snapshot (demo_own_store leaf)) = {demo_log_entry leaf}" for leaf
    using demo_own_entries(2)[of leaf] by (simp add: store_log_snapshot_def entries_of_def)
  from author_logs_converge[OF demo_own_valid demo_own_valid _ _ a b] demo_merge_ok a b show ?thesis
    by (auto simp: snap demo_own_entries is_ok_iff)
qed

text \<open>
  The next sequence of a device lies above every sequence it has used, as long as the counter has not reached its end; a named entry with
  a fresh message identifier that uses it is appended to the log and only moves the next sequence of that device.
\<close>

lemma next_sequence_above:
  assumes "log_valid s" and "e \<in> log_entries s" and "ae_author_leaf e = leaf" "ae_device_id e = dev"
    and "\<And>f. f \<in> log_entries s \<Longrightarrow> ae_sequence f < u64_max"
  shows "ae_sequence e < next_sequence_for_device s leaf dev"
proof -
  have k: "keyed author_entry_key (ls_author_log s)" using assms(1) by (simp add: log_valid_def)
  let ?seqs = "map (\<lambda>(_, _, n). n) (filter (\<lambda>(l, d, _). l = leaf \<and> d = dev) (bt_keys (ls_author_log s)))"
  have bound: "n < u64_max" if "n \<in> set ?seqs" for n
  proof -
    from that have "(leaf, dev, n) \<in> set (bt_keys (ls_author_log s))" by auto
    then obtain f where "bt_get (ls_author_log s) (leaf, dev, n) = Some f" by (auto simp: set_bt_keys dom_def)
    then have "f \<in> log_entries s" "ae_sequence f = n" using keyed_lookup[OF k] by (auto simp: author_entry_key_def)
    with assms(5) show ?thesis by auto
  qed
  have "bt_get (ls_author_log s) (author_entry_key e) = Some e" using keyed_get[OF k] assms(2) by simp
  then have "(leaf, dev, ae_sequence e) \<in> set (bt_keys (ls_author_log s))"
    using assms(3,4) by (auto simp: author_entry_key_def set_bt_keys)
  then have e: "ae_sequence e \<in> set ?seqs" by force
  then have ne: "?seqs \<noteq> []" by (metis empty_iff empty_set)
  have "ae_sequence e \<le> Max (set ?seqs)" using e by (rule Max_ge[OF finite_set])
  moreover have "set ?seqs \<noteq> {}" using e by (metis empty_iff)
  then have "Max (set ?seqs) < u64_max" by (intro bound Max_in[OF finite_set])
  ultimately have "ae_sequence e < sat_add (Max (set ?seqs)) 1" by (simp add: sat_add_def)
  with ne show ?thesis by (simp only: next_sequence_for_device_def Let_def if_False)
qed

lemma next_sequence_appends:
  assumes "log_valid s" and "\<And>f. f \<in> log_entries s \<Longrightarrow> ae_sequence f < u64_max"
    and "ae_sequence e = next_sequence_for_device s (ae_author_leaf e) (ae_device_id e)"
    and "\<not> blank (ae_device_id e)" and "\<not> blank (ae_message_id e)" and "ae_message_id e \<notin> ae_message_id ` log_entries s"
  shows "\<exists>s'. append_sent s e = Inr (s', AppendInserted) \<and> log_valid s' \<and> log_entries s' = insert e (log_entries s)"
proof -
  have "author_entry_key e \<notin> author_entry_key ` log_entries s"
  proof
    assume "author_entry_key e \<in> author_entry_key ` log_entries s"
    then obtain f where f: "f \<in> log_entries s" "author_entry_key f = author_entry_key e" by (metis imageE)
    then have "ae_sequence f = ae_sequence e" "ae_author_leaf f = ae_author_leaf e" "ae_device_id f = ae_device_id e"
      by (simp_all add: author_entry_key_def)
    with next_sequence_above[OF assms(1) f(1) this(2,3) assms(2)] assms(3) show False by simp
  qed
  moreover from this have "e \<notin> log_entries s" by blast
  ultimately have "append_sent s e = Inr (s\<lparr>ls_author_log := bt_insert (author_entry_key e) e (ls_author_log s)\<rparr>, AppendInserted)"
    using assms(4-6) by (simp add: append_sent_def insert_entry_char[OF assms(1)])
  with insert_entry_Inr[OF assms(1), of e] show ?thesis by (auto simp: append_sent_def)
qed

section \<open>The cache keeps the newest entries\<close>

definition bounded_ok :: "bounded_recipient_cache \<Rightarrow> bool" where
  "bounded_ok c \<longleftrightarrow> keyed ce_message_id (bc_entries c) \<and> bt_len (bc_entries c) \<le> bc_capacity c"

lemma cache_evict_total:
  assumes "keyed ce_message_id m"
  shows "\<exists>m'. cache_evict capacity m = Some m' \<and> keyed ce_message_id m' \<and> bt_len m' = min (bt_len m) capacity"
  using assms
proof (induction "bt_len m" arbitrary: m rule: less_induct)
  case less
  show ?case
  proof (cases "bt_len m \<le> capacity")
    case True
    then show ?thesis using less.prems by (subst cache_evict.simps) simp
  next
    case False
    then have "0 < bt_len m" by simp
    then obtain x where x: "min_by_key cache_age (bt_values m) = Some x" "bt_len (bt_remove (ce_message_id x) m) = bt_len m - 1"
      by (rule oldest_entry[OF less.prems, of cache_age])
    with False have "bt_len (bt_remove (ce_message_id x) m) < bt_len m" by simp
    from less.hyps[OF this keyed_remove[OF less.prems]] x False show ?thesis by (subst cache_evict.simps) auto
  qed
qed

lemma bounded_insert_law:
  assumes "bounded_ok c"
  shows "\<exists>c'. bounded_cache_insert x c = Some c' \<and> bounded_ok c' \<and> bc_capacity c' = bc_capacity c \<and>
    evicted_to cache_age (bc_capacity c) (offered ce_message_id True x (entries_of (bc_entries c))) (entries_of (bc_entries c'))"
proof -
  have k: "keyed ce_message_id (bc_entries c)" and le: "bt_len (bc_entries c) \<le> bc_capacity c"
    using assms by (simp_all add: bounded_ok_def)
  let ?m = "bt_insert (ce_message_id x) x (bc_entries c)"
  have k': "keyed ce_message_id ?m" using k by (rule keyed_insert)
  have B: "offered ce_message_id True x (entries_of (bc_entries c)) = entries_of ?m" by (simp add: offered_def entries_insert[OF k])
  have card: "card (entries_of ?m) = bt_len ?m" using keyed_held[OF k'] by simp
  show ?thesis
  proof (cases "bt_len ?m \<le> bc_capacity c")
    case True
    then have "cache_evict (bc_capacity c) ?m = Some ?m" by (subst cache_evict.simps) simp
    with True k' card show ?thesis by (simp add: bounded_cache_insert_def bounded_ok_def B evicted_to_def)
  next
    case False
    then have len: "bt_len ?m = Suc (bc_capacity c)" using le by (simp add: bt_len_insert split: if_split_asm)
    then have "0 < bt_len ?m" by simp
    then obtain y where y: "min_by_key cache_age (bt_values ?m) = Some y" "y \<in> entries_of ?m"
      "\<And>z. z \<in> entries_of ?m \<Longrightarrow> cache_age y \<le> cache_age z" "bt_len (bt_remove (ce_message_id y) ?m) = bt_len ?m - 1"
      by (rule oldest_entry[OF k', of cache_age]) blast
    let ?n = "bt_remove (ce_message_id y) ?m"
    have "cache_evict (bc_capacity c) ?m = cache_evict (bc_capacity c) ?n" using False y(1) by (subst cache_evict.simps) simp
    also have "\<dots> = Some ?n" using y(4) len by (subst cache_evict.simps) simp
    finally have "bounded_cache_insert x c = Some (c\<lparr>bc_entries := ?n\<rparr>)" by (simp add: bounded_cache_insert_def)
    moreover have "evicted_to cache_age (bc_capacity c) (entries_of ?m) (entries_of ?n)"
      using y(2,3) False card entries_remove_one[OF k' y(2)] by (auto simp: evicted_to_def)
    ultimately show ?thesis using k' y(4) len by (simp add: bounded_ok_def B)
  qed
qed

interpretation store_cache: newest_cache ce_message_id cache_age True bc_capacity "\<lambda>c. entries_of (bc_entries c)" bounded_ok bounded_cache_insert
proof
  fix c :: bounded_recipient_cache and x
  assume ok: "bounded_ok c"
  then show "finite (entries_of (bc_entries c)) \<and> inj_on ce_message_id (entries_of (bc_entries c)) \<and> card (entries_of (bc_entries c)) \<le> bc_capacity c"
    using keyed_held by (auto simp: bounded_ok_def)
  from bounded_insert_law[OF ok, of x] show "\<exists>c'. bounded_cache_insert x c = Some c' \<and> bounded_ok c' \<and> bc_capacity c' = bc_capacity c \<and>
      evicted_to cache_age (bc_capacity c) (offered ce_message_id True x (entries_of (bc_entries c))) (entries_of (bc_entries c'))" .
qed

text \<open>
  The bounded cache of the store, after any sequence of insertions in any order, returns from every eviction, stays within its capacity (at
  least one) and holds the newest of all inserted entries, provided that entries for the same message carry the same receive time.
\<close>

theorem bounded_cache_keeps_newest:
  assumes "ages_agree ce_message_id cache_age (set xs)"
  shows "\<exists>c. put_all bounded_cache_insert xs (bounded_cache_new n) = Some c \<and> bt_len (bc_entries c) \<le> max n 1 \<and>
    newest_of ce_message_id cache_age (max n 1) (entries_of (bc_entries c)) (set xs)"
proof -
  have "bounded_ok (bounded_cache_new n)" "newest_of ce_message_id cache_age (bc_capacity (bounded_cache_new n)) (entries_of (bc_entries (bounded_cache_new n))) {}"
    by (simp_all add: bounded_ok_def bounded_cache_new_def newest_of_def)
  from store_cache.put_all_newest[OF this, of xs] assms show ?thesis
    by (auto simp: bounded_cache_new_def bounded_ok_def)
qed

theorem bounded_cache_keeps_newest_witness:
  "\<exists>c. put_all bounded_cache_insert [\<lparr>ce_message_id = ''a'', ce_ciphertext = [], ce_key_state = Locked, ce_received_at_ms = 5\<rparr>,
       \<lparr>ce_message_id = ''b'', ce_ciphertext = [], ce_key_state = Locked, ce_received_at_ms = 3\<rparr>] (bounded_cache_new 0) = Some c \<and>
     bt_len (bc_entries c) \<le> 1"
  using bounded_cache_keeps_newest[of "[\<lparr>ce_message_id = ''a'', ce_ciphertext = [], ce_key_state = Locked, ce_received_at_ms = 5\<rparr>,
       \<lparr>ce_message_id = ''b'', ce_ciphertext = [], ce_key_state = Locked, ce_received_at_ms = 3\<rparr>]" 0]
  by (auto simp: ages_agree_def cache_age_def)

section \<open>Shredded messages\<close>

datatype store_call =
    AppendSent author_log_entry
  | MergeLogs "author_log_entry list"
  | MergeLogsAtomic "author_log_entry list"
  | CacheReceived recipient_cache_entry
  | ShredMessage string
  | MergeTombstones "string list"

fun store_step :: "store_call \<Rightarrow> local_store \<Rightarrow> local_store option" where
  "store_step (AppendSent e) s = Some (case append_sent s e of Inr (s', _) \<Rightarrow> s' | Inl _ \<Rightarrow> s)"
| "store_step (MergeLogs es) s = Some (fst (merge_author_logs s es))"
| "store_step (MergeLogsAtomic es) s = Some (fst (merge_author_logs_atomic s es))"
| "store_step (CacheReceived x) s = store_cache_received s x"
| "store_step (ShredMessage i) s = Some (cooperative_shred_message s i)"
| "store_step (MergeTombstones is) s = Some (store_merge_tombstones s is)"

fun store_run :: "store_call list \<Rightarrow> local_store \<Rightarrow> local_store option" where
  "store_run [] s = Some s"
| "store_run (c # cs) s = Option.bind (store_step c s) (store_run cs)"

definition store_ok :: "local_store \<Rightarrow> bool" where
  "store_ok s \<longleftrightarrow> log_valid s \<and> bounded_ok (ls_recipient_cache s) \<and>
     (\<forall>x \<in> entries_of (bc_entries (ls_recipient_cache s)). bs_member (ls_message_tombstones s) (ce_message_id x) \<longrightarrow> ce_key_state x = Shredded)"

lemma store_new_ok: "store_ok (local_store_new n)"
  by (simp add: store_ok_def log_valid_def bounded_ok_def local_store_new_def bounded_cache_new_def)

lemma shred_entry_id [simp]: "ce_message_id (shred_entry x) = ce_message_id x" "ce_key_state (shred_entry x) = Shredded"
  by (simp_all add: shred_entry_def)

lemma shred_ok:
  assumes "store_ok s"
  shows "store_ok (cooperative_shred_message s i) \<and>
    bs_set (ls_message_tombstones (cooperative_shred_message s i)) = insert i (bs_set (ls_message_tombstones s))"
proof -
  let ?c = "ls_recipient_cache s"
  have k: "keyed ce_message_id (bc_entries ?c)" using assms by (simp add: store_ok_def bounded_ok_def)
  have log: "log_valid (cooperative_shred_message s i)" using assms by (simp add: store_ok_def log_valid_def cooperative_shred_message_def)
  show ?thesis
  proof (cases "bt_get (bc_entries ?c) i")
    case None
    then have "ce_message_id x \<noteq> i" if "x \<in> entries_of (bc_entries ?c)" for x using that keyed_get[OF k, of x] by auto
    with None assms log show ?thesis by (auto simp: store_ok_def cooperative_shred_message_def cache_shred_def)
  next
    case (Some x)
    then have i: "i = ce_message_id (shred_entry x)" using keyed_lookup[OF k] by simp
    have "keyed ce_message_id (bt_insert i (shred_entry x) (bc_entries ?c))" unfolding i using k by (rule keyed_insert)
    moreover have "entries_of (bt_insert i (shred_entry x) (bc_entries ?c)) =
        insert (shred_entry x) {z \<in> entries_of (bc_entries ?c). ce_message_id z \<noteq> i}" unfolding i by (rule entries_insert[OF k])
    moreover have "bt_len (bt_insert i (shred_entry x) (bc_entries ?c)) = bt_len (bc_entries ?c)"
      using Some by (simp add: bt_len_insert bt_contains_def)
    ultimately show ?thesis using Some assms log i
      by (auto simp: store_ok_def bounded_ok_def cooperative_shred_message_def cache_shred_def)
  qed
qed

lemma merge_tombstones_ok:
  "store_ok s \<Longrightarrow> store_ok (store_merge_tombstones s is) \<and>
     bs_set (ls_message_tombstones s) \<subseteq> bs_set (ls_message_tombstones (store_merge_tombstones s is))"
proof (induction "is" arbitrary: s)
  case (Cons i "is")
  with shred_ok[OF Cons.prems, of i] Cons.IH[of "cooperative_shred_message s i"] show ?case
    by (auto simp: store_merge_tombstones_def)
qed (simp add: store_merge_tombstones_def)

lemma cache_received_ok:
  assumes "store_ok s"
  shows "\<exists>s'. store_cache_received s x = Some s' \<and> store_ok s' \<and> ls_message_tombstones s' = ls_message_tombstones s"
proof -
  let ?x = "if bs_member (ls_message_tombstones s) (ce_message_id x) then shred_entry x else x"
  have ok: "bounded_ok (ls_recipient_cache s)" using assms by (simp add: store_ok_def)
  from bounded_insert_law[OF ok, of ?x] obtain c where c: "bounded_cache_insert ?x (ls_recipient_cache s) = Some c" "bounded_ok c"
    "evicted_to cache_age (bc_capacity (ls_recipient_cache s)) (offered ce_message_id True ?x (entries_of (bc_entries (ls_recipient_cache s)))) (entries_of (bc_entries c))"
    by blast
  have "entries_of (bc_entries c) \<subseteq> insert ?x (entries_of (bc_entries (ls_recipient_cache s)))"
    using c(3) by (auto simp: evicted_to_def offered_def split: if_split_asm)
  then have "ce_key_state y = Shredded" if "y \<in> entries_of (bc_entries c)" "bs_member (ls_message_tombstones s) (ce_message_id y)" for y
    using that assms by (auto simp: store_ok_def split: if_split_asm)
  with c(1,2) assms show ?thesis by (simp add: store_cache_received_def Let_def store_ok_def log_valid_def)
qed

lemma store_step_ok:
  assumes "store_ok s"
  shows "\<exists>s'. store_step c s = Some s' \<and> store_ok s' \<and> bs_set (ls_message_tombstones s) \<subseteq> bs_set (ls_message_tombstones s')"
proof (cases c)
  case (AppendSent e)
  show ?thesis
  proof (cases "append_sent s e")
    case (Inr so)
    obtain s1 out where so: "so = (s1, out)" by (cases so)
    have lv: "log_valid s" using assms by (simp add: store_ok_def)
    from insert_entry_Inr[OF lv, of e s1 out] Inr so assms AppendSent show ?thesis
      by (simp add: append_sent_def store_ok_def)
  qed (use assms AppendSent in simp)
next
  case (MergeLogs es)
  obtain s' r where m: "merge_author_logs s es = (s', r)" by fastforce
  have lv: "log_valid s" using assms by (simp add: store_ok_def)
  from merge_entries_exact[OF lv m[unfolded merge_author_logs_def]] m assms MergeLogs show ?thesis by (simp add: store_ok_def)
next
  case (MergeLogsAtomic es)
  obtain s' r where m: "merge_author_logs s es = (s', r)" by fastforce
  have lv: "log_valid s" using assms by (simp add: store_ok_def)
  from merge_entries_exact[OF lv m[unfolded merge_author_logs_def]] m assms MergeLogsAtomic show ?thesis
    by (cases r) (simp_all add: store_ok_def merge_author_logs_atomic_def)
next
  case (CacheReceived x)
  with cache_received_ok[OF assms, of x] show ?thesis by auto
next
  case (ShredMessage i)
  with shred_ok[OF assms, of i] show ?thesis by auto
next
  case (MergeTombstones "is")
  with merge_tombstones_ok[OF assms] show ?thesis by simp
qed

lemma store_run_ok:
  "store_ok s \<Longrightarrow> \<exists>s'. store_run cs s = Some s' \<and> store_ok s' \<and> bs_set (ls_message_tombstones s) \<subseteq> bs_set (ls_message_tombstones s')"
proof (induction cs arbitrary: s)
  case (Cons c cs)
  from store_step_ok[OF Cons.prems, of c] Cons.IH show ?case by (auto, metis subset_trans)
qed simp

text \<open>
  C23: A message that was shredded, here or by a tombstone from another device, never decrypts again: every sequence of calls before and after the shredding
  returns, the message is refused as shredded, and the cache holds no content key for it, even if the message is received and cached once more.
\<close>

theorem shredded_never_decrypts:
  "\<exists>s s'. store_run before (local_store_new n) = Some s \<and> store_run after (cooperative_shred_message s i) = Some s' \<and>
     decrypt_cached_message s' i = Inl (DecryptShredded i) \<and>
     (bt_get (bc_entries (ls_recipient_cache s')) i = None \<or>
      map_option ce_key_state (bt_get (bc_entries (ls_recipient_cache s')) i) = Some Shredded)"
proof -
  from store_run_ok[OF store_new_ok, of before n] obtain s where s: "store_run before (local_store_new n) = Some s" "store_ok s" by blast
  note sh = shred_ok[OF s(2), of i]
  from store_run_ok[OF conjunct1[OF sh], of after] obtain s' where
    s': "store_run after (cooperative_shred_message s i) = Some s'" "store_ok s'" "i \<in> bs_set (ls_message_tombstones s')"
    using sh by blast
  have m: "bs_member (ls_message_tombstones s') i" using s'(3) by (simp add: bs_set_def)
  have k: "keyed ce_message_id (bc_entries (ls_recipient_cache s'))" using s'(2) by (simp add: store_ok_def bounded_ok_def)
  have "ce_key_state x = Shredded" if "bt_get (bc_entries (ls_recipient_cache s')) i = Some x" for x
    using that s'(2) m keyed_lookup[OF k] by (auto simp: store_ok_def)
  then have "bt_get (bc_entries (ls_recipient_cache s')) i = None \<or> map_option ce_key_state (bt_get (bc_entries (ls_recipient_cache s')) i) = Some Shredded"
    by (cases "bt_get (bc_entries (ls_recipient_cache s')) i") auto
  with s s' m show ?thesis by (auto simp: decrypt_cached_message_def)
qed

end
