(* ===== verification/Recovery.thy ===== *)
theory Recovery
  imports Rust_Text BTree_Map Crypto_Params
begin

text \<open>
  Account-continuity backups (\<open>crates/storage/src/lib.rs\<close>): sealing and exporting a backup, the recovery code and its verifier, and
  the three ways to restore an export. SHA-256 and \<open>serde_json::from_slice\<close> are parameters. Shown: an exported
  backup restores the normalized memberships through the one path its metadata asks for and is refused on the others; a recovery
  code opens a verifier made from it whatever the surrounding white space; no path depends on the
  stored identity key bytes.
\<close>

section \<open>Data\<close>

record account_backup =
  ab_identity_key_ciphertext :: bytes
  ab_room_memberships :: "string list"
  ab_device_count :: nat

datatype account_backup_recovery_method = ExistingDevice | RecoveryCode | SealedBackup

record account_backup_metadata =
  bm_version :: nat
  bm_created_at_ms :: nat
  bm_exported_by_device_id :: string
  bm_recovery_method :: account_backup_recovery_method
  bm_compromised_device_id :: "string option"
  bm_device_rotation_required :: bool

record account_backup_export =
  ax_metadata :: account_backup_metadata
  ax_backup :: account_backup

record recovery_code_verifier =
  rv_code_hash :: bytes

datatype recovery_material =
    MaterialExistingDevice string
  | MaterialRecoveryCode (mr_code_hash: bytes) (mr_room_memberships: "string list") (mr_device_count: nat)
  | MaterialSealedBackup account_backup
  | MaterialNone

datatype recovery_error =
    NoTrustMaterial
  | EmptyRecoveryCode
  | InvalidRecoveryCode
  | RecoveryCodeRequired
  | MalformedBackup string
  | UnsupportedBackupVersion nat
  | InvalidBackupMetadata string
  | DeviceRotationRequired string

record account_recovery =
  rc_account_access_restored :: bool
  rc_room_memberships :: "string list"
  rc_device_count :: nat
  rc_content_keys_restored :: bool

definition account_backup_export_version :: nat where
  "account_backup_export_version = 1"

section \<open>Operations\<close>

definition hash_recovery_code :: "(bytes \<Rightarrow> bytes) \<Rightarrow> string \<Rightarrow> recovery_error + bytes" where
  "hash_recovery_code sha256 code =
     (let normalized = trim code
      in and_then (ensure (normalized \<noteq> []) EmptyRecoveryCode) (\<lambda>_.
           Inr (sha256 (str_bytes ''discrypt:v1:account-recovery-code'' @ u64_be (length normalized) @ str_bytes normalized))))"

definition verifier_from_code :: "(bytes \<Rightarrow> bytes) \<Rightarrow> string \<Rightarrow> recovery_error + recovery_code_verifier" where
  "verifier_from_code sha256 code = and_then (hash_recovery_code sha256 code) (\<lambda>h. Inr \<lparr>rv_code_hash = h\<rparr>)"

definition verifies :: "(bytes \<Rightarrow> bytes) \<Rightarrow> recovery_code_verifier \<Rightarrow> string \<Rightarrow> bool" where
  "verifies sha256 v code = (case hash_recovery_code sha256 code of Inr candidate \<Rightarrow> candidate = rv_code_hash v | Inl _ \<Rightarrow> False)"

definition normalize_account_continuity :: "string list \<Rightarrow> nat \<Rightarrow> string list \<times> nat" where
  "normalize_account_continuity rooms device_count =
     (bs_elems (bs_of_list (filter (\<lambda>r. r \<noteq> []) (map trim rooms))), max device_count 1)"

definition account_continuity_recovery :: "string list \<Rightarrow> nat \<Rightarrow> account_recovery" where
  "account_continuity_recovery rooms device_count =
     (let (room_memberships, device_count) = normalize_account_continuity rooms device_count
      in \<lparr>rc_account_access_restored = True, rc_room_memberships = room_memberships,
          rc_device_count = device_count, rc_content_keys_restored = False\<rparr>)"

definition seal_account_backup :: "(bytes \<Rightarrow> bytes) \<Rightarrow> bytes \<Rightarrow> string list \<Rightarrow> nat \<Rightarrow> account_backup" where
  "seal_account_backup sha256 key rooms device_count =
     (let digest = sha256 (str_bytes ''discrypt:v1:sealed-account-backup'' @ key);
          (room_memberships, device_count) = normalize_account_continuity rooms device_count
      in \<lparr>ab_identity_key_ciphertext = digest, ab_room_memberships = room_memberships, ab_device_count = device_count\<rparr>)"

definition normalize_required_id :: "string \<Rightarrow> recovery_error + string" where
  "normalize_required_id i =
     (let i = trim i in and_then (ensure (i \<noteq> []) (InvalidBackupMetadata ''device id is required'')) (\<lambda>_. Inr i))"

definition export_account_backup ::
  "(bytes \<Rightarrow> bytes) \<Rightarrow> bytes \<Rightarrow> string list \<Rightarrow> nat \<Rightarrow> string \<Rightarrow> account_backup_recovery_method \<Rightarrow> nat
     \<Rightarrow> recovery_error + account_backup_export" where
  "export_account_backup sha256 key rooms device_count exported_by recovery_method created_at_ms =
     and_then (normalize_required_id exported_by) (\<lambda>exported_by.
       Inr \<lparr>ax_metadata = \<lparr>bm_version = account_backup_export_version, bm_created_at_ms = created_at_ms,
              bm_exported_by_device_id = exported_by, bm_recovery_method = recovery_method,
              bm_compromised_device_id = None, bm_device_rotation_required = False\<rparr>,
            ax_backup = seal_account_backup sha256 key rooms device_count\<rparr>)"

definition export_device_compromise_backup ::
  "(bytes \<Rightarrow> bytes) \<Rightarrow> bytes \<Rightarrow> string list \<Rightarrow> nat \<Rightarrow> string \<Rightarrow> string \<Rightarrow> nat \<Rightarrow> recovery_error + account_backup_export" where
  "export_device_compromise_backup sha256 key rooms device_count exported_by compromised created_at_ms =
     and_then (export_account_backup sha256 key rooms device_count exported_by ExistingDevice created_at_ms) (\<lambda>ex.
     and_then (normalize_required_id compromised) (\<lambda>compromised.
       Inr (ex\<lparr>ax_metadata := (ax_metadata ex)\<lparr>bm_compromised_device_id := Some compromised, bm_device_rotation_required := True\<rparr>\<rparr>)))"

definition validate_backup_export :: "account_backup_export \<Rightarrow> recovery_error + unit" where
  "validate_backup_export ex =
     (let m = ax_metadata ex
      in and_then (ensure (bm_version m = account_backup_export_version) (UnsupportedBackupVersion (bm_version m))) (\<lambda>_.
         and_then (normalize_required_id (bm_exported_by_device_id m)) (\<lambda>_.
         and_then (ensure (length (ab_identity_key_ciphertext (ax_backup ex)) = 32)
                     (InvalidBackupMetadata ''identity backup material must be 32 bytes'')) (\<lambda>_.
           ensure (\<not> (bm_device_rotation_required m \<and>
                       (case bm_compromised_device_id m of None \<Rightarrow> True | Some i \<Rightarrow> blank i)))
             (InvalidBackupMetadata ''compromised device id is required when rotation is required'')))))"

fun recover_account :: "recovery_material \<Rightarrow> recovery_error + account_recovery" where
  "recover_account MaterialNone = Inl NoTrustMaterial"
| "recover_account (MaterialExistingDevice _) = Inr (account_continuity_recovery [] 1)"
| "recover_account (MaterialRecoveryCode _ rooms device_count) = Inr (account_continuity_recovery rooms device_count)"
| "recover_account (MaterialSealedBackup b) = Inr (account_continuity_recovery (ab_room_memberships b) (ab_device_count b))"

definition recovery_code_material ::
  "(bytes \<Rightarrow> bytes) \<Rightarrow> string \<Rightarrow> recovery_code_verifier \<Rightarrow> string list \<Rightarrow> nat \<Rightarrow> recovery_error + recovery_material" where
  "recovery_code_material sha256 code v rooms device_count =
     and_then (ensure (verifies sha256 v code) InvalidRecoveryCode) (\<lambda>_.
       let (room_memberships, device_count) = normalize_account_continuity rooms device_count
       in Inr (MaterialRecoveryCode (rv_code_hash v) room_memberships device_count))"

fun lost_password_recovery_material ::
  "(bytes \<Rightarrow> bytes) \<Rightarrow> string option \<Rightarrow> recovery_code_verifier option \<Rightarrow> string list \<Rightarrow> nat \<Rightarrow> recovery_error + recovery_material" where
  "lost_password_recovery_material sha256 (Some code) (Some v) rooms device_count = recovery_code_material sha256 code v rooms device_count"
| "lost_password_recovery_material sha256 _ _ rooms device_count = Inl NoTrustMaterial"

definition rotation_gate :: "account_backup_export \<Rightarrow> recovery_error + unit" where
  "rotation_gate ex =
     ensure (\<not> bm_device_rotation_required (ax_metadata ex))
       (DeviceRotationRequired (case bm_compromised_device_id (ax_metadata ex) of Some i \<Rightarrow> i | None \<Rightarrow> ''unknown''))"

definition restore_account_backup_export :: "account_backup_export \<Rightarrow> recovery_error + account_recovery" where
  "restore_account_backup_export ex =
     and_then (validate_backup_export ex) (\<lambda>_.
     and_then (rotation_gate ex) (\<lambda>_.
     and_then (ensure (bm_recovery_method (ax_metadata ex) \<noteq> RecoveryCode) RecoveryCodeRequired) (\<lambda>_.
       recover_account (MaterialSealedBackup (ax_backup ex)))))"

definition restore_recovery_code_backup_export ::
  "(bytes \<Rightarrow> bytes) \<Rightarrow> account_backup_export \<Rightarrow> string \<Rightarrow> recovery_code_verifier \<Rightarrow> recovery_error + account_recovery" where
  "restore_recovery_code_backup_export sha256 ex code v =
     and_then (validate_backup_export ex) (\<lambda>_.
     and_then (rotation_gate ex) (\<lambda>_.
     and_then (ensure (bm_recovery_method (ax_metadata ex) = RecoveryCode)
                 (InvalidBackupMetadata ''backup does not require recovery code'')) (\<lambda>_.
     and_then (recovery_code_material sha256 code v (ab_room_memberships (ax_backup ex)) (ab_device_count (ax_backup ex)))
       recover_account)))"

definition restore_account_backup_after_device_rotation :: "account_backup_export \<Rightarrow> string \<Rightarrow> recovery_error + account_recovery" where
  "restore_account_backup_after_device_rotation ex replacement =
     and_then (validate_backup_export ex) (\<lambda>_.
     and_then (ensure (bm_device_rotation_required (ax_metadata ex))
                 (InvalidBackupMetadata ''backup does not require device rotation'')) (\<lambda>_.
     and_then (normalize_required_id replacement) (\<lambda>replacement.
     and_then (ensure (bm_compromised_device_id (ax_metadata ex) \<noteq> Some replacement)
                 (InvalidBackupMetadata ''replacement device must differ from compromised device'')) (\<lambda>_.
       recover_account (MaterialSealedBackup (ax_backup ex))))))"

text \<open>The two functions that take serialized bytes; \<open>from_slice\<close> returns the export or the text of its error.\<close>

definition parse_backup_export :: "(bytes \<Rightarrow> string + account_backup_export) \<Rightarrow> bytes \<Rightarrow> recovery_error + account_backup_export" where
  "parse_backup_export from_slice bs = (case from_slice bs of Inl reason \<Rightarrow> Inl (MalformedBackup reason) | Inr ex \<Rightarrow> Inr ex)"

definition restore_account_backup_export_json ::
  "(bytes \<Rightarrow> string + account_backup_export) \<Rightarrow> bytes \<Rightarrow> recovery_error + account_recovery" where
  "restore_account_backup_export_json from_slice bs = and_then (parse_backup_export from_slice bs) restore_account_backup_export"

definition restore_recovery_code_backup_export_json ::
  "(bytes \<Rightarrow> bytes) \<Rightarrow> (bytes \<Rightarrow> string + account_backup_export) \<Rightarrow> bytes \<Rightarrow> string \<Rightarrow> recovery_code_verifier
     \<Rightarrow> recovery_error + account_recovery" where
  "restore_recovery_code_backup_export_json sha256 from_slice bs code v =
     and_then (parse_backup_export from_slice bs) (\<lambda>ex. restore_recovery_code_backup_export sha256 ex code v)"

section \<open>Normalization and codes\<close>

text \<open>The normal form of the memberships: the trimmed names that are not empty, sorted, each once.\<close>

definition named_rooms :: "string list \<Rightarrow> string set" where
  "named_rooms rooms = trim ` set rooms - {[]}"

lemma normalize_rooms: "normalize_account_continuity rooms n = (sorted_list_of_set (named_rooms rooms), max n 1)"
proof -
  have "bs_set (bs_of_list (filter (\<lambda>r. r \<noteq> []) (map trim rooms))) = named_rooms rooms" by (auto simp: named_rooms_def)
  then show ?thesis by (simp add: normalize_account_continuity_def bs_elems_sorted_list)
qed

lemma named_rooms_idem: "named_rooms (sorted_list_of_set (named_rooms rooms)) = named_rooms rooms"
proof -
  have fin: "finite (named_rooms rooms)" by (simp add: named_rooms_def)
  have "trim ` named_rooms rooms = id ` named_rooms rooms" by (intro image_cong refl) (auto simp: named_rooms_def)
  then show ?thesis
    unfolding named_rooms_def[of "sorted_list_of_set (named_rooms rooms)"] set_sorted_list_of_set[OF fin]
    by simp (simp add: named_rooms_def)
qed

lemma recovery_normal:
  "account_continuity_recovery rooms n =
     \<lparr>rc_account_access_restored = True, rc_room_memberships = sorted_list_of_set (named_rooms rooms),
      rc_device_count = max n 1, rc_content_keys_restored = False\<rparr>"
  by (simp add: account_continuity_recovery_def normalize_rooms)

lemma recovery_of_normal: "account_continuity_recovery (sorted_list_of_set (named_rooms rooms)) (max n 1) = account_continuity_recovery rooms n"
  by (simp add: recovery_normal named_rooms_idem)

lemma hash_code_trim: "hash_recovery_code sha256 (trim code) = hash_recovery_code sha256 code"
  by (simp add: hash_recovery_code_def)

lemma verifies_same_code:
  "verifier_from_code sha256 code = Inr v \<Longrightarrow> trim other = trim code \<Longrightarrow> verifies sha256 v other"
  using hash_code_trim[of sha256 other] hash_code_trim[of sha256 code]
  by (auto simp: verifier_from_code_def verifies_def and_then_Inr)

lemma validate_ok:
  "validate_backup_export ex = Inr () \<longleftrightarrow>
     bm_version (ax_metadata ex) = 1 \<and> \<not> blank (bm_exported_by_device_id (ax_metadata ex)) \<and>
     length (ab_identity_key_ciphertext (ax_backup ex)) = 32 \<and>
     (bm_device_rotation_required (ax_metadata ex) \<longrightarrow> (\<exists>i. bm_compromised_device_id (ax_metadata ex) = Some i \<and> \<not> blank i))"
  by (auto simp: validate_backup_export_def Let_def and_then_Inr account_backup_export_version_def normalize_required_id_def ensure_def
      blank_def split: option.splits if_splits)

section \<open>Restoring\<close>

abbreviation backup_recovery :: "account_backup_export \<Rightarrow> account_recovery" where
  "backup_recovery ex \<equiv> account_continuity_recovery (ab_room_memberships (ax_backup ex)) (ab_device_count (ax_backup ex))"

lemma recover_normal_code:
  "and_then (recovery_code_material sha256 code v rooms n) recover_account = Inr r \<longleftrightarrow>
     verifies sha256 v code \<and> r = account_continuity_recovery rooms n"
  by (cases "verifies sha256 v code") (auto simp: recovery_code_material_def normalize_rooms recovery_of_normal[unfolded One_nat_def])

lemma normalize_id_Inr: "normalize_required_id i = Inr j \<longleftrightarrow> \<not> blank i \<and> j = trim i"
  by (auto simp: normalize_required_id_def and_then_Inr blank_def Let_def)

lemma restore_plain_iff:
  "restore_account_backup_export ex = Inr r \<longleftrightarrow>
     validate_backup_export ex = Inr () \<and> \<not> bm_device_rotation_required (ax_metadata ex) \<and>
     bm_recovery_method (ax_metadata ex) \<noteq> RecoveryCode \<and> r = backup_recovery ex"
  by (auto simp: restore_account_backup_export_def rotation_gate_def and_then_Inr)

lemma restore_code_iff:
  "restore_recovery_code_backup_export sha256 ex code v = Inr r \<longleftrightarrow>
     validate_backup_export ex = Inr () \<and> \<not> bm_device_rotation_required (ax_metadata ex) \<and>
     bm_recovery_method (ax_metadata ex) = RecoveryCode \<and> verifies sha256 v code \<and> r = backup_recovery ex"
  unfolding restore_recovery_code_backup_export_def rotation_gate_def
  by (cases "validate_backup_export ex"; cases "bm_device_rotation_required (ax_metadata ex)";
      cases "bm_recovery_method (ax_metadata ex) = RecoveryCode") (simp_all add: recover_normal_code)

lemma restore_rotation_iff:
  "restore_account_backup_after_device_rotation ex replacement = Inr r \<longleftrightarrow>
     validate_backup_export ex = Inr () \<and> bm_device_rotation_required (ax_metadata ex) \<and>
     \<not> blank replacement \<and> bm_compromised_device_id (ax_metadata ex) \<noteq> Some (trim replacement) \<and> r = backup_recovery ex"
  by (auto simp: restore_account_backup_after_device_rotation_def and_then_Inr normalize_id_Inr)

text \<open>
  Each of the three ways to restore an export succeeds exactly when the export is valid and its metadata asks for this way: the plain
  one if neither a rotation nor a code is asked for, the one with a code if a code is asked for and the code matches, the one after a rotation if a rotation is asked
  for and the replacement is named and is not the compromised device. So at most one way is open for an export. Every way
  restores the normalized memberships of the backup and no content keys.
\<close>

theorem restore_paths:
  "(restore_account_backup_export ex = Inr r \<longleftrightarrow>
      validate_backup_export ex = Inr () \<and> \<not> bm_device_rotation_required (ax_metadata ex) \<and>
      bm_recovery_method (ax_metadata ex) \<noteq> RecoveryCode \<and> r = backup_recovery ex) \<and>
   (restore_recovery_code_backup_export sha256 ex code v = Inr r \<longleftrightarrow>
      validate_backup_export ex = Inr () \<and> \<not> bm_device_rotation_required (ax_metadata ex) \<and>
      bm_recovery_method (ax_metadata ex) = RecoveryCode \<and> verifies sha256 v code \<and> r = backup_recovery ex) \<and>
   (restore_account_backup_after_device_rotation ex replacement = Inr r \<longleftrightarrow>
      validate_backup_export ex = Inr () \<and> bm_device_rotation_required (ax_metadata ex) \<and>
      \<not> blank replacement \<and> bm_compromised_device_id (ax_metadata ex) \<noteq> Some (trim replacement) \<and> r = backup_recovery ex) \<and>
   backup_recovery ex =
     \<lparr>rc_account_access_restored = True, rc_room_memberships = sorted_list_of_set (named_rooms (ab_room_memberships (ax_backup ex))),
      rc_device_count = max (ab_device_count (ax_backup ex)) 1, rc_content_keys_restored = False\<rparr>"
  by (intro conjI restore_plain_iff restore_code_iff restore_rotation_iff recovery_normal)



text \<open>
  An export read from storage may carry white space around the identifier of the compromised device; validation accepts it, and the replacement, which is
  trimmed, is compared with the untrimmed identifier. The compromised device then passes as its own replacement.
\<close>

lemma padded_compromised_device_replaces_itself:
  assumes "validate_backup_export ex = Inr ()" and "bm_device_rotation_required (ax_metadata ex)"
    and "bm_compromised_device_id (ax_metadata ex) = Some padded" and "trim padded \<noteq> padded"
  shows "is_ok (restore_account_backup_after_device_rotation ex padded)"
  using assms by (auto simp: is_ok_iff restore_rotation_iff validate_ok)

end
