(* ===== verification/Secure_Delete.thy ===== *)
theory Secure_Delete
  imports BTree_Map
begin

text \<open>
  The persisted tombstones of the application state and the secure-delete simulator (\<open>crates/storage/src/lib.rs\<close>). Of
  \<open>AppState\<close> only the field \<open>message_tombstones\<close>, the one these methods read and write, is modelled. Shown: recording tombstones computes,
  in any order, the earliest time per message, sorted by message; secure deletion removes exactly the
  named paths and can be undone from a snapshot.
\<close>

section \<open>Tombstones of the application state\<close>

record app_message_tombstone_state =
  at_message_id :: string
  at_shredded_at_ms :: nat
  at_reason :: string

text \<open>\<open>iter_mut().find(p)\<close> followed by an update of the element found.\<close>

fun update_first :: "('a \<Rightarrow> bool) \<Rightarrow> ('a \<Rightarrow> 'a) \<Rightarrow> 'a list \<Rightarrow> 'a list" where
  "update_first p f [] = []"
| "update_first p f (x # xs) = (if p x then f x # xs else x # update_first p f xs)"

definition merge_tombstone :: "app_message_tombstone_state \<Rightarrow> app_message_tombstone_state \<Rightarrow> app_message_tombstone_state" where
  "merge_tombstone t old =
     (let old = (if at_shredded_at_ms t < at_shredded_at_ms old then old\<lparr>at_shredded_at_ms := at_shredded_at_ms t\<rparr> else old)
      in if at_reason old = [] then old\<lparr>at_reason := at_reason t\<rparr> else old)"

definition record_message_tombstone :: "app_message_tombstone_state \<Rightarrow> app_message_tombstone_state list \<Rightarrow> app_message_tombstone_state list" where
  "record_message_tombstone t ts =
     (if list_ex (\<lambda>old. at_message_id old = at_message_id t) ts
      then update_first (\<lambda>old. at_message_id old = at_message_id t) (merge_tombstone t) ts
      else sort_by (\<lambda>a b. cmp_lin (at_message_id a) (at_message_id b)) (ts @ [t]))"

definition state_merge_message_tombstones ::
  "app_message_tombstone_state list \<Rightarrow> app_message_tombstone_state list \<Rightarrow> app_message_tombstone_state list" where
  "state_merge_message_tombstones tombstones ts = fold record_message_tombstone tombstones ts"

definition has_message_tombstone :: "app_message_tombstone_state list \<Rightarrow> string \<Rightarrow> bool" where
  "has_message_tombstone ts message_id = list_ex (\<lambda>t. at_message_id t = message_id) ts"

definition message_tombstone_ids :: "app_message_tombstone_state list \<Rightarrow> string list" where
  "message_tombstone_ids ts = map at_message_id ts"

text \<open>What a list of tombstones says about the set of tombstones recorded so far.\<close>

definition first_shred :: "app_message_tombstone_state set \<Rightarrow> string \<Rightarrow> nat" where
  "first_shred U i = Min (at_shredded_at_ms ` {t \<in> U. at_message_id t = i})"

definition records :: "app_message_tombstone_state list \<Rightarrow> app_message_tombstone_state set \<Rightarrow> bool" where
  "records ts U \<longleftrightarrow> sorted_wrt (<) (map at_message_id ts) \<and> at_message_id ` set ts = at_message_id ` U \<and>
     (\<forall>t \<in> set ts. at_shredded_at_ms t = first_shred U (at_message_id t))"

lemma merge_tombstone_simps [simp]:
  "at_message_id (merge_tombstone t old) = at_message_id old"
  "at_shredded_at_ms (merge_tombstone t old) = min (at_shredded_at_ms t) (at_shredded_at_ms old)"
  by (auto simp: merge_tombstone_def Let_def)

lemma update_first_map:
  "distinct (map g xs) \<Longrightarrow> update_first (\<lambda>x. g x = k) f xs = map (\<lambda>x. if g x = k then f x else x) xs"
proof (induction xs)
  case (Cons x xs)
  show ?case
  proof (cases "g x = k")
    case True
    with Cons.prems have "k \<notin> g ` set xs" by simp
    then have "map (\<lambda>x. if g x = k then f x else x) xs = xs" by (intro map_idI) auto
    with True show ?thesis by simp
  qed (use Cons in simp)
qed simp

lemma first_shred_insert:
  assumes "finite U" and "at_message_id t \<in> at_message_id ` U"
  shows "first_shred (insert t U) (at_message_id t) = min (at_shredded_at_ms t) (first_shred U (at_message_id t))"
proof -
  have "{u \<in> insert t U. at_message_id u = at_message_id t} = insert t {u \<in> U. at_message_id u = at_message_id t}" by auto
  moreover have "{u \<in> U. at_message_id u = at_message_id t} \<noteq> {}" using assms(2) by auto
  ultimately show ?thesis using assms(1) by (simp add: first_shred_def)
qed

lemma first_shred_other: "i \<noteq> at_message_id t \<Longrightarrow> first_shred (insert t U) i = first_shred U i"
  by (auto simp: first_shred_def intro!: arg_cong[where f = Min])

lemma first_shred_new:
  assumes "at_message_id t \<notin> at_message_id ` U"
  shows "first_shred (insert t U) (at_message_id t) = at_shredded_at_ms t"
proof -
  have "{u \<in> insert t U. at_message_id u = at_message_id t} = {t}" using assms by (auto simp: image_iff)
  then show ?thesis by (simp add: first_shred_def)
qed

lemma record_records:
  assumes "records ts U" and "finite U"
  shows "records (record_message_tombstone t ts) (insert t U)"
proof (cases "at_message_id t \<in> at_message_id ` set ts")
  case True
  have d: "distinct (map at_message_id ts)" using assms(1) by (simp add: records_def strict_sorted_iff)
  let ?m = "map (\<lambda>old. if at_message_id old = at_message_id t then merge_tombstone t old else old) ts"
  have m: "record_message_tombstone t ts = ?m"
    using True by (auto simp: record_message_tombstone_def list_ex_iff update_first_map[OF d])
  have ids: "map at_message_id ?m = map at_message_id ts" by simp
  then have ids': "at_message_id ` set ?m = at_message_id ` set ts" by (metis list.set_map)
  have U: "at_message_id t \<in> at_message_id ` U" using True assms(1) by (simp add: records_def)
  have "at_shredded_at_ms u = first_shred (insert t U) (at_message_id u)" if "u \<in> set ?m" for u
    using that assms(1) first_shred_insert[OF assms(2) U] by (auto simp: records_def first_shred_other)
  moreover have "at_message_id ` set ?m = at_message_id ` insert t U"
    unfolding ids' using assms(1) U by (simp add: records_def insert_absorb)
  moreover have "sorted_wrt (<) (map at_message_id ?m)" unfolding ids using assms(1) by (simp add: records_def)
  ultimately show ?thesis unfolding records_def m by blast
next
  case False
  let ?s = "sort_key at_message_id (ts @ [t])"
  have "\<not> list_ex (\<lambda>old. at_message_id old = at_message_id t) ts" using False by (auto simp: list_ex_iff image_iff)
  then have "record_message_tombstone t ts = ?s"
    unfolding record_message_tombstone_def by (simp only: if_False) (rule sort_by_key, rule cmp_lin_not_Greater)
  moreover have "distinct (map at_message_id ?s)"
  proof -
    have "distinct (map at_message_id (ts @ [t]))" using assms(1) False by (auto simp: records_def strict_sorted_iff)
    then show ?thesis by (metis mset_map mset_sort mset_eq_imp_distinct_iff)
  qed
  moreover have "sorted (map at_message_id ?s)" by simp
  moreover have new: "at_message_id t \<notin> at_message_id ` U" using False assms(1) by (simp add: records_def)
  moreover have "at_shredded_at_ms u = first_shred (insert t U) (at_message_id u)" if "u \<in> set ?s" for u
  proof (cases "u = t")
    case False
    with that have "u \<in> set ts" by simp
    moreover from this new assms(1) have "at_message_id u \<noteq> at_message_id t" by (metis imageI records_def)
    ultimately show ?thesis using assms(1) by (simp add: records_def first_shred_other)
  qed (simp add: first_shred_new[OF new])
  ultimately show ?thesis using assms(1) by (auto simp: records_def strict_sorted_iff)
qed

lemma merge_records:
  "records ts U \<Longrightarrow> finite U \<Longrightarrow> records (state_merge_message_tombstones xs ts) (U \<union> set xs)"
proof (induction xs arbitrary: ts U)
  case (Cons x xs)
  from Cons.IH[OF record_records[OF Cons.prems]] Cons.prems show ?case by (simp add: state_merge_message_tombstones_def)
qed (simp add: state_merge_message_tombstones_def)

text \<open>
  Recording tombstones in any order and any number of times yields one tombstone per message, sorted by message identifier, each
  with the earliest time at which that message was shredded; so devices that have seen the same tombstones agree on the messages and times.
\<close>

theorem tombstones_earliest:
  "map (\<lambda>t. (at_message_id t, at_shredded_at_ms t)) (state_merge_message_tombstones xs []) =
     map (\<lambda>i. (i, first_shred (set xs) i)) (sorted_list_of_set (at_message_id ` set xs)) \<and>
   message_tombstone_ids (state_merge_message_tombstones xs []) = sorted_list_of_set (at_message_id ` set xs) \<and>
   (has_message_tombstone (state_merge_message_tombstones xs []) i \<longleftrightarrow> i \<in> at_message_id ` set xs)"
proof -
  let ?ts = "state_merge_message_tombstones xs []"
  have "records [] {}" by (simp add: records_def)
  from merge_records[OF this, of xs] have r: "records ?ts (set xs)" by simp
  have ids: "map at_message_id ?ts = sorted_list_of_set (at_message_id ` set xs)"
    using r by (intro sorted_distinct_set_unique) (simp_all add: records_def strict_sorted_iff)
  have "map (\<lambda>t. (at_message_id t, at_shredded_at_ms t)) ?ts = map (\<lambda>i. (i, first_shred (set xs) i)) (map at_message_id ?ts)"
    using r by (simp add: records_def)
  moreover have "has_message_tombstone ?ts i \<longleftrightarrow> i \<in> at_message_id ` set xs"
  proof -
    have "has_message_tombstone ?ts i \<longleftrightarrow> i \<in> at_message_id ` set ?ts" unfolding has_message_tombstone_def list_ex_iff by blast
    with r show ?thesis by (simp add: records_def)
  qed
  ultimately show ?thesis by (simp add: ids message_tombstone_ids_def)
qed

section \<open>Secure deletion\<close>

record secure_delete_simulator =
  sd_files :: "(string, bytes) btreemap"
  sd_deleted_paths :: "string btreeset"

definition sd_write :: "string \<Rightarrow> bytes \<Rightarrow> secure_delete_simulator \<Rightarrow> secure_delete_simulator" where
  "sd_write path bs s = s\<lparr>sd_files := bt_insert path bs (sd_files s)\<rparr>"

definition sd_snapshot :: "secure_delete_simulator \<Rightarrow> (string, bytes) btreemap" where
  "sd_snapshot s = sd_files s"

definition sd_restore :: "(string, bytes) btreemap \<Rightarrow> secure_delete_simulator \<Rightarrow> secure_delete_simulator" where
  "sd_restore snap s = s\<lparr>sd_files := snap, sd_deleted_paths := bs_empty\<rparr>"

fun secure_delete :: "string list \<Rightarrow> secure_delete_simulator \<Rightarrow> secure_delete_simulator" where
  "secure_delete [] s = s"
| "secure_delete (path # paths) s =
     secure_delete paths (s\<lparr>sd_files := bt_remove path (sd_files s), sd_deleted_paths := bs_insert path (sd_deleted_paths s)\<rparr>)"

definition contains_material :: "secure_delete_simulator \<Rightarrow> bytes \<Rightarrow> bool" where
  "contains_material s needle \<longleftrightarrow> needle \<noteq> [] \<and> list_ex (\<lambda>bs. contains_window bs needle) (bt_values (sd_files s))"

definition deleted_all :: "secure_delete_simulator \<Rightarrow> string list \<Rightarrow> bool" where
  "deleted_all s paths \<longleftrightarrow> list_all (bs_member (sd_deleted_paths s)) paths"

lemma contains_material_iff:
  "contains_material s needle \<longleftrightarrow> needle \<noteq> [] \<and> (\<exists>p bs. bt_get (sd_files s) p = Some bs \<and> sublist needle bs)"
  unfolding contains_material_def list_ex_iff contains_window_sublist Bex_def set_bt_values by blast

lemma secure_delete_files:
  "bt_get (sd_files (secure_delete paths s)) p = (if p \<in> set paths then None else bt_get (sd_files s) p)"
  by (induction paths arbitrary: s) auto

lemma secure_delete_paths: "bs_set (sd_deleted_paths (secure_delete paths s)) = bs_set (sd_deleted_paths s) \<union> set paths"
  by (induction paths arbitrary: s) auto

text \<open>
  Secure deletion removes exactly the named paths: afterwards key material is found only if it also occurs in a file that was not
  named, all named paths count as deleted, and restoring the snapshot taken before brings back every file and forgets the deletion.
\<close>

theorem secure_delete_exact:
  "(contains_material (secure_delete paths s) needle \<longleftrightarrow>
      needle \<noteq> [] \<and> (\<exists>p bs. p \<notin> set paths \<and> bt_get (sd_files s) p = Some bs \<and> sublist needle bs)) \<and>
   deleted_all (secure_delete paths s) paths \<and>
   sd_restore (sd_snapshot s) (secure_delete paths s) = s\<lparr>sd_deleted_paths := bs_empty\<rparr>"
proof -
  have "contains_material (secure_delete paths s) needle \<longleftrightarrow>
      needle \<noteq> [] \<and> (\<exists>p bs. p \<notin> set paths \<and> bt_get (sd_files s) p = Some bs \<and> sublist needle bs)"
    unfolding contains_material_iff secure_delete_files by (metis option.distinct(1))
  moreover have "deleted_all (secure_delete paths s) paths"
    using secure_delete_paths[of paths s] by (auto simp: deleted_all_def list_all_iff bs_set_def)
  moreover have "secure_delete_simulator.more (secure_delete paths s) = secure_delete_simulator.more s"
    by (induction paths arbitrary: s) auto
  ultimately show ?thesis by (simp add: sd_restore_def sd_snapshot_def)
qed

text \<open>A path that is written again after its deletion still counts as deleted, although its material is back.\<close>

lemma rewritten_path_counts_as_deleted:
  assumes "bs \<noteq> []"
  shows "deleted_all (sd_write p bs (secure_delete [p] s)) [p] \<and> contains_material (sd_write p bs (secure_delete [p] s)) bs"
  unfolding contains_material_iff using assms by (auto simp: deleted_all_def sd_write_def intro!: exI[of _ p])

end
