(* ===== verification/Delimited.thy ===== *)
theory Delimited
  imports Rust_Prelude
begin

text \<open>
  Byte encodings that can be read back from the front of a longer byte string. The crates sign such encodings, built by appending
  fixed-size integers, fields with their length, optional fields with a tag byte and counted lists; the rules of the collection \<open>delim\<close> follow that
  construction, so that a signed structure is shown to determine its fields in one step.
\<close>

named_theorems delim \<open>encodings that delimit what they encode\<close>

text \<open>On inputs that fit, the encoding at the front of a byte string determines a view of the input and the rest.\<close>

definition delimits :: "('a \<Rightarrow> bytes) \<Rightarrow> ('a \<Rightarrow> 'v) \<Rightarrow> ('a \<Rightarrow> bool) \<Rightarrow> bool" where
  "delimits enc view fits \<longleftrightarrow> (\<forall>x y r s. fits x \<longrightarrow> fits y \<longrightarrow> enc x @ r = enc y @ s \<longrightarrow> view x = view y \<and> r = s)"

lemma delimitsI:
  "(\<And>x y r s. fits x \<Longrightarrow> fits y \<Longrightarrow> enc x @ r = enc y @ s \<Longrightarrow> view x = view y \<and> r = s) \<Longrightarrow> delimits enc view fits"
  unfolding delimits_def by blast

lemma delimitsD:
  "delimits enc view fits \<Longrightarrow> enc x @ r = enc y @ s \<Longrightarrow> fits x \<Longrightarrow> fits y \<Longrightarrow> view x = view y \<and> r = s"
  unfolding delimits_def by blast

lemma delimits_inj: "delimits enc view fits \<Longrightarrow> enc x = enc y \<Longrightarrow> fits x \<Longrightarrow> fits y \<Longrightarrow> view x = view y"
  using delimitsD[of enc view fits x "[]" y "[]"] by simp

lemma delimits_view: "delimits enc v fits \<Longrightarrow> (\<And>x y. v x = v y \<Longrightarrow> w x = w y) \<Longrightarrow> delimits enc w fits"
  unfolding delimits_def by metis

lemma delimits_field: "delimits e v f \<Longrightarrow> delimits (\<lambda>x. e (g x)) (\<lambda>x. v (g x)) (\<lambda>x. f (g x))"
  unfolding delimits_def by blast

lemma delimits_append [delim]:
  assumes "delimits e1 v1 f1" and "delimits e2 v2 f2"
  shows "delimits (\<lambda>x. e1 x @ e2 x) (\<lambda>x. (v1 x, v2 x)) (\<lambda>x. f1 x \<and> f2 x)"
proof (rule delimitsI)
  fix x y r s
  assume f: "f1 x \<and> f2 x" "f1 y \<and> f2 y" and "(e1 x @ e2 x) @ r = (e1 y @ e2 y) @ s"
  then have "e1 x @ (e2 x @ r) = e1 y @ (e2 y @ s)" by simp
  from delimitsD[OF assms(1) this] f have "v1 x = v1 y" "e2 x @ r = e2 y @ s" by auto
  with delimitsD[OF assms(2), of x r y s] f show "(v1 x, v2 x) = (v1 y, v2 y) \<and> r = s" by simp
qed

text \<open>A constant in front, a domain separator for instance.\<close>

lemma delimits_prefix:
  assumes "delimits e v f"
  shows "delimits (\<lambda>x. c @ e x) v f"
proof (rule delimitsI)
  fix x y r s
  assume f: "f x" "f y" and "(c @ e x) @ r = (c @ e y) @ s"
  then have "e x @ r = e y @ s" by simp
  from delimitsD[OF assms this f] show "v x = v y \<and> r = s" .
qed

lemmas delimits_const [delim] = delimits_prefix[where c = "str_bytes d" for d]
  and delimits_fixed [delim] = delimits_prefix[where c = "le_bytes k n" for k n]
  and delimits_tag [delim] = delimits_prefix[where c = "[b]" for b]

lemma delimits_le [delim]: "delimits (\<lambda>x. le_bytes k (g x)) g (\<lambda>x. g x < 256 ^ k)"
  by (rule delimitsI) (rule le_append_inj)

lemma delimits_lp [delim]: "delimits (\<lambda>x. lp_le (g x)) g (\<lambda>x. length (g x) < 2 ^ 64)"
  by (rule delimitsI) (rule lp_le_append_inj)

lemma delimits_raw [delim]: "delimits (\<lambda>x. g x) g (\<lambda>x. length (g x) = n)"
  by (rule delimitsI) simp

text \<open>Strings, and encodings that are themselves preceded by their length.\<close>

definition str_fits :: "string \<Rightarrow> bool" where
  "str_fits s \<longleftrightarrow> length s < 2 ^ 64"

lemma delimits_str [delim]: "delimits (\<lambda>x. lp_le (str_bytes (g x))) g (\<lambda>x. str_fits (g x))"
proof (rule delimitsI)
  fix x y r s
  assume "str_fits (g x)" "str_fits (g y)" "lp_le (str_bytes (g x)) @ r = lp_le (str_bytes (g y)) @ s"
  then have "str_bytes (g x) = str_bytes (g y) \<and> r = s" by (intro lp_le_append_inj) (simp_all add: str_fits_def)
  then show "g x = g y \<and> r = s" by simp
qed

lemma delimits_nested:
  assumes "delimits e v f"
  shows "delimits (\<lambda>x. lp_le (e x)) v (\<lambda>x. length (e x) < 2 ^ 64 \<and> f x)"
proof (rule delimitsI)
  fix x y r s
  assume f: "length (e x) < 2 ^ 64 \<and> f x" "length (e y) < 2 ^ 64 \<and> f y" and "lp_le (e x) @ r = lp_le (e y) @ s"
  then have "e x = e y \<and> r = s" by (intro lp_le_append_inj) simp_all
  with delimits_inj[OF assms] f show "v x = v y \<and> r = s" by blast
qed

text \<open>A flag, an optional part after a tag byte, and a list after its length.\<close>

definition flag_byte :: "bool \<Rightarrow> u8" where
  "flag_byte b = (if b then 1 else 0)"

lemma delimits_flag [delim]: "delimits (\<lambda>x. [flag_byte (g x)]) g (\<lambda>x. True)"
  by (rule delimitsI) (auto simp: flag_byte_def split: if_splits)

fun optional_bytes :: "('b \<Rightarrow> bytes) \<Rightarrow> 'b option \<Rightarrow> bytes" where
  "optional_bytes e (Some x) = 1 # e x"
| "optional_bytes e None = [0]"

lemma delimits_optional [delim]:
  assumes "delimits e v f"
  shows "delimits (\<lambda>x. optional_bytes e (g x)) (\<lambda>x. map_option v (g x)) (\<lambda>x. pred_option f (g x))"
proof (rule delimitsI)
  fix x y r s
  assume f: "pred_option f (g x)" "pred_option f (g y)" and eq: "optional_bytes e (g x) @ r = optional_bytes e (g y) @ s"
  show "map_option v (g x) = map_option v (g y) \<and> r = s"
  proof (cases "g x")
    case None
    with eq show ?thesis by (cases "g y") simp_all
  next
    case (Some a)
    with eq obtain b where b: "g y = Some b" "e a @ r = e b @ s" by (cases "g y") simp_all
    with f Some delimitsD[OF assms b(2)] show ?thesis by simp
  qed
qed

lemma delimits_concat:
  assumes d: "delimits e v f"
  shows "concat (map e xs) @ r = concat (map e ys) @ s \<Longrightarrow> length xs = length ys \<Longrightarrow> list_all f xs \<Longrightarrow> list_all f ys
    \<Longrightarrow> map v xs = map v ys \<and> r = s"
proof (induction xs arbitrary: ys)
  case (Cons x xs)
  then obtain y ys' where ys: "ys = y # ys'" by (cases ys) auto
  from Cons.prems ys have "e x @ (concat (map e xs) @ r) = e y @ (concat (map e ys') @ s)" by simp
  from delimitsD[OF d this] Cons.prems ys have "v x = v y" "concat (map e xs) @ r = concat (map e ys') @ s" by auto
  moreover from this(2) Cons.prems ys have "map v xs = map v ys' \<and> r = s" by (intro Cons.IH) simp_all
  ultimately show ?case using ys by simp
qed simp

definition counted_bytes :: "('b \<Rightarrow> bytes) \<Rightarrow> 'b list \<Rightarrow> bytes" where
  "counted_bytes e xs = u64_le (length xs) @ concat (map e xs)"

lemma delimits_counted [delim]:
  assumes "delimits e v f"
  shows "delimits (\<lambda>x. counted_bytes e (g x)) (\<lambda>x. map v (g x)) (\<lambda>x. length (g x) < 2 ^ 64 \<and> list_all f (g x))"
proof (rule delimitsI)
  fix x y r s
  assume f: "length (g x) < 2 ^ 64 \<and> list_all f (g x)" "length (g y) < 2 ^ 64 \<and> list_all f (g y)"
    and "counted_bytes e (g x) @ r = counted_bytes e (g y) @ s"
  then have "length (g x) = length (g y) \<and> concat (map e (g x)) @ r = concat (map e (g y)) @ s"
    by (intro le_append_inj[where k = 8]) (simp_all add: counted_bytes_def)
  with delimits_concat[OF assms, of "g x" r "g y" s] f show "map v (g x) = map v (g y) \<and> r = s" by blast
qed

end
