(* ===== verification/Transport_Session.thy ===== *)
theory Transport_Session
  imports Rust_Prelude
begin

text \<open>
  Connectivity of one peer pair (\<open>crates/transport/src/lib.rs\<close>, \<open>session.rs\<close>): the errors of the transport crate, the planner
  that falls back from STUN to a configured TURN relay and its route report, and the session state machine with its reconnect
  policy. A method on \<open>&mut self\<close> returns the new session with its result; a refused call leaves the session as it was, except the
  reconnect that exhausts the budget. Socket I/O of the loopback adapter is not modelled. Shown: a session is connected only at
  the end of a complete negotiation and its route is the one selected there; planned routes are ordered and honest; reconnect delays
  are the capped geometric sequence and never exceed the budget.
\<close>

section \<open>Errors\<close>

type_synonym endpoint = string

datatype transport_session_state =
  Idle | Signaling | IceGathering | Checking | DirectState | TurnRelayState | Disconnected | Reconnecting | Failed | Cancelled

datatype transport_session_event =
  StartSignaling | StartIceGathering | StartConnectivityChecks | SelectDirect | SelectTurnRelay | MarkDisconnected
| StartReconnecting | MarkFailed | Cancel | TearDown | Reset

datatype transport_session_error =
  InvalidTransition transport_session_state transport_session_event
| InvalidReconnectPolicy
| ReconnectAttemptsExhausted nat

datatype transport_error =
  Unavailable string
| Io string
| PlaintextLeak
| NoViablePath
| InvalidIcePolicy string
| InvalidConnectivityPolicy string
| SignalingAdapter string
| InvalidSessionTransition transport_session_error

section \<open>The connectivity planner\<close>

datatype fallback_leg = LegStun | LegTurn

record simulated_nat =
  stun_available :: bool
  turn_available :: bool

record endpoint_overrides =
  eo_stun :: "endpoint option"
  eo_turn :: "endpoint option"

record connectivity_config =
  default_stun :: endpoint
  default_turn :: endpoint
  cc_overrides :: endpoint_overrides

definition unconfigured_turn_endpoint :: endpoint where
  "unconfigured_turn_endpoint = ''turn:unconfigured.discrypt.invalid''"

definition connectivity_config_default :: connectivity_config where
  "connectivity_config_default =
     \<lparr>default_stun = ''stun:stun.l.google.com:19302'', default_turn = unconfigured_turn_endpoint,
      cc_overrides = \<lparr>eo_stun = None, eo_turn = None\<rparr>\<rparr>"

definition stun_endpoint :: "connectivity_config \<Rightarrow> endpoint" where
  "stun_endpoint c = (case eo_stun (cc_overrides c) of Some e \<Rightarrow> e | None \<Rightarrow> default_stun c)"

definition turn_endpoint :: "connectivity_config \<Rightarrow> endpoint" where
  "turn_endpoint c = (case eo_turn (cc_overrides c) of Some e \<Rightarrow> e | None \<Rightarrow> default_turn c)"

definition turn_relay_configured :: "connectivity_config \<Rightarrow> bool" where
  "turn_relay_configured c \<longleftrightarrow> eo_turn (cc_overrides c) \<noteq> None \<or> default_turn c \<noteq> unconfigured_turn_endpoint"

record connection_attempt =
  ca_leg :: fallback_leg
  ca_endpoint :: endpoint
  ca_carries_content :: bool
  ca_ciphertext_only :: bool
  ca_succeeded :: bool

record connectivity_plan =
  pl_attempts :: "connection_attempt list"
  pl_selected :: fallback_leg
  pl_endpoint :: endpoint

record route_report =
  rr_selected :: fallback_leg
  rr_endpoint :: endpoint
  rr_attempted_legs :: "fallback_leg list"
  rr_ciphertext_only_relay_legs :: bool
  rr_limitation :: string

text \<open>\<open>legs.iter().enumerate().all(|(i, leg)| order.get(i) == Some(leg))\<close>.\<close>

definition legs_in_order :: "fallback_leg list \<Rightarrow> bool" where
  "legs_in_order legs \<longleftrightarrow>
     list_all (\<lambda>(i, leg). i < length [LegStun, LegTurn] \<and> [LegStun, LegTurn] ! i = leg) (enumerate 0 legs)"

definition ordered_direct_turn :: "connectivity_plan \<Rightarrow> bool" where
  "ordered_direct_turn p = legs_in_order (map ca_leg (pl_attempts p))"

definition relay_legs_ciphertext_only :: "connectivity_plan \<Rightarrow> bool" where
  "relay_legs_ciphertext_only p =
     list_all (\<lambda>a. case ca_leg a of
         LegStun \<Rightarrow> \<not> ca_carries_content a
       | LegTurn \<Rightarrow> ca_ciphertext_only a \<and> \<not> ca_carries_content a) (pl_attempts p)"

definition plan_route_report :: "connectivity_plan \<Rightarrow> route_report" where
  "plan_route_report p =
     \<lparr>rr_selected = pl_selected p, rr_endpoint = pl_endpoint p, rr_attempted_legs = map ca_leg (pl_attempts p),
      rr_ciphertext_only_relay_legs = relay_legs_ciphertext_only p,
      rr_limitation = ''deterministic local-process conformance only; not a production NAT/pcap proof''\<rparr>"

definition honest_and_ordered :: "route_report \<Rightarrow> bool" where
  "honest_and_ordered r \<longleftrightarrow>
     rr_attempted_legs r \<noteq> [] \<and> length (rr_attempted_legs r) \<le> 2 \<and>
     last (rr_attempted_legs r) = rr_selected r \<and> legs_in_order (rr_attempted_legs r) \<and>
     contains_window (rr_limitation r) ''local-process'' \<and> rr_ciphertext_only_relay_legs r"

definition planner_plan :: "connectivity_config \<Rightarrow> simulated_nat \<Rightarrow> transport_error + connectivity_plan" where
  "planner_plan config nt =
     (let direct = \<lparr>ca_leg = LegStun, ca_endpoint = stun_endpoint config, ca_carries_content = False,
                    ca_ciphertext_only = False, ca_succeeded = stun_available nt\<rparr>
      in if stun_available nt
         then Inr \<lparr>pl_attempts = [direct], pl_selected = LegStun, pl_endpoint = ca_endpoint direct\<rparr>
         else
           let relay_ok = turn_available nt \<and> turn_relay_configured config;
               relay = \<lparr>ca_leg = LegTurn, ca_endpoint = turn_endpoint config, ca_carries_content = False,
                        ca_ciphertext_only = True, ca_succeeded = relay_ok\<rparr>
           in if relay_ok
              then Inr \<lparr>pl_attempts = [direct, relay], pl_selected = LegTurn, pl_endpoint = ca_endpoint relay\<rparr>
              else Inl NoViablePath)"

section \<open>Reconnect policy\<close>

record reconnect_backoff_policy =
  rb_initial_delay_ms :: nat
  rb_max_delay_ms :: nat
  rb_multiplier :: nat
  rb_max_attempts :: nat

definition reconnect_policy_default :: reconnect_backoff_policy where
  "reconnect_policy_default =
     \<lparr>rb_initial_delay_ms = 250, rb_max_delay_ms = 8000, rb_multiplier = 2, rb_max_attempts = 8\<rparr>"

definition reconnect_policy_validate :: "reconnect_backoff_policy \<Rightarrow> transport_session_error + unit" where
  "reconnect_policy_validate p =
     ensure (\<not> (rb_initial_delay_ms p = 0 \<or> rb_max_delay_ms p < rb_initial_delay_ms p \<or> rb_multiplier p < 1 \<or> rb_max_attempts p = 0))
       InvalidReconnectPolicy"

definition reconnect_policy_new :: "nat \<Rightarrow> nat \<Rightarrow> nat \<Rightarrow> nat \<Rightarrow> transport_session_error + reconnect_backoff_policy" where
  "reconnect_policy_new initial max_delay multiplier max_attempts =
     (let p = \<lparr>rb_initial_delay_ms = initial, rb_max_delay_ms = max_delay, rb_multiplier = multiplier, rb_max_attempts = max_attempts\<rparr>
      in and_then (reconnect_policy_validate p) (\<lambda>_. Inr p))"

text \<open>The loop of \<open>delay_for_attempt\<close>, with its \<open>break\<close>.\<close>

fun delay_loop :: "reconnect_backoff_policy \<Rightarrow> nat \<Rightarrow> nat \<Rightarrow> nat" where
  "delay_loop p 0 delay = delay"
| "delay_loop p (Suc n) delay =
     (if rb_max_delay_ms p \<le> delay then delay
      else delay_loop p n (min (sat_mul delay (rb_multiplier p)) (rb_max_delay_ms p)))"

definition delay_for_attempt :: "reconnect_backoff_policy \<Rightarrow> nat \<Rightarrow> nat" where
  "delay_for_attempt p attempt = min (delay_loop p (attempt - 1) (rb_initial_delay_ms p)) (rb_max_delay_ms p)"

record reconnect_decision =
  rd_attempt :: nat
  rd_delay_ms :: nat

section \<open>The session\<close>

datatype transport_route = Direct | TurnRelay

definition is_connected :: "transport_session_state \<Rightarrow> bool" where
  "is_connected st \<longleftrightarrow> st = DirectState \<or> st = TurnRelayState"

fun from_fallback_leg :: "fallback_leg \<Rightarrow> transport_route" where
  "from_fallback_leg LegStun = Direct"
| "from_fallback_leg LegTurn = TurnRelay"

fun route_state :: "transport_route \<Rightarrow> transport_session_state" where
  "route_state Direct = DirectState"
| "route_state TurnRelay = TurnRelayState"

record transport_route_status =
  rs_route :: transport_route
  rs_endpoint :: endpoint
  rs_route_report :: "route_report option"

record transport_session =
  se_state :: transport_session_state
  se_route :: "transport_route_status option"
  se_reconnect_attempts :: nat
  se_last_error :: "string option"

record transport_session_snapshot =
  sn_schema_version :: nat
  sn_state :: transport_session_state
  sn_route :: "transport_route_status option"
  sn_reconnect_attempts :: nat
  sn_last_error :: "string option"

type_synonym 'a session_result = "transport_session \<times> (transport_session_error + 'a)"

definition session_new :: transport_session where
  "session_new = \<lparr>se_state = Idle, se_route = None, se_reconnect_attempts = 0, se_last_error = None\<rparr>"

definition snapshot :: "transport_session \<Rightarrow> transport_session_snapshot" where
  "snapshot s = \<lparr>sn_schema_version = 1, sn_state = se_state s, sn_route = se_route s,
     sn_reconnect_attempts = se_reconnect_attempts s, sn_last_error = se_last_error s\<rparr>"

definition snapshot_connected :: "transport_session_snapshot \<Rightarrow> bool" where
  "snapshot_connected n \<longleftrightarrow> is_connected (sn_state n) \<and> sn_route n \<noteq> None"

definition invalid_transition :: "transport_session \<Rightarrow> transport_session_event \<Rightarrow> transport_session_error" where
  "invalid_transition s event = InvalidTransition (se_state s) event"

definition require_state ::
  "transport_session \<Rightarrow> transport_session_event \<Rightarrow> transport_session_state list \<Rightarrow> transport_session_error + unit" where
  "require_state s event allowed = ensure (se_state s \<in> set allowed) (invalid_transition s event)"

text \<open>A method body that runs once its guard passed and answers with a snapshot.\<close>

definition guarded ::
  "transport_session_error + unit \<Rightarrow> transport_session \<Rightarrow> transport_session \<Rightarrow> transport_session_snapshot session_result" where
  "guarded guard s s' = (case guard of Inl e \<Rightarrow> (s, Inl e) | Inr _ \<Rightarrow> (s', Inr (snapshot s')))"

definition begin_signaling :: "transport_session \<Rightarrow> transport_session_snapshot session_result" where
  "begin_signaling s = guarded (require_state s StartSignaling [Idle, Reconnecting]) s
     (s\<lparr>se_route := None, se_last_error := None, se_state := Signaling\<rparr>)"

definition begin_ice_gathering :: "transport_session \<Rightarrow> transport_session_snapshot session_result" where
  "begin_ice_gathering s = guarded (require_state s StartIceGathering [Signaling]) s (s\<lparr>se_state := IceGathering\<rparr>)"

definition begin_checking :: "transport_session \<Rightarrow> transport_session_snapshot session_result" where
  "begin_checking s = guarded (require_state s StartConnectivityChecks [IceGathering]) s (s\<lparr>se_state := Checking\<rparr>)"

definition select_route ::
  "transport_session \<Rightarrow> transport_route \<Rightarrow> endpoint \<Rightarrow> route_report option \<Rightarrow> transport_session_snapshot session_result" where
  "select_route s route ep report =
     guarded (require_state s (case route of Direct \<Rightarrow> SelectDirect | TurnRelay \<Rightarrow> SelectTurnRelay) [Checking]) s
       (s\<lparr>se_route := Some \<lparr>rs_route = route, rs_endpoint = ep, rs_route_report = report\<rparr>,
          se_last_error := None, se_state := route_state route\<rparr>)"

definition select_direct :: "transport_session \<Rightarrow> endpoint \<Rightarrow> transport_session_snapshot session_result" where
  "select_direct s ep = select_route s Direct ep None"

definition select_turn_relay :: "transport_session \<Rightarrow> endpoint \<Rightarrow> transport_session_snapshot session_result" where
  "select_turn_relay s ep = select_route s TurnRelay ep None"

definition select_connectivity_plan :: "transport_session \<Rightarrow> connectivity_plan \<Rightarrow> transport_session_snapshot session_result" where
  "select_connectivity_plan s p =
     select_route s (from_fallback_leg (pl_selected p)) (pl_endpoint p) (Some (plan_route_report p))"

definition turn_required_plan :: "endpoint \<Rightarrow> endpoint \<Rightarrow> connectivity_plan" where
  "turn_required_plan stun turn =
     \<lparr>pl_attempts =
        [\<lparr>ca_leg = LegStun, ca_endpoint = stun, ca_carries_content = False, ca_ciphertext_only = False, ca_succeeded = False\<rparr>,
         \<lparr>ca_leg = LegTurn, ca_endpoint = turn, ca_carries_content = False, ca_ciphertext_only = True, ca_succeeded = False\<rparr>],
      pl_selected = LegTurn, pl_endpoint = turn\<rparr>"

definition fail_direct_path_turn_required ::
  "transport_session \<Rightarrow> endpoint \<Rightarrow> endpoint \<Rightarrow> transport_session_snapshot session_result" where
  "fail_direct_path_turn_required s stun turn =
     guarded (require_state s MarkFailed [Signaling, IceGathering, Checking, Disconnected, Reconnecting]) s
       (s\<lparr>se_route := Some \<lparr>rs_route = TurnRelay, rs_endpoint = turn, rs_route_report = Some (plan_route_report (turn_required_plan stun turn))\<rparr>,
          se_last_error := Some ''direct WebRTC failed and TURN is required but not configured'', se_state := Failed\<rparr>)"

definition mark_disconnected :: "transport_session \<Rightarrow> string \<Rightarrow> transport_session_snapshot session_result" where
  "mark_disconnected s reason = guarded (require_state s MarkDisconnected [DirectState, TurnRelayState]) s
     (s\<lparr>se_route := None, se_last_error := Some reason, se_state := Disconnected\<rparr>)"

definition begin_reconnecting :: "transport_session \<Rightarrow> transport_session_snapshot session_result" where
  "begin_reconnecting s = guarded (require_state s StartReconnecting [Disconnected]) s
     (s\<lparr>se_reconnect_attempts := sat_add32 (se_reconnect_attempts s) 1, se_state := Reconnecting\<rparr>)"

definition schedule_reconnect ::
  "transport_session \<Rightarrow> reconnect_backoff_policy \<Rightarrow> reconnect_decision session_result" where
  "schedule_reconnect s p =
     (case and_then (reconnect_policy_validate p) (\<lambda>_. require_state s StartReconnecting [Disconnected]) of
        Inl e \<Rightarrow> (s, Inl e)
      | Inr _ \<Rightarrow>
          (let next_attempt = sat_add32 (se_reconnect_attempts s) 1
           in if rb_max_attempts p < next_attempt
              then (s\<lparr>se_route := None, se_last_error := Some ''reconnect attempts exhausted'', se_state := Failed\<rparr>,
                    Inl (ReconnectAttemptsExhausted (se_reconnect_attempts s)))
              else (s\<lparr>se_reconnect_attempts := next_attempt, se_state := Reconnecting\<rparr>,
                    Inr \<lparr>rd_attempt = next_attempt, rd_delay_ms = delay_for_attempt p next_attempt\<rparr>)))"

definition session_cancel :: "transport_session \<Rightarrow> string \<Rightarrow> transport_session_snapshot session_result" where
  "session_cancel s reason = guarded (ensure (se_state s \<notin> {Failed, Cancelled}) (invalid_transition s Cancel)) s
     (s\<lparr>se_route := None, se_last_error := Some reason, se_state := Cancelled\<rparr>)"

definition tear_down :: "transport_session \<Rightarrow> string \<Rightarrow> transport_session_snapshot session_result" where
  "tear_down s reason = guarded (ensure (se_state s \<noteq> Failed) (invalid_transition s TearDown)) s
     (s\<lparr>se_route := None, se_last_error := Some reason, se_state := Cancelled\<rparr>)"

definition session_fail :: "transport_session \<Rightarrow> string \<Rightarrow> transport_session_snapshot session_result" where
  "session_fail s reason = guarded (ensure (se_state s \<noteq> Failed) (invalid_transition s MarkFailed)) s
     (s\<lparr>se_route := None, se_last_error := Some reason, se_state := Failed\<rparr>)"

definition session_reset :: "transport_session \<Rightarrow> transport_session_snapshot session_result" where
  "session_reset s = guarded (require_state s Reset [Disconnected, Failed, Cancelled]) s
     (s\<lparr>se_state := Idle, se_route := None, se_reconnect_attempts := 0, se_last_error := None\<rparr>)"

section \<open>Traces\<close>

text \<open>The calls that a runtime makes on a session, with the decision that a scheduled reconnect returns.\<close>

datatype session_call =
  CallBeginSignaling | CallBeginIceGathering | CallBeginChecking
| CallSelectDirect endpoint | CallSelectTurnRelay endpoint | CallSelectPlan connectivity_plan
| CallFailTurnRequired endpoint endpoint | CallMarkDisconnected string | CallBeginReconnecting
| CallScheduleReconnect reconnect_backoff_policy | CallCancel string | CallTearDown string | CallFail string | CallReset

definition no_decision :: "'a session_result \<Rightarrow> reconnect_decision option session_result" where
  "no_decision r = (fst r, map_sum id (\<lambda>_. None) (snd r))"

fun apply_call :: "transport_session \<Rightarrow> session_call \<Rightarrow> reconnect_decision option session_result" where
  "apply_call s CallBeginSignaling = no_decision (begin_signaling s)"
| "apply_call s CallBeginIceGathering = no_decision (begin_ice_gathering s)"
| "apply_call s CallBeginChecking = no_decision (begin_checking s)"
| "apply_call s (CallSelectDirect e) = no_decision (select_direct s e)"
| "apply_call s (CallSelectTurnRelay e) = no_decision (select_turn_relay s e)"
| "apply_call s (CallSelectPlan p) = no_decision (select_connectivity_plan s p)"
| "apply_call s (CallFailTurnRequired a b) = no_decision (fail_direct_path_turn_required s a b)"
| "apply_call s (CallMarkDisconnected r) = no_decision (mark_disconnected s r)"
| "apply_call s CallBeginReconnecting = no_decision (begin_reconnecting s)"
| "apply_call s (CallScheduleReconnect p) = map_prod id (map_sum id Some) (schedule_reconnect s p)"
| "apply_call s (CallCancel r) = no_decision (session_cancel s r)"
| "apply_call s (CallTearDown r) = no_decision (tear_down s r)"
| "apply_call s (CallFail r) = no_decision (session_fail s r)"
| "apply_call s CallReset = no_decision (session_reset s)"

text \<open>The sessions that a runtime can reach, with the calls that were accepted.\<close>

inductive session_trace :: "session_call list \<Rightarrow> transport_session \<Rightarrow> bool" where
  start: "session_trace [] session_new"
| accepted: "session_trace log s \<Longrightarrow> apply_call s c = (s', Inr d) \<Longrightarrow> session_trace (log @ [c]) s'"
| refused: "session_trace log s \<Longrightarrow> apply_call s c = (s', Inl e) \<Longrightarrow> session_trace log s'"

text \<open>The route that a selecting call names.\<close>

fun selected_route :: "session_call \<Rightarrow> transport_route_status option" where
  "selected_route (CallSelectDirect e) = Some \<lparr>rs_route = Direct, rs_endpoint = e, rs_route_report = None\<rparr>"
| "selected_route (CallSelectTurnRelay e) = Some \<lparr>rs_route = TurnRelay, rs_endpoint = e, rs_route_report = None\<rparr>"
| "selected_route (CallSelectPlan p) =
     Some \<lparr>rs_route = from_fallback_leg (pl_selected p), rs_endpoint = pl_endpoint p, rs_route_report = Some (plan_route_report p)\<rparr>"
| "selected_route _ = None"

lemmas session_defs =
  no_decision_def guarded_def require_state_def begin_signaling_def begin_ice_gathering_def begin_checking_def
  select_route_def select_direct_def select_turn_relay_def select_connectivity_plan_def fail_direct_path_turn_required_def
  mark_disconnected_def begin_reconnecting_def session_cancel_def tear_down_def session_fail_def session_reset_def

text \<open>Refused calls change nothing, except the reconnect beyond the budget, which fails the session.\<close>

lemma refused_call:
  "apply_call s c = (s', Inl e) \<Longrightarrow>
     s' = s \<or> (se_state s = Disconnected \<and> se_state s' = Failed \<and> se_route s' = None \<and>
               se_reconnect_attempts s' = se_reconnect_attempts s)"
  by (cases c) (auto simp: session_defs schedule_reconnect_def ensure_def and_then_def Let_def split: if_splits sum.splits)

text \<open>The effect of an accepted call on state and route.\<close>

lemma accepted_call:
  assumes "apply_call s c = (s', Inr d)"
  shows "case c of
      CallBeginSignaling \<Rightarrow> se_state s \<in> {Idle, Reconnecting} \<and> se_state s' = Signaling \<and> se_route s' = None
    | CallBeginIceGathering \<Rightarrow> se_state s = Signaling \<and> se_state s' = IceGathering \<and> se_route s' = se_route s
    | CallBeginChecking \<Rightarrow> se_state s = IceGathering \<and> se_state s' = Checking \<and> se_route s' = se_route s
    | CallBeginReconnecting \<Rightarrow> se_state s = Disconnected \<and> se_state s' = Reconnecting \<and> se_route s' = se_route s
    | CallScheduleReconnect p \<Rightarrow> se_state s = Disconnected \<and> se_state s' = Reconnecting \<and> se_route s' = se_route s
    | CallFailTurnRequired a b \<Rightarrow> se_state s' = Failed
    | CallMarkDisconnected r \<Rightarrow> is_connected (se_state s) \<and> se_state s' = Disconnected \<and> se_route s' = None
    | CallCancel r \<Rightarrow> se_state s' = Cancelled \<and> se_route s' = None
    | CallTearDown r \<Rightarrow> se_state s' = Cancelled \<and> se_route s' = None
    | CallFail r \<Rightarrow> se_state s' = Failed \<and> se_route s' = None
    | CallReset \<Rightarrow> se_state s' = Idle \<and> se_route s' = None
    | _ \<Rightarrow> se_state s = Checking \<and> (\<exists>rt. selected_route c = Some rt \<and> se_route s' = Some rt \<and> se_state s' = route_state (rs_route rt))"
  using assms
  by (cases c) (auto simp: session_defs schedule_reconnect_def ensure_def and_then_def Let_def is_connected_def
      split: if_splits sum.splits transport_route.splits)

text \<open>What the accepted calls say about the state that they lead to.\<close>

definition negotiated :: "session_call list \<Rightarrow> transport_session \<Rightarrow> bool" where
  "negotiated log s \<longleftrightarrow>
     (if is_connected (se_state s)
      then \<exists>p c rt. log = p @ [CallBeginSignaling, CallBeginIceGathering, CallBeginChecking, c] \<and>
             selected_route c = Some rt \<and> se_route s = Some rt \<and> se_state s = route_state (rs_route rt)
      else (log \<noteq> [] \<longrightarrow> selected_route (last log) = None) \<and> (se_state s \<noteq> Failed \<longrightarrow> se_route s = None) \<and>
           (se_state s = Signaling \<longrightarrow> suffix [CallBeginSignaling] log) \<and>
           (se_state s = IceGathering \<longrightarrow> suffix [CallBeginSignaling, CallBeginIceGathering] log) \<and>
           (se_state s = Checking \<longrightarrow> suffix [CallBeginSignaling, CallBeginIceGathering, CallBeginChecking] log))"

lemma suffix_snoc: "suffix w log \<Longrightarrow> suffix (w @ [c]) (log @ [c])"
  by simp

lemma route_state_connected [simp]: "is_connected (route_state r)"
  by (cases r) (simp_all add: is_connected_def)

lemma negotiated_accepted:
  assumes "negotiated log s" and "apply_call s c = (s', Inr d)"
  shows "negotiated (log @ [c]) s'"
proof (cases "selected_route c")
  case None
  with accepted_call[OF assms(2)] assms(1) suffix_snoc[of _ log c] show ?thesis
    by (cases c) (auto simp: negotiated_def is_connected_def dest: suffix_snoc split: if_splits)
next
  case (Some rt)
  have "se_state s = Checking \<and> se_route s' = Some rt \<and> se_state s' = route_state (rs_route rt)"
    using accepted_call[OF assms(2)] Some by (cases c) auto
  moreover from this have "suffix [CallBeginSignaling, CallBeginIceGathering, CallBeginChecking] log"
    using assms(1) by (simp add: negotiated_def is_connected_def)
  ultimately show ?thesis using Some by (auto simp: negotiated_def suffix_def)
qed

lemma trace_negotiated: "session_trace log s \<Longrightarrow> negotiated log s"
proof (induction rule: session_trace.induct)
  case start
  show ?case by (simp add: negotiated_def session_new_def is_connected_def)
next
  case (refused log s c s' e)
  from refused_call[OF refused.hyps(2)] refused.IH show ?case by (auto simp: negotiated_def is_connected_def)
qed (rule negotiated_accepted)

text \<open>
  C29: Whatever sequence of calls a runtime makes on a new session, the session reports an active route exactly when the accepted calls end with
  a complete negotiation, signaling, ICE gathering, checks and the selection of a route, in this order and with nothing accepted in between
  or after. The reported route, its endpoint and its report are then the ones of that selection, and the lifecycle state is the state
  of that route. Outside of connected and failed states no route is stored.
\<close>

theorem connected_after_negotiation:
  assumes "session_trace log s"
  shows "(snapshot_connected (snapshot s) \<longleftrightarrow>
        (\<exists>p c. log = p @ [CallBeginSignaling, CallBeginIceGathering, CallBeginChecking, c] \<and> selected_route c \<noteq> None)) \<and>
      (snapshot_connected (snapshot s) \<longrightarrow> sn_route (snapshot s) = selected_route (last log) \<and>
        map_option (route_state \<circ> rs_route) (sn_route (snapshot s)) = Some (sn_state (snapshot s))) \<and>
      (sn_route (snapshot s) \<noteq> None \<longrightarrow> is_connected (sn_state (snapshot s)) \<or> sn_state (snapshot s) = Failed)"
proof (cases "is_connected (se_state s)")
  case True
  with trace_negotiated[OF assms] obtain p c rt where
    "log = p @ [CallBeginSignaling, CallBeginIceGathering, CallBeginChecking, c]" "selected_route c = Some rt"
    "se_route s = Some rt" "se_state s = route_state (rs_route rt)"
    by (auto simp: negotiated_def)
  then show ?thesis by (auto simp: snapshot_connected_def snapshot_def)
next
  case False
  with trace_negotiated[OF assms] have "log \<noteq> [] \<longrightarrow> selected_route (last log) = None" "se_state s \<noteq> Failed \<longrightarrow> se_route s = None"
    by (simp_all add: negotiated_def)
  with False show ?thesis by (auto simp: snapshot_connected_def snapshot_def)
qed

text \<open>A negotiation with a lost route and a scheduled reconnect.\<close>

definition demo_calls :: "session_call list" where
  "demo_calls = [CallBeginSignaling, CallBeginIceGathering, CallBeginChecking, CallSelectDirect ''stun:a'',
     CallMarkDisconnected ''lost'', CallScheduleReconnect reconnect_policy_default,
     CallBeginSignaling, CallBeginIceGathering, CallBeginChecking, CallSelectTurnRelay ''turn:b'']"

fun run_calls :: "transport_session \<Rightarrow> session_call list \<Rightarrow> transport_session option" where
  "run_calls s [] = Some s"
| "run_calls s (c # cs) = (case apply_call s c of (s', Inr _) \<Rightarrow> run_calls s' cs | _ \<Rightarrow> None)"

lemma run_calls_trace: "run_calls s cs = Some s' \<Longrightarrow> session_trace log s \<Longrightarrow> session_trace (log @ cs) s'"
proof (induction cs arbitrary: s log)
  case (Cons c cs)
  from Cons.prems(1) obtain s1 d where "apply_call s c = (s1, Inr d)" "run_calls s1 cs = Some s'"
    by (auto split: prod.splits sum.splits)
  with Cons.IH[of s1 "log @ [c]"] session_trace.accepted[OF Cons.prems(2)] show ?case by simp
qed simp

definition demo_session :: transport_session where
  "demo_session = \<lparr>se_state = TurnRelayState,
     se_route = Some \<lparr>rs_route = TurnRelay, rs_endpoint = ''turn:b'', rs_route_report = None\<rparr>,
     se_reconnect_attempts = 1, se_last_error = None\<rparr>"

lemma demo_trace: "session_trace demo_calls demo_session"
  using run_calls_trace[OF _ session_trace.start, of demo_calls demo_session]
  by (simp add: demo_calls_def session_defs session_new_def demo_session_def schedule_reconnect_def reconnect_policy_default_def
      reconnect_policy_validate_def sat_add32_def invalid_transition_def)

theorem connected_after_negotiation_witness:
  "session_trace demo_calls demo_session \<and> snapshot_connected (snapshot demo_session) \<and>
   sn_route (snapshot demo_session) = selected_route (CallSelectTurnRelay ''turn:b'')"
  using connected_after_negotiation[OF demo_trace] demo_trace
  by (simp add: demo_calls_def demo_session_def snapshot_connected_def snapshot_def is_connected_def)

section \<open>Planned routes\<close>

lemma legs_in_order_prefix: "legs_in_order legs \<longleftrightarrow> prefix legs [LegStun, LegTurn]"
proof (cases legs)
  case (Cons a r)
  then show ?thesis
    by (cases r; cases "tl r") (auto simp: legs_in_order_def prefix_def)
qed (simp add: legs_in_order_def)

lemma local_process_limitation:
  "contains_window ''deterministic local-process conformance only; not a production NAT/pcap proof'' ''local-process''"
  by code_simp

text \<open>
  C2: The planner answers for every configuration and network condition, and a session in the checking state that follows the plan becomes
  connected: over the direct leg exactly when STUN succeeds, otherwise over TURN exactly when TURN is reachable and configured, and with
  \<open>NoViablePath\<close> in the remaining cases. The report stored with the route lists the legs in the approved order up to the winning one,
  never marks content on a relay leg, and carries its limitation.
\<close>

theorem planned_session_honest:
  assumes "se_state s = Checking"
  shows "case planner_plan config nt of
      Inl e \<Rightarrow> e = NoViablePath \<and> \<not> stun_available nt \<and> \<not> (turn_available nt \<and> turn_relay_configured config)
    | Inr p \<Rightarrow>
        (stun_available nt \<or> (turn_available nt \<and> turn_relay_configured config)) \<and>
        ordered_direct_turn p \<and> honest_and_ordered (plan_route_report p) \<and>
        (\<exists>s'. select_connectivity_plan s p = (s', Inr (snapshot s')) \<and> snapshot_connected (snapshot s') \<and>
          se_state s' = (if stun_available nt then DirectState else TurnRelayState) \<and>
          se_route s' = Some \<lparr>rs_route = (if stun_available nt then Direct else TurnRelay),
            rs_endpoint = (if stun_available nt then stun_endpoint config else turn_endpoint config),
            rs_route_report = Some (plan_route_report p)\<rparr>)"
proof (cases "planner_plan config nt")
  case (Inl e)
  then show ?thesis by (auto simp: planner_plan_def Let_def split: if_splits)
next
  case (Inr p)
  have "honest_and_ordered (plan_route_report p) \<and> ordered_direct_turn p"
    using Inr local_process_limitation
    by (auto simp: planner_plan_def Let_def honest_and_ordered_def plan_route_report_def ordered_direct_turn_def
        relay_legs_ciphertext_only_def legs_in_order_prefix split: if_splits)
  with Inr assms show ?thesis
    by (auto simp: planner_plan_def Let_def select_connectivity_plan_def select_route_def guarded_def require_state_def
        snapshot_connected_def snapshot_def is_connected_def split: if_splits)
qed

theorem planned_session_honest_witness:
  "se_state (session_new\<lparr>se_state := Checking\<rparr>) = Checking \<and>
   (\<exists>p. planner_plan connectivity_config_default \<lparr>stun_available = True, turn_available = False\<rparr> = Inr p \<and> honest_and_ordered (plan_route_report p))"
  using planned_session_honest[of "session_new\<lparr>se_state := Checking\<rparr>" "\<lparr>stun_available = True, turn_available = False\<rparr>" connectivity_config_default]
  by (simp split: sum.splits)

section \<open>Reconnecting\<close>

lemma delay_loop_closed:
  assumes "1 \<le> rb_multiplier p" and "rb_max_delay_ms p \<le> u64_max"
  shows "delay \<le> rb_max_delay_ms p \<Longrightarrow> delay_loop p n delay = min (rb_max_delay_ms p) (delay * rb_multiplier p ^ n)"
proof (induction n arbitrary: delay)
  case (Suc n)
  let ?M = "rb_max_delay_ms p" and ?m = "rb_multiplier p"
  have pos: "1 \<le> ?m ^ k" for k using assms(1) by simp
  show ?case
  proof (cases "?M \<le> delay")
    case True
    with Suc.prems have "delay = ?M" by simp
    moreover have "?M \<le> ?M * ?m ^ Suc n" using mult_le_mono2[OF pos[of "Suc n"], of ?M] by simp
    ultimately show ?thesis by (simp only: delay_loop.simps min_absorb1 order_refl if_True)
  next
    case False
    let ?d = "min (sat_mul delay ?m) ?M"
    have d: "?d = min (delay * ?m) ?M" using assms(2) by (auto simp: sat_mul_def)
    have "min ?M (?d * ?m ^ n) = min ?M (delay * ?m ^ Suc n)"
    proof (cases "delay * ?m \<le> ?M")
      case False
      have 1: "?M \<le> ?M * ?m ^ n" using mult_le_mono2[OF pos[of n], of ?M] by simp
      from False have "?M * ?m ^ n \<le> delay * ?m * ?m ^ n" by (intro mult_le_mono1) simp
      with 1 have "?M \<le> delay * ?m * ?m ^ n" by (rule order_trans)
      then have 2: "?M \<le> delay * ?m ^ Suc n" by (simp only: power_Suc mult.assoc)
      from False have "?d = ?M" unfolding d by simp
      with 1 2 show ?thesis by (simp only: min_absorb1)
    qed (simp add: d mult.assoc)
    with False Suc.IH[of ?d] show ?thesis by simp
  qed
qed simp

lemma delay_closed_form:
  assumes "reconnect_policy_validate p = Inr ()" and "rb_max_delay_ms p \<le> u64_max"
  shows "delay_for_attempt p n = min (rb_max_delay_ms p) (rb_initial_delay_ms p * rb_multiplier p ^ (n - 1))"
  using assms delay_loop_closed[of p "rb_initial_delay_ms p" "n - 1"]
  by (simp add: delay_for_attempt_def reconnect_policy_validate_def)

text \<open>The reconnects that were scheduled since the last reset.\<close>

definition scheduled_since_reset :: "session_call list \<Rightarrow> session_call list" where
  "scheduled_since_reset log =
     filter (\<lambda>c. case c of CallScheduleReconnect _ \<Rightarrow> True | _ \<Rightarrow> False) (takeWhile (\<lambda>c. c \<noteq> CallReset) (rev log))"

lemma accepted_attempts:
  assumes "apply_call s c = (s', Inr d)" and "c \<noteq> CallBeginReconnecting"
  shows "se_reconnect_attempts s' = (case c of
      CallScheduleReconnect q \<Rightarrow> sat_add32 (se_reconnect_attempts s) 1 | CallReset \<Rightarrow> 0 | _ \<Rightarrow> se_reconnect_attempts s)"
    and "c = CallScheduleReconnect q \<Longrightarrow> sat_add32 (se_reconnect_attempts s) 1 \<le> rb_max_attempts q"
  using assms
  by (cases c; auto simp: session_defs schedule_reconnect_def ensure_def and_then_def Let_def split: if_splits sum.splits)+

lemma attempts_counted:
  assumes "session_trace log s" and "CallBeginReconnecting \<notin> set log"
    and "\<forall>q. CallScheduleReconnect q \<in> set log \<longrightarrow> q = p" and "rb_max_attempts p < 2 ^ 32 - 1"
  shows "se_reconnect_attempts s = length (scheduled_since_reset log) \<and> se_reconnect_attempts s \<le> rb_max_attempts p"
  using assms(1-3)
proof (induction rule: session_trace.induct)
  case start
  show ?case by (simp add: session_new_def scheduled_since_reset_def)
next
  case (accepted log s c s' d)
  then have IH: "se_reconnect_attempts s = length (scheduled_since_reset log)" "se_reconnect_attempts s \<le> rb_max_attempts p"
    and c: "c \<noteq> CallBeginReconnecting" by auto
  have q: "q = p" if "c = CallScheduleReconnect q" for q using accepted.prems(2) that by simp
  note a = accepted_attempts[OF accepted.hyps(2) c]
  show ?case
    using a IH c q assms(4) by (cases c) (auto simp: scheduled_since_reset_def sat_add32_def)
next
  case (refused log s c s' e)
  with refused_call[OF refused.hyps(2)] show ?case by auto
qed

text \<open>
  C3: When every reconnect of a session is scheduled with one valid policy, the stored number of attempts is the number of reconnects that were scheduled
  since the last reset and never exceeds the budget. The next request after a lost route is granted while the budget lasts, as the
  next attempt and with the delay \<open>min(max, initial * multiplier ^ (attempt - 1))\<close>; afterwards it fails the session and reports the exhausted budget.
\<close>

theorem reconnect_budget_exact:
  assumes "session_trace log s" and "CallBeginReconnecting \<notin> set log"
    and "\<forall>q. CallScheduleReconnect q \<in> set log \<longrightarrow> q = p"
    and "reconnect_policy_validate p = Inr ()" and "rb_max_delay_ms p \<le> u64_max" and "rb_max_attempts p < 2 ^ 32 - 1"
    and "se_state s = Disconnected"
  shows "se_reconnect_attempts s = length (scheduled_since_reset log) \<and> se_reconnect_attempts s \<le> rb_max_attempts p \<and>
    (let (s', r) = schedule_reconnect s p; n = length (scheduled_since_reset log)
     in if n < rb_max_attempts p
        then r = Inr \<lparr>rd_attempt = n + 1, rd_delay_ms = min (rb_max_delay_ms p) (rb_initial_delay_ms p * rb_multiplier p ^ n)\<rparr> \<and>
             se_state s' = Reconnecting \<and> se_reconnect_attempts s' = n + 1
        else r = Inl (ReconnectAttemptsExhausted (rb_max_attempts p)) \<and> se_state s' = Failed \<and> se_route s' = None)"
proof -
  note c = attempts_counted[OF assms(1-3,6)]
  have "sat_add32 (se_reconnect_attempts s) 1 = Suc (se_reconnect_attempts s)"
    using c assms(6) by (simp add: sat_add32_def)
  with c assms(4,7) delay_closed_form[OF assms(4,5), of "Suc (se_reconnect_attempts s)"] show ?thesis
    by (auto simp: schedule_reconnect_def require_state_def Let_def)
qed

definition lost_session :: transport_session where
  "lost_session = demo_session\<lparr>se_route := None, se_last_error := Some ''gone'', se_state := Disconnected\<rparr>"

lemma lost_trace: "session_trace (demo_calls @ [CallMarkDisconnected ''gone'']) lost_session"
  by (rule session_trace.accepted[OF demo_trace, where d = None])
    (simp add: lost_session_def session_defs demo_session_def)

theorem reconnect_budget_exact_witness:
  "session_trace (demo_calls @ [CallMarkDisconnected ''gone'']) lost_session \<and>
   snd (schedule_reconnect lost_session reconnect_policy_default) = Inr \<lparr>rd_attempt = 2, rd_delay_ms = 500\<rparr>"
  using reconnect_budget_exact[OF lost_trace, of reconnect_policy_default] lost_trace
  by (simp add: demo_calls_def reconnect_policy_default_def reconnect_policy_validate_def scheduled_since_reset_def
      lost_session_def u64_max_def Let_def split_beta)

end
