(* ===== verification/Ice_Policy.thy ===== *)
theory Ice_Policy
  imports Rust_Text Delimited Transport_Session
begin

text \<open>
  The endpoint policy for ICE (\<open>crates/transport/src/ice.rs\<close>): validation of STUN and TURN endpoints and
  credentials, the resolution of invite and group policies, the bytes that invites sign, and the issuer of short-lived TURN credentials.
  \<open>chrono\<close>, HMAC-SHA1 and base64 are parameters. Shown: resolution succeeds exactly on
  valid policies and takes each kind of server from the group if it names any; the signed bytes determine the policy; issued
  credentials are valid for exactly their lifetime.
\<close>

section \<open>Parameters\<close>

text \<open>
  \<open>DateTime<Utc>\<close> is a linearly ordered type; \<open>None\<close> of \<open>ut_add_seconds\<close> is the panic of the addition out of range.
\<close>

record 't utc_clock =
  ut_millis :: "'t \<Rightarrow> int"
  ut_timestamp :: "'t \<Rightarrow> int"
  ut_add_seconds :: "'t \<Rightarrow> int \<Rightarrow> 't option"
  ut_to_rfc3339 :: "'t \<Rightarrow> string"
  ut_parse_rfc3339 :: "string \<Rightarrow> 't option"

definition rfc3339_correct :: "'t utc_clock \<Rightarrow> bool" where
  "rfc3339_correct C \<longleftrightarrow> (\<forall>t. ut_parse_rfc3339 C (ut_to_rfc3339 C t) = Some t)"

text \<open>A clock on integers for the witnesses: seconds, written in unary.\<close>

definition rfc_demo :: "int \<Rightarrow> string" where
  "rfc_demo t = (if t < 0 then CHR ''-'' # replicate (nat (- t)) CHR ''1'' else CHR ''+'' # replicate (nat t) CHR ''1'')"

definition utc_demo :: "int utc_clock" where
  "utc_demo = \<lparr>ut_millis = (\<lambda>t. 1000 * t), ut_timestamp = id, ut_add_seconds = (\<lambda>t s. Some (t + s)),
     ut_to_rfc3339 = rfc_demo,
     ut_parse_rfc3339 = (\<lambda>s. case s of [] \<Rightarrow> None | c # r \<Rightarrow> Some (if c = CHR ''-'' then - int (length r) else int (length r)))\<rparr>"

lemma utc_demo_correct: "rfc3339_correct utc_demo"
  by (simp add: rfc3339_correct_def utc_demo_def rfc_demo_def)

text \<open>\<open>value.chars().any(char::is_whitespace)\<close> on UTF-8.\<close>

definition has_whitespace :: "string \<Rightarrow> bool" where
  "has_whitespace s = list_ex (contains_window s) utf8_whitespace"

section \<open>Policies\<close>

datatype endpoint_kind = Stun | Turn

record turn_server_config =
  ts_endpoint :: string
  ts_username :: "string option"
  ts_credential :: "string option"
  ts_credential_expires_at :: "string option"

record ice_endpoint_policy =
  ip_stun_servers :: "string list"
  ip_turn_servers :: "turn_server_config list"

record ice_server_config =
  ic_stun_servers :: "string list"
  ic_turn_servers :: "turn_server_config list"

datatype turn_credential_mode = Unauthenticated | Configured | Ephemeral string

definition validate_endpoint :: "string \<Rightarrow> endpoint_kind \<Rightarrow> transport_error + unit" where
  "validate_endpoint v kind =
     and_then (ensure (\<not> (v = [] \<or> trim v \<noteq> v \<or> 512 < length v \<or> has_whitespace v))
                 (InvalidIcePolicy ''ICE endpoint must be non-empty, trimmed, and whitespace-free'')) (\<lambda>_.
       ensure (case kind of Stun \<Rightarrow> prefix ''stun:'' v \<or> prefix ''stuns:'' v | Turn \<Rightarrow> prefix ''turn:'' v \<or> prefix ''turns:'' v)
         (InvalidIcePolicy (''unsupported ICE endpoint scheme: '' @ v)))"

definition credentials_declared :: "turn_server_config \<Rightarrow> bool" where
  "credentials_declared s \<longleftrightarrow> ts_username s \<noteq> None \<or> ts_credential s \<noteq> None \<or> ts_credential_expires_at s \<noteq> None"

definition validate_credential_shape :: "turn_server_config \<Rightarrow> transport_error + unit" where
  "validate_credential_shape s =
     (if \<not> credentials_declared s then Inr ()
      else ensure (case (ts_username s, ts_credential s) of (Some u, Some c) \<Rightarrow> \<not> blank u \<and> \<not> blank c | _ \<Rightarrow> False)
             (InvalidIcePolicy ''TURN username and credential must be provided together''))"

definition turn_validate :: "turn_server_config \<Rightarrow> transport_error + unit" where
  "turn_validate s = and_then (validate_endpoint (ts_endpoint s) Turn) (\<lambda>_. validate_credential_shape s)"

definition parsed_credential_expiry :: "'t utc_clock \<Rightarrow> turn_server_config \<Rightarrow> transport_error + 't option" where
  "parsed_credential_expiry C s =
     (case ts_credential_expires_at s of
        None \<Rightarrow> Inr None
      | Some v \<Rightarrow> (case ut_parse_rfc3339 C v of
            None \<Rightarrow> Inl (InvalidIcePolicy ''TURN credential expiry must be RFC3339'')
          | Some t \<Rightarrow> Inr (Some t)))"

definition credential_mode_at :: "'t::linorder utc_clock \<Rightarrow> turn_server_config \<Rightarrow> 't \<Rightarrow> transport_error + turn_credential_mode" where
  "credential_mode_at C s now =
     and_then (turn_validate s) (\<lambda>_.
       if \<not> credentials_declared s then Inr Unauthenticated
       else and_then (parsed_credential_expiry C s) (\<lambda>e.
         case e of
           None \<Rightarrow> Inr Configured
         | Some expires_at \<Rightarrow>
             if expires_at \<le> now then Inl (InvalidIcePolicy ''TURN credential expired'')
             else Inr (Ephemeral (ut_to_rfc3339 C expires_at))))"

definition turn_validate_credentials_at :: "'t::linorder utc_clock \<Rightarrow> turn_server_config \<Rightarrow> 't \<Rightarrow> transport_error + unit" where
  "turn_validate_credentials_at C s now = and_then (credential_mode_at C s now) (\<lambda>_. Inr ())"

text \<open>A loop \<open>for x in xs { f(x)?; }\<close>.\<close>

fun try_each :: "('a \<Rightarrow> 'e + unit) \<Rightarrow> 'a list \<Rightarrow> 'e + unit" where
  "try_each f [] = Inr ()"
| "try_each f (x # xs) = and_then (f x) (\<lambda>_. try_each f xs)"

definition ice_default_production :: ice_endpoint_policy where
  "ice_default_production = \<lparr>ip_stun_servers = [''stun:stun.l.google.com:19302''], ip_turn_servers = []\<rparr>"

definition ice_validate :: "ice_endpoint_policy \<Rightarrow> transport_error + unit" where
  "ice_validate p =
     and_then (ensure (\<not> (ip_stun_servers p = [] \<and> ip_turn_servers p = []))
                 (InvalidIcePolicy ''at least one STUN server or configured TURN server is required'')) (\<lambda>_.
     and_then (try_each (\<lambda>e. validate_endpoint e Stun) (ip_stun_servers p)) (\<lambda>_.
       try_each turn_validate (ip_turn_servers p)))"

definition ice_validate_at :: "'t::linorder utc_clock \<Rightarrow> ice_endpoint_policy \<Rightarrow> 't \<Rightarrow> transport_error + unit" where
  "ice_validate_at C p now =
     and_then (ice_validate p) (\<lambda>_. try_each (\<lambda>s. turn_validate_credentials_at C s now) (ip_turn_servers p))"

definition ice_policy_new :: "string list \<Rightarrow> turn_server_config list \<Rightarrow> transport_error + ice_endpoint_policy" where
  "ice_policy_new stun turn =
     (let p = \<lparr>ip_stun_servers = stun, ip_turn_servers = turn\<rparr> in and_then (ice_validate p) (\<lambda>_. Inr p))"

definition ice_config_new :: "string list \<Rightarrow> turn_server_config list \<Rightarrow> transport_error + ice_server_config" where
  "ice_config_new stun turn =
     and_then (ice_policy_new stun turn) (\<lambda>p.
       Inr \<lparr>ic_stun_servers = ip_stun_servers p, ic_turn_servers = ip_turn_servers p\<rparr>)"

definition ice_resolve ::
  "ice_endpoint_policy option \<Rightarrow> ice_endpoint_policy option \<Rightarrow> transport_error + ice_server_config" where
  "ice_resolve invite_policy group_policy =
     (let invite = (case invite_policy of Some p \<Rightarrow> p | None \<Rightarrow> ice_default_production)
      in and_then (ice_validate invite) (\<lambda>_.
         and_then (case group_policy of Some g \<Rightarrow> ice_validate g | None \<Rightarrow> Inr ()) (\<lambda>_.
           ice_config_new
             (case group_policy of Some g \<Rightarrow> if ip_stun_servers g \<noteq> [] then ip_stun_servers g else ip_stun_servers invite
                | None \<Rightarrow> ip_stun_servers invite)
             (case group_policy of Some g \<Rightarrow> if ip_turn_servers g \<noteq> [] then ip_turn_servers g else ip_turn_servers invite
                | None \<Rightarrow> ip_turn_servers invite))))"

definition config_validate_credentials_at :: "'t::linorder utc_clock \<Rightarrow> ice_server_config \<Rightarrow> 't \<Rightarrow> transport_error + unit" where
  "config_validate_credentials_at C c now = try_each (\<lambda>s. turn_validate_credentials_at C s now) (ic_turn_servers c)"

definition ice_resolve_at ::
  "'t::linorder utc_clock \<Rightarrow> ice_endpoint_policy option \<Rightarrow> ice_endpoint_policy option \<Rightarrow> 't \<Rightarrow> transport_error + ice_server_config" where
  "ice_resolve_at C invite_policy group_policy now =
     and_then (ice_resolve invite_policy group_policy) (\<lambda>c.
     and_then (config_validate_credentials_at C c now) (\<lambda>_. Inr c))"

definition push_string :: "string \<Rightarrow> bytes" where
  "push_string v = lp_le (str_bytes v)"

definition push_optional_string :: "string option \<Rightarrow> bytes" where
  "push_optional_string v = optional_bytes push_string v"

definition turn_signing_bytes :: "turn_server_config \<Rightarrow> bytes" where
  "turn_signing_bytes s = push_string (ts_endpoint s) @ push_optional_string (ts_username s) @
     push_optional_string (ts_credential s) @ push_optional_string (ts_credential_expires_at s)"

definition ice_signing_bytes :: "ice_endpoint_policy \<Rightarrow> bytes" where
  "ice_signing_bytes p = str_bytes ''discrypt-ice-endpoint-policy-v1'' @
     counted_bytes push_string (ip_stun_servers p) @ counted_bytes turn_signing_bytes (ip_turn_servers p)"

section \<open>Issuing TURN credentials\<close>

record turn_credential_issuer_config =
  ti_public_turn_endpoint :: string
  ti_realm :: string
  ti_static_auth_secret :: bytes
  ti_ttl_seconds :: nat
  ti_username_prefix :: "string option"

definition issuer_validate :: "turn_credential_issuer_config \<Rightarrow> transport_error + unit" where
  "issuer_validate c =
     and_then (validate_endpoint (ti_public_turn_endpoint c) Turn) (\<lambda>_.
     and_then (ensure (\<not> (blank (ti_realm c) \<or> trim (ti_realm c) \<noteq> ti_realm c \<or> has_whitespace (ti_realm c)))
                 (InvalidIcePolicy ''TURN realm must be non-empty, trimmed, and whitespace-free'')) (\<lambda>_.
     and_then (ensure (32 \<le> length (ti_static_auth_secret c))
                 (InvalidIcePolicy ''TURN static auth secret must be at least 32 bytes'')) (\<lambda>_.
     and_then (ensure (60 \<le> ti_ttl_seconds c \<and> ti_ttl_seconds c \<le> 86400)
                 (InvalidIcePolicy ''TURN credential TTL must be between 60 and 86400 seconds'')) (\<lambda>_.
       ensure (case ti_username_prefix c of None \<Rightarrow> True | Some p \<Rightarrow> trim p = p \<and> \<not> has_whitespace p)
         (InvalidIcePolicy ''TURN username prefix must be trimmed and whitespace-free'')))))"

definition sanitized_turn_subject :: "string \<Rightarrow> transport_error + string" where
  "sanitized_turn_subject subject =
     (let trimmed = trim subject
      in and_then (ensure (trimmed \<noteq> []) (InvalidIcePolicy ''TURN credential subject is required'')) (\<lambda>_.
         and_then (ensure (length trimmed \<le> 96) (InvalidIcePolicy ''TURN credential subject is too long'')) (\<lambda>_.
         and_then (ensure (list_all (\<lambda>c. is_ascii_alphanumeric c \<or> c \<in> {CHR ''-'', CHR ''_'', CHR ''.''}) trimmed)
                     (InvalidIcePolicy ''TURN credential subject must be opaque ASCII token characters'')) (\<lambda>_.
           Inr trimmed))))"

text \<open>\<open>Display\<close> of an \<open>i64\<close>.\<close>

definition int_str :: "int \<Rightarrow> string" where
  "int_str i = (if i < 0 then CHR ''-'' # nat_str (nat (- i)) else nat_str (nat i))"

text \<open>
  \<open>TurnCredentialIssuer\<close> only wraps a validated configuration; \<open>HmacSha1::new_from_slice\<close> accepts keys of every length. The
  outer \<open>None\<close> is the panic of the addition of the lifetime.
\<close>

definition issue_for_subject ::
  "'t utc_clock \<Rightarrow> (bytes \<Rightarrow> bytes \<Rightarrow> bytes) \<Rightarrow> (bytes \<Rightarrow> string) \<Rightarrow> turn_credential_issuer_config \<Rightarrow> string \<Rightarrow> 't
     \<Rightarrow> (transport_error + turn_server_config) option" where
  "issue_for_subject C hmac_sha1 base64 c subject now =
     (case sanitized_turn_subject subject of
        Inl e \<Rightarrow> Some (Inl e)
      | Inr subject \<Rightarrow>
          map_option (\<lambda>expires_at.
            let expiry = int_str (ut_timestamp C expires_at);
                username = (case ti_username_prefix c of
                    Some p \<Rightarrow> if p \<noteq> [] then expiry @ '':'' @ p @ '':'' @ subject else expiry @ '':'' @ subject
                  | None \<Rightarrow> expiry @ '':'' @ subject)
            in Inr \<lparr>ts_endpoint = ti_public_turn_endpoint c, ts_username = Some username,
                 ts_credential = Some (base64 (hmac_sha1 (ti_static_auth_secret c) (str_bytes username))),
                 ts_credential_expires_at = Some (ut_to_rfc3339 C expires_at)\<rparr>)
            (ut_add_seconds C now (int (ti_ttl_seconds c))))"

section \<open>Resolution\<close>

lemma try_each_ok: "try_each f xs = Inr () \<longleftrightarrow> list_all (\<lambda>x. f x = Inr ()) xs"
  by (induction xs) (auto simp: and_then_Inr)

lemma ice_validate_ok:
  "ice_validate p = Inr () \<longleftrightarrow>
     (ip_stun_servers p \<noteq> [] \<or> ip_turn_servers p \<noteq> []) \<and>
     list_all (\<lambda>e. validate_endpoint e Stun = Inr ()) (ip_stun_servers p) \<and> list_all (\<lambda>s. turn_validate s = Inr ()) (ip_turn_servers p)"
  by (auto simp: ice_validate_def and_then_Inr try_each_ok)

lemma ice_default_valid: "ice_validate ice_default_production = Inr ()"
  by code_simp

text \<open>
  Resolving an invite policy with an optional group policy succeeds exactly when the policies present are valid, and then each kind
  of server comes from the group if it names any of that kind, and from the invite (or the defaults) otherwise; the result is itself a valid policy.
\<close>

theorem ice_resolve_exact:
  "ice_resolve invite grp = Inr c \<longleftrightarrow>
     (let i = (case invite of Some p \<Rightarrow> p | None \<Rightarrow> ice_default_production) in
      ice_validate i = Inr () \<and> (case grp of Some g \<Rightarrow> ice_validate g = Inr () | None \<Rightarrow> True) \<and>
      ic_stun_servers c = (case grp of Some g \<Rightarrow> if ip_stun_servers g \<noteq> [] then ip_stun_servers g else ip_stun_servers i | None \<Rightarrow> ip_stun_servers i) \<and>
      ic_turn_servers c = (case grp of Some g \<Rightarrow> if ip_turn_servers g \<noteq> [] then ip_turn_servers g else ip_turn_servers i | None \<Rightarrow> ip_turn_servers i) \<and>
      ice_validate \<lparr>ip_stun_servers = ic_stun_servers c, ip_turn_servers = ic_turn_servers c\<rparr> = Inr ())"
  by (cases c) (auto simp: ice_resolve_def ice_config_new_def ice_policy_new_def and_then_Inr ice_validate_ok Let_def split: option.splits)

section \<open>Signed bytes\<close>

definition turn_fits :: "turn_server_config \<Rightarrow> bool" where
  "turn_fits s \<longleftrightarrow> str_fits (ts_endpoint s) \<and> pred_option str_fits (ts_username s) \<and> pred_option str_fits (ts_credential s) \<and>
     pred_option str_fits (ts_credential_expires_at s)"

definition ice_fits :: "ice_endpoint_policy \<Rightarrow> bool" where
  "ice_fits p \<longleftrightarrow> (length (ip_stun_servers p) < 2 ^ 64 \<and> list_all str_fits (ip_stun_servers p)) \<and>
     length (ip_turn_servers p) < 2 ^ 64 \<and> list_all turn_fits (ip_turn_servers p)"

lemma push_string_delimits [delim]: "delimits (\<lambda>x. push_string (g x)) g (\<lambda>x. str_fits (g x))"
  unfolding push_string_def by (rule delimits_str)

lemma push_optional_delimits [delim]: "delimits (\<lambda>x. push_optional_string (g x)) g (\<lambda>x. pred_option str_fits (g x))"
  using delimits_optional[OF push_string_delimits[of "\<lambda>x. x"], of g] by (simp add: push_optional_string_def option.map_ident)

lemma turn_bytes_delimits: "delimits turn_signing_bytes (\<lambda>s. s) turn_fits"
proof (rule delimits_view)
  show "delimits turn_signing_bytes (\<lambda>s. (ts_endpoint s, ts_username s, ts_credential s, ts_credential_expires_at s)) turn_fits"
    unfolding turn_signing_bytes_def[abs_def] turn_fits_def[abs_def]
    by (intro delimits_append push_string_delimits push_optional_delimits)
qed auto

lemma ice_signing_bytes_delimits: "delimits ice_signing_bytes (\<lambda>p. p) ice_fits"
proof (rule delimits_view)
  have "delimits (\<lambda>p. counted_bytes push_string (ip_stun_servers p)) (\<lambda>p. ip_stun_servers p)
      (\<lambda>p. length (ip_stun_servers p) < 2 ^ 64 \<and> list_all str_fits (ip_stun_servers p))"
    using delimits_counted[OF push_string_delimits[of "\<lambda>x. x"], of ip_stun_servers] by simp
  moreover have "delimits (\<lambda>p. counted_bytes turn_signing_bytes (ip_turn_servers p)) (\<lambda>p. ip_turn_servers p)
      (\<lambda>p. length (ip_turn_servers p) < 2 ^ 64 \<and> list_all turn_fits (ip_turn_servers p))"
    using delimits_counted[OF turn_bytes_delimits, of ip_turn_servers] by simp
  ultimately show "delimits ice_signing_bytes (\<lambda>p. (ip_stun_servers p, ip_turn_servers p)) ice_fits"
    unfolding ice_signing_bytes_def[abs_def] ice_fits_def[abs_def] by (intro delimits_const delimits_append)
qed auto

section \<open>Lifetime of issued credentials\<close>

lemma strip_all_emptied: "strip_all ws s = [] \<Longrightarrow> s = [] \<or> (\<exists>w \<in> set ws. w \<noteq> [] \<and> suffix w s)"
proof (induction ws s rule: strip_all.induct)
  case (1 ws s)
  show ?case
  proof (cases "strip_one ws s")
    case None
    with 1(2) show ?thesis by (simp add: strip_all.simps)
  next
    case (Some t)
    then obtain w where "find (\<lambda>w. w \<noteq> [] \<and> prefix w s) ws = Some w" and t: "t = drop (length w) s"
      by (auto simp: strip_one_def)
    then have w: "w \<in> set ws" "w \<noteq> []" "prefix w s" unfolding find_Some_iff by auto
    then have s: "s = w @ t" using t by (auto simp: prefix_def)
    from Some 1(2) have "strip_all ws t = []" by (simp add: strip_all.simps[of ws s])
    from 1(1)[OF Some this] s w show ?thesis by (auto simp: suffix_append)
  qed
qed

lemma not_blank_start:
  assumes "s \<noteq> []" and "\<And>w. w \<in> set utf8_whitespace \<Longrightarrow> \<not> prefix w s"
  shows "\<not> blank s"
proof
  assume "blank s"
  have "strip_one utf8_whitespace s = None" using assms(2) by (auto simp: strip_one_def find_None_iff)
  then have "trim_start s = s" by (simp add: trim_start_def strip_all_id)
  with \<open>blank s\<close> have "strip_all (map rev utf8_whitespace) (rev s) = []" by (simp add: blank_def trim_def trim_end_def)
  from strip_all_emptied[OF this] assms(1) obtain w where "w \<in> set utf8_whitespace" "suffix (rev w) (rev s)" by auto
  with assms(2) show False by (simp add: suffix_to_prefix)
qed

lemma int_str_start: "\<exists>c r. int_str i = c # r \<and> (is_digit c \<or> c = CHR ''-'')"
proof (cases "i < 0")
  case False
  obtain c r where "nat_str (nat i) = c # r" using nat_str_nonempty[of "nat i"] by (cases "nat_str (nat i)") auto
  with digits_nat_str[of "nat i"] False show ?thesis by (simp add: int_str_def)
qed (simp add: int_str_def)

lemma int_str_not_blank: "\<not> blank (int_str i @ r)"
proof -
  obtain c t where c: "int_str i = c # t" "is_digit c \<or> c = CHR ''-''" using int_str_start by blast
  have "hd w \<noteq> c" if "w \<in> set utf8_whitespace" for w
    using that c(2) by (auto simp: utf8_whitespace_def is_digit_def)
  moreover have "w \<noteq> []" if "w \<in> set utf8_whitespace" for w using that by (auto simp: utf8_whitespace_def)
  ultimately have "\<not> prefix w (int_str i @ r)" if "w \<in> set utf8_whitespace" for w
    unfolding c(1) using that by (metis Cons_prefix_Cons append_Cons list.exhaust_sel)
  then show ?thesis by (intro not_blank_start) (simp add: c(1))
qed

text \<open>
  A credential issued under a valid configuration names the public endpoint and is accepted as short-lived at every moment before the end of its
  lifetime and refused as expired from then on.
\<close>

theorem turn_credential_lifetime:
  assumes "rfc3339_correct C" and "issuer_validate c = Inr ()" and "\<And>x. \<not> blank (base64 (hmac_sha1 (ti_static_auth_secret c) x))"
    and "issue_for_subject C hmac_sha1 base64 c subject now = Some (Inr srv)"
  shows "\<exists>e. ut_add_seconds C now (int (ti_ttl_seconds c)) = Some e \<and> ts_endpoint srv = ti_public_turn_endpoint c \<and>
    (\<forall>t. credential_mode_at C srv t =
       (if t < e then Inr (Ephemeral (ut_to_rfc3339 C e)) else Inl (InvalidIcePolicy ''TURN credential expired'')))"
proof -
  from assms(4) obtain e u cr where e: "ut_add_seconds C now (int (ti_ttl_seconds c)) = Some e"
    and srv: "srv = \<lparr>ts_endpoint = ti_public_turn_endpoint c, ts_username = Some u, ts_credential = Some cr,
      ts_credential_expires_at = Some (ut_to_rfc3339 C e)\<rparr>" and ok: "\<not> blank u" "\<not> blank cr"
    by (auto simp: issue_for_subject_def Let_def int_str_not_blank assms(3) split: sum.splits option.splits)
  have "turn_validate srv = Inr ()" "credentials_declared srv" "parsed_credential_expiry C srv = Inr (Some e)"
    using assms(1,2) ok
    by (simp_all add: srv turn_validate_def validate_credential_shape_def credentials_declared_def parsed_credential_expiry_def
        rfc3339_correct_def issuer_validate_def and_then_Inr)
  then show ?thesis using e srv by (simp add: credential_mode_at_def linorder_not_less)
qed

definition turn_demo :: turn_credential_issuer_config where
  "turn_demo = \<lparr>ti_public_turn_endpoint = ''turn:t'', ti_realm = ''r'', ti_static_auth_secret = replicate 32 1,
     ti_ttl_seconds = 60, ti_username_prefix = None\<rparr>"

theorem turn_credential_lifetime_witness:
  "\<exists>srv. issue_for_subject utc_demo (\<lambda>_ x. x) (\<lambda>_. ''Aw'') turn_demo ''dev-1'' 5 = Some (Inr srv) \<and>
     credential_mode_at utc_demo srv 64 = Inr (Ephemeral (rfc_demo 65)) \<and>
     credential_mode_at utc_demo srv 65 = Inl (InvalidIcePolicy ''TURN credential expired'')"
proof -
  have "trim ''turn:t'' = ''turn:t''" "trim ''r'' = ''r''" "\<not> has_whitespace ''turn:t''" "\<not> has_whitespace ''r''" by code_simp+
  then have valid: "issuer_validate turn_demo = Inr ()"
    by (simp add: issuer_validate_def validate_endpoint_def turn_demo_def blank_def)
  have nb: "\<not> blank ''Aw''" by code_simp
  have "sanitized_turn_subject ''dev-1'' = Inr ''dev-1''" by code_simp
  then obtain srv where "issue_for_subject utc_demo (\<lambda>_ x. x) (\<lambda>_. ''Aw'') turn_demo ''dev-1'' 5 = Some (Inr srv)"
    by (auto simp: issue_for_subject_def utc_demo_def Let_def)
  with turn_credential_lifetime[OF utc_demo_correct valid, of "\<lambda>_. ''Aw''" "\<lambda>_ x. x", OF nb this] show ?thesis
    by (auto simp: utc_demo_def turn_demo_def)
qed

end
