(* ===== verification/Invite.thy ===== *)
theory Invite
  imports Ice_Policy BTree_Map Crypto_Params
begin

text \<open>
  Signed invite descriptors and their store (\<open>crates/admission/src/lib.rs\<close>): the metadata of an invite with its validation, the bytes the issuer signs,
  and issuing, revoking and consuming invites. Ed25519, SHA-256, \<open>hex\<close> and \<open>chrono\<close> are parameters; the random identifier of a new
  invite is an argument. Shown: the signed bytes determine every signed field, so a verified descriptor is the issued one; an
  invite admits exactly as many uses as it was issued for, and none once it is revoked or expired.
\<close>

section \<open>Data\<close>

datatype admission_password_protocol = OnlineAuthorizedHelper | OpaquePakeReserved

datatype invite_error =
    Expired | Revoked | Exhausted | NotFound | InvalidIssuerSignature | InvalidSignalingEndpoint | InvalidTrustMetadata
  | InvalidEndpointPolicy | OfflineVerifierRejected | PasswordRejected | HelperMismatch | HelperProofExpired
  | InvalidHelperProofSignature | WelcomeRequired | WelcomeExpired | WelcomeInviteMismatch | InvalidWelcomeAuthorization

datatype invite_endpoint_policy = ProductionTls | LocalDevLoopback

fun endpoint_policy_name :: "invite_endpoint_policy \<Rightarrow> string" where
  "endpoint_policy_name ProductionTls = ''production_tls''"
| "endpoint_policy_name LocalDevLoopback = ''local_dev_loopback''"

fun validates_endpoint :: "invite_endpoint_policy \<Rightarrow> string \<Rightarrow> bool" where
  "validates_endpoint ProductionTls e \<longleftrightarrow>
     prefix ''https://'' e \<or> prefix ''wss://'' e \<or> prefix ''mqtts://'' e \<or> prefix ''quic://'' e"
| "validates_endpoint LocalDevLoopback e \<longleftrightarrow>
     prefix ''http://127.0.0.1:'' e \<or> prefix ''ws://127.0.0.1:'' e \<or> prefix ''mqtt://127.0.0.1:'' e \<or>
     prefix ''http://[::1]:'' e \<or> prefix ''ws://[::1]:'' e \<or> prefix ''mqtt://[::1]:'' e"

definition is_ascii_hexdigit :: "char \<Rightarrow> bool" where
  "is_ascii_hexdigit c \<longleftrightarrow> is_digit c \<or> in_range 97 102 c \<or> in_range 65 70 c"

definition is_hex_fingerprint :: "string \<Rightarrow> bool" where
  "is_hex_fingerprint v \<longleftrightarrow> length v = 64 \<and> list_all is_ascii_hexdigit v"

record invite_trust_metadata =
  it_signaling_fingerprint :: string
  it_trust_status :: string

definition trust_validate :: "invite_trust_metadata \<Rightarrow> invite_error + unit" where
  "trust_validate t =
     ensure (\<not> (\<not> is_hex_fingerprint (it_signaling_fingerprint t) \<or> blank (it_trust_status t))) InvalidTrustMetadata"

datatype invite_kind = GroupJoin | DmContact | DevicePairing

fun invite_kind_name :: "invite_kind \<Rightarrow> string" where
  "invite_kind_name GroupJoin = ''group_join''"
| "invite_kind_name DmContact = ''dm_contact''"
| "invite_kind_name DevicePairing = ''device_pairing''"

datatype invite_signaling_adapter_kind = Mqtt | Nostr | IpfsPubsub | DiscryptQuicRendezvous

fun adapter_kind_name :: "invite_signaling_adapter_kind \<Rightarrow> string" where
  "adapter_kind_name Mqtt = ''mqtt''"
| "adapter_kind_name Nostr = ''nostr''"
| "adapter_kind_name IpfsPubsub = ''ipfs_pubsub''"
| "adapter_kind_name DiscryptQuicRendezvous = ''discrypt_quic_rendezvous''"

record invite_signaling_profile =
  sp_profile_id :: string
  sp_adapter_kind :: invite_signaling_adapter_kind
  sp_endpoints :: "string list"
  sp_room_topic_commitment :: string
  sp_trust_fingerprint :: string
  sp_ttl_seconds :: nat
  sp_metadata_posture :: string
  sp_rate_limit_policy :: string
  sp_capabilities :: "string list"
  sp_provider_policy_version :: nat
  sp_endpoint_allowlist_commitments :: "string list"
  sp_provider_rotation_policy :: string

definition profile_validate :: "invite_signaling_profile \<Rightarrow> invite_error + unit" where
  "profile_validate p =
     ensure (\<not> (blank (sp_profile_id p) \<or> sp_endpoints p = []
         \<or> list_ex (\<lambda>e. trim e \<noteq> e \<or> e = [] \<or> 512 < length e) (sp_endpoints p)
         \<or> \<not> is_hex_fingerprint (sp_room_topic_commitment p) \<or> \<not> is_hex_fingerprint (sp_trust_fingerprint p)
         \<or> sp_ttl_seconds p = 0 \<or> blank (sp_metadata_posture p) \<or> blank (sp_rate_limit_policy p) \<or> sp_capabilities p = []
         \<or> sp_provider_policy_version p \<noteq> 1 \<or> sp_endpoint_allowlist_commitments p = []
         \<or> list_ex (\<lambda>c. \<not> is_hex_fingerprint c) (sp_endpoint_allowlist_commitments p)
         \<or> blank (sp_provider_rotation_policy p) \<or> trim (sp_provider_rotation_policy p) \<noteq> sp_provider_rotation_policy p))
       InvalidEndpointPolicy"

record dm_invite_bootstrap =
  dm_inviter_identity_commitment :: string
  dm_contact_token_commitment :: string
  dm_reply_rendezvous_commitment :: string

definition dm_validate :: "dm_invite_bootstrap \<Rightarrow> invite_error + unit" where
  "dm_validate d =
     ensure (is_hex_fingerprint (dm_inviter_identity_commitment d) \<and> is_hex_fingerprint (dm_contact_token_commitment d) \<and>
             is_hex_fingerprint (dm_reply_rendezvous_commitment d)) InvalidEndpointPolicy"

record group_invite_bootstrap =
  gb_group_identity_commitment :: string
  gb_role_admission_policy_commitment :: string
  gb_channel_policy_commitment :: string

definition group_bootstrap_validate :: "group_invite_bootstrap \<Rightarrow> invite_error + unit" where
  "group_bootstrap_validate g =
     ensure (is_hex_fingerprint (gb_group_identity_commitment g) \<and> is_hex_fingerprint (gb_role_admission_policy_commitment g) \<and>
             is_hex_fingerprint (gb_channel_policy_commitment g)) InvalidEndpointPolicy"

record invite_admission_snapshot =
  ia_group_id_commitment :: string
  ia_group_commitment :: string
  ia_admission_mode :: string
  ia_policy_epoch :: nat
  ia_role_admission_policy_commitment :: string
  ia_welcome_required :: bool

definition snapshot_validate :: "invite_admission_snapshot \<Rightarrow> invite_error + unit" where
  "snapshot_validate a =
     ensure (\<not> (\<not> is_hex_fingerprint (ia_group_id_commitment a) \<or> \<not> is_hex_fingerprint (ia_group_commitment a)
         \<or> blank (ia_admission_mode a) \<or> trim (ia_admission_mode a) \<noteq> ia_admission_mode a
         \<or> \<not> is_hex_fingerprint (ia_role_admission_policy_commitment a) \<or> \<not> ia_welcome_required a)) InvalidEndpointPolicy"

record invite_revocation_policy =
  rp_revocable :: bool
  rp_revocation_authority_commitment :: string
  rp_expiry_enforced :: bool
  rp_max_use_enforced :: bool

definition revocation_default_open :: "(bytes \<Rightarrow> bytes) \<Rightarrow> hex_codec \<Rightarrow> invite_revocation_policy" where
  "revocation_default_open sha256 hx =
     \<lparr>rp_revocable = True,
      rp_revocation_authority_commitment = hx_encode hx (sha256 (str_bytes ''discrypt-default-revocation-authority-v1'')),
      rp_expiry_enforced = True, rp_max_use_enforced = True\<rparr>"

definition revocation_validate :: "invite_revocation_policy \<Rightarrow> invite_error + unit" where
  "revocation_validate r =
     ensure (\<not> (\<not> rp_revocable r \<or> \<not> is_hex_fingerprint (rp_revocation_authority_commitment r)
         \<or> \<not> rp_expiry_enforced r \<or> \<not> rp_max_use_enforced r)) InvalidEndpointPolicy"

record invite_password_policy =
  pp_required :: bool
  pp_protocol :: admission_password_protocol
  pp_helper_id :: "string option"
  pp_rate_limit_policy_commitment :: string
  pp_offline_verifier_allowed :: bool

definition password_validate :: "invite_password_policy \<Rightarrow> invite_error + unit" where
  "password_validate p =
     and_then (ensure (\<not> pp_offline_verifier_allowed p) OfflineVerifierRejected) (\<lambda>_.
       if \<not> pp_required p then Inr ()
       else and_then (ensure (is_hex_fingerprint (pp_rate_limit_policy_commitment p)) InvalidEndpointPolicy) (\<lambda>_.
         case pp_protocol p of
           OnlineAuthorizedHelper \<Rightarrow>
             ensure (case pp_helper_id p of None \<Rightarrow> False | Some h \<Rightarrow> \<not> blank h) HelperMismatch
         | OpaquePakeReserved \<Rightarrow> Inr ()))"

record invite_bootstrap_metadata =
  ib_connectivity_schema_version :: nat
  ib_invite_kind :: invite_kind
  ib_scope_id_commitment :: string
  ib_signaling_profiles :: "invite_signaling_profile list"
  ib_privacy_label :: string
  ib_dm_bootstrap :: "dm_invite_bootstrap option"
  ib_group_bootstrap :: "group_invite_bootstrap option"

definition bootstrap_validate :: "invite_bootstrap_metadata \<Rightarrow> invite_error + unit" where
  "bootstrap_validate b =
     and_then (ensure (\<not> (ib_connectivity_schema_version b = 0 \<or> \<not> is_hex_fingerprint (ib_scope_id_commitment b)
                 \<or> ib_signaling_profiles b = [] \<or> blank (ib_privacy_label b))) InvalidEndpointPolicy) (\<lambda>_.
     and_then (try_each profile_validate (ib_signaling_profiles b)) (\<lambda>_.
       case ib_invite_kind b of
         GroupJoin \<Rightarrow> and_then (ensure (ib_dm_bootstrap b = None) InvalidEndpointPolicy) (\<lambda>_.
           and_then (ok_or InvalidEndpointPolicy (ib_group_bootstrap b)) group_bootstrap_validate)
       | DmContact \<Rightarrow> and_then (ensure (ib_group_bootstrap b = None) InvalidEndpointPolicy) (\<lambda>_.
           and_then (ok_or InvalidEndpointPolicy (ib_dm_bootstrap b)) dm_validate)
       | DevicePairing \<Rightarrow> Inr ()))"

record invite_signaling_metadata =
  im_signaling_endpoint :: string
  im_endpoint_policy :: invite_endpoint_policy
  im_trust :: invite_trust_metadata
  im_ice_endpoint_policy :: ice_endpoint_policy

definition signaling_fingerprint_for_endpoint :: "(bytes \<Rightarrow> bytes) \<Rightarrow> hex_codec \<Rightarrow> string \<Rightarrow> string" where
  "signaling_fingerprint_for_endpoint sha256 hx endpoint =
     hx_encode hx (sha256 (str_bytes ''external-signaling-endpoint-fingerprint-v1'' @ str_bytes endpoint))"

definition signaling_default_production :: "(bytes \<Rightarrow> bytes) \<Rightarrow> hex_codec \<Rightarrow> invite_signaling_metadata" where
  "signaling_default_production sha256 hx =
     (let endpoint = ''mqtts://broker.emqx.io:8883''
      in \<lparr>im_signaling_endpoint = endpoint, im_endpoint_policy = ProductionTls,
          im_trust = \<lparr>it_signaling_fingerprint = signaling_fingerprint_for_endpoint sha256 hx endpoint,
            it_trust_status = ''signed endpoint fingerprint; verify before MLS Welcome''\<rparr>,
          im_ice_endpoint_policy = ice_default_production\<rparr>)"

definition signaling_validate :: "invite_signaling_metadata \<Rightarrow> invite_error + unit" where
  "signaling_validate m =
     and_then (ensure (\<not> (trim (im_signaling_endpoint m) \<noteq> im_signaling_endpoint m \<or> im_signaling_endpoint m = []
                 \<or> 512 < length (im_signaling_endpoint m))) InvalidSignalingEndpoint) (\<lambda>_.
     and_then (ensure (validates_endpoint (im_endpoint_policy m) (im_signaling_endpoint m)) InvalidSignalingEndpoint) (\<lambda>_.
     and_then (trust_validate (im_trust m)) (\<lambda>_.
       case ice_validate (im_ice_endpoint_policy m) of Inr u \<Rightarrow> Inr u | Inl _ \<Rightarrow> Inl InvalidEndpointPolicy)))"

record 't stored_invite =
  si_descriptor_schema_version :: nat
  si_invite_id :: string
  si_room_secret_commitment :: bytes
  si_issuer_public_key :: bytes
  si_issuer_signature :: bytes
  si_signaling_metadata :: invite_signaling_metadata
  si_bootstrap_metadata :: "invite_bootstrap_metadata option"
  si_admission_snapshot :: "invite_admission_snapshot option"
  si_revocation_policy :: invite_revocation_policy
  si_password_policy :: "invite_password_policy option"
  si_expires_at :: 't
  si_max_uses :: nat
  si_consumed_uses :: nat
  si_revocation_event_id :: "string option"

section \<open>Signed bytes\<close>

definition append_signed_str :: "string \<Rightarrow> bytes" where
  "append_signed_str v = lp_le (str_bytes v)"

definition profile_signing_bytes :: "invite_signaling_profile \<Rightarrow> bytes" where
  "profile_signing_bytes p =
     append_signed_str (sp_profile_id p) @ append_signed_str (adapter_kind_name (sp_adapter_kind p)) @
     counted_bytes append_signed_str (sp_endpoints p) @
     append_signed_str (sp_room_topic_commitment p) @ append_signed_str (sp_trust_fingerprint p) @ u32_le (sp_ttl_seconds p) @
     append_signed_str (sp_metadata_posture p) @ append_signed_str (sp_rate_limit_policy p) @
     counted_bytes append_signed_str (sp_capabilities p) @ u32_le (sp_provider_policy_version p) @
     counted_bytes append_signed_str (sp_endpoint_allowlist_commitments p) @ append_signed_str (sp_provider_rotation_policy p)"

definition dm_signing_bytes :: "dm_invite_bootstrap \<Rightarrow> bytes" where
  "dm_signing_bytes d = append_signed_str (dm_inviter_identity_commitment d) @
     append_signed_str (dm_contact_token_commitment d) @ append_signed_str (dm_reply_rendezvous_commitment d)"

definition group_bootstrap_signing_bytes :: "group_invite_bootstrap \<Rightarrow> bytes" where
  "group_bootstrap_signing_bytes g = append_signed_str (gb_group_identity_commitment g) @
     append_signed_str (gb_role_admission_policy_commitment g) @ append_signed_str (gb_channel_policy_commitment g)"

definition bootstrap_signing_bytes :: "invite_bootstrap_metadata \<Rightarrow> bytes" where
  "bootstrap_signing_bytes b = str_bytes ''discrypt-invite-bootstrap'' @ u32_le (ib_connectivity_schema_version b) @
     append_signed_str (invite_kind_name (ib_invite_kind b)) @ append_signed_str (ib_scope_id_commitment b) @
     append_signed_str (ib_privacy_label b) @ counted_bytes profile_signing_bytes (ib_signaling_profiles b) @
     optional_bytes dm_signing_bytes (ib_dm_bootstrap b) @ optional_bytes group_bootstrap_signing_bytes (ib_group_bootstrap b)"

definition snapshot_signing_bytes :: "invite_admission_snapshot \<Rightarrow> bytes" where
  "snapshot_signing_bytes a = append_signed_str (ia_group_id_commitment a) @ append_signed_str (ia_group_commitment a) @
     append_signed_str (ia_admission_mode a) @ u64_le (ia_policy_epoch a) @
     append_signed_str (ia_role_admission_policy_commitment a) @ [flag_byte (ia_welcome_required a)]"

fun protocol_name :: "admission_password_protocol \<Rightarrow> string" where
  "protocol_name OnlineAuthorizedHelper = ''online_authorized_helper''"
| "protocol_name OpaquePakeReserved = ''opaque_pake_reserved''"

definition password_signing_bytes :: "invite_password_policy \<Rightarrow> bytes" where
  "password_signing_bytes p = [flag_byte (pp_required p)] @ append_signed_str (protocol_name (pp_protocol p)) @
     optional_bytes append_signed_str (pp_helper_id p) @ append_signed_str (pp_rate_limit_policy_commitment p) @
     [flag_byte (pp_offline_verifier_allowed p)]"

definition revocation_signing_bytes :: "invite_revocation_policy \<Rightarrow> bytes" where
  "revocation_signing_bytes r = [flag_byte (rp_revocable r)] @ append_signed_str (rp_revocation_authority_commitment r) @
     [flag_byte (rp_expiry_enforced r)] @ [flag_byte (rp_max_use_enforced r)]"

text \<open>\<open>i64::to_le_bytes\<close>, in two's complement.\<close>

definition i64_le :: "int \<Rightarrow> bytes" where
  "i64_le i = u64_le (nat (i mod 2 ^ 64))"

definition invite_signing_bytes :: "'t utc_clock \<Rightarrow> 't stored_invite \<Rightarrow> bytes" where
  "invite_signing_bytes C i = str_bytes ''discrypt-invite-descriptor'' @ u32_le 1 @ append_signed_str (si_invite_id i) @
     si_room_secret_commitment i @ lp_le (si_issuer_public_key i) @
     append_signed_str (im_signaling_endpoint (si_signaling_metadata i)) @
     append_signed_str (endpoint_policy_name (im_endpoint_policy (si_signaling_metadata i))) @
     append_signed_str (it_signaling_fingerprint (im_trust (si_signaling_metadata i))) @
     append_signed_str (it_trust_status (im_trust (si_signaling_metadata i))) @
     lp_le (ice_signing_bytes (im_ice_endpoint_policy (si_signaling_metadata i))) @
     optional_bytes (\<lambda>b. lp_le (bootstrap_signing_bytes b)) (si_bootstrap_metadata i) @
     optional_bytes snapshot_signing_bytes (si_admission_snapshot i) @ revocation_signing_bytes (si_revocation_policy i) @
     optional_bytes password_signing_bytes (si_password_policy i) @
     i64_le (ut_millis C (si_expires_at i)) @ u32_le (si_max_uses i)"

section \<open>Issuing, revoking, consuming\<close>

definition verify_issuer_signature :: "'t utc_clock \<Rightarrow> 'sk ed25519 \<Rightarrow> 't stored_invite \<Rightarrow> invite_error + unit" where
  "verify_issuer_signature C ed i =
     and_then (signaling_validate (si_signaling_metadata i)) (\<lambda>_.
     and_then (case si_bootstrap_metadata i of Some b \<Rightarrow> bootstrap_validate b | None \<Rightarrow> Inr ()) (\<lambda>_.
     and_then (ensure (si_descriptor_schema_version i = 1) InvalidEndpointPolicy) (\<lambda>_.
     and_then (case si_admission_snapshot i of Some a \<Rightarrow> snapshot_validate a | None \<Rightarrow> Inr ()) (\<lambda>_.
     and_then (revocation_validate (si_revocation_policy i)) (\<lambda>_.
     and_then (case si_password_policy i of Some p \<Rightarrow> password_validate p | None \<Rightarrow> Inr ()) (\<lambda>_.
     and_then (ensure (length (si_issuer_public_key i) = 32 \<and> ed_key_ok ed (si_issuer_public_key i)) InvalidIssuerSignature) (\<lambda>_.
     and_then (ensure (ed_sig_ok ed (si_issuer_signature i)) InvalidIssuerSignature) (\<lambda>_.
       ensure (ed_verify ed (si_issuer_public_key i) (invite_signing_bytes C i) (si_issuer_signature i)) InvalidIssuerSignature))))))))"

record 't stored_invite_sign_input =
  gi_invite_id :: string
  gi_room_secret_commitment :: bytes
  gi_expires_at :: 't
  gi_max_uses :: nat
  gi_signaling_metadata :: invite_signaling_metadata
  gi_bootstrap_metadata :: "invite_bootstrap_metadata option"
  gi_admission_snapshot :: "invite_admission_snapshot option"
  gi_revocation_policy :: invite_revocation_policy
  gi_password_policy :: "invite_password_policy option"

definition invite_sign :: "'t utc_clock \<Rightarrow> 'sk ed25519 \<Rightarrow> 't stored_invite_sign_input \<Rightarrow> 'sk \<Rightarrow> 't stored_invite" where
  "invite_sign C ed inp issuer =
     (let i = \<lparr>si_descriptor_schema_version = 1, si_invite_id = gi_invite_id inp,
            si_room_secret_commitment = gi_room_secret_commitment inp, si_issuer_public_key = ed_public ed issuer,
            si_issuer_signature = [], si_signaling_metadata = gi_signaling_metadata inp,
            si_bootstrap_metadata = gi_bootstrap_metadata inp, si_admission_snapshot = gi_admission_snapshot inp,
            si_revocation_policy = gi_revocation_policy inp, si_password_policy = gi_password_policy inp,
            si_expires_at = gi_expires_at inp, si_max_uses = gi_max_uses inp, si_consumed_uses = 0,
            si_revocation_event_id = None\<rparr>
      in i\<lparr>si_issuer_signature := ed_sign ed issuer (invite_signing_bytes C i)\<rparr>)"

definition room_secret_commitment :: "(bytes \<Rightarrow> bytes) \<Rightarrow> bytes \<Rightarrow> bytes" where
  "room_secret_commitment sha256 room_secret = sha256 (str_bytes ''discrypt-room-secret-commitment-v1'' @ room_secret)"

type_synonym 't invite_store = "(string, 't stored_invite) btreemap"

definition store_invite :: "'t invite_store \<Rightarrow> 't stored_invite \<Rightarrow> 't invite_store \<times> 't stored_invite" where
  "store_invite st i = (bt_insert (si_invite_id i) i st, i)"

definition issue_invite ::
  "(bytes \<Rightarrow> bytes) \<Rightarrow> hex_codec \<Rightarrow> 't utc_clock \<Rightarrow> 'sk ed25519 \<Rightarrow> string \<Rightarrow> 't invite_store \<Rightarrow> bytes \<Rightarrow> 't \<Rightarrow> nat \<Rightarrow> 'sk
     \<Rightarrow> 't invite_store \<times> 't stored_invite" where
  "issue_invite sha256 hx C ed fresh_id st room_secret expires_at max_uses issuer =
     store_invite st (invite_sign C ed
       \<lparr>gi_invite_id = fresh_id, gi_room_secret_commitment = room_secret_commitment sha256 room_secret, gi_expires_at = expires_at,
        gi_max_uses = max max_uses 1, gi_signaling_metadata = signaling_default_production sha256 hx, gi_bootstrap_metadata = None,
        gi_admission_snapshot = None, gi_revocation_policy = revocation_default_open sha256 hx, gi_password_policy = None\<rparr> issuer)"

definition issue_invite_with_metadata ::
  "(bytes \<Rightarrow> bytes) \<Rightarrow> hex_codec \<Rightarrow> 't utc_clock \<Rightarrow> 'sk ed25519 \<Rightarrow> string \<Rightarrow> 't invite_store \<Rightarrow> bytes \<Rightarrow> 't \<Rightarrow> nat
     \<Rightarrow> invite_signaling_metadata \<Rightarrow> 'sk \<Rightarrow> invite_error + 't invite_store \<times> 't stored_invite" where
  "issue_invite_with_metadata sha256 hx C ed fresh_id st room_secret expires_at max_uses m issuer =
     and_then (signaling_validate m) (\<lambda>_. Inr (store_invite st (invite_sign C ed
       \<lparr>gi_invite_id = fresh_id, gi_room_secret_commitment = room_secret_commitment sha256 room_secret, gi_expires_at = expires_at,
        gi_max_uses = max max_uses 1, gi_signaling_metadata = m, gi_bootstrap_metadata = None,
        gi_admission_snapshot = None, gi_revocation_policy = revocation_default_open sha256 hx, gi_password_policy = None\<rparr> issuer)))"

definition issue_invite_with_bootstrap_metadata ::
  "(bytes \<Rightarrow> bytes) \<Rightarrow> hex_codec \<Rightarrow> 't utc_clock \<Rightarrow> 'sk ed25519 \<Rightarrow> string \<Rightarrow> 't invite_store \<Rightarrow> bytes \<Rightarrow> 't \<Rightarrow> nat
     \<Rightarrow> invite_signaling_metadata \<Rightarrow> invite_bootstrap_metadata \<Rightarrow> 'sk \<Rightarrow> invite_error + 't invite_store \<times> 't stored_invite" where
  "issue_invite_with_bootstrap_metadata sha256 hx C ed fresh_id st room_secret expires_at max_uses m b issuer =
     and_then (signaling_validate m) (\<lambda>_. and_then (bootstrap_validate b) (\<lambda>_. Inr (store_invite st (invite_sign C ed
       \<lparr>gi_invite_id = fresh_id, gi_room_secret_commitment = room_secret_commitment sha256 room_secret, gi_expires_at = expires_at,
        gi_max_uses = max max_uses 1, gi_signaling_metadata = m, gi_bootstrap_metadata = Some b,
        gi_admission_snapshot = None, gi_revocation_policy = revocation_default_open sha256 hx, gi_password_policy = None\<rparr> issuer))))"

record 't canonical_group_invite_v1_input =
  ci_room_secret :: bytes
  ci_expires_at :: 't
  ci_max_uses :: nat
  ci_signaling_metadata :: invite_signaling_metadata
  ci_bootstrap_metadata :: invite_bootstrap_metadata
  ci_admission_snapshot :: invite_admission_snapshot
  ci_revocation_policy :: invite_revocation_policy
  ci_password_policy :: "invite_password_policy option"

definition issue_canonical_group_invite_v1 ::
  "(bytes \<Rightarrow> bytes) \<Rightarrow> 't utc_clock \<Rightarrow> 'sk ed25519 \<Rightarrow> string \<Rightarrow> 't invite_store \<Rightarrow> 't canonical_group_invite_v1_input \<Rightarrow> 'sk
     \<Rightarrow> invite_error + 't invite_store \<times> 't stored_invite" where
  "issue_canonical_group_invite_v1 sha256 C ed fresh_id st inp issuer =
     and_then (signaling_validate (ci_signaling_metadata inp)) (\<lambda>_.
     and_then (bootstrap_validate (ci_bootstrap_metadata inp)) (\<lambda>_.
     and_then (snapshot_validate (ci_admission_snapshot inp)) (\<lambda>_.
     and_then (revocation_validate (ci_revocation_policy inp)) (\<lambda>_.
     and_then (case ci_password_policy inp of Some p \<Rightarrow> password_validate p | None \<Rightarrow> Inr ()) (\<lambda>_.
       Inr (store_invite st (invite_sign C ed
         \<lparr>gi_invite_id = fresh_id, gi_room_secret_commitment = room_secret_commitment sha256 (ci_room_secret inp),
          gi_expires_at = ci_expires_at inp, gi_max_uses = max (ci_max_uses inp) 1,
          gi_signaling_metadata = ci_signaling_metadata inp, gi_bootstrap_metadata = Some (ci_bootstrap_metadata inp),
          gi_admission_snapshot = Some (ci_admission_snapshot inp), gi_revocation_policy = ci_revocation_policy inp,
          gi_password_policy = ci_password_policy inp\<rparr> issuer)))))))"

definition invite_revoke :: "'t invite_store \<Rightarrow> string \<Rightarrow> string \<Rightarrow> invite_error + 't invite_store" where
  "invite_revoke st invite_id event_id =
     and_then (ok_or NotFound (bt_get st invite_id)) (\<lambda>i.
       Inr (bt_insert invite_id (i\<lparr>si_revocation_event_id := Some event_id\<rparr>) st))"

definition sat_inc32 :: "nat \<Rightarrow> nat" where
  "sat_inc32 n = sat_add32 n 1"

definition invite_consume ::
  "'t::linorder utc_clock \<Rightarrow> 'sk ed25519 \<Rightarrow> 't invite_store \<Rightarrow> string \<Rightarrow> 't \<Rightarrow> invite_error + 't invite_store" where
  "invite_consume C ed st invite_id now =
     and_then (ok_or NotFound (bt_get st invite_id)) (\<lambda>i.
     and_then (verify_issuer_signature C ed i) (\<lambda>_.
     and_then (ensure (si_revocation_event_id i = None) Revoked) (\<lambda>_.
     and_then (ensure (\<not> si_expires_at i < now) Expired) (\<lambda>_.
     and_then (ensure (\<not> si_max_uses i \<le> si_consumed_uses i) Exhausted) (\<lambda>_.
       Inr (bt_insert invite_id (i\<lparr>si_consumed_uses := sat_inc32 (si_consumed_uses i)\<rparr>) st))))))"

section \<open>What the signed bytes determine\<close>

text \<open>Values of the Rust types: lengths and counts below \<open>2\<^sup>6\<^sup>4\<close>, numbers within their width, 32-byte commitments.\<close>

definition profile_fits :: "invite_signaling_profile \<Rightarrow> bool" where
  "profile_fits p \<longleftrightarrow> str_fits (sp_profile_id p) \<and> str_fits (adapter_kind_name (sp_adapter_kind p)) \<and>
     (length (sp_endpoints p) < 2 ^ 64 \<and> list_all str_fits (sp_endpoints p)) \<and>
     str_fits (sp_room_topic_commitment p) \<and> str_fits (sp_trust_fingerprint p) \<and> sp_ttl_seconds p < 256 ^ 4 \<and>
     str_fits (sp_metadata_posture p) \<and> str_fits (sp_rate_limit_policy p) \<and>
     (length (sp_capabilities p) < 2 ^ 64 \<and> list_all str_fits (sp_capabilities p)) \<and> sp_provider_policy_version p < 256 ^ 4 \<and>
     (length (sp_endpoint_allowlist_commitments p) < 2 ^ 64 \<and> list_all str_fits (sp_endpoint_allowlist_commitments p)) \<and>
     str_fits (sp_provider_rotation_policy p)"

definition dm_fits :: "dm_invite_bootstrap \<Rightarrow> bool" where
  "dm_fits d \<longleftrightarrow> str_fits (dm_inviter_identity_commitment d) \<and> str_fits (dm_contact_token_commitment d) \<and>
     str_fits (dm_reply_rendezvous_commitment d)"

definition group_bootstrap_fits :: "group_invite_bootstrap \<Rightarrow> bool" where
  "group_bootstrap_fits g \<longleftrightarrow> str_fits (gb_group_identity_commitment g) \<and> str_fits (gb_role_admission_policy_commitment g) \<and>
     str_fits (gb_channel_policy_commitment g)"

definition bootstrap_fits :: "invite_bootstrap_metadata \<Rightarrow> bool" where
  "bootstrap_fits b \<longleftrightarrow> ib_connectivity_schema_version b < 256 ^ 4 \<and> str_fits (invite_kind_name (ib_invite_kind b)) \<and>
     str_fits (ib_scope_id_commitment b) \<and> str_fits (ib_privacy_label b) \<and>
     (length (ib_signaling_profiles b) < 2 ^ 64 \<and> list_all profile_fits (ib_signaling_profiles b)) \<and>
     pred_option dm_fits (ib_dm_bootstrap b) \<and> pred_option group_bootstrap_fits (ib_group_bootstrap b)"

definition snapshot_fits :: "invite_admission_snapshot \<Rightarrow> bool" where
  "snapshot_fits a \<longleftrightarrow> str_fits (ia_group_id_commitment a) \<and> str_fits (ia_group_commitment a) \<and> str_fits (ia_admission_mode a) \<and>
     ia_policy_epoch a < 256 ^ 8 \<and> str_fits (ia_role_admission_policy_commitment a) \<and> True"

definition password_fits :: "invite_password_policy \<Rightarrow> bool" where
  "password_fits p \<longleftrightarrow> True \<and> str_fits (protocol_name (pp_protocol p)) \<and> pred_option str_fits (pp_helper_id p) \<and>
     str_fits (pp_rate_limit_policy_commitment p) \<and> True"

definition revocation_fits :: "invite_revocation_policy \<Rightarrow> bool" where
  "revocation_fits r \<longleftrightarrow> True \<and> str_fits (rp_revocation_authority_commitment r) \<and> True \<and> True"

definition i64_fits :: "int \<Rightarrow> bool" where
  "i64_fits i \<longleftrightarrow> - (2 ^ 63) \<le> i \<and> i < 2 ^ 63"

definition invite_fits :: "'t utc_clock \<Rightarrow> 't stored_invite \<Rightarrow> bool" where
  "invite_fits C i \<longleftrightarrow> str_fits (si_invite_id i) \<and> length (si_room_secret_commitment i) = 32 \<and>
     length (si_issuer_public_key i) < 2 ^ 64 \<and> str_fits (im_signaling_endpoint (si_signaling_metadata i)) \<and>
     str_fits (endpoint_policy_name (im_endpoint_policy (si_signaling_metadata i))) \<and>
     str_fits (it_signaling_fingerprint (im_trust (si_signaling_metadata i))) \<and>
     str_fits (it_trust_status (im_trust (si_signaling_metadata i))) \<and>
     (length (ice_signing_bytes (im_ice_endpoint_policy (si_signaling_metadata i))) < 2 ^ 64 \<and>
      ice_fits (im_ice_endpoint_policy (si_signaling_metadata i))) \<and>
     pred_option (\<lambda>b. length (bootstrap_signing_bytes b) < 2 ^ 64 \<and> bootstrap_fits b) (si_bootstrap_metadata i) \<and>
     pred_option snapshot_fits (si_admission_snapshot i) \<and> revocation_fits (si_revocation_policy i) \<and>
     pred_option password_fits (si_password_policy i) \<and> i64_fits (ut_millis C (si_expires_at i)) \<and> si_max_uses i < 256 ^ 4"

lemma signed_str_delimits [delim]: "delimits (\<lambda>x. append_signed_str (g x)) g (\<lambda>x. str_fits (g x))"
  unfolding append_signed_str_def by (rule delimits_str)

lemma signed_str_list_delimits [delim]:
  "delimits (\<lambda>x. counted_bytes append_signed_str (g x)) g (\<lambda>x. length (g x) < 2 ^ 64 \<and> list_all str_fits (g x))"
  using delimits_counted[OF signed_str_delimits[of "\<lambda>x. x"], of g] by simp

lemma signed_str_option_delimits [delim]:
  "delimits (\<lambda>x. optional_bytes append_signed_str (g x)) g (\<lambda>x. pred_option str_fits (g x))"
  using delimits_optional[OF signed_str_delimits[of "\<lambda>x. x"], of g] by (simp add: option.map_ident)

lemma i64_delimits [delim]: "delimits (\<lambda>x. i64_le (g x)) g (\<lambda>x. i64_fits (g x))"
proof (rule delimitsI)
  fix x y r s
  assume f: "i64_fits (g x)" "i64_fits (g y)" and "i64_le (g x) @ r = i64_le (g y) @ s"
  then have "nat (g x mod 2 ^ 64) = nat (g y mod 2 ^ 64) \<and> r = s"
    unfolding i64_le_def by (intro le_append_inj[where k = 8]) (simp_all add: nat_less_iff)
  moreover have "g x = g y" if "g x mod 2 ^ 64 = g y mod 2 ^ 64"
  proof -
    from that have "(2 :: int) ^ 64 dvd g x - g y" by (simp add: mod_eq_dvd_iff)
    moreover have "\<bar>g x - g y\<bar> < 2 ^ 64" using f by (auto simp: i64_fits_def)
    ultimately show ?thesis using zdvd_imp_le[of "2 ^ 64" "\<bar>g x - g y\<bar>"] by fastforce
  qed
  ultimately show "g x = g y \<and> r = s" by (simp add: eq_nat_nat_iff)
qed

lemmas part_delimits = delimits_append signed_str_delimits signed_str_list_delimits signed_str_option_delimits delimits_le
  delimits_flag i64_delimits

lemma names_inj:
  "adapter_kind_name a = adapter_kind_name a' \<longleftrightarrow> a = a'" "invite_kind_name k = invite_kind_name k' \<longleftrightarrow> k = k'"
  "endpoint_policy_name e = endpoint_policy_name e' \<longleftrightarrow> e = e'" "protocol_name p = protocol_name p' \<longleftrightarrow> p = p'"
  subgoal by (cases a; cases a') simp_all
  subgoal by (cases k; cases k') simp_all
  subgoal by (cases e; cases e') simp_all
  subgoal by (cases p; cases p') simp_all
  done

lemma profile_delimits: "delimits profile_signing_bytes (\<lambda>p. p) profile_fits"
proof (rule delimits_view)
  show "delimits profile_signing_bytes (\<lambda>p. (sp_profile_id p, adapter_kind_name (sp_adapter_kind p), sp_endpoints p,
      sp_room_topic_commitment p, sp_trust_fingerprint p, sp_ttl_seconds p, sp_metadata_posture p, sp_rate_limit_policy p,
      sp_capabilities p, sp_provider_policy_version p, sp_endpoint_allowlist_commitments p, sp_provider_rotation_policy p)) profile_fits"
    unfolding profile_signing_bytes_def[abs_def] profile_fits_def[abs_def] by (intro part_delimits)
qed (simp add: names_inj)

lemma dm_delimits: "delimits dm_signing_bytes (\<lambda>d. d) dm_fits"
proof (rule delimits_view)
  show "delimits dm_signing_bytes (\<lambda>d. (dm_inviter_identity_commitment d, dm_contact_token_commitment d,
      dm_reply_rendezvous_commitment d)) dm_fits"
    unfolding dm_signing_bytes_def[abs_def] dm_fits_def[abs_def] by (intro part_delimits)
qed simp

lemma group_bootstrap_delimits: "delimits group_bootstrap_signing_bytes (\<lambda>g. g) group_bootstrap_fits"
proof (rule delimits_view)
  show "delimits group_bootstrap_signing_bytes (\<lambda>g. (gb_group_identity_commitment g, gb_role_admission_policy_commitment g,
      gb_channel_policy_commitment g)) group_bootstrap_fits"
    unfolding group_bootstrap_signing_bytes_def[abs_def] group_bootstrap_fits_def[abs_def] by (intro part_delimits)
qed simp

lemma snapshot_delimits: "delimits snapshot_signing_bytes (\<lambda>a. a) snapshot_fits"
proof (rule delimits_view)
  show "delimits snapshot_signing_bytes (\<lambda>a. (ia_group_id_commitment a, ia_group_commitment a, ia_admission_mode a, ia_policy_epoch a,
      ia_role_admission_policy_commitment a, ia_welcome_required a)) snapshot_fits"
    unfolding snapshot_signing_bytes_def[abs_def] snapshot_fits_def[abs_def] by (intro part_delimits)
qed simp

lemma password_delimits: "delimits password_signing_bytes (\<lambda>p. p) password_fits"
proof (rule delimits_view)
  show "delimits password_signing_bytes (\<lambda>p. (pp_required p, protocol_name (pp_protocol p), pp_helper_id p,
      pp_rate_limit_policy_commitment p, pp_offline_verifier_allowed p)) password_fits"
    unfolding password_signing_bytes_def[abs_def] password_fits_def[abs_def] by (intro part_delimits)
qed (simp add: names_inj)

lemma revocation_delimits: "delimits revocation_signing_bytes (\<lambda>r. r) revocation_fits"
proof (rule delimits_view)
  show "delimits revocation_signing_bytes (\<lambda>r. (rp_revocable r, rp_revocation_authority_commitment r, rp_expiry_enforced r,
      rp_max_use_enforced r)) revocation_fits"
    unfolding revocation_signing_bytes_def[abs_def] revocation_fits_def[abs_def] by (intro part_delimits)
qed simp

lemma delimits_optional_id:
  "delimits e (\<lambda>x. x) f \<Longrightarrow> delimits (\<lambda>x. optional_bytes e (g x)) g (\<lambda>x. pred_option f (g x))"
  using delimits_optional[of e "\<lambda>x. x" f g] by (simp add: option.map_ident)

lemma delimits_counted_id:
  "delimits e (\<lambda>x. x) f \<Longrightarrow> delimits (\<lambda>x. counted_bytes e (g x)) g (\<lambda>x. length (g x) < 2 ^ 64 \<and> list_all f (g x))"
  using delimits_counted[of e "\<lambda>x. x" f g] by simp

lemma bootstrap_delimits: "delimits bootstrap_signing_bytes (\<lambda>b. b) bootstrap_fits"
proof (rule delimits_view)
  show "delimits bootstrap_signing_bytes (\<lambda>b. (ib_connectivity_schema_version b, invite_kind_name (ib_invite_kind b),
      ib_scope_id_commitment b, ib_privacy_label b, ib_signaling_profiles b, ib_dm_bootstrap b, ib_group_bootstrap b)) bootstrap_fits"
    unfolding bootstrap_signing_bytes_def[abs_def] bootstrap_fits_def[abs_def]
    by (intro delimits_const part_delimits delimits_counted_id[OF profile_delimits] delimits_optional_id[OF dm_delimits]
        delimits_optional_id[OF group_bootstrap_delimits])
qed (simp add: names_inj)

text \<open>The fields that the issuer signs; the expiry counts in whole milliseconds.\<close>

definition signed_fields where
  "signed_fields C i = (si_invite_id i, si_room_secret_commitment i, si_issuer_public_key i, si_signaling_metadata i,
     si_bootstrap_metadata i, si_admission_snapshot i, si_revocation_policy i, si_password_policy i,
     ut_millis C (si_expires_at i), si_max_uses i)"

lemma invite_bytes_delimit: "delimits (invite_signing_bytes C) (signed_fields C) (invite_fits C)"
proof (rule delimits_view)
  show "delimits (invite_signing_bytes C) (\<lambda>i. (si_invite_id i, si_room_secret_commitment i, si_issuer_public_key i,
      im_signaling_endpoint (si_signaling_metadata i), endpoint_policy_name (im_endpoint_policy (si_signaling_metadata i)),
      it_signaling_fingerprint (im_trust (si_signaling_metadata i)), it_trust_status (im_trust (si_signaling_metadata i)),
      im_ice_endpoint_policy (si_signaling_metadata i), si_bootstrap_metadata i, si_admission_snapshot i, si_revocation_policy i,
      si_password_policy i, ut_millis C (si_expires_at i), si_max_uses i)) (invite_fits C)"
    unfolding invite_signing_bytes_def[abs_def] invite_fits_def[abs_def]
    by (intro delimits_const delimits_fixed part_delimits delimits_raw[where g = si_room_secret_commitment]
        delimits_lp[where g = si_issuer_public_key]
        delimits_field[OF delimits_nested[OF ice_signing_bytes_delimits], where g = "\<lambda>i. im_ice_endpoint_policy (si_signaling_metadata i)"]
        delimits_optional_id[OF delimits_nested[OF bootstrap_delimits]] delimits_optional_id[OF snapshot_delimits]
        delimits_field[OF revocation_delimits, where g = si_revocation_policy] delimits_optional_id[OF password_delimits])
qed (simp add: signed_fields_def names_inj)


section \<open>Uses of an invite\<close>

lemma signing_bytes_ledger [simp]:
  "invite_signing_bytes C (i\<lparr>si_consumed_uses := n\<rparr>) = invite_signing_bytes C i"
  "invite_signing_bytes C (i\<lparr>si_revocation_event_id := r\<rparr>) = invite_signing_bytes C i"
  "invite_signing_bytes C (i\<lparr>si_issuer_signature := g\<rparr>) = invite_signing_bytes C i"
  by (simp_all add: invite_signing_bytes_def)

lemma verify_ledger [simp]:
  "verify_issuer_signature C ed (i\<lparr>si_consumed_uses := n\<rparr>) = verify_issuer_signature C ed i"
  "verify_issuer_signature C ed (i\<lparr>si_revocation_event_id := r\<rparr>) = verify_issuer_signature C ed i"
  by (simp_all add: verify_issuer_signature_def)

lemma invite_sign_fields [simp]:
  "si_invite_id (invite_sign C ed inp sk) = gi_invite_id inp" "si_max_uses (invite_sign C ed inp sk) = gi_max_uses inp"
  "si_expires_at (invite_sign C ed inp sk) = gi_expires_at inp" "si_consumed_uses (invite_sign C ed inp sk) = 0"
  "si_revocation_event_id (invite_sign C ed inp sk) = None"
  by (simp_all add: invite_sign_def Let_def)

lemma invite_sign_verifies:
  assumes "ed25519_correct ed" and "signaling_validate (gi_signaling_metadata inp) = Inr ()"
    and "(case gi_bootstrap_metadata inp of Some b \<Rightarrow> bootstrap_validate b | None \<Rightarrow> Inr ()) = Inr ()"
    and "(case gi_admission_snapshot inp of Some a \<Rightarrow> snapshot_validate a | None \<Rightarrow> Inr ()) = Inr ()"
    and "revocation_validate (gi_revocation_policy inp) = Inr ()"
    and "(case gi_password_policy inp of Some p \<Rightarrow> password_validate p | None \<Rightarrow> Inr ()) = Inr ()"
  shows "verify_issuer_signature C ed (invite_sign C ed inp sk) = Inr ()"
proof -
  obtain i where i: "invite_sign C ed inp sk = i\<lparr>si_issuer_signature := ed_sign ed sk (invite_signing_bytes C i)\<rparr>"
    "si_descriptor_schema_version i = 1" "si_issuer_public_key i = ed_public ed sk" "si_signaling_metadata i = gi_signaling_metadata inp"
    "si_bootstrap_metadata i = gi_bootstrap_metadata inp" "si_admission_snapshot i = gi_admission_snapshot inp"
    "si_revocation_policy i = gi_revocation_policy inp" "si_password_policy i = gi_password_policy inp"
    by (rule that, unfold invite_sign_def Let_def, rule refl) simp_all
  show ?thesis using assms unfolding i(1) by (simp add: verify_issuer_signature_def i(2-) ed25519_correct_def)
qed

datatype ('t, 'sk) invite_call =
    Consume string 't
  | Revoke string string
  | Issue string bytes 't nat 'sk
  | IssueWithMetadata string bytes 't nat invite_signaling_metadata 'sk
  | IssueWithBootstrap string bytes 't nat invite_signaling_metadata invite_bootstrap_metadata 'sk
  | IssueCanonical string "'t canonical_group_invite_v1_input" 'sk

text \<open>A call that fails leaves the store as it was.\<close>

fun invite_step ::
  "(bytes \<Rightarrow> bytes) \<Rightarrow> hex_codec \<Rightarrow> 't::linorder utc_clock \<Rightarrow> 'sk ed25519 \<Rightarrow> ('t, 'sk) invite_call \<Rightarrow> 't invite_store
     \<Rightarrow> invite_error + 't invite_store" where
  "invite_step sha256 hx C ed (Consume i now) st = invite_consume C ed st i now"
| "invite_step sha256 hx C ed (Revoke i ev) st = invite_revoke st i ev"
| "invite_step sha256 hx C ed (Issue i secret e n sk) st = Inr (fst (issue_invite sha256 hx C ed i st secret e n sk))"
| "invite_step sha256 hx C ed (IssueWithMetadata i secret e n m sk) st =
     and_then (issue_invite_with_metadata sha256 hx C ed i st secret e n m sk) (\<lambda>r. Inr (fst r))"
| "invite_step sha256 hx C ed (IssueWithBootstrap i secret e n m b sk) st =
     and_then (issue_invite_with_bootstrap_metadata sha256 hx C ed i st secret e n m b sk) (\<lambda>r. Inr (fst r))"
| "invite_step sha256 hx C ed (IssueCanonical i inp sk) st =
     and_then (issue_canonical_group_invite_v1 sha256 C ed i st inp sk) (\<lambda>r. Inr (fst r))"

definition step_store :: "'t invite_store \<Rightarrow> invite_error + 't invite_store \<Rightarrow> 't invite_store" where
  "step_store st r = (case r of Inr st' \<Rightarrow> st' | Inl _ \<Rightarrow> st)"

definition outcome :: "'e + 'a \<Rightarrow> 'e + unit" where
  "outcome r = and_then r (\<lambda>_. Inr ())"

text \<open>The outcomes of the attempts to consume one invite, over a sequence of calls on the store.\<close>

fun consume_outcomes ::
  "(bytes \<Rightarrow> bytes) \<Rightarrow> hex_codec \<Rightarrow> 't::linorder utc_clock \<Rightarrow> 'sk ed25519 \<Rightarrow> string \<Rightarrow> ('t, 'sk) invite_call list \<Rightarrow> 't invite_store
     \<Rightarrow> (invite_error + unit) list" where
  "consume_outcomes sha256 hx C ed i [] st = []"
| "consume_outcomes sha256 hx C ed i (c # cs) st =
     (let r = invite_step sha256 hx C ed c st
      in (case c of Consume j _ \<Rightarrow> if j = i then [outcome r] else [] | _ \<Rightarrow> []) @
         consume_outcomes sha256 hx C ed i cs (step_store st r))"

text \<open>The same outcomes from a counter and a flag.\<close>

fun ledger_outcomes :: "string \<Rightarrow> 't::linorder \<Rightarrow> nat \<Rightarrow> bool \<Rightarrow> nat \<Rightarrow> ('t, 'sk) invite_call list \<Rightarrow> (invite_error + unit) list" where
  "ledger_outcomes i e m revoked used [] = []"
| "ledger_outcomes i e m revoked used (Consume j now # cs) =
     (if j \<noteq> i then ledger_outcomes i e m revoked used cs
      else if revoked then Inl Revoked # ledger_outcomes i e m revoked used cs
      else if e < now then Inl Expired # ledger_outcomes i e m revoked used cs
      else if m \<le> used then Inl Exhausted # ledger_outcomes i e m revoked used cs
      else Inr () # ledger_outcomes i e m revoked (Suc used) cs)"
| "ledger_outcomes i e m revoked used (Revoke j ev # cs) = ledger_outcomes i e m (revoked \<or> j = i) used cs"
| "ledger_outcomes i e m revoked used (c # cs) = ledger_outcomes i e m revoked used cs"

fun issues :: "('t, 'sk) invite_call \<Rightarrow> string option" where
  "issues (Issue i _ _ _ _) = Some i"
| "issues (IssueWithMetadata i _ _ _ _ _) = Some i"
| "issues (IssueWithBootstrap i _ _ _ _ _ _) = Some i"
| "issues (IssueCanonical i _ _) = Some i"
| "issues _ = None"

lemma issue_step_get:
  assumes "issues c = Some j" and "j \<noteq> i"
  shows "bt_get (step_store st (invite_step sha256 hx C ed c st)) i = bt_get st i"
proof -
  have put: "bt_get (fst (store_invite st (invite_sign C ed inp sk))) i = bt_get st i" if "gi_invite_id inp \<noteq> i" for inp and sk :: 'b
    using that by (simp add: store_invite_def)
  have wrap: "bt_get (step_store st (and_then r (\<lambda>p. Inr (fst p)))) i = bt_get st i" if "\<And>p. r = Inr p \<Longrightarrow> bt_get (fst p) i = bt_get st i"
    for r :: "invite_error + 'a invite_store \<times> 'a stored_invite"
    using that by (cases r) (simp_all add: step_store_def)
  show ?thesis
  proof (cases c)
    case (Issue x1 x2 x3 x4 x5)
    with assms put show ?thesis by (simp add: step_store_def issue_invite_def)
  next
    case (IssueWithMetadata x1 x2 x3 x4 x5 x6)
    with assms have "x1 \<noteq> i" by simp
    with IssueWithMetadata put show ?thesis
      unfolding IssueWithMetadata invite_step.simps by (intro wrap) (auto simp: issue_invite_with_metadata_def and_then_Inr)
  next
    case (IssueWithBootstrap x1 x2 x3 x4 x5 x6 x7)
    with assms have "x1 \<noteq> i" by simp
    with put show ?thesis
      unfolding IssueWithBootstrap invite_step.simps by (intro wrap) (auto simp: issue_invite_with_bootstrap_metadata_def and_then_Inr)
  next
    case (IssueCanonical x1 x2 x3)
    with assms have "x1 \<noteq> i" by simp
    with put show ?thesis
      unfolding IssueCanonical invite_step.simps by (intro wrap) (auto simp: issue_canonical_group_invite_v1_def and_then_Inr)
  qed (use assms in simp_all)
qed

definition held_at where
  "held_at C ed i e m revoked used st \<longleftrightarrow>
     (\<exists>inv. bt_get st i = Some inv \<and> verify_issuer_signature C ed inv = Inr () \<and> si_expires_at inv = e \<and> si_max_uses inv = m \<and>
        si_consumed_uses inv = used \<and> (si_revocation_event_id inv \<noteq> None \<longleftrightarrow> revoked))"

lemma held_other: "held_at C ed i e m revoked used st \<Longrightarrow> bt_get st' i = bt_get st i \<Longrightarrow> held_at C ed i e m revoked used st'"
  unfolding held_at_def by simp

lemma consume_held:
  assumes "held_at C ed i e m revoked used st" and "m < 2 ^ 32"
  shows "if revoked then invite_consume C ed st i now = Inl Revoked
    else if e < now then invite_consume C ed st i now = Inl Expired
    else if m \<le> used then invite_consume C ed st i now = Inl Exhausted
    else \<exists>st'. invite_consume C ed st i now = Inr st' \<and> held_at C ed i e m revoked (Suc used) st'"
proof -
  from assms(1) obtain x where x: "bt_get st i = Some x" "verify_issuer_signature C ed x = Inr ()" "si_expires_at x = e"
    "si_max_uses x = m" "si_consumed_uses x = used" "si_revocation_event_id x \<noteq> None \<longleftrightarrow> revoked" unfolding held_at_def by blast
  show ?thesis
  proof (cases "\<not> revoked \<and> \<not> e < now \<and> \<not> m \<le> used")
    case True
    then have "sat_inc32 used = Suc used" using assms(2) by (simp add: sat_inc32_def sat_add32_def)
    with True x have "invite_consume C ed st i now = Inr (bt_insert i (x\<lparr>si_consumed_uses := Suc used\<rparr>) st)"
      by (simp add: invite_consume_def)
    moreover have "held_at C ed i e m revoked (Suc used) (bt_insert i (x\<lparr>si_consumed_uses := Suc used\<rparr>) st)"
      using x unfolding held_at_def by simp
    ultimately show ?thesis using True by simp
  qed (use x in \<open>auto simp: invite_consume_def\<close>)
qed

lemma consume_other: "j \<noteq> i \<Longrightarrow> bt_get (step_store st (invite_consume C ed st j now)) i = bt_get st i"
  by (cases "invite_consume C ed st j now") (auto simp: step_store_def invite_consume_def and_then_Inr)

lemma revoke_held:
  assumes "held_at C ed i e m revoked used st"
  shows "held_at C ed i e m (revoked \<or> j = i) used (step_store st (invite_revoke st j ev))"
proof (cases "j = i")
  case True
  then show ?thesis using assms unfolding held_at_def by (auto simp: step_store_def invite_revoke_def)
next
  case False
  then have "bt_get (step_store st (invite_revoke st j ev)) i = bt_get st i"
    by (cases "bt_get st j") (simp_all add: step_store_def invite_revoke_def)
  with held_other[OF assms] False show ?thesis by simp
qed

lemma consume_outcomes_ledger:
  "held_at C ed i e m revoked used st \<Longrightarrow> m < 2 ^ 32 \<Longrightarrow> Some i \<notin> issues ` set cs \<Longrightarrow>
     consume_outcomes sha256 hx C ed i cs st = ledger_outcomes i e m revoked used cs"
proof (induction cs arbitrary: st revoked used)
  case (Cons c cs)
  let ?st = "step_store st (invite_step sha256 hx C ed c st)"
  have fresh: "Some i \<notin> issues ` set cs" using Cons.prems(3) by simp
  note IH = Cons.IH[OF _ Cons.prems(2) fresh] and keep = held_other[OF Cons.prems(1)]
  show ?case
  proof (cases "issues c")
    case (Some j)
    with Cons.prems(3) have "j \<noteq> i" by (metis image_eqI list.set_intros(1))
    from IH[OF keep[OF issue_step_get[OF Some this]]]
    have "consume_outcomes sha256 hx C ed i cs ?st = ledger_outcomes i e m revoked used cs" .
    with Some show ?thesis by (cases c) simp_all
  next
    case None
    then consider j now where "c = Consume j now" | j ev where "c = Revoke j ev" by (cases c) simp_all
    then show ?thesis
    proof cases
      case 1
      show ?thesis
      proof (cases "j = i")
        case True
        from consume_held[OF Cons.prems(1,2), of now] IH[OF Cons.prems(1)] IH show ?thesis
          by (auto simp: 1 True step_store_def outcome_def split: if_split_asm)
      qed (use IH[OF keep[OF consume_other]] in \<open>simp add: 1\<close>)
    next
      case 2
      with IH[OF revoke_held[OF Cons.prems(1)]] show ?thesis by simp
    qed
  qed
qed simp

lemma ledger_bound: "used \<le> m \<Longrightarrow> length (filter is_ok (ledger_outcomes i e m revoked used cs)) \<le> m - used"
proof (induction i e m revoked used cs rule: ledger_outcomes.induct)
  case (2 i e m revoked used j now cs)
  then show ?case by (auto simp: Suc_diff_Suc)
qed auto

text \<open>
  C14: A canonical group invite that was issued can be consumed exactly as its descriptor says, whatever other calls the store serves in between: an attempt
  succeeds if and only if the invite was not revoked before, has not expired and was consumed fewer times than it was issued for (at least one), and the
  refusals report the first of these reasons. So there are never more uses than the limit. Identifiers are drawn at random; no later
  call draws the same one.
\<close>

theorem invite_uses_exact:
  assumes "ed25519_correct ed" and "issue_canonical_group_invite_v1 sha256 C ed fresh_id st inp issuer = Inr (st', issued)"
    and "ci_max_uses inp < 2 ^ 32" and "Some fresh_id \<notin> issues ` set cs"
  shows "consume_outcomes sha256 hx C ed fresh_id cs st' =
      ledger_outcomes fresh_id (ci_expires_at inp) (max (ci_max_uses inp) 1) False 0 cs \<and>
    length (filter is_ok (consume_outcomes sha256 hx C ed fresh_id cs st')) \<le> max (ci_max_uses inp) 1"
proof -
  have "held_at C ed fresh_id (ci_expires_at inp) (max (ci_max_uses inp) 1) False 0 st'"
    using assms(1,2) by (auto simp: held_at_def issue_canonical_group_invite_v1_def and_then_Inr store_invite_def intro!: invite_sign_verifies)
  from consume_outcomes_ledger[OF this _ assms(4)] assms(3)
  have "consume_outcomes sha256 hx C ed fresh_id cs st' = ledger_outcomes fresh_id (ci_expires_at inp) (max (ci_max_uses inp) 1) False 0 cs" by simp
  with ledger_bound[of 0 "max (ci_max_uses inp) 1"] show ?thesis by simp
qed

definition demo_fp :: string where
  "demo_fp = replicate 64 CHR ''a''"

lemma demo_fp_hex: "is_hex_fingerprint demo_fp"
  by (simp add: demo_fp_def is_hex_fingerprint_def is_ascii_hexdigit_def in_range_def is_digit_def list_all_iff)

definition demo_profile :: invite_signaling_profile where
  "demo_profile = \<lparr>sp_profile_id = ''p'', sp_adapter_kind = Mqtt, sp_endpoints = [''e''], sp_room_topic_commitment = demo_fp,
     sp_trust_fingerprint = demo_fp, sp_ttl_seconds = 60, sp_metadata_posture = ''m'', sp_rate_limit_policy = ''r'',
     sp_capabilities = [''c''], sp_provider_policy_version = 1, sp_endpoint_allowlist_commitments = [demo_fp],
     sp_provider_rotation_policy = ''x''\<rparr>"

definition demo_signaling :: invite_signaling_metadata where
  "demo_signaling = \<lparr>im_signaling_endpoint = ''quic://h'', im_endpoint_policy = ProductionTls,
     im_trust = \<lparr>it_signaling_fingerprint = demo_fp, it_trust_status = ''t''\<rparr>, im_ice_endpoint_policy = ice_default_production\<rparr>"

definition demo_group_invite :: "int canonical_group_invite_v1_input" where
  "demo_group_invite = \<lparr>ci_room_secret = [1], ci_expires_at = 10, ci_max_uses = 1, ci_signaling_metadata = demo_signaling,
     ci_bootstrap_metadata = \<lparr>ib_connectivity_schema_version = 1, ib_invite_kind = GroupJoin, ib_scope_id_commitment = demo_fp,
       ib_signaling_profiles = [demo_profile], ib_privacy_label = ''l'', ib_dm_bootstrap = None,
       ib_group_bootstrap = Some \<lparr>gb_group_identity_commitment = demo_fp, gb_role_admission_policy_commitment = demo_fp,
         gb_channel_policy_commitment = demo_fp\<rparr>\<rparr>,
     ci_admission_snapshot = \<lparr>ia_group_id_commitment = demo_fp, ia_group_commitment = demo_fp, ia_admission_mode = ''m'',
       ia_policy_epoch = 3, ia_role_admission_policy_commitment = demo_fp, ia_welcome_required = True\<rparr>,
     ci_revocation_policy = \<lparr>rp_revocable = True, rp_revocation_authority_commitment = demo_fp, rp_expiry_enforced = True,
       rp_max_use_enforced = True\<rparr>,
     ci_password_policy = None\<rparr>"

lemma demo_trims:
  "trim ''p'' = ''p''" "trim ''e'' = ''e''" "trim ''m'' = ''m''" "trim ''r'' = ''r''" "trim ''x'' = ''x''" "trim ''t'' = ''t''"
  "trim ''l'' = ''l''" "trim ''quic://h'' = ''quic://h''"
  by code_simp+

lemma demo_signaling_valid: "signaling_validate demo_signaling = Inr ()"
  by (simp add: signaling_validate_def demo_signaling_def demo_trims trust_validate_def demo_fp_hex blank_def ice_default_valid)

lemma demo_profile_valid: "profile_validate demo_profile = Inr ()"
  by (simp add: profile_validate_def demo_profile_def demo_trims demo_fp_hex blank_def)

lemma demo_invite_issued:
  "\<exists>st' i. issue_canonical_group_invite_v1 sha_demo utc_demo ed_demo ''id'' bt_empty demo_group_invite 3 = Inr (st', i)"
  by (simp add: issue_canonical_group_invite_v1_def store_invite_def)
    (simp add: demo_group_invite_def demo_signaling_valid bootstrap_validate_def demo_profile_valid demo_fp_hex blank_def demo_trims
      group_bootstrap_validate_def snapshot_validate_def revocation_validate_def)

theorem invite_uses_exact_witness:
  "\<exists>st' i. issue_canonical_group_invite_v1 sha_demo utc_demo ed_demo ''id'' bt_empty demo_group_invite 3 = Inr (st', i) \<and>
     consume_outcomes sha_demo hex_demo utc_demo ed_demo ''id'' [Consume ''id'' 11, Consume ''id'' 9, Consume ''id'' 9, Revoke ''id'' ''e'',
       Consume ''id'' 9] st' = [Inl Expired, Inr (), Inl Exhausted, Inl Revoked]"
proof -
  obtain st' i where i: "issue_canonical_group_invite_v1 sha_demo utc_demo ed_demo ''id'' bt_empty demo_group_invite 3 = Inr (st', i)"
    using demo_invite_issued by blast
  from invite_uses_exact[OF ed_demo_correct i, of "[Consume ''id'' 11, Consume ''id'' 9, Consume ''id'' 9, Revoke ''id'' ''e'', Consume ''id'' 9]" hex_demo]
  have "consume_outcomes sha_demo hex_demo utc_demo ed_demo ''id'' [Consume ''id'' 11, Consume ''id'' 9, Consume ''id'' 9, Revoke ''id'' ''e'',
       Consume ''id'' 9] st' = [Inl Expired, Inr (), Inl Exhausted, Inl Revoked]"
    by (simp add: demo_group_invite_def)
  with i show ?thesis by blast
qed

definition demo_stored_invite :: "int stored_invite" where
  "demo_stored_invite = \<lparr>si_descriptor_schema_version = 1, si_invite_id = ''id'', si_room_secret_commitment = replicate 32 5,
     si_issuer_public_key = replicate 32 7, si_issuer_signature = replicate 64 0, si_signaling_metadata = demo_signaling,
     si_bootstrap_metadata = None, si_admission_snapshot = None,
     si_revocation_policy = \<lparr>rp_revocable = True, rp_revocation_authority_commitment = demo_fp, rp_expiry_enforced = True,
       rp_max_use_enforced = True\<rparr>,
     si_password_policy = None, si_expires_at = 10, si_max_uses = 2, si_consumed_uses = 0, si_revocation_event_id = None\<rparr>"

lemma demo_stored_fits: "invite_fits utc_demo demo_stored_invite"
  by (simp add: invite_fits_def demo_stored_invite_def demo_signaling_def str_fits_def demo_fp_def revocation_fits_def i64_fits_def utc_demo_def
      ice_fits_def ice_default_production_def ice_signing_bytes_def counted_bytes_def push_string_def lp_le_def)


end
