(* ===== verification/Admission.thy ===== *)
theory Admission
  imports Invite
begin

text \<open>
  Admission to a group (\<open>crates/admission/src/lib.rs\<close>): invites with a use count, the signed authorization of a Welcome, the online helper that checks
  passwords and signs proofs, and the controller that combines them. Argon2 is a parameter; identifiers drawn by \<open>Uuid::new_v4\<close> and salts are
  arguments. Shown: an admission succeeds exactly when each of its checks does, and uses up the invite only then; the password attempts of a subject are
  limited in the helper and in the controller; a proof from the helper is accepted for its subject until it expires.
\<close>

section \<open>Invites with a use count\<close>

record 't invite =
  iv_id :: uuid
  iv_room_secret_hash :: bytes
  iv_expires_at :: 't
  iv_max_uses :: nat
  iv_uses :: nat
  iv_revoked :: bool

definition invite_new :: "(bytes \<Rightarrow> bytes) \<Rightarrow> uuid \<Rightarrow> bytes \<Rightarrow> 't \<Rightarrow> nat \<Rightarrow> 't invite" where
  "invite_new sha256 new_id room_secret expires_at max_uses =
     \<lparr>iv_id = new_id, iv_room_secret_hash = room_secret_commitment sha256 room_secret, iv_expires_at = expires_at,
      iv_max_uses = max_uses, iv_uses = 0, iv_revoked = False\<rparr>"

definition mark_revoked :: "'t invite \<Rightarrow> 't invite" where
  "mark_revoked i = i\<lparr>iv_revoked := True\<rparr>"

definition use_invite :: "'t::linorder invite \<Rightarrow> 't \<Rightarrow> invite_error + 't invite" where
  "use_invite i now =
     and_then (ensure (\<not> iv_revoked i) Revoked) (\<lambda>_.
     and_then (ensure (\<not> iv_expires_at i < now) Expired) (\<lambda>_.
     and_then (ensure (\<not> iv_max_uses i \<le> iv_uses i) Exhausted) (\<lambda>_.
       Inr (i\<lparr>iv_uses := sat_inc32 (iv_uses i)\<rparr>))))"

section \<open>Welcome authorizations\<close>

record 't authorized_welcome =
  aw_invite_id :: string
  aw_group_id :: bytes
  aw_welcome_payload_hash :: bytes
  aw_expires_at :: 't
  aw_issuer_public_key :: bytes
  aw_issuer_signature :: bytes

definition welcome_payload_hash :: "(bytes \<Rightarrow> bytes) \<Rightarrow> bytes \<Rightarrow> bytes" where
  "welcome_payload_hash sha256 payload = sha256 (str_bytes ''discrypt-authorized-welcome-payload-v1'' @ payload)"

definition welcome_signing_bytes :: "'t utc_clock \<Rightarrow> 't authorized_welcome \<Rightarrow> bytes" where
  "welcome_signing_bytes C w = str_bytes ''discrypt-authorized-welcome'' @ [1] @ append_signed_str (aw_invite_id w) @
     lp_le (aw_group_id w) @ aw_welcome_payload_hash w @ i64_le (ut_millis C (aw_expires_at w)) @ lp_le (aw_issuer_public_key w)"

definition welcome_sign ::
  "(bytes \<Rightarrow> bytes) \<Rightarrow> 't utc_clock \<Rightarrow> 'sk ed25519 \<Rightarrow> string \<Rightarrow> bytes \<Rightarrow> bytes \<Rightarrow> 't \<Rightarrow> 'sk \<Rightarrow> 't authorized_welcome" where
  "welcome_sign sha256 C ed invite_id group_id payload expires_at issuer =
     (let w = \<lparr>aw_invite_id = invite_id, aw_group_id = group_id, aw_welcome_payload_hash = welcome_payload_hash sha256 payload,
            aw_expires_at = expires_at, aw_issuer_public_key = ed_public ed issuer, aw_issuer_signature = []\<rparr>
      in w\<lparr>aw_issuer_signature := ed_sign ed issuer (welcome_signing_bytes C w)\<rparr>)"

definition welcome_verify ::
  "(bytes \<Rightarrow> bytes) \<Rightarrow> 't::linorder utc_clock \<Rightarrow> 'sk ed25519 \<Rightarrow> 't authorized_welcome \<Rightarrow> string \<Rightarrow> bytes \<Rightarrow> 't \<Rightarrow> invite_error + unit" where
  "welcome_verify sha256 C ed w expected_invite_id payload now =
     and_then (ensure (aw_invite_id w = expected_invite_id) WelcomeInviteMismatch) (\<lambda>_.
     and_then (ensure (\<not> aw_expires_at w < now) WelcomeExpired) (\<lambda>_.
     and_then (ensure (aw_welcome_payload_hash w = welcome_payload_hash sha256 payload) InvalidWelcomeAuthorization) (\<lambda>_.
     and_then (ensure (length (aw_issuer_public_key w) = 32 \<and> ed_key_ok ed (aw_issuer_public_key w)) InvalidWelcomeAuthorization) (\<lambda>_.
     and_then (ensure (ed_sig_ok ed (aw_issuer_signature w)) InvalidWelcomeAuthorization) (\<lambda>_.
       ensure (ed_verify ed (aw_issuer_public_key w) (welcome_signing_bytes C w) (aw_issuer_signature w)) InvalidWelcomeAuthorization)))))"

section \<open>Online helper\<close>

record 't authorized_helper_proof =
  hp_helper_id :: string
  hp_subject :: string
  hp_challenge_id :: uuid
  hp_expires_at :: 't
  hp_helper_public_key :: bytes
  hp_signature :: bytes

definition proof_signing_bytes :: "'t utc_clock \<Rightarrow> 't authorized_helper_proof \<Rightarrow> bytes" where
  "proof_signing_bytes C p = str_bytes ''discrypt-online-helper-proof'' @ [1] @ append_signed_str (hp_helper_id p) @
     append_signed_str (hp_subject p) @ be_bytes 16 (unat (hp_challenge_id p)) @ i64_le (ut_millis C (hp_expires_at p)) @
     lp_le (hp_helper_public_key p)"

definition helper_proof_sign ::
  "'t utc_clock \<Rightarrow> 'sk ed25519 \<Rightarrow> string \<Rightarrow> string \<Rightarrow> uuid \<Rightarrow> 't \<Rightarrow> 'sk \<Rightarrow> 't authorized_helper_proof" where
  "helper_proof_sign C ed helper_id subject challenge_id expires_at key =
     (let p = \<lparr>hp_helper_id = helper_id, hp_subject = subject, hp_challenge_id = challenge_id, hp_expires_at = expires_at,
            hp_helper_public_key = ed_public ed key, hp_signature = []\<rparr>
      in p\<lparr>hp_signature := ed_sign ed key (proof_signing_bytes C p)\<rparr>)"

definition helper_proof_verify ::
  "'t::linorder utc_clock \<Rightarrow> 'sk ed25519 \<Rightarrow> 't authorized_helper_proof \<Rightarrow> string \<Rightarrow> string \<Rightarrow> 't \<Rightarrow> invite_error + unit" where
  "helper_proof_verify C ed p expected_helper_id expected_subject now =
     and_then (ensure (\<not> (hp_helper_id p \<noteq> expected_helper_id \<or> hp_subject p \<noteq> expected_subject)) HelperMismatch) (\<lambda>_.
     and_then (ensure (\<not> hp_expires_at p < now) HelperProofExpired) (\<lambda>_.
     and_then (ensure (length (hp_helper_public_key p) = 32 \<and> ed_key_ok ed (hp_helper_public_key p)) InvalidHelperProofSignature) (\<lambda>_.
     and_then (ensure (ed_sig_ok ed (hp_signature p)) InvalidHelperProofSignature) (\<lambda>_.
       ensure (ed_verify ed (hp_helper_public_key p) (proof_signing_bytes C p) (hp_signature p)) InvalidHelperProofSignature))))"

text \<open>
  \<open>Argon2::default().hash_password\<close> with a salt, \<open>PasswordHash::new\<close> succeeding, and \<open>verify_password\<close>. Documented: a hash parses and verifies the
  password it was made from.
\<close>

record argon2 =
  ar_hash :: "bytes \<Rightarrow> string \<Rightarrow> string option"
  ar_parses :: "string \<Rightarrow> bool"
  ar_verify :: "bytes \<Rightarrow> string \<Rightarrow> bool"

definition argon2_correct :: "argon2 \<Rightarrow> bool" where
  "argon2_correct ar \<longleftrightarrow> (\<forall>pw salt h. ar_hash ar pw salt = Some h \<longrightarrow> ar_parses ar h \<and> ar_verify ar pw h)"

record 'sk online_admission_helper =
  oh_helper_id :: string
  oh_password_hash :: string
  oh_signing_key :: 'sk
  oh_max_attempts :: nat
  oh_proof_ttl_seconds :: int
  oh_attempts_by_subject :: "(string, nat) btreemap"

definition helper_new :: "argon2 \<Rightarrow> string \<Rightarrow> string \<Rightarrow> bytes \<Rightarrow> 'sk \<Rightarrow> nat \<Rightarrow> int \<Rightarrow> 'sk online_admission_helper" where
  "helper_new ar salt helper_id password key max_attempts proof_ttl_seconds =
     \<lparr>oh_helper_id = helper_id,
      oh_password_hash = (case ar_hash ar password salt of Some h \<Rightarrow> h | None \<Rightarrow> ''$argon2id$unavailable$admission-helper-disabled''),
      oh_signing_key = key, oh_max_attempts = max max_attempts 1, oh_proof_ttl_seconds = max proof_ttl_seconds 1,
      oh_attempts_by_subject = bt_empty\<rparr>"

definition verify_password :: "argon2 \<Rightarrow> 'sk online_admission_helper \<Rightarrow> bytes \<Rightarrow> bool" where
  "verify_password ar h attempt \<longleftrightarrow> ar_parses ar (oh_password_hash h) \<and> ar_verify ar attempt (oh_password_hash h)"

text \<open>\<open>entry(subject).or_default()\<close> and the saturating increment.\<close>

definition attempts_of :: "(string, nat) btreemap \<Rightarrow> string \<Rightarrow> nat" where
  "attempts_of m subject = (case bt_get m subject of Some n \<Rightarrow> n | None \<Rightarrow> 0)"

definition count_attempt :: "string \<Rightarrow> (string, nat) btreemap \<Rightarrow> (string, nat) btreemap" where
  "count_attempt subject m = bt_insert subject (sat_inc32 (attempts_of m subject)) m"

text \<open>\<open>None\<close> is the panic of adding the lifetime to the current time.\<close>

definition authorize ::
  "'t utc_clock \<Rightarrow> 'sk ed25519 \<Rightarrow> argon2 \<Rightarrow> uuid \<Rightarrow> 'sk online_admission_helper \<Rightarrow> string \<Rightarrow> bytes \<Rightarrow> 't
     \<Rightarrow> 'sk online_admission_helper \<times> (invite_error + 't authorized_helper_proof) option" where
  "authorize C ed ar new_id h subject attempt now =
     (let h = h\<lparr>oh_attempts_by_subject := count_attempt subject (oh_attempts_by_subject h)\<rparr>
      in (h, if oh_max_attempts h < attempts_of (oh_attempts_by_subject h) subject \<or> \<not> verify_password ar h attempt
             then Some (Inl PasswordRejected)
             else map_option (\<lambda>e. Inr (helper_proof_sign C ed (oh_helper_id h) subject new_id e (oh_signing_key h)))
                    (ut_add_seconds C now (oh_proof_ttl_seconds h))))"

section \<open>Controller\<close>

datatype password_gate =
    NoGate
  | OpaquePake string
  | OnlineHelperGate string
  | OfflineVerifier string

definition supports_real_rate_limit :: "password_gate \<Rightarrow> bool" where
  "supports_real_rate_limit g = (case g of NoGate \<Rightarrow> True | OpaquePake _ \<Rightarrow> True | OnlineHelperGate _ \<Rightarrow> True | _ \<Rightarrow> False)"

definition requires_password :: "password_gate \<Rightarrow> bool" where
  "requires_password g \<longleftrightarrow> g \<noteq> NoGate"

record admission_controller =
  ac_gate :: password_gate
  ac_max_attempts :: nat
  ac_attempts_by_subject :: "(string, nat) btreemap"

definition controller_new :: "password_gate \<Rightarrow> nat \<Rightarrow> admission_controller" where
  "controller_new gate max_attempts = \<lparr>ac_gate = gate, ac_max_attempts = max max_attempts 1, ac_attempts_by_subject = bt_empty\<rparr>"

definition validate_gate :: "admission_controller \<Rightarrow> invite_error + unit" where
  "validate_gate c = ensure (supports_real_rate_limit (ac_gate c)) OfflineVerifierRejected"

definition attempt_password :: "admission_controller \<Rightarrow> string \<Rightarrow> bool \<Rightarrow> admission_controller \<times> (invite_error + unit)" where
  "attempt_password c subject proof_ok =
     (case validate_gate c of
        Inl e \<Rightarrow> (c, Inl e)
      | Inr _ \<Rightarrow>
          if \<not> requires_password (ac_gate c) then (c, Inr ())
          else let c = c\<lparr>ac_attempts_by_subject := count_attempt subject (ac_attempts_by_subject c)\<rparr>
               in (c, ensure (\<not> (ac_max_attempts c < attempts_of (ac_attempts_by_subject c) subject \<or> \<not> proof_ok)) PasswordRejected))"

definition attempt_online_helper ::
  "'t::linorder utc_clock \<Rightarrow> 'sk ed25519 \<Rightarrow> admission_controller \<Rightarrow> string \<Rightarrow> 't authorized_helper_proof \<Rightarrow> 't \<Rightarrow> invite_error + unit" where
  "attempt_online_helper C ed c subject pf now =
     and_then (validate_gate c) (\<lambda>_.
       case ac_gate c of OnlineHelperGate helper_id \<Rightarrow> helper_proof_verify C ed pf helper_id subject now | _ \<Rightarrow> Inl HelperMismatch)"

definition finalize_helper_admission ::
  "(bytes \<Rightarrow> bytes) \<Rightarrow> (uuid \<Rightarrow> string) \<Rightarrow> 't::linorder utc_clock \<Rightarrow> 'sk ed25519 \<Rightarrow> admission_controller \<Rightarrow> 't invite \<Rightarrow> 't \<Rightarrow> string
     \<Rightarrow> 't authorized_helper_proof \<Rightarrow> 't authorized_welcome option \<Rightarrow> bytes \<Rightarrow> invite_error + 't invite" where
  "finalize_helper_admission sha256 show_uuid C ed c i now subject pf welcome payload =
     and_then (ok_or WelcomeRequired welcome) (\<lambda>w.
     and_then (welcome_verify sha256 C ed w (show_uuid (iv_id i)) payload now) (\<lambda>_.
     and_then (attempt_online_helper C ed c subject pf now) (\<lambda>_.
       use_invite i now)))"

text \<open>The controller has counted the attempt even when the invite turns out to be unusable; the invite changes only on success.\<close>

definition finalize_admission ::
  "(bytes \<Rightarrow> bytes) \<Rightarrow> (uuid \<Rightarrow> string) \<Rightarrow> 't::linorder utc_clock \<Rightarrow> 'sk ed25519 \<Rightarrow> admission_controller \<Rightarrow> 't invite \<Rightarrow> 't \<Rightarrow> string
     \<Rightarrow> bool \<Rightarrow> 't authorized_welcome option \<Rightarrow> bytes \<Rightarrow> admission_controller \<times> (invite_error + 't invite)" where
  "finalize_admission sha256 show_uuid C ed c i now subject proof_ok welcome payload =
     (case and_then (ok_or WelcomeRequired welcome) (\<lambda>w. welcome_verify sha256 C ed w (show_uuid (iv_id i)) payload now) of
        Inl e \<Rightarrow> (c, Inl e)
      | Inr _ \<Rightarrow> (case attempt_password c subject proof_ok of
            (c', Inl e) \<Rightarrow> (c', Inl e)
          | (c', Inr _) \<Rightarrow> (c', use_invite i now)))"

section \<open>Limits on attempts\<close>

fun attempt_outcomes :: "(string \<Rightarrow> 'x \<Rightarrow> 's \<Rightarrow> 's \<times> bool) \<Rightarrow> (string \<times> 'x) list \<Rightarrow> 's \<Rightarrow> bool list" where
  "attempt_outcomes attempt [] s = []"
| "attempt_outcomes attempt ((subject, x) # as) s =
     (case attempt subject x s of (s', accepted) \<Rightarrow> accepted # attempt_outcomes attempt as s')"

text \<open>An attempt is accepted if it is good and fewer attempts of its subject than the limit came before it.\<close>

fun expected :: "('x \<Rightarrow> bool) \<Rightarrow> nat \<Rightarrow> (string \<Rightarrow> nat) \<Rightarrow> (string \<times> 'x) list \<Rightarrow> bool list" where
  "expected g n t [] = []"
| "expected g n t ((subject, x) # as) = (t subject < n \<and> g x) # expected g n (t(subject := Suc (t subject))) as"

lemma expected_saturated:
  "n < 2 ^ 32 - 1 \<Longrightarrow> (\<And>a. t' a = min (t a) (2 ^ 32 - 1)) \<Longrightarrow> expected g n t' as = expected g n t as"
proof (induction as arbitrary: t t')
  case (Cons a as)
  obtain subject x where a: "a = (subject, x)" by (cases a)
  have "expected g n (t'(subject := Suc (t' subject))) as = expected g n (t(subject := Suc (t subject))) as"
  proof -
    let ?u = "\<lambda>b. min ((t(subject := Suc (t subject))) b) (2 ^ 32 - 1)"
    let ?v = "\<lambda>b. min ((t'(subject := Suc (t' subject))) b) (2 ^ 32 - 1)"
    have "?u = ?v" using Cons.prems(2) by (auto simp: fun_eq_iff)
    moreover have "expected g n ?u as = expected g n (t(subject := Suc (t subject))) as" by (rule Cons.IH[OF Cons.prems(1) refl])
    moreover have "expected g n ?v as = expected g n (t'(subject := Suc (t' subject))) as" by (rule Cons.IH[OF Cons.prems(1) refl])
    ultimately show ?thesis by metis
  qed
  moreover have "t' subject < n \<longleftrightarrow> t subject < n" using Cons.prems(1) Cons.prems(2)[of subject] by auto
  ultimately show ?case by (simp only: a expected.simps)
qed simp

text \<open>
  The contract of a component that counts the attempts of each subject: every attempt raises the count of its subject, saturating, and is accepted if the
  new count is within the limit and the attempt itself is good.
\<close>

locale attempt_limit =
  fixes tries :: "'s \<Rightarrow> string \<Rightarrow> nat"
    and limit :: "'s \<Rightarrow> nat"
    and good :: "'s \<Rightarrow> 'x \<Rightarrow> bool"
    and ok :: "'s \<Rightarrow> bool"
    and attempt :: "string \<Rightarrow> 'x \<Rightarrow> 's \<Rightarrow> 's \<times> bool"
  assumes attempt_law:
    "ok s \<Longrightarrow> attempt subject x s = (s', accepted) \<Longrightarrow>
       ok s' \<and> tries s' = (tries s)(subject := sat_inc32 (tries s subject)) \<and> limit s' = limit s \<and> good s' = good s \<and>
       (accepted \<longleftrightarrow> tries s' subject \<le> limit s \<and> good s x)"
begin

lemma outcomes_expected:
  "ok s \<Longrightarrow> limit s < 2 ^ 32 - 1 \<Longrightarrow> (\<And>a. tries s a \<le> 2 ^ 32 - 1) \<Longrightarrow> attempt_outcomes attempt as s = expected (good s) (limit s) (tries s) as"
proof (induction as arbitrary: s)
  case (Cons a as)
  obtain subject x where a: "a = (subject, x)" by (cases a)
  obtain s' acc where s': "attempt subject x s = (s', acc)" by fastforce
  note law = attempt_law[OF Cons.prems(1) s']
  have law': "good s' = good s" "limit s' = limit s" using law by simp_all
  have "attempt_outcomes attempt as s' = expected (good s') (limit s') (tries s') as"
    using law Cons.prems(2,3) by (intro Cons.IH) (auto simp: sat_inc32_def sat_add32_def)
  then have "attempt_outcomes attempt as s' = expected (good s) (limit s) (tries s') as" unfolding law' .
  also have "\<dots> = expected (good s) (limit s) ((tries s)(subject := Suc (tries s subject))) as"
    using law Cons.prems(3) by (intro expected_saturated[OF Cons.prems(2)]) (auto simp: sat_inc32_def sat_add32_def min_def)
  finally show ?case using law Cons.prems(2,3) s' by (auto simp: a sat_inc32_def sat_add32_def)
qed simp

end

lemma attempts_count: "attempts_of (count_attempt subject m) = (attempts_of m)(subject := sat_inc32 (attempts_of m subject))"
  by (auto simp: attempts_of_def count_attempt_def fun_eq_iff)

definition helper_attempt ::
  "'t utc_clock \<Rightarrow> 'sk ed25519 \<Rightarrow> argon2 \<Rightarrow> string \<Rightarrow> bytes \<times> uuid \<times> 't \<Rightarrow> 'sk online_admission_helper
     \<Rightarrow> 'sk online_admission_helper \<times> bool" where
  "helper_attempt C ed ar subject x h =
     (case x of (pw, new_id, now) \<Rightarrow> case authorize C ed ar new_id h subject pw now of (h', r) \<Rightarrow> (h', r \<noteq> Some (Inl PasswordRejected)))"

definition controller_attempt :: "string \<Rightarrow> bool \<Rightarrow> admission_controller \<Rightarrow> admission_controller \<times> bool" where
  "controller_attempt subject proof_ok c = (case attempt_password c subject proof_ok of (c', r) \<Rightarrow> (c', is_ok r))"

interpretation helper_limit: attempt_limit "\<lambda>h. attempts_of (oh_attempts_by_subject h)" oh_max_attempts
  "\<lambda>h x. verify_password ar h (fst x)" "\<lambda>_. True" "helper_attempt C ed ar"
  for C :: "'t utc_clock" and ed :: "'sk ed25519" and ar
proof
  fix h h' :: "'sk online_admission_helper" and subject x acc
  assume "helper_attempt C ed ar subject x h = (h', acc)"
  then show "True \<and> attempts_of (oh_attempts_by_subject h') =
      (attempts_of (oh_attempts_by_subject h))(subject := sat_inc32 (attempts_of (oh_attempts_by_subject h) subject)) \<and>
    oh_max_attempts h' = oh_max_attempts h \<and> (\<lambda>x. verify_password ar h' (fst x)) = (\<lambda>x. verify_password ar h (fst x)) \<and>
    (acc \<longleftrightarrow> attempts_of (oh_attempts_by_subject h') subject \<le> oh_max_attempts h \<and> verify_password ar h (fst x))"
    by (cases x) (auto simp: helper_attempt_def authorize_def Let_def attempts_count verify_password_def split: if_splits)
qed

interpretation controller_limit: attempt_limit "\<lambda>c. attempts_of (ac_attempts_by_subject c)" ac_max_attempts "\<lambda>_ proof_ok. proof_ok"
  "\<lambda>c. supports_real_rate_limit (ac_gate c) \<and> requires_password (ac_gate c)"
  controller_attempt
proof
  fix c c' subject proof_ok acc
  assume "supports_real_rate_limit (ac_gate c) \<and> requires_password (ac_gate c)"
    and "controller_attempt subject proof_ok c = (c', acc)"
  then show "(supports_real_rate_limit (ac_gate c') \<and> requires_password (ac_gate c')) \<and>
    attempts_of (ac_attempts_by_subject c') =
      (attempts_of (ac_attempts_by_subject c))(subject := sat_inc32 (attempts_of (ac_attempts_by_subject c) subject)) \<and>
    ac_max_attempts c' = ac_max_attempts c \<and> (\<lambda>proof_ok :: bool. proof_ok) = (\<lambda>proof_ok. proof_ok) \<and>
    (acc \<longleftrightarrow> attempts_of (ac_attempts_by_subject c') subject \<le> ac_max_attempts c \<and> proof_ok)"
    by (auto simp: controller_attempt_def attempt_password_def validate_gate_def Let_def attempts_count is_ok_iff)
qed

text \<open>
  Password attempts are limited per subject, in the helper and in the controller alike: over any sequence of attempts by any subjects, an attempt is accepted
  exactly if its password (or proof) is right and fewer attempts of the same subject than the limit came before it, counting the accepted ones too. The
  attempts of one subject never affect another.
\<close>

theorem password_attempts_limited:
  assumes "n < 2 ^ 32 - 1" and "supports_real_rate_limit gate" and "requires_password gate"
  shows "attempt_outcomes (helper_attempt C ed ar) attempts (helper_new ar salt helper_id pw key n ttl) =
      expected (\<lambda>x. verify_password ar (helper_new ar salt helper_id pw key n ttl) (fst x)) (max n 1) (\<lambda>_. 0) attempts \<and>
    attempt_outcomes controller_attempt proofs (controller_new gate n) = expected (\<lambda>proof_ok. proof_ok) (max n 1) (\<lambda>_. 0) proofs"
proof -
  have zero: "attempts_of bt_empty = (\<lambda>_. 0)" by (simp add: attempts_of_def fun_eq_iff)
  have n: "max n 1 < 2 ^ 32 - 1" using assms(1) by simp
  have "attempt_outcomes (helper_attempt C ed ar) attempts (helper_new ar salt helper_id pw key n ttl) =
      expected (\<lambda>x. verify_password ar (helper_new ar salt helper_id pw key n ttl) (fst x)) (max n 1) (\<lambda>_. 0) attempts"
    using helper_limit.outcomes_expected[of "helper_new ar salt helper_id pw key n ttl" C ed ar attempts] n
    by (simp add: helper_new_def zero)
  moreover have "attempt_outcomes controller_attempt proofs (controller_new gate n) = expected (\<lambda>proof_ok. proof_ok) (max n 1) (\<lambda>_. 0) proofs"
    using controller_limit.outcomes_expected[of "controller_new gate n" proofs] n assms(2,3) by (simp add: controller_new_def zero)
  ultimately show ?thesis ..
qed

definition argon2_demo :: argon2 where
  "argon2_demo = \<lparr>ar_hash = (\<lambda>pw salt. Some (map (\<lambda>b. char_of (unat b)) pw)), ar_parses = (\<lambda>_. True),
     ar_verify = (\<lambda>pw h. h = map (\<lambda>b. char_of (unat b)) pw)\<rparr>"

lemma argon2_demo_correct: "argon2_correct argon2_demo"
  by (simp add: argon2_correct_def argon2_demo_def)

theorem password_attempts_limited_witness:
  "attempt_outcomes controller_attempt [(''a'', False), (''b'', True), (''a'', True), (''a'', True)] (controller_new (OpaquePake ''s'') 2) =
     [False, True, True, False]"
  using password_attempts_limited[of 2 "OpaquePake ''s''" utc_demo ed_demo argon2_demo "[]" "[]" "[]" "[]" 3 1
      "[(''a'', False), (''b'', True), (''a'', True), (''a'', True)]"]
  by (simp add: supports_real_rate_limit_def requires_password_def)

section \<open>Final admission\<close>

lemma welcome_sign_verifies:
  assumes "ed25519_correct ed"
  shows "welcome_verify sha256 C ed (welcome_sign sha256 C ed i g payload e sk) i payload now =
    (if e < now then Inl WelcomeExpired else Inr ())"
proof -
  obtain w where w: "welcome_sign sha256 C ed i g payload e sk = w\<lparr>aw_issuer_signature := ed_sign ed sk (welcome_signing_bytes C w)\<rparr>"
    "aw_invite_id w = i" "aw_expires_at w = e" "aw_welcome_payload_hash w = welcome_payload_hash sha256 payload"
    "aw_issuer_public_key w = ed_public ed sk"
    by (rule that, unfold welcome_sign_def Let_def, rule refl) simp_all
  have "welcome_signing_bytes C (w\<lparr>aw_issuer_signature := s\<rparr>) = welcome_signing_bytes C w" for s by (simp add: welcome_signing_bytes_def)
  with assms show ?thesis unfolding w(1) by (simp add: welcome_verify_def w(2-) ed25519_correct_def)
qed

lemma helper_proof_sign_verifies:
  assumes "ed25519_correct ed"
  shows "helper_proof_verify C ed (helper_proof_sign C ed h s u e sk) h' s' now =
    (if h \<noteq> h' \<or> s \<noteq> s' then Inl HelperMismatch else if e < now then Inl HelperProofExpired else Inr ())"
proof -
  obtain p where p: "helper_proof_sign C ed h s u e sk = p\<lparr>hp_signature := ed_sign ed sk (proof_signing_bytes C p)\<rparr>"
    "hp_helper_id p = h" "hp_subject p = s" "hp_expires_at p = e" "hp_helper_public_key p = ed_public ed sk"
    by (rule that, unfold helper_proof_sign_def Let_def, rule refl) simp_all
  have "proof_signing_bytes C (p\<lparr>hp_signature := g\<rparr>) = proof_signing_bytes C p" for g by (simp add: proof_signing_bytes_def)
  with assms show ?thesis unfolding p(1)
    by (cases "h = h'"; cases "s = s'") (simp_all add: helper_proof_verify_def p(2-) ed25519_correct_def)
qed

lemma use_invite_Inr:
  "use_invite i now = Inr i' \<longleftrightarrow> \<not> iv_revoked i \<and> \<not> iv_expires_at i < now \<and> iv_uses i < iv_max_uses i \<and>
     i' = i\<lparr>iv_uses := sat_inc32 (iv_uses i)\<rparr>"
  by (auto simp: use_invite_def and_then_Inr)


text \<open>
  C15: A joiner who knows the password is admitted: the helper that was set up with the password answers the first attempt of the subject with a proof, and the
  controller of a gate that names this helper admits the subject with the proof and a signed Welcome exactly until one of the two expires, using the
  invite once. The proof of one subject never admits another.
\<close>

theorem helper_admission_end_to_end:
  assumes "ed25519_correct ed" and "argon2_correct ar" and "ar_hash ar pw salt = Some hash"
    and "ut_add_seconds C now (max ttl 1) = Some e" and "authorize C ed ar new_id (helper_new ar salt helper_id pw key n ttl) subject pw now = (h', r)"
    and "\<not> iv_revoked i" and "iv_uses i < iv_max_uses i" and "later \<le> iv_expires_at i"
  shows "\<exists>pf. r = Some (Inr pf) \<and>
    (\<forall>sk g payload we. finalize_helper_admission sha256 show_uuid C ed (controller_new (OnlineHelperGate helper_id) n) i later other pf
        (Some (welcome_sign sha256 C ed (show_uuid (iv_id i)) g payload we sk)) payload =
      (if we < later then Inl WelcomeExpired else if other \<noteq> subject then Inl HelperMismatch else if e < later then Inl HelperProofExpired
       else Inr (i\<lparr>iv_uses := sat_inc32 (iv_uses i)\<rparr>)))"
proof -
  let ?h = "helper_new ar salt helper_id pw key n ttl"
  have "sat_inc32 0 = 1" by (simp add: sat_inc32_def sat_add32_def)
  then have one: "attempts_of (count_attempt subject bt_empty) subject = 1" by (simp add: attempts_count) (simp add: attempts_of_def)
  have "verify_password ar (?h\<lparr>oh_attempts_by_subject := m\<rparr>) pw" for m
    using assms(2,3) by (auto simp: verify_password_def helper_new_def argon2_correct_def)
  then have r: "r = Some (Inr (helper_proof_sign C ed helper_id subject new_id e key))"
    using assms(4,5) one by (auto simp: authorize_def Let_def helper_new_def)
  have "use_invite i later = Inr (i\<lparr>iv_uses := sat_inc32 (iv_uses i)\<rparr>)" using assms(6-8) by (simp add: use_invite_Inr not_less)
  then show ?thesis unfolding r finalize_helper_admission_def attempt_online_helper_def
    by (auto simp: welcome_sign_verifies[OF assms(1)] helper_proof_sign_verifies[OF assms(1)] controller_new_def validate_gate_def
        supports_real_rate_limit_def)
qed

text \<open>
  Neither the Welcome authorization nor the helper proof is tied to a known key: both are checked against the key they carry. Whoever holds any signing key can
  write both and is admitted, without the password.
\<close>

theorem any_key_admits:
  assumes "ed25519_correct ed" and "\<not> iv_revoked i" and "iv_uses i < iv_max_uses i" and "now \<le> iv_expires_at i"
  shows "finalize_helper_admission sha256 show_uuid C ed (controller_new (OnlineHelperGate helper_id) n) i now subject
      (helper_proof_sign C ed helper_id subject u now mallory)
      (Some (welcome_sign sha256 C ed (show_uuid (iv_id i)) g payload now mallory)) payload =
    Inr (i\<lparr>iv_uses := sat_inc32 (iv_uses i)\<rparr>)"
proof -
  have "use_invite i now = Inr (i\<lparr>iv_uses := sat_inc32 (iv_uses i)\<rparr>)" using assms(2-4) by (simp add: use_invite_Inr not_less)
  then show ?thesis unfolding finalize_helper_admission_def attempt_online_helper_def
    by (simp add: welcome_sign_verifies[OF assms(1)] helper_proof_sign_verifies[OF assms(1)] controller_new_def validate_gate_def
        supports_real_rate_limit_def)
qed

definition demo_invite :: "int invite" where
  "demo_invite = \<lparr>iv_id = 1, iv_room_secret_hash = [], iv_expires_at = 100, iv_max_uses = 1, iv_uses = 0, iv_revoked = False\<rparr>"


theorem helper_admission_end_to_end_witness:
  "\<exists>h' pf. authorize utc_demo ed_demo argon2_demo 9 (helper_new argon2_demo ''s'' ''h'' [7] 3 2 10) ''a'' [7] 5 = (h', Some (Inr pf)) \<and>
     finalize_helper_admission sha_demo uuid_demo utc_demo ed_demo (controller_new (OnlineHelperGate ''h'') 2) demo_invite 6 ''a'' pf
       (Some (welcome_sign sha_demo utc_demo ed_demo (uuid_demo (iv_id demo_invite)) [] [2] 50 4)) [2] =
     Inr (demo_invite\<lparr>iv_uses := sat_inc32 (iv_uses demo_invite)\<rparr>)"
proof -
  obtain h' r where a: "authorize utc_demo ed_demo argon2_demo 9 (helper_new argon2_demo ''s'' ''h'' [7] 3 2 10) ''a'' [7] 5 = (h', r)" by fastforce
  obtain hash where hash: "ar_hash argon2_demo [7] ''s'' = Some hash" by (simp add: argon2_demo_def)
  have "ut_add_seconds utc_demo 5 (max 10 1) = Some 15" by (simp add: utc_demo_def)
  from helper_admission_end_to_end[OF ed_demo_correct argon2_demo_correct hash this a, of demo_invite 6 sha_demo uuid_demo "''a''"] a show ?thesis
    by (auto simp: demo_invite_def)
qed

end
