(* ===== verification/Peer_Overlay.thy ===== *)
theory Peer_Overlay
  imports Transport_Session BTree_Map
begin

text \<open>
  The peer-assisted overlay of the transport crate (\<open>crates/transport/src/peer_overlay.rs\<close>, with the peer ids of \<open>signaling.rs\<close>):
  the admitted set and the relay authority of an epoch, the state after a revocation, ranking of relay candidates, route selection,
  validation of frames, forwarding plans and redelivery after relay failures. Byte arrays are byte lists, \<open>u8\<close> counters are naturals
  with the checked and saturating conversions written out. Shown: a plan forwards exactly along the route and only over admitted,
  authorized, unrevoked and distinct peers; revoked peers and bindings take part in no later frame, plan or route; ranking does
  not depend on the order of the candidates; route selection follows the policy order; failover never reuses a failed relay
  and never replays an acknowledged or superseded attempt.
\<close>

section \<open>Peers and admission\<close>

type_synonym signaling_peer_id = string

definition is_token_char :: "char \<Rightarrow> bool" where
  "is_token_char c \<longleftrightarrow>
     (let n = of_char c :: nat in 48 \<le> n \<and> n \<le> 57 \<or> 65 \<le> n \<and> n \<le> 90 \<or> 97 \<le> n \<and> n \<le> 122 \<or> n = 45 \<or> n = 95 \<or> n = 46)"

definition signaling_peer_id_new :: "string \<Rightarrow> transport_error + signaling_peer_id" where
  "signaling_peer_id_new v =
     (if v = [] \<or> 128 < length v \<or> trim v \<noteq> v \<or> \<not> list_all is_token_char v
      then Inl (InvalidConnectivityPolicy ''signaling peer ids must be trimmed ASCII token strings'')
      else Inr v)"

abbreviation overlay_policy_error :: "string \<Rightarrow> transport_error + 'a" where
  "overlay_policy_error m \<equiv> Inl (InvalidConnectivityPolicy m)"

definition overlay_validate_label :: "string \<Rightarrow> string \<Rightarrow> transport_error + unit" where
  "overlay_validate_label v label =
     (if blank v \<or> trim v \<noteq> v \<or> 128 < length v
      then overlay_policy_error (label @ '' must be non-empty trimmed text up to 128 bytes'') else Inr ())"

definition validate_nonzero_32 :: "bytes \<Rightarrow> string \<Rightarrow> transport_error + unit" where
  "validate_nonzero_32 v label =
     (if v = replicate 32 0 then overlay_policy_error (label @ '' must not be all zero'') else Inr ())"

definition loop_id_validate :: "bytes \<Rightarrow> transport_error + unit" where
  "loop_id_validate v = (if v = replicate 16 0 then overlay_policy_error ''peer overlay loop id must not be all zero'' else Inr ())"

definition ack_id_validate :: "bytes \<Rightarrow> transport_error + unit" where
  "ack_id_validate v = (if v = replicate 16 0 then overlay_policy_error ''peer overlay ack id must not be all zero'' else Inr ())"

record peer_ref =
  pr_peer_id :: signaling_peer_id
  pr_member_id :: string
  pr_device_id :: string
  pr_epoch :: nat

definition validate_shape :: "peer_ref \<Rightarrow> transport_error + unit" where
  "validate_shape p =
     and_then (overlay_validate_label (pr_member_id p) ''peer overlay member id'') (\<lambda>_.
       and_then (overlay_validate_label (pr_device_id p) ''peer overlay device id'') (\<lambda>_. Inr ()))"

record admitted_set =
  as_current_epoch :: nat
  as_admitted :: "(signaling_peer_id, peer_ref) btreemap"
  as_revoked :: "signaling_peer_id btreeset"

fun admit_all ::
  "nat \<Rightarrow> signaling_peer_id btreeset \<Rightarrow> (signaling_peer_id, peer_ref) btreemap \<Rightarrow> peer_ref list \<Rightarrow>
   transport_error + (signaling_peer_id, peer_ref) btreemap" where
  "admit_all epoch revoked m [] = Inr m"
| "admit_all epoch revoked m (p # ps) =
     and_then (validate_shape p) (\<lambda>_.
       if pr_epoch p \<noteq> epoch then overlay_policy_error ''peer overlay admitted peer epoch must match current epoch''
       else if bs_member revoked (pr_peer_id p) then overlay_policy_error ''peer overlay admitted set must not include revoked peers''
       else if bt_contains m (pr_peer_id p) then overlay_policy_error ''peer overlay admitted peers must be unique''
       else admit_all epoch revoked (bt_insert (pr_peer_id p) p m) ps)"

definition admitted_set_new :: "nat \<Rightarrow> peer_ref list \<Rightarrow> signaling_peer_id list \<Rightarrow> transport_error + admitted_set" where
  "admitted_set_new epoch admitted revoked =
     and_then (admit_all epoch (bs_of_list revoked) bt_empty admitted) (\<lambda>m.
       if bt_len m < 2 then overlay_policy_error ''peer overlay requires at least two admitted peers''
       else Inr \<lparr>as_current_epoch = epoch, as_admitted = m, as_revoked = bs_of_list revoked\<rparr>)"

definition validate_ref :: "admitted_set \<Rightarrow> peer_ref \<Rightarrow> transport_error + unit" where
  "validate_ref a p =
     and_then (validate_shape p) (\<lambda>_.
       if pr_epoch p \<noteq> as_current_epoch a then overlay_policy_error ''peer overlay frame ref uses a stale or future epoch''
       else if bs_member (as_revoked a) (pr_peer_id p) then overlay_policy_error ''peer overlay frame ref names a revoked peer''
       else case bt_get (as_admitted a) (pr_peer_id p) of
           Some q \<Rightarrow> if q = p then Inr () else overlay_policy_error ''peer overlay frame ref does not match admitted member/device binding''
         | None \<Rightarrow> overlay_policy_error ''peer overlay frame ref is not admitted in the current epoch'')"

section \<open>Frames\<close>

definition overlay_max_relay_hops :: nat where
  "overlay_max_relay_hops = 3"

record overlay_ttl =
  tt_remaining_hops :: nat
  tt_created_at_ms :: nat
  tt_expires_at_ms :: nat

definition ttl_validate :: "overlay_ttl \<Rightarrow> transport_error + unit" where
  "ttl_validate t =
     (if tt_remaining_hops t = 0 \<or> overlay_max_relay_hops < tt_remaining_hops t
      then overlay_policy_error ''peer overlay remaining hops must be within the relay hop cap''
      else if tt_expires_at_ms t \<le> tt_created_at_ms t then overlay_policy_error ''peer overlay expiry must be after creation time''
      else Inr ())"

record overlay_route =
  or_source :: peer_ref
  or_relay_path :: "peer_ref list"
  or_destination :: peer_ref
  or_ttl :: overlay_ttl
  or_loop_id :: bytes

fun validate_relays ::
  "admitted_set \<Rightarrow> signaling_peer_id \<Rightarrow> signaling_peer_id \<Rightarrow> signaling_peer_id btreeset \<Rightarrow> peer_ref list \<Rightarrow> transport_error + unit" where
  "validate_relays a source dest seen [] = Inr ()"
| "validate_relays a source dest seen (r # rs) =
     and_then (validate_ref a r) (\<lambda>_.
       if pr_peer_id r = source \<or> pr_peer_id r = dest then overlay_policy_error ''peer overlay relay cannot be source or destination''
       else if bs_member seen (pr_peer_id r) then overlay_policy_error ''peer overlay relay path must not repeat a peer''
       else validate_relays a source dest (bs_insert (pr_peer_id r) seen) rs)"

definition route_validate :: "admitted_set \<Rightarrow> overlay_route \<Rightarrow> transport_error + unit" where
  "route_validate a r =
     and_then (validate_ref a (or_source r)) (\<lambda>_. and_then (validate_ref a (or_destination r)) (\<lambda>_.
       if pr_peer_id (or_source r) = pr_peer_id (or_destination r)
       then overlay_policy_error ''peer overlay source and destination must differ''
       else and_then (ttl_validate (or_ttl r)) (\<lambda>_. and_then (loop_id_validate (or_loop_id r)) (\<lambda>_.
         if or_relay_path r = [] then overlay_policy_error ''peer overlay route requires at least one relay peer''
         else if overlay_max_relay_hops < length (or_relay_path r) then overlay_policy_error ''peer overlay relay path exceeds hop cap''
         else validate_relays a (pr_peer_id (or_source r)) (pr_peer_id (or_destination r)) (bs_of_list []) (or_relay_path r)))))"

record overlay_auth =
  oa_group_id_commitment :: bytes
  oa_epoch :: nat
  oa_sender_leaf_index :: nat
  oa_confirmation_tag_commitment :: bytes
  oa_frame_auth_tag :: bytes

definition auth_validate :: "admitted_set \<Rightarrow> overlay_auth \<Rightarrow> transport_error + unit" where
  "auth_validate a u =
     (if oa_epoch u \<noteq> as_current_epoch a then overlay_policy_error ''peer overlay auth epoch must match current admitted epoch''
      else and_then (validate_nonzero_32 (oa_group_id_commitment u) ''peer overlay group id commitment'') (\<lambda>_.
        and_then (validate_nonzero_32 (oa_confirmation_tag_commitment u) ''peer overlay confirmation commitment'') (\<lambda>_.
          if length (oa_frame_auth_tag u) < 16 then overlay_policy_error ''peer overlay frame auth tag must be at least 16 bytes''
          else Inr ())))"

datatype overlay_payload_kind = TextControl | Media | StoreForward

record overlay_payload =
  op_kind :: overlay_payload_kind
  op_key_id :: bytes
  op_sequence :: nat
  op_aad_commitment :: bytes
  op_opaque_ciphertext :: bytes

definition payload_validate :: "overlay_payload \<Rightarrow> transport_error + unit" where
  "payload_validate p =
     (if op_key_id p = [] then overlay_policy_error ''peer overlay key id must not be empty''
      else if op_aad_commitment p = replicate 32 0 then overlay_policy_error ''peer overlay AAD commitment must not be all zero''
      else if op_opaque_ciphertext p = [] then overlay_policy_error ''peer overlay ciphertext must not be empty''
      else Inr ())"

definition relay_visible_bytes :: "overlay_payload \<Rightarrow> bytes" where
  "relay_visible_bytes p =
     str_bytes (case op_kind p of TextControl \<Rightarrow> ''text_control'' | Media \<Rightarrow> ''media'' | StoreForward \<Rightarrow> ''store_forward'') @
     u64_be (length (op_key_id p)) @ op_key_id p @ u64_be (op_sequence p) @ op_aad_commitment p @ op_opaque_ciphertext p"

datatype overlay_ack_mode = AckRequired | BestEffort

record overlay_redelivery =
  rl_max_attempts :: nat
  rl_max_relay_fanout :: nat
  rl_deadline_ms :: nat

definition redelivery_validate :: "overlay_ttl \<Rightarrow> overlay_redelivery \<Rightarrow> transport_error + unit" where
  "redelivery_validate t r =
     (if rl_max_attempts r = 0 then overlay_policy_error ''peer overlay redelivery attempts must be non-zero''
      else if rl_max_relay_fanout r = 0 \<or> overlay_max_relay_hops < rl_max_relay_fanout r
      then overlay_policy_error ''peer overlay redelivery fanout must be within the relay hop cap''
      else if tt_expires_at_ms t < rl_deadline_ms r then overlay_policy_error ''peer overlay redelivery deadline must not exceed frame expiry''
      else Inr ())"

record overlay_delivery =
  od_ack_id :: bytes
  od_ack_mode :: overlay_ack_mode
  od_redelivery :: overlay_redelivery

definition delivery_validate :: "overlay_ttl \<Rightarrow> overlay_delivery \<Rightarrow> transport_error + unit" where
  "delivery_validate t d = and_then (ack_id_validate (od_ack_id d)) (\<lambda>_. redelivery_validate t (od_redelivery d))"

datatype overlay_carrier = DirectWebRtcDataChannel | ConfiguredTurnBackedWebRtc | PeerAssistedOverlay | ProviderApplicationRelay

definition carrier_validate :: "overlay_carrier \<Rightarrow> transport_error + unit" where
  "carrier_validate c =
     (if c = ProviderApplicationRelay then overlay_policy_error ''peer overlay frames must not use providers as application relays'' else Inr ())"

record overlay_frame =
  of_schema_version :: nat
  of_carrier :: overlay_carrier
  of_route :: overlay_route
  of_auth :: overlay_auth
  of_delivery :: overlay_delivery
  of_payload :: overlay_payload

definition frame_schema_version :: nat where
  "frame_schema_version = 1"

definition overlay_frame_new ::
  "overlay_carrier \<Rightarrow> overlay_route \<Rightarrow> overlay_auth \<Rightarrow> overlay_delivery \<Rightarrow> overlay_payload \<Rightarrow> overlay_frame" where
  "overlay_frame_new c r u d p =
     \<lparr>of_schema_version = frame_schema_version, of_carrier = c, of_route = r, of_auth = u, of_delivery = d, of_payload = p\<rparr>"

definition frame_validate :: "admitted_set \<Rightarrow> overlay_frame \<Rightarrow> transport_error + unit" where
  "frame_validate a f =
     (if of_schema_version f \<noteq> frame_schema_version then overlay_policy_error ''unsupported peer overlay frame schema version''
      else and_then (carrier_validate (of_carrier f)) (\<lambda>_. and_then (route_validate a (of_route f)) (\<lambda>_.
        and_then (auth_validate a (of_auth f)) (\<lambda>_.
          if oa_epoch (of_auth f) \<noteq> pr_epoch (or_source (of_route f)) \<or> oa_epoch (of_auth f) \<noteq> pr_epoch (or_destination (of_route f))
          then overlay_policy_error ''peer overlay auth epoch must match route refs''
          else and_then (delivery_validate (or_ttl (of_route f)) (of_delivery f)) (\<lambda>_. payload_validate (of_payload f))))))"

section \<open>Relay authority\<close>

datatype relay_authority_source = OpenMlsCurrentEpoch | SignedGovernanceGrant string string

fun source_validate :: "relay_authority_source \<Rightarrow> transport_error + unit" where
  "source_validate OpenMlsCurrentEpoch = Inr ()"
| "source_validate (SignedGovernanceGrant signer_member signer_device) =
     and_then (overlay_validate_label signer_member ''peer overlay relay authority signer member id'') (\<lambda>_.
       overlay_validate_label signer_device ''peer overlay relay authority signer device id'')"

record relay_authorization =
  ra_source :: relay_authority_source
  ra_group_id_commitment :: bytes
  ra_epoch :: nat
  ra_confirmation_tag_commitment :: bytes
  ra_relay :: peer_ref

definition authorization_validate_for :: "relay_authorization \<Rightarrow> peer_ref \<Rightarrow> overlay_auth \<Rightarrow> transport_error + unit" where
  "authorization_validate_for z relay u =
     and_then (source_validate (ra_source z)) (\<lambda>_.
     and_then (validate_nonzero_32 (ra_group_id_commitment z) ''peer overlay relay authority group id commitment'') (\<lambda>_.
     and_then (validate_nonzero_32 (ra_confirmation_tag_commitment z) ''peer overlay relay authority confirmation commitment'') (\<lambda>_.
       if ra_epoch z \<noteq> oa_epoch u then overlay_policy_error ''peer overlay relay authority epoch must match frame auth epoch''
       else if ra_group_id_commitment z \<noteq> oa_group_id_commitment u
       then overlay_policy_error ''peer overlay relay authority group commitment must match frame auth''
       else if ra_confirmation_tag_commitment z \<noteq> oa_confirmation_tag_commitment u
       then overlay_policy_error ''peer overlay relay authority confirmation commitment must match frame auth''
       else if ra_relay z \<noteq> relay then overlay_policy_error ''peer overlay relay authority does not match route relay ref''
       else Inr ())))"

record relay_authority_set =
  au_source :: relay_authority_source
  au_current_epoch :: nat
  au_group_id_commitment :: bytes
  au_confirmation_tag_commitment :: bytes
  au_authorized_relays :: "(signaling_peer_id, peer_ref) btreemap"

fun authorize_all ::
  "admitted_set \<Rightarrow> (signaling_peer_id, peer_ref) btreemap \<Rightarrow> peer_ref list \<Rightarrow> transport_error + (signaling_peer_id, peer_ref) btreemap" where
  "authorize_all a m [] = Inr m"
| "authorize_all a m (r # rs) =
     and_then (validate_ref a r) (\<lambda>_.
       if bt_contains m (pr_peer_id r) then overlay_policy_error ''peer overlay relay authority peers must be unique''
       else authorize_all a (bt_insert (pr_peer_id r) r m) rs)"

definition authority_set_new ::
  "relay_authority_source \<Rightarrow> admitted_set \<Rightarrow> bytes \<Rightarrow> bytes \<Rightarrow> peer_ref list \<Rightarrow> transport_error + relay_authority_set" where
  "authority_set_new src a group_commitment confirmation relays =
     and_then (source_validate src) (\<lambda>_.
     and_then (validate_nonzero_32 group_commitment ''peer overlay relay authority group id commitment'') (\<lambda>_.
     and_then (validate_nonzero_32 confirmation ''peer overlay relay authority confirmation commitment'') (\<lambda>_.
     and_then (authorize_all a bt_empty relays) (\<lambda>m.
       if bt_len m = 0 then overlay_policy_error ''peer overlay relay authority requires at least one relay peer''
       else Inr \<lparr>au_source = src, au_current_epoch = as_current_epoch a, au_group_id_commitment = group_commitment,
                 au_confirmation_tag_commitment = confirmation, au_authorized_relays = m\<rparr>))))"

definition from_openmls_current_epoch ::
  "admitted_set \<Rightarrow> bytes \<Rightarrow> bytes \<Rightarrow> peer_ref list \<Rightarrow> transport_error + relay_authority_set" where
  "from_openmls_current_epoch = authority_set_new OpenMlsCurrentEpoch"

definition from_signed_governance_grant ::
  "string \<Rightarrow> string \<Rightarrow> admitted_set \<Rightarrow> bytes \<Rightarrow> bytes \<Rightarrow> peer_ref list \<Rightarrow> transport_error + relay_authority_set" where
  "from_signed_governance_grant signer_member signer_device = authority_set_new (SignedGovernanceGrant signer_member signer_device)"

definition authorize_relay :: "relay_authority_set \<Rightarrow> peer_ref \<Rightarrow> overlay_auth \<Rightarrow> transport_error + relay_authorization" where
  "authorize_relay z relay u =
     (if au_current_epoch z \<noteq> oa_epoch u then overlay_policy_error ''peer overlay relay authority set epoch must match frame auth epoch''
      else if au_group_id_commitment z \<noteq> oa_group_id_commitment u
      then overlay_policy_error ''peer overlay relay authority set group commitment must match frame auth''
      else if au_confirmation_tag_commitment z \<noteq> oa_confirmation_tag_commitment u
      then overlay_policy_error ''peer overlay relay authority set confirmation commitment must match frame auth''
      else case bt_get (au_authorized_relays z) (pr_peer_id relay) of
          None \<Rightarrow> overlay_policy_error ''peer overlay relay ref lacks explicit current-epoch relay authority''
        | Some q \<Rightarrow>
            if q \<noteq> relay then overlay_policy_error ''peer overlay relay authority does not match admitted member/device binding''
            else Inr \<lparr>ra_source = au_source z, ra_group_id_commitment = au_group_id_commitment z, ra_epoch = au_current_epoch z,
                      ra_confirmation_tag_commitment = au_confirmation_tag_commitment z, ra_relay = q\<rparr>)"

definition validate_route_authority ::
  "relay_authority_set \<Rightarrow> overlay_route \<Rightarrow> overlay_auth \<Rightarrow> transport_error + relay_authorization list" where
  "validate_route_authority z r u =
     collect_results (map (\<lambda>relay.
       and_then (authorize_relay z relay u) (\<lambda>g. and_then (authorization_validate_for g relay u) (\<lambda>_. Inr g))) (or_relay_path r))"

definition validate_relay_authorized ::
  "admitted_set \<Rightarrow> relay_authority_set \<Rightarrow> overlay_frame \<Rightarrow> transport_error + relay_authorization list" where
  "validate_relay_authorized a z f = and_then (frame_validate a f) (\<lambda>_. validate_route_authority z (of_route f) (of_auth f))"

section \<open>Revocation\<close>

record revocation_state =
  rv_admitted :: admitted_set
  rv_relay_authority :: relay_authority_set
  rv_revoked_peers :: "peer_ref list"

record revocation_input =
  ri_source :: relay_authority_source
  ri_current_epoch :: nat
  ri_group_id_commitment :: bytes
  ri_confirmation_tag_commitment :: bytes
  ri_remaining_admitted :: "peer_ref list"
  ri_revoked_peers :: "peer_ref list"
  ri_authorized_relays :: "peer_ref list"

definition binding :: "peer_ref \<Rightarrow> string \<times> string" where
  "binding p = (pr_member_id p, pr_device_id p)"

fun revoke_each :: "nat \<Rightarrow> peer_ref list \<Rightarrow> transport_error + unit" where
  "revoke_each epoch [] = Inr ()"
| "revoke_each epoch (p # ps) =
     and_then (validate_shape p) (\<lambda>_.
       if epoch \<le> pr_epoch p then overlay_policy_error ''peer overlay revocation epoch must advance beyond revoked refs''
       else revoke_each epoch ps)"

definition build_revocation_state :: "revocation_input \<Rightarrow> transport_error + revocation_state" where
  "build_revocation_state i =
     and_then (source_validate (ri_source i)) (\<lambda>_.
     and_then (validate_nonzero_32 (ri_group_id_commitment i) ''peer overlay revocation group id commitment'') (\<lambda>_.
     and_then (validate_nonzero_32 (ri_confirmation_tag_commitment i) ''peer overlay revocation confirmation commitment'') (\<lambda>_.
       if ri_revoked_peers i = [] then overlay_policy_error ''peer overlay revocation requires at least one revoked peer''
       else and_then (revoke_each (ri_current_epoch i) (ri_revoked_peers i)) (\<lambda>_.
         let revoked_bindings = bs_of_list (map binding (ri_revoked_peers i))
         in if list_ex (\<lambda>p. bs_member revoked_bindings (binding p)) (ri_remaining_admitted i)
            then overlay_policy_error ''peer overlay post-revocation admitted set must not include revoked member/device bindings''
            else if list_ex (\<lambda>p. bs_member revoked_bindings (binding p)) (ri_authorized_relays i)
            then overlay_policy_error ''peer overlay post-revocation relay authority must not include revoked member/device bindings''
            else and_then (admitted_set_new (ri_current_epoch i) (ri_remaining_admitted i) (map pr_peer_id (ri_revoked_peers i))) (\<lambda>a.
              and_then (authority_set_new (ri_source i) a (ri_group_id_commitment i) (ri_confirmation_tag_commitment i) (ri_authorized_relays i)) (\<lambda>z.
                Inr \<lparr>rv_admitted = a, rv_relay_authority = z, rv_revoked_peers = ri_revoked_peers i\<rparr>))))))"

definition validate_frame_after_revocation :: "revocation_state \<Rightarrow> overlay_frame \<Rightarrow> transport_error + relay_authorization list" where
  "validate_frame_after_revocation st f = validate_relay_authorized (rv_admitted st) (rv_relay_authority st) f"

section \<open>Relay candidates\<close>

record candidate_diagnostics =
  cd_latency_ms :: nat
  cd_successful_health_probes :: nat
  cd_failed_health_probes :: nat
  cd_egress_capacity :: nat
  cd_current_load :: nat
  cd_energy_cost_bps :: nat
  cd_freeload_penalty_bps :: nat

record relay_candidate =
  rc_relay :: peer_ref
  rc_diagnostics :: candidate_diagnostics

record candidate_policy =
  cp_carrier :: overlay_carrier
  cp_min_egress_capacity :: nat
  cp_min_stability_bps :: nat
  cp_max_energy_cost_bps :: nat

definition candidate_policy_default :: candidate_policy where
  "candidate_policy_default =
     \<lparr>cp_carrier = PeerAssistedOverlay, cp_min_egress_capacity = 1024, cp_min_stability_bps = 1, cp_max_energy_cost_bps = 10000\<rparr>"

definition candidate_policy_validate :: "candidate_policy \<Rightarrow> transport_error + unit" where
  "candidate_policy_validate p =
     and_then (carrier_validate (cp_carrier p)) (\<lambda>_.
       if cp_carrier p \<noteq> PeerAssistedOverlay
       then overlay_policy_error ''peer overlay relay candidate ranking requires peer-assisted overlay carrier''
       else if cp_min_egress_capacity p = 0 then overlay_policy_error ''peer overlay relay candidate policy requires non-zero capacity''
       else if 10000 < cp_min_stability_bps p
       then overlay_policy_error ''peer overlay relay candidate policy stability must be <= 10000 bps''
       else if 10000 < cp_max_energy_cost_bps p
       then overlay_policy_error ''peer overlay relay candidate policy energy cost must be <= 10000 bps''
       else Inr ())"

text \<open>\<open>u32::saturating_mul\<close>.\<close>

definition sat_mul32 :: "nat \<Rightarrow> nat \<Rightarrow> nat" where
  "sat_mul32 a b = min (a * b) (2 ^ 32 - 1)"

definition stability_bps :: "candidate_diagnostics \<Rightarrow> nat" where
  "stability_bps d =
     sat_mul32 (cd_successful_health_probes d) 10000 div
     max (sat_add32 (cd_successful_health_probes d) (cd_failed_health_probes d)) 1"

definition spare_capacity :: "candidate_diagnostics \<Rightarrow> nat" where
  "spare_capacity d = cd_egress_capacity d - cd_current_load d"

definition diagnostics_validate :: "candidate_policy \<Rightarrow> candidate_diagnostics \<Rightarrow> transport_error + unit" where
  "diagnostics_validate p d =
     (if cd_successful_health_probes d = 0 then overlay_policy_error ''peer overlay relay candidate requires a successful health probe''
      else if sat_add32 (cd_successful_health_probes d) (cd_failed_health_probes d) = 0
      then overlay_policy_error ''peer overlay relay candidate requires health probe evidence''
      else if stability_bps d < cp_min_stability_bps p then overlay_policy_error ''peer overlay relay candidate is below stability policy''
      else if cp_max_energy_cost_bps p < cd_energy_cost_bps d then overlay_policy_error ''peer overlay relay candidate exceeds energy policy''
      else if cd_egress_capacity d < cp_min_egress_capacity p
      then overlay_policy_error ''peer overlay relay candidate lacks required egress capacity''
      else if cd_egress_capacity d \<le> cd_current_load d
      then overlay_policy_error ''peer overlay relay candidate has no spare relay capacity''
      else Inr ())"

text \<open>The sums stay within \<open>i64\<close>: every term is below \<open>2 ^ 40\<close>.\<close>

definition score_relay_candidate :: "candidate_diagnostics \<Rightarrow> int" where
  "score_relay_candidate d =
     int (stability_bps d) * 100 + int (min (spare_capacity d) 10000000 div 1024)
     - int (max (cd_latency_ms d) 1) * 100 - int (cd_energy_cost_bps d) * 10 - int (cd_freeload_penalty_bps d) * 10"

record ranked_relay =
  rk_relay :: peer_ref
  rk_authorization :: relay_authorization
  rk_score :: int
  rk_diagnostics :: candidate_diagnostics

definition compare_ranked :: "ranked_relay \<Rightarrow> ranked_relay \<Rightarrow> ordering" where
  "compare_ranked x y =
     then_with (then_with (then_with (cmp_lin (rk_score y) (rk_score x))
       (cmp_lin (pr_peer_id (rk_relay x)) (pr_peer_id (rk_relay y))))
       (cmp_lin (pr_member_id (rk_relay x)) (pr_member_id (rk_relay y))))
       (cmp_lin (pr_device_id (rk_relay x)) (pr_device_id (rk_relay y)))"

fun rank_each ::
  "admitted_set \<Rightarrow> relay_authority_set \<Rightarrow> overlay_auth \<Rightarrow> candidate_policy \<Rightarrow> signaling_peer_id btreeset \<Rightarrow> ranked_relay list \<Rightarrow>
   relay_candidate list \<Rightarrow> transport_error + ranked_relay list" where
  "rank_each a z u p seen ranked [] = Inr ranked"
| "rank_each a z u p seen ranked (c # cs) =
     and_then (validate_ref a (rc_relay c)) (\<lambda>_.
       if bs_member seen (pr_peer_id (rc_relay c)) then overlay_policy_error ''peer overlay relay candidates must be unique''
       else and_then (diagnostics_validate p (rc_diagnostics c)) (\<lambda>_. and_then (authorize_relay z (rc_relay c) u) (\<lambda>g.
         rank_each a z u p (bs_insert (pr_peer_id (rc_relay c)) seen)
           (ranked @ [\<lparr>rk_relay = rc_relay c, rk_authorization = g, rk_score = score_relay_candidate (rc_diagnostics c),
                       rk_diagnostics = rc_diagnostics c\<rparr>]) cs)))"

definition rank_relay_candidates ::
  "admitted_set \<Rightarrow> relay_authority_set \<Rightarrow> overlay_auth \<Rightarrow> candidate_policy \<Rightarrow> relay_candidate list \<Rightarrow> transport_error + ranked_relay list" where
  "rank_relay_candidates a z u p cs =
     and_then (candidate_policy_validate p) (\<lambda>_. and_then (auth_validate a u) (\<lambda>_.
       if au_current_epoch z \<noteq> as_current_epoch a
       then overlay_policy_error ''peer overlay relay candidate authority epoch must match admitted epoch''
       else and_then (rank_each a z u p (bs_of_list []) [] cs) (\<lambda>ranked.
         if ranked = [] then overlay_policy_error ''peer overlay relay candidate ranking requires at least one candidate''
         else Inr (sort_by compare_ranked ranked))))"

section \<open>Route selection\<close>

datatype configured_turn_order = BeforePeerRelay | AfterPeerRelay

record route_selection_policy =
  sp_configured_turn_order :: configured_turn_order

record leg_evidence =
  le_from :: peer_ref
  le_to :: peer_ref
  le_carrier :: overlay_carrier
  le_route_label :: string
  le_live :: bool

definition validate_pair ::
  "admitted_set \<Rightarrow> peer_ref \<Rightarrow> peer_ref \<Rightarrow> overlay_carrier \<Rightarrow> string \<Rightarrow> leg_evidence \<Rightarrow> transport_error + unit" where
  "validate_pair a source dest expected label e =
     and_then (validate_ref a (le_from e)) (\<lambda>_. and_then (validate_ref a (le_to e)) (\<lambda>_.
     and_then (carrier_validate (le_carrier e)) (\<lambda>_. and_then (overlay_validate_label (le_route_label e) label) (\<lambda>_.
       if le_from e \<noteq> source \<or> le_to e \<noteq> dest then overlay_policy_error (label @ '' must bind the expected peer pair'')
       else if le_carrier e \<noteq> expected then overlay_policy_error (label @ '' carrier does not match route-selection policy'')
       else if \<not> le_live e then overlay_policy_error (label @ '' must be backed by a live route'')
       else Inr ()))))"

definition validate_relay_leg :: "admitted_set \<Rightarrow> peer_ref \<Rightarrow> peer_ref \<Rightarrow> string \<Rightarrow> leg_evidence \<Rightarrow> transport_error + unit" where
  "validate_relay_leg a source dest label e =
     and_then (validate_ref a (le_from e)) (\<lambda>_. and_then (validate_ref a (le_to e)) (\<lambda>_.
     and_then (carrier_validate (le_carrier e)) (\<lambda>_. and_then (overlay_validate_label (le_route_label e) label) (\<lambda>_.
       if le_from e \<noteq> source \<or> le_to e \<noteq> dest then overlay_policy_error (label @ '' must bind the expected peer pair'')
       else if le_carrier e = PeerAssistedOverlay \<or> le_carrier e = ProviderApplicationRelay
       then overlay_policy_error (label @ '' must use a direct or configured TURN WebRTC leg'')
       else if \<not> le_live e then overlay_policy_error (label @ '' must be backed by a live route'')
       else Inr ()))))"

record relay_route_evidence =
  re_relay :: peer_ref
  re_source_to_relay :: leg_evidence
  re_relay_to_destination :: leg_evidence

definition evidence_validate_for :: "admitted_set \<Rightarrow> peer_ref \<Rightarrow> peer_ref \<Rightarrow> relay_route_evidence \<Rightarrow> transport_error + unit" where
  "evidence_validate_for a source dest e =
     and_then (validate_ref a (re_relay e)) (\<lambda>_.
       if pr_peer_id (re_relay e) = pr_peer_id source \<or> pr_peer_id (re_relay e) = pr_peer_id dest
       then overlay_policy_error ''peer overlay relay route evidence cannot use source or destination as relay''
       else and_then (validate_relay_leg a source (re_relay e) ''peer overlay source-to-relay leg'' (re_source_to_relay e)) (\<lambda>_.
         and_then (validate_relay_leg a (re_relay e) dest ''peer overlay relay-to-destination leg'' (re_relay_to_destination e)) (\<lambda>_. Inr ())))"

record selection_attempt =
  at_carrier :: overlay_carrier
  at_selected :: bool

datatype selected_overlay_route =
  SelectedDirectWebRtc leg_evidence
| SelectedConfiguredTurn leg_evidence
| SelectedPeerAssisted peer_ref relay_authorization int relay_route_evidence

record route_selection =
  sl_attempts :: "selection_attempt list"
  sl_selected :: selected_overlay_route
  sl_limitation :: string

record route_selection_input =
  si_source :: peer_ref
  si_destination :: peer_ref
  si_direct_pair :: "leg_evidence option"
  si_configured_turn_pair :: "leg_evidence option"
  si_ranked_relays :: "ranked_relay list"
  si_relay_routes :: "relay_route_evidence list"

definition route_selection_result :: "selection_attempt list \<Rightarrow> selected_overlay_route \<Rightarrow> route_selection" where
  "route_selection_result attempts r =
     \<lparr>sl_attempts = attempts, sl_selected = r,
      sl_limitation = ''local model route-selection evidence only; not runtime forwarding or production route proof''\<rparr>"

text \<open>The attempt list that the caller passes on is extended whether or not a route is found.\<close>

definition try_configured_turn ::
  "admitted_set \<Rightarrow> route_selection_input \<Rightarrow> selection_attempt list \<Rightarrow> selection_attempt list \<times> (transport_error + route_selection option)" where
  "try_configured_turn a i attempts =
     (case si_configured_turn_pair i of
        None \<Rightarrow> (attempts @ [\<lparr>at_carrier = ConfiguredTurnBackedWebRtc, at_selected = False\<rparr>], Inr None)
      | Some turn \<Rightarrow>
          (case validate_pair a (si_source i) (si_destination i) ConfiguredTurnBackedWebRtc ''peer overlay configured TURN route evidence'' turn of
             Inl e \<Rightarrow> (attempts @ [\<lparr>at_carrier = ConfiguredTurnBackedWebRtc, at_selected = False\<rparr>], Inl e)
           | Inr _ \<Rightarrow>
               (let attempts' = attempts @ [\<lparr>at_carrier = ConfiguredTurnBackedWebRtc, at_selected = True\<rparr>]
                in (attempts', Inr (Some (route_selection_result attempts' (SelectedConfiguredTurn turn)))))))"

definition try_peer_relay ::
  "admitted_set \<Rightarrow> overlay_auth \<Rightarrow> route_selection_input \<Rightarrow> selection_attempt list \<Rightarrow> transport_error + route_selection" where
  "try_peer_relay a u i attempts =
     (case si_ranked_relays i of
        [] \<Rightarrow> Inl NoViablePath
      | ranked # _ \<Rightarrow>
          and_then (validate_ref a (rk_relay ranked)) (\<lambda>_.
          and_then (authorization_validate_for (rk_authorization ranked) (rk_relay ranked) u) (\<lambda>_.
            if pr_peer_id (rk_relay ranked) = pr_peer_id (si_source i) \<or> pr_peer_id (rk_relay ranked) = pr_peer_id (si_destination i)
            then overlay_policy_error ''peer overlay selected relay cannot be source or destination''
            else case find (\<lambda>r. pr_peer_id (re_relay r) = pr_peer_id (rk_relay ranked)) (si_relay_routes i) of
                None \<Rightarrow> overlay_policy_error ''peer overlay selected relay requires source and destination live route legs''
              | Some e \<Rightarrow> and_then (evidence_validate_for a (si_source i) (si_destination i) e) (\<lambda>_.
                  Inr (route_selection_result (attempts @ [\<lparr>at_carrier = PeerAssistedOverlay, at_selected = True\<rparr>])
                    (SelectedPeerAssisted (rk_relay ranked) (rk_authorization ranked) (rk_score ranked) e))))))"

definition select_peer_overlay_route ::
  "admitted_set \<Rightarrow> overlay_auth \<Rightarrow> route_selection_policy \<Rightarrow> route_selection_input \<Rightarrow> transport_error + route_selection" where
  "select_peer_overlay_route a u pol i =
     and_then (auth_validate a u) (\<lambda>_. and_then (validate_ref a (si_source i)) (\<lambda>_. and_then (validate_ref a (si_destination i)) (\<lambda>_.
       if pr_peer_id (si_source i) = pr_peer_id (si_destination i)
       then overlay_policy_error ''peer overlay route selection source and destination must differ''
       else case si_direct_pair i of
           Some direct \<Rightarrow>
             and_then (validate_pair a (si_source i) (si_destination i) DirectWebRtcDataChannel ''peer overlay direct route evidence'' direct) (\<lambda>_.
               Inr (route_selection_result [\<lparr>at_carrier = DirectWebRtcDataChannel, at_selected = True\<rparr>] (SelectedDirectWebRtc direct)))
         | None \<Rightarrow>
             (let attempts = [\<lparr>at_carrier = DirectWebRtcDataChannel, at_selected = False\<rparr>]
              in case sp_configured_turn_order pol of
                   BeforePeerRelay \<Rightarrow>
                     (case try_configured_turn a i attempts of
                        (attempts', r) \<Rightarrow> and_then r (\<lambda>found. case found of Some s \<Rightarrow> Inr s | None \<Rightarrow> try_peer_relay a u i attempts'))
                 | AfterPeerRelay \<Rightarrow>
                     (case try_peer_relay a u i attempts of
                        Inr s \<Rightarrow> Inr s
                      | Inl NoViablePath \<Rightarrow> and_then (snd (try_configured_turn a i attempts)) (ok_or NoViablePath)
                      | Inl e \<Rightarrow> Inl e)))))"

section \<open>Forwarding\<close>

record forwarding_policy =
  fp_carrier :: overlay_carrier
  fp_forbidden_markers :: "bytes list"

definition forwarding_policy_validate :: "forwarding_policy \<Rightarrow> transport_error + unit" where
  "forwarding_policy_validate p =
     and_then (carrier_validate (fp_carrier p)) (\<lambda>_.
       if fp_carrier p \<noteq> PeerAssistedOverlay then overlay_policy_error ''peer overlay forwarding requires peer-assisted overlay carrier''
       else if list_ex (\<lambda>m. m = []) (fp_forbidden_markers p)
       then overlay_policy_error ''peer overlay forbidden plaintext marker must not be empty''
       else Inr ())"

definition assert_no_forbidden_markers :: "forwarding_policy \<Rightarrow> bytes \<Rightarrow> transport_error + unit" where
  "assert_no_forbidden_markers p bs =
     (if list_ex (contains_window bs) (fp_forbidden_markers p) then Inl PlaintextLeak else Inr ())"

record forwarded_hop =
  fh_hop_index :: nat
  fh_from :: peer_ref
  fh_to :: peer_ref
  fh_remaining_relay_hops :: nat
  fh_payload_kind :: overlay_payload_kind
  fh_sequence :: nat
  fh_ack_id :: bytes
  fh_loop_id :: bytes
  fh_relay_visible_bytes :: bytes

record forwarding_plan =
  fw_schema_version :: nat
  fw_relay_authorizations :: "relay_authorization list"
  fw_hops :: "forwarded_hop list"
  fw_provider_application_relay_used :: bool
  fw_decrypt_path_exposed :: bool

definition forward_hop :: "overlay_frame \<Rightarrow> bytes \<Rightarrow> nat \<times> peer_ref \<times> peer_ref \<Rightarrow> transport_error + forwarded_hop" where
  "forward_hop f bs = (\<lambda>(index, x, y).
     if 255 < index then overlay_policy_error ''peer overlay forwarding hop index overflow''
     else let entered = min (index + 1) (length (or_relay_path (of_route f)))
       in if 255 < entered then overlay_policy_error ''peer overlay relay hop count overflow''
          else Inr \<lparr>fh_hop_index = index, fh_from = x, fh_to = y,
                    fh_remaining_relay_hops = tt_remaining_hops (or_ttl (of_route f)) - entered,
                    fh_payload_kind = op_kind (of_payload f), fh_sequence = op_sequence (of_payload f),
                    fh_ack_id = od_ack_id (of_delivery f), fh_loop_id = or_loop_id (of_route f), fh_relay_visible_bytes = bs\<rparr>)"

definition build_forwarding_plan ::
  "admitted_set \<Rightarrow> relay_authority_set \<Rightarrow> forwarding_policy \<Rightarrow> overlay_frame \<Rightarrow> transport_error + forwarding_plan" where
  "build_forwarding_plan a z p f =
     and_then (forwarding_policy_validate p) (\<lambda>_.
       if of_carrier f \<noteq> PeerAssistedOverlay
       then overlay_policy_error ''peer overlay forwarding only accepts peer-assisted overlay frames''
       else if op_kind (of_payload f) = StoreForward
       then overlay_policy_error ''peer overlay forwarding supports text/control and media frames only''
       else and_then (validate_relay_authorized a z f) (\<lambda>authorizations.
         let route = of_route f; relays = or_relay_path route; bs = relay_visible_bytes (of_payload f);
             peers = or_source route # relays @ [or_destination route]
         in if 255 < length relays then overlay_policy_error ''peer overlay relay path exceeds supported hop count''
            else if tt_remaining_hops (or_ttl route) < length relays
            then overlay_policy_error ''peer overlay forwarding TTL is insufficient for relay path''
            else and_then (assert_no_forbidden_markers p bs) (\<lambda>_.
              and_then (collect_results (map (forward_hop f bs) (enumerate 0 (zip peers (tl peers))))) (\<lambda>hops.
                Inr \<lparr>fw_schema_version = of_schema_version f, fw_relay_authorizations = authorizations, fw_hops = hops,
                     fw_provider_application_relay_used = False, fw_decrypt_path_exposed = False\<rparr>))))"

section \<open>Redelivery\<close>

datatype attempt_status = InFlight | AttemptFailed | Acked

record attempt_evidence =
  ev_ack_id :: bytes
  ev_loop_id :: bytes
  ev_sequence :: nat
  ev_attempt_number :: nat
  ev_status :: attempt_status

record relay_failure =
  rf_relay :: peer_ref
  rf_observed_at_ms :: nat
  rf_route_label :: string

record failover_input =
  fi_frame :: overlay_frame
  fi_failed_relays :: "relay_failure list"
  fi_direct_pair :: "leg_evidence option"
  fi_configured_turn_pair :: "leg_evidence option"
  fi_ranked_relays :: "ranked_relay list"
  fi_relay_routes :: "relay_route_evidence list"
  fi_prior_attempts :: "attempt_evidence list"
  fi_next_attempt_number :: nat
  fi_now_ms :: nat
  fi_target_reroute_ms :: nat

record failover_plan =
  fo_attempt_number :: nat
  fo_route_selection :: route_selection
  fo_forwarding_plan :: "forwarding_plan option"
  fo_preserved_ack_id :: bytes
  fo_preserved_loop_id :: bytes
  fo_preserved_sequence :: nat
  fo_preserved_payload_kind :: overlay_payload_kind
  fo_protected_frame_retained :: bool
  fo_provider_application_relay_used :: bool
  fo_rerouted_within_target_ms :: bool
  fo_limitation :: string

fun reject_stale_replay :: "overlay_frame \<Rightarrow> nat \<Rightarrow> attempt_evidence list \<Rightarrow> transport_error + unit" where
  "reject_stale_replay f n [] = Inr ()"
| "reject_stale_replay f n (t # ts) =
     and_then (ack_id_validate (ev_ack_id t)) (\<lambda>_. and_then (loop_id_validate (ev_loop_id t)) (\<lambda>_.
       if ev_ack_id t \<noteq> od_ack_id (of_delivery f) \<or> ev_loop_id t \<noteq> or_loop_id (of_route f) \<or> ev_sequence t \<noteq> op_sequence (of_payload f)
       then reject_stale_replay f n ts
       else if ev_status t = Acked then overlay_policy_error ''peer overlay redelivery rejects replay after destination ack''
       else if n \<le> ev_attempt_number t
       then overlay_policy_error ''peer overlay redelivery rejects stale non-increasing attempt replay''
       else reject_stale_replay f n ts))"

text \<open>The loop over the failure evidence: the failed ids, and whether every reroute is within its target.\<close>

fun failed_relay_ids ::
  "admitted_set \<Rightarrow> failover_input \<Rightarrow> signaling_peer_id btreeset \<times> bool \<Rightarrow> relay_failure list \<Rightarrow>
   transport_error + signaling_peer_id btreeset \<times> bool" where
  "failed_relay_ids a i acc [] = Inr acc"
| "failed_relay_ids a i acc (x # xs) =
     and_then (validate_ref a (rf_relay x)) (\<lambda>_.
     and_then (overlay_validate_label (rf_route_label x) ''peer overlay failed relay route evidence label'') (\<lambda>_.
       if rf_observed_at_ms x < tt_created_at_ms (or_ttl (of_route (fi_frame i)))
       then overlay_policy_error ''peer overlay failed relay evidence predates frame creation''
       else if fi_now_ms i < rf_observed_at_ms x then overlay_policy_error ''peer overlay redelivery time predates failure evidence''
       else failed_relay_ids a i
         (bs_insert (pr_peer_id (rf_relay x)) (fst acc), snd acc \<and> \<not> fi_target_reroute_ms i < fi_now_ms i - rf_observed_at_ms x) xs))"

definition plan_redelivery_failover ::
  "admitted_set \<Rightarrow> relay_authority_set \<Rightarrow> route_selection_policy \<Rightarrow> forwarding_policy \<Rightarrow> failover_input \<Rightarrow> transport_error + failover_plan" where
  "plan_redelivery_failover a z pol fpol i =
     (let f = fi_frame i; red = od_redelivery (of_delivery f)
      in and_then (forwarding_policy_validate fpol) (\<lambda>_. and_then (validate_relay_authorized a z f) (\<lambda>_.
       if od_ack_mode (of_delivery f) \<noteq> AckRequired
       then overlay_policy_error ''peer overlay redelivery failover requires destination ack mode''
       else if fi_next_attempt_number i = 0 then overlay_policy_error ''peer overlay redelivery attempt number must be non-zero''
       else if rl_max_attempts red < fi_next_attempt_number i
       then overlay_policy_error ''peer overlay redelivery attempt exceeds frame retry policy''
       else if rl_deadline_ms red < fi_now_ms i \<or> tt_expires_at_ms (or_ttl (of_route f)) < fi_now_ms i
       then overlay_policy_error ''peer overlay redelivery deadline has expired''
       else if fi_failed_relays i = [] then overlay_policy_error ''peer overlay redelivery failover requires failed relay evidence''
       else and_then (reject_stale_replay f (fi_next_attempt_number i) (fi_prior_attempts i)) (\<lambda>_.
         and_then (failed_relay_ids a i (bs_of_list [], True) (fi_failed_relays i)) (\<lambda>(failed, within).
           if \<not> within then overlay_policy_error ''peer overlay redelivery reroute exceeded target window''
           else and_then (select_peer_overlay_route a (of_auth f) pol
               \<lparr>si_source = or_source (of_route f), si_destination = or_destination (of_route f),
                si_direct_pair = fi_direct_pair i, si_configured_turn_pair = fi_configured_turn_pair i,
                si_ranked_relays = filter (\<lambda>r. \<not> bs_member failed (pr_peer_id (rk_relay r))) (fi_ranked_relays i),
                si_relay_routes = filter (\<lambda>r. \<not> bs_member failed (pr_peer_id (re_relay r))) (fi_relay_routes i)\<rparr>) (\<lambda>selection.
             and_then
               (case sl_selected selection of
                  SelectedPeerAssisted relay _ _ _ \<Rightarrow>
                    and_then (build_forwarding_plan a z fpol
                      (f\<lparr>of_route := (of_route f)\<lparr>or_relay_path := [relay]\<rparr>, of_carrier := PeerAssistedOverlay\<rparr>)) (\<lambda>pl. Inr (Some pl))
                | SelectedDirectWebRtc e \<Rightarrow> and_then (carrier_validate (le_carrier e)) (\<lambda>_. Inr None)
                | SelectedConfiguredTurn e \<Rightarrow> and_then (carrier_validate (le_carrier e)) (\<lambda>_. Inr None)) (\<lambda>forwarding.
               Inr \<lparr>fo_attempt_number = fi_next_attempt_number i, fo_route_selection = selection, fo_forwarding_plan = forwarding,
                    fo_preserved_ack_id = od_ack_id (of_delivery f), fo_preserved_loop_id = or_loop_id (of_route f),
                    fo_preserved_sequence = op_sequence (of_payload f), fo_preserved_payload_kind = op_kind (of_payload f),
                    fo_protected_frame_retained = True, fo_provider_application_relay_used = False,
                    fo_rerouted_within_target_ms = within,
                    fo_limitation = ''local model redelivery/failover evidence only; not runtime delivery or production route proof''\<rparr>)))))))"

section \<open>What the validations mean\<close>

definition proper_label :: "string \<Rightarrow> bool" where
  "proper_label v \<longleftrightarrow> \<not> blank v \<and> trim v = v \<and> length v \<le> 128"

definition current_peer :: "admitted_set \<Rightarrow> peer_ref \<Rightarrow> bool" where
  "current_peer a p \<longleftrightarrow>
     proper_label (pr_member_id p) \<and> proper_label (pr_device_id p) \<and> pr_epoch p = as_current_epoch a \<and>
     \<not> bs_member (as_revoked a) (pr_peer_id p) \<and> bt_get (as_admitted a) (pr_peer_id p) = Some p"

named_theorems overlay \<open>validations of the overlay as conditions\<close>

lemma label_ok [overlay]: "overlay_validate_label v l = Inr () \<longleftrightarrow> proper_label v"
  by (auto simp: overlay_validate_label_def proper_label_def)

lemma nonzero_ok [overlay]: "validate_nonzero_32 v l = Inr () \<longleftrightarrow> v \<noteq> replicate 32 0"
  by (simp add: validate_nonzero_32_def)

lemma ids_ok [overlay]:
  "loop_id_validate v = Inr () \<longleftrightarrow> v \<noteq> replicate 16 0" "ack_id_validate v = Inr () \<longleftrightarrow> v \<noteq> replicate 16 0"
  by (simp_all add: loop_id_validate_def ack_id_validate_def)

lemma carrier_ok [overlay]: "carrier_validate c = Inr () \<longleftrightarrow> c \<noteq> ProviderApplicationRelay"
  by (simp add: carrier_validate_def)

lemma shape_ok [overlay]: "validate_shape p = Inr () \<longleftrightarrow> proper_label (pr_member_id p) \<and> proper_label (pr_device_id p)"
  by (simp add: validate_shape_def and_then_Inr overlay)

lemma ref_ok [overlay]: "validate_ref a p = Inr () \<longleftrightarrow> current_peer a p"
  by (auto simp: validate_ref_def current_peer_def and_then_Inr overlay split: option.splits if_splits)

lemma relays_ok [overlay]:
  "validate_relays a source dest seen rs = Inr () \<longleftrightarrow>
     (\<forall>r \<in> set rs. current_peer a r \<and> pr_peer_id r \<noteq> source \<and> pr_peer_id r \<noteq> dest \<and> \<not> bs_member seen (pr_peer_id r)) \<and>
     distinct (map pr_peer_id rs)"
  by (induction rs arbitrary: seen) (auto simp: and_then_Inr overlay image_iff)

abbreviation route_peers :: "overlay_route \<Rightarrow> peer_ref list" where
  "route_peers r \<equiv> or_source r # or_relay_path r @ [or_destination r]"

lemma route_ok [overlay]:
  "route_validate a r = Inr () \<longleftrightarrow>
     (\<forall>q \<in> set (route_peers r). current_peer a q) \<and> distinct (map pr_peer_id (route_peers r)) \<and>
     or_relay_path r \<noteq> [] \<and> length (or_relay_path r) \<le> overlay_max_relay_hops \<and>
     ttl_validate (or_ttl r) = Inr () \<and> or_loop_id r \<noteq> replicate 16 0"
  by (auto simp: route_validate_def and_then_Inr overlay image_iff split: if_splits)

lemma auth_ok [overlay]:
  "auth_validate a u = Inr () \<longleftrightarrow>
     oa_epoch u = as_current_epoch a \<and> oa_group_id_commitment u \<noteq> replicate 32 0 \<and>
     oa_confirmation_tag_commitment u \<noteq> replicate 32 0 \<and> 16 \<le> length (oa_frame_auth_tag u)"
  by (auto simp: auth_validate_def and_then_Inr overlay split: if_splits)

lemma bounds_ok [overlay]:
  "ttl_validate t = Inr () \<longleftrightarrow> 0 < tt_remaining_hops t \<and> tt_remaining_hops t \<le> overlay_max_relay_hops \<and> tt_created_at_ms t < tt_expires_at_ms t"
  "redelivery_validate t r = Inr () \<longleftrightarrow>
     0 < rl_max_attempts r \<and> 0 < rl_max_relay_fanout r \<and> rl_max_relay_fanout r \<le> overlay_max_relay_hops \<and> rl_deadline_ms r \<le> tt_expires_at_ms t"
  "delivery_validate t d = Inr () \<longleftrightarrow> od_ack_id d \<noteq> replicate 16 0 \<and> redelivery_validate t (od_redelivery d) = Inr ()"
  "payload_validate p = Inr () \<longleftrightarrow> op_key_id p \<noteq> [] \<and> op_aad_commitment p \<noteq> replicate 32 0 \<and> op_opaque_ciphertext p \<noteq> []"
  by (auto simp: ttl_validate_def redelivery_validate_def delivery_validate_def payload_validate_def and_then_Inr ids_ok)

lemma frame_ok [overlay]:
  "frame_validate a f = Inr () \<longleftrightarrow>
     of_schema_version f = frame_schema_version \<and> of_carrier f \<noteq> ProviderApplicationRelay \<and> route_validate a (of_route f) = Inr () \<and>
     auth_validate a (of_auth f) = Inr () \<and> delivery_validate (or_ttl (of_route f)) (of_delivery f) = Inr () \<and>
     payload_validate (of_payload f) = Inr ()"
proof -
  have "oa_epoch (of_auth f) = pr_epoch (or_source (of_route f))" "oa_epoch (of_auth f) = pr_epoch (or_destination (of_route f))"
    if "route_validate a (of_route f) = Inr ()" "auth_validate a (of_auth f) = Inr ()"
    using that by (simp_all add: route_ok auth_ok current_peer_def)
  then show ?thesis by (auto simp: frame_validate_def and_then_Inr carrier_ok split: if_splits)
qed

text \<open>The grant that an authority set issues for a relay.\<close>

definition grant_of :: "relay_authority_set \<Rightarrow> peer_ref \<Rightarrow> relay_authorization" where
  "grant_of z relay = \<lparr>ra_source = au_source z, ra_group_id_commitment = au_group_id_commitment z, ra_epoch = au_current_epoch z,
     ra_confirmation_tag_commitment = au_confirmation_tag_commitment z, ra_relay = relay\<rparr>"

definition authority_matches :: "relay_authority_set \<Rightarrow> overlay_auth \<Rightarrow> bool" where
  "authority_matches z u \<longleftrightarrow> au_current_epoch z = oa_epoch u \<and> au_group_id_commitment z = oa_group_id_commitment u \<and>
     au_confirmation_tag_commitment z = oa_confirmation_tag_commitment u"

lemma authorize_ok:
  "authorize_relay z relay u = Inr g \<longleftrightarrow>
     authority_matches z u \<and> bt_get (au_authorized_relays z) (pr_peer_id relay) = Some relay \<and> g = grant_of z relay"
  by (auto simp: authorize_relay_def authority_matches_def grant_of_def split: option.splits if_splits)

lemma authorization_ok:
  "authorization_validate_for g relay u = Inr () \<longleftrightarrow>
     source_validate (ra_source g) = Inr () \<and> ra_group_id_commitment g \<noteq> replicate 32 0 \<and> ra_confirmation_tag_commitment g \<noteq> replicate 32 0 \<and>
     ra_epoch g = oa_epoch u \<and> ra_group_id_commitment g = oa_group_id_commitment u \<and>
     ra_confirmation_tag_commitment g = oa_confirmation_tag_commitment u \<and> ra_relay g = relay"
  by (auto simp: authorization_validate_for_def and_then_Inr overlay split: if_splits)

lemma route_authority_ok:
  assumes "auth_validate a u = Inr ()" and "or_relay_path r \<noteq> []"
  shows "validate_route_authority z r u = Inr gs \<longleftrightarrow>
     authority_matches z u \<and> source_validate (au_source z) = Inr () \<and>
     (\<forall>q \<in> set (or_relay_path r). bt_get (au_authorized_relays z) (pr_peer_id q) = Some q) \<and> gs = map (grant_of z) (or_relay_path r)"
proof -
  let ?grants = "\<lambda>q. and_then (authorize_relay z q u) (\<lambda>g. and_then (authorization_validate_for g q u) (\<lambda>_. Inr g))"
  let ?ok = "\<lambda>q. authority_matches z u \<and> source_validate (au_source z) = Inr () \<and> bt_get (au_authorized_relays z) (pr_peer_id q) = Some q"
  have one: "?grants q = Inr g \<longleftrightarrow> ?ok q \<and> g = grant_of z q" for q g
    using assms(1) by (auto simp: and_then_Inr authorize_ok authorization_ok auth_ok authority_matches_def grant_of_def)
  have "map ?grants qs = map Inr gs \<longleftrightarrow> (\<forall>q \<in> set qs. ?ok q) \<and> gs = map (grant_of z) qs" for qs gs
  proof (induction qs arbitrary: gs)
    case (Cons q qs)
    then show ?case using one[of q] by (cases gs) auto
  qed auto
  with assms(2) show ?thesis
    by (simp add: validate_route_authority_def collect_results_Inr) (metis list.set_sel(1))
qed

section \<open>Forwarding plans\<close>

definition forwarding_hop :: "overlay_frame \<Rightarrow> nat \<Rightarrow> forwarded_hop" where
  "forwarding_hop f n =
     \<lparr>fh_hop_index = n, fh_from = route_peers (of_route f) ! n, fh_to = route_peers (of_route f) ! Suc n,
      fh_remaining_relay_hops = tt_remaining_hops (or_ttl (of_route f)) - min (Suc n) (length (or_relay_path (of_route f))),
      fh_payload_kind = op_kind (of_payload f), fh_sequence = op_sequence (of_payload f), fh_ack_id = od_ack_id (of_delivery f),
      fh_loop_id = or_loop_id (of_route f), fh_relay_visible_bytes = relay_visible_bytes (of_payload f)\<rparr>"

lemma forward_hops_exact:
  assumes "length (or_relay_path (of_route f)) \<le> overlay_max_relay_hops"
  shows "collect_results (map (forward_hop f (relay_visible_bytes (of_payload f)))
      (enumerate 0 (zip (route_peers (of_route f)) (tl (route_peers (of_route f)))))) =
    Inr (map (forwarding_hop f) [0..<Suc (length (or_relay_path (of_route f)))])"
proof -
  let ?ps = "route_peers (of_route f)"
  have "enumerate 0 (zip ?ps (tl ?ps)) = map (\<lambda>n. (n, ?ps ! n, ?ps ! Suc n)) [0..<Suc (length (or_relay_path (of_route f)))]"
    by (rule nth_equalityI) (simp_all add: nth_enumerate_eq nth_tl del: upt_Suc)
  moreover have "forward_hop f (relay_visible_bytes (of_payload f)) (n, ?ps ! n, ?ps ! Suc n) = Inr (forwarding_hop f n)"
    if "n < Suc (length (or_relay_path (of_route f)))" for n
    using that assms by (simp add: forward_hop_def forwarding_hop_def overlay_max_relay_hops_def)
  ultimately show ?thesis by (simp add: collect_results_Inr del: upt_Suc)
qed

text \<open>The frames that may be forwarded, in elementary terms.\<close>

definition forwardable :: "admitted_set \<Rightarrow> relay_authority_set \<Rightarrow> forwarding_policy \<Rightarrow> overlay_frame \<Rightarrow> bool" where
  "forwardable a z p f \<longleftrightarrow>
     fp_carrier p = PeerAssistedOverlay \<and> [] \<notin> set (fp_forbidden_markers p) \<and>
     of_schema_version f = frame_schema_version \<and> of_carrier f = PeerAssistedOverlay \<and> op_kind (of_payload f) \<noteq> StoreForward \<and>
     (\<forall>q \<in> set (route_peers (of_route f)). current_peer a q) \<and> distinct (map pr_peer_id (route_peers (of_route f))) \<and>
     or_relay_path (of_route f) \<noteq> [] \<and> length (or_relay_path (of_route f)) \<le> tt_remaining_hops (or_ttl (of_route f)) \<and>
     tt_remaining_hops (or_ttl (of_route f)) \<le> overlay_max_relay_hops \<and>
     tt_created_at_ms (or_ttl (of_route f)) < tt_expires_at_ms (or_ttl (of_route f)) \<and> or_loop_id (of_route f) \<noteq> replicate 16 0 \<and>
     oa_epoch (of_auth f) = as_current_epoch a \<and> oa_group_id_commitment (of_auth f) \<noteq> replicate 32 0 \<and>
     oa_confirmation_tag_commitment (of_auth f) \<noteq> replicate 32 0 \<and> 16 \<le> length (oa_frame_auth_tag (of_auth f)) \<and>
     od_ack_id (of_delivery f) \<noteq> replicate 16 0 \<and> 0 < rl_max_attempts (od_redelivery (of_delivery f)) \<and>
     0 < rl_max_relay_fanout (od_redelivery (of_delivery f)) \<and> rl_max_relay_fanout (od_redelivery (of_delivery f)) \<le> overlay_max_relay_hops \<and>
     rl_deadline_ms (od_redelivery (of_delivery f)) \<le> tt_expires_at_ms (or_ttl (of_route f)) \<and>
     op_key_id (of_payload f) \<noteq> [] \<and> op_aad_commitment (of_payload f) \<noteq> replicate 32 0 \<and> op_opaque_ciphertext (of_payload f) \<noteq> [] \<and>
     authority_matches z (of_auth f) \<and> source_validate (au_source z) = Inr () \<and>
     (\<forall>q \<in> set (or_relay_path (of_route f)). bt_get (au_authorized_relays z) (pr_peer_id q) = Some q) \<and>
     (\<forall>m \<in> set (fp_forbidden_markers p). \<not> sublist m (relay_visible_bytes (of_payload f)))"

lemma forwarding_policy_ok:
  "forwarding_policy_validate p = Inr () \<longleftrightarrow> fp_carrier p = PeerAssistedOverlay \<and> [] \<notin> set (fp_forbidden_markers p)"
  by (auto simp: forwarding_policy_validate_def and_then_Inr carrier_ok list_ex_iff split: if_splits)

lemma markers_ok:
  "assert_no_forbidden_markers p bs = Inr () \<longleftrightarrow> (\<forall>m \<in> set (fp_forbidden_markers p). \<not> sublist m bs)"
  by (auto simp: assert_no_forbidden_markers_def list_ex_iff contains_window_sublist)

lemma relay_authorized_ok:
  "validate_relay_authorized a z f = Inr gs \<longleftrightarrow>
     frame_validate a f = Inr () \<and> authority_matches z (of_auth f) \<and> source_validate (au_source z) = Inr () \<and>
     (\<forall>q \<in> set (or_relay_path (of_route f)). bt_get (au_authorized_relays z) (pr_peer_id q) = Some q) \<and>
     gs = map (grant_of z) (or_relay_path (of_route f))"
proof (cases "frame_validate a f")
  case (Inr u)
  then have "auth_validate a (of_auth f) = Inr ()" "or_relay_path (of_route f) \<noteq> []" by (simp_all add: frame_ok route_ok)
  with route_authority_ok[OF this] Inr show ?thesis by (simp add: validate_relay_authorized_def)
qed (simp add: validate_relay_authorized_def)

lemma build_plan_exact:
  "build_forwarding_plan a z p f = Inr plan \<longleftrightarrow>
     forwardable a z p f \<and>
     plan = \<lparr>fw_schema_version = frame_schema_version, fw_relay_authorizations = map (grant_of z) (or_relay_path (of_route f)),
       fw_hops = map (forwarding_hop f) [0..<Suc (length (or_relay_path (of_route f)))],
       fw_provider_application_relay_used = False, fw_decrypt_path_exposed = False\<rparr>"
proof (cases "frame_validate a f = Inr () \<and> of_carrier f = PeerAssistedOverlay \<and> op_kind (of_payload f) \<noteq> StoreForward")
  case True
  then have len: "length (or_relay_path (of_route f)) \<le> overlay_max_relay_hops" by (simp add: frame_ok route_ok)
  then have "\<not> 255 < length (or_relay_path (of_route f))" by (simp add: overlay_max_relay_hops_def)
  with True show ?thesis
    unfolding build_forwarding_plan_def forwardable_def
    by (auto simp: Let_def and_then_Inr forwarding_policy_ok relay_authorized_ok markers_ok forward_hops_exact[OF len, unfolded list.sel]
        frame_ok route_ok auth_ok bounds_ok simp del: upt_Suc)
next
  case False
  have "\<not> forwardable a z p f"
  proof
    assume fw: "forwardable a z p f"
    then have "length (or_relay_path (of_route f)) \<le> overlay_max_relay_hops" "0 < tt_remaining_hops (or_ttl (of_route f))"
      by (auto simp: forwardable_def)
    with fw False show False by (auto simp: forwardable_def frame_ok route_ok auth_ok bounds_ok)
  qed
  moreover have "build_forwarding_plan a z p f \<noteq> Inr plan"
    using False by (auto simp: build_forwarding_plan_def Let_def and_then_Inr relay_authorized_ok split: if_splits)
  ultimately show ?thesis by simp
qed


section \<open>Revocation\<close>

lemma admit_all_from:
  "admit_all epoch revoked m ps = Inr m' \<Longrightarrow> bt_get m' k = Some p \<Longrightarrow> bt_get m k = Some p \<or> p \<in> set ps"
proof (induction ps arbitrary: m)
  case (Cons q ps)
  from Cons.prems(1) have "admit_all epoch revoked (bt_insert (pr_peer_id q) q m) ps = Inr m'"
    by (auto simp: and_then_Inr split: if_splits)
  from Cons.IH[OF this Cons.prems(2)] show ?case by (auto split: if_splits)
qed simp

lemma admitted_set_from:
  assumes "admitted_set_new epoch ps revoked = Inr a" and "current_peer a q"
  shows "q \<in> set ps \<and> pr_peer_id q \<notin> set revoked"
proof -
  from assms(1) obtain m where m: "admit_all epoch (bs_of_list revoked) bt_empty ps = Inr m"
    and a: "a = \<lparr>as_current_epoch = epoch, as_admitted = m, as_revoked = bs_of_list revoked\<rparr>"
    by (auto simp: admitted_set_new_def and_then_Inr split: if_splits)
  with assms(2) show ?thesis using admit_all_from[OF m, of "pr_peer_id q" q] by (simp add: current_peer_def)
qed

text \<open>A revoked reference names a peer by its peer id and by its member and device.\<close>

definition same_peer :: "peer_ref \<Rightarrow> peer_ref \<Rightarrow> bool" where
  "same_peer p q \<longleftrightarrow> pr_peer_id p = pr_peer_id q \<or> binding p = binding q"

lemma revoked_not_current:
  assumes "build_revocation_state i = Inr st" and "r \<in> set (ri_revoked_peers i)" and "current_peer (rv_admitted st) q"
  shows "\<not> same_peer r q"
proof -
  from assms(1) obtain a where new: "admitted_set_new (ri_current_epoch i) (ri_remaining_admitted i) (map pr_peer_id (ri_revoked_peers i)) = Inr a"
    and st: "rv_admitted st = a"
    and b: "\<forall>p \<in> set (ri_remaining_admitted i). binding p \<notin> binding ` set (ri_revoked_peers i)"
    by (auto simp: build_revocation_state_def and_then_Inr Let_def list_ex_iff split: if_splits)
  from admitted_set_from[OF new] assms(3) st have "q \<in> set (ri_remaining_admitted i)" "pr_peer_id q \<notin> pr_peer_id ` set (ri_revoked_peers i)"
    by auto
  with b assms(2) show ?thesis unfolding same_peer_def by (metis image_eqI)
qed

text \<open>The peers that a selected route involves.\<close>

fun selected_peers :: "selected_overlay_route \<Rightarrow> peer_ref set" where
  "selected_peers (SelectedDirectWebRtc e) = {le_from e, le_to e}"
| "selected_peers (SelectedConfiguredTurn e) = {le_from e, le_to e}"
| "selected_peers (SelectedPeerAssisted relay g score e) =
     {relay, re_relay e, le_from (re_source_to_relay e), le_to (re_source_to_relay e),
      le_from (re_relay_to_destination e), le_to (re_relay_to_destination e)}"

section \<open>Route selection\<close>

lemma pair_ok:
  "validate_pair a source dest expected l e = Inr () \<longleftrightarrow>
     current_peer a source \<and> current_peer a dest \<and> expected \<noteq> ProviderApplicationRelay \<and> proper_label (le_route_label e) \<and>
     le_from e = source \<and> le_to e = dest \<and> le_carrier e = expected \<and> le_live e"
  by (auto simp: validate_pair_def and_then_Inr overlay split: if_splits)

lemma relay_leg_ok:
  "validate_relay_leg a source dest l e = Inr () \<longleftrightarrow>
     current_peer a source \<and> current_peer a dest \<and> proper_label (le_route_label e) \<and> le_from e = source \<and> le_to e = dest \<and>
     le_carrier e \<in> {DirectWebRtcDataChannel, ConfiguredTurnBackedWebRtc} \<and> le_live e"
  by (cases "le_carrier e") (auto simp: validate_relay_leg_def and_then_Inr overlay split: if_splits)

text \<open>A live leg between two admitted peers.\<close>

definition live_leg :: "admitted_set \<Rightarrow> peer_ref \<Rightarrow> peer_ref \<Rightarrow> overlay_carrier set \<Rightarrow> leg_evidence \<Rightarrow> bool" where
  "live_leg a source dest carriers e \<longleftrightarrow> current_peer a source \<and> current_peer a dest \<and> proper_label (le_route_label e) \<and>
     le_from e = source \<and> le_to e = dest \<and> le_carrier e \<in> carriers \<and> le_live e"

lemma legs_live:
  "expected \<noteq> ProviderApplicationRelay \<Longrightarrow> validate_pair a source dest expected l e = Inr () \<longleftrightarrow> live_leg a source dest {expected} e"
  "validate_relay_leg a source dest l e = Inr () \<longleftrightarrow>
     live_leg a source dest {DirectWebRtcDataChannel, ConfiguredTurnBackedWebRtc} e"
  by (auto simp: pair_ok relay_leg_ok live_leg_def)

text \<open>The relay at the head of the ranking, with its authority and its two legs.\<close>

definition usable_relay :: "admitted_set \<Rightarrow> overlay_auth \<Rightarrow> route_selection_input \<Rightarrow> ranked_relay \<Rightarrow> relay_route_evidence \<Rightarrow> bool" where
  "usable_relay a u i rk e \<longleftrightarrow>
     current_peer a (rk_relay rk) \<and> authorization_validate_for (rk_authorization rk) (rk_relay rk) u = Inr () \<and>
     pr_peer_id (rk_relay rk) \<notin> {pr_peer_id (si_source i), pr_peer_id (si_destination i)} \<and>
     find (\<lambda>r. pr_peer_id (re_relay r) = pr_peer_id (rk_relay rk)) (si_relay_routes i) = Some e \<and> re_relay e = rk_relay rk \<and>
     live_leg a (si_source i) (rk_relay rk) {DirectWebRtcDataChannel, ConfiguredTurnBackedWebRtc} (re_source_to_relay e) \<and>
     live_leg a (rk_relay rk) (si_destination i) {DirectWebRtcDataChannel, ConfiguredTurnBackedWebRtc} (re_relay_to_destination e)"

lemma evidence_ok:
  "evidence_validate_for a source dest e = Inr () \<longleftrightarrow>
     current_peer a (re_relay e) \<and> pr_peer_id (re_relay e) \<noteq> pr_peer_id source \<and> pr_peer_id (re_relay e) \<noteq> pr_peer_id dest \<and>
     live_leg a source (re_relay e) {DirectWebRtcDataChannel, ConfiguredTurnBackedWebRtc} (re_source_to_relay e) \<and>
     live_leg a (re_relay e) dest {DirectWebRtcDataChannel, ConfiguredTurnBackedWebRtc} (re_relay_to_destination e)"
  by (auto simp: evidence_validate_for_def and_then_Inr ref_ok legs_live split: if_splits)

lemma try_relay_Cons:
  assumes "si_ranked_relays i = rk # rest"
    and "find (\<lambda>r. pr_peer_id (re_relay r) = pr_peer_id (rk_relay rk)) (si_relay_routes i) = Some e"
  shows "try_peer_relay a u i attempts = Inr sel \<longleftrightarrow>
     current_peer a (rk_relay rk) \<and> authorization_validate_for (rk_authorization rk) (rk_relay rk) u = Inr () \<and>
     pr_peer_id (rk_relay rk) \<noteq> pr_peer_id (si_source i) \<and> pr_peer_id (rk_relay rk) \<noteq> pr_peer_id (si_destination i) \<and>
     evidence_validate_for a (si_source i) (si_destination i) e = Inr () \<and>
     sel = route_selection_result (attempts @ [\<lparr>at_carrier = PeerAssistedOverlay, at_selected = True\<rparr>])
         (SelectedPeerAssisted (rk_relay rk) (rk_authorization rk) (rk_score rk) e)"
  unfolding try_peer_relay_def by (auto simp: assms and_then_Inr ref_ok)

lemma peer_relay_ok:
  "try_peer_relay a u i attempts = Inr sel \<longleftrightarrow>
     (\<exists>rk rest e. si_ranked_relays i = rk # rest \<and> usable_relay a u i rk e \<and>
       sel = route_selection_result (attempts @ [\<lparr>at_carrier = PeerAssistedOverlay, at_selected = True\<rparr>])
         (SelectedPeerAssisted (rk_relay rk) (rk_authorization rk) (rk_score rk) e))"
proof (cases "si_ranked_relays i")
  case (Cons rk rest)
  show ?thesis
  proof (cases "find (\<lambda>r. pr_peer_id (re_relay r) = pr_peer_id (rk_relay rk)) (si_relay_routes i)")
    case None
    then show ?thesis using Cons by (simp add: try_peer_relay_def and_then_Inr usable_relay_def)
  next
    case (Some e)
    then have "pr_peer_id (re_relay e) = pr_peer_id (rk_relay rk)" by (auto simp: find_Some_iff)
    then have "re_relay e = rk_relay rk" if "current_peer a (re_relay e)" "current_peer a (rk_relay rk)"
      using that by (simp add: current_peer_def)
    then have "current_peer a (rk_relay rk) \<and> evidence_validate_for a (si_source i) (si_destination i) e = Inr () \<longleftrightarrow>
      current_peer a (rk_relay rk) \<and> re_relay e = rk_relay rk \<and> evidence_validate_for a (si_source i) (si_destination i) e = Inr ()"
      by (metis evidence_ok)
    with Some Cons show ?thesis
      unfolding try_relay_Cons[OF Cons Some] usable_relay_def by (auto simp: evidence_ok)
  qed
qed (simp add: try_peer_relay_def)

text \<open>No validation answers with \<open>NoViablePath\<close>.\<close>

lemma validations_viable [simp]:
  "overlay_validate_label v l \<noteq> Inl NoViablePath" "validate_nonzero_32 bs l \<noteq> Inl NoViablePath" "carrier_validate c \<noteq> Inl NoViablePath"
  by (simp_all add: overlay_validate_label_def validate_nonzero_32_def carrier_validate_def)

lemma refs_viable [simp]: "validate_ref a q \<noteq> Inl NoViablePath"
proof -
  have "validate_shape q \<noteq> Inl NoViablePath" by (simp add: validate_shape_def and_then_Inl)
  then show ?thesis by (auto simp: validate_ref_def and_then_Inl split: option.splits if_splits)
qed

lemma auth_viable [simp]: "auth_validate a u \<noteq> Inl NoViablePath"
  by (simp add: auth_validate_def and_then_Inl)

lemma authorization_viable [simp]: "authorization_validate_for g q u \<noteq> Inl NoViablePath"
proof -
  have "source_validate src \<noteq> Inl NoViablePath" for src by (cases src) (simp_all add: and_then_Inl)
  then show ?thesis by (simp add: authorization_validate_for_def and_then_Inl)
qed

lemma legs_viable [simp]:
  "validate_pair a q q' c l e \<noteq> Inl NoViablePath" "validate_relay_leg a q q' l e \<noteq> Inl NoViablePath"
  by (simp_all add: validate_pair_def validate_relay_leg_def and_then_Inl)

lemma evidence_viable [simp]: "evidence_validate_for a q q' r \<noteq> Inl NoViablePath"
  by (simp add: evidence_validate_for_def and_then_Inl)

lemma peer_relay_none: "try_peer_relay a u i attempts = Inl NoViablePath \<longleftrightarrow> si_ranked_relays i = []"
  by (simp add: try_peer_relay_def and_then_Inl split: list.splits option.splits)

lemma configured_turn_cases:
  "(try_configured_turn a i attempts = (attempts', Inr (Some sel)) \<longleftrightarrow>
     (\<exists>e. si_configured_turn_pair i = Some e \<and> live_leg a (si_source i) (si_destination i) {ConfiguredTurnBackedWebRtc} e \<and>
       attempts' = attempts @ [\<lparr>at_carrier = ConfiguredTurnBackedWebRtc, at_selected = True\<rparr>] \<and>
       sel = route_selection_result attempts' (SelectedConfiguredTurn e)))"
  "(try_configured_turn a i attempts = (attempts', Inr None) \<longleftrightarrow>
     si_configured_turn_pair i = None \<and> attempts' = attempts @ [\<lparr>at_carrier = ConfiguredTurnBackedWebRtc, at_selected = False\<rparr>])"
  "try_configured_turn a i attempts \<noteq> (attempts', Inl NoViablePath)"
proof (induct "si_configured_turn_pair i")
  case None
  case 1 from None show ?case by (simp add: try_configured_turn_def)
  case 2 from None show ?case by (auto simp: try_configured_turn_def)
  case 3 from None show ?case by (simp add: try_configured_turn_def)
next
  case (Some e)
  note v = legs_live(1)[of ConfiguredTurnBackedWebRtc a "si_source i" "si_destination i" "''peer overlay configured TURN route evidence''" e]
  case 1 from Some[symmetric] v show ?case by (auto simp: try_configured_turn_def Let_def split: sum.splits)
  case 2 from Some[symmetric] show ?case by (auto simp: try_configured_turn_def Let_def split: sum.splits)
  case 3 from Some[symmetric] show ?case by (auto simp: try_configured_turn_def Let_def split: sum.splits)
qed

lemma configured_turn_snd:
  "snd (try_configured_turn a i attempts) = Inr None \<longleftrightarrow> si_configured_turn_pair i = None"
  "snd (try_configured_turn a i attempts) \<noteq> Inl NoViablePath"
  by (auto simp: try_configured_turn_def Let_def split: option.splits sum.splits)

lemma before_peer_relay:
  "(case try_configured_turn a i attempts of
      (attempts', r) \<Rightarrow> and_then r (\<lambda>found. case found of Some s \<Rightarrow> Inr s | None \<Rightarrow> try_peer_relay a u i attempts')) = Inr sel \<longleftrightarrow>
   (\<exists>attempts'. try_configured_turn a i attempts = (attempts', Inr (Some sel))) \<or>
   (si_configured_turn_pair i = None \<and>
    try_peer_relay a u i (attempts @ [\<lparr>at_carrier = ConfiguredTurnBackedWebRtc, at_selected = False\<rparr>]) = Inr sel)"
proof (cases "try_configured_turn a i attempts")
  case (Pair attempts' r)
  show ?thesis
  proof (cases r)
    case (Inr found)
    then show ?thesis
    proof (cases found)
      case None
      with Pair Inr have t: "try_configured_turn a i attempts = (attempts', Inr None)" by simp
      then have "si_configured_turn_pair i = None \<and> attempts' = attempts @ [\<lparr>at_carrier = ConfiguredTurnBackedWebRtc, at_selected = False\<rparr>]"
        by (simp only: configured_turn_cases(2))
      with t show ?thesis by simp
    next
      case (Some s)
      with Pair Inr have t: "try_configured_turn a i attempts = (attempts', Inr (Some s))" by simp
      then have "si_configured_turn_pair i \<noteq> None" using configured_turn_cases(1) by (metis option.distinct(1))
      with Pair Inr Some show ?thesis by auto
    qed
  next
    case (Inl e)
    then have "si_configured_turn_pair i \<noteq> None" using Pair by (auto simp: try_configured_turn_def split: option.splits)
    with Pair Inl show ?thesis by simp
  qed
qed

lemma after_peer_relay:
  "(case try_peer_relay a u i attempts of
      Inr s \<Rightarrow> Inr s
    | Inl NoViablePath \<Rightarrow> and_then (snd (try_configured_turn a i attempts)) (ok_or NoViablePath)
    | Inl e \<Rightarrow> Inl e) = Inr sel \<longleftrightarrow>
   try_peer_relay a u i attempts = Inr sel \<or>
   (si_ranked_relays i = [] \<and> (\<exists>attempts'. try_configured_turn a i attempts = (attempts', Inr (Some sel))))"
proof (cases "try_peer_relay a u i attempts")
  case (Inr s)
  then have "si_ranked_relays i \<noteq> []" using peer_relay_none by (metis sum.distinct(1))
  with Inr show ?thesis by simp
next
  case (Inl e)
  show ?thesis
  proof (cases "e = NoViablePath")
    case True
    with Inl have "si_ranked_relays i = []" using peer_relay_none by metis
    with Inl True show ?thesis by (cases "try_configured_turn a i attempts") (auto simp: and_then_Inr)
  next
    case False
    with Inl have "si_ranked_relays i \<noteq> []" using peer_relay_none by (metis sum.inject(1))
    with Inl False show ?thesis by (cases e) auto
  qed
qed

definition selectable :: "admitted_set \<Rightarrow> overlay_auth \<Rightarrow> route_selection_input \<Rightarrow> bool" where
  "selectable a u i \<longleftrightarrow> auth_validate a u = Inr () \<and> current_peer a (si_source i) \<and> current_peer a (si_destination i) \<and>
     pr_peer_id (si_source i) \<noteq> pr_peer_id (si_destination i)"

lemma select_unfold:
  "select_peer_overlay_route a u pol i = Inr sel \<longleftrightarrow>
     selectable a u i \<and>
     (case si_direct_pair i of
        Some e \<Rightarrow> live_leg a (si_source i) (si_destination i) {DirectWebRtcDataChannel} e \<and>
          sel = route_selection_result [\<lparr>at_carrier = DirectWebRtcDataChannel, at_selected = True\<rparr>] (SelectedDirectWebRtc e)
      | None \<Rightarrow>
         (let attempts = [\<lparr>at_carrier = DirectWebRtcDataChannel, at_selected = False\<rparr>]
          in case sp_configured_turn_order pol of
               BeforePeerRelay \<Rightarrow> (\<exists>attempts'. try_configured_turn a i attempts = (attempts', Inr (Some sel))) \<or>
                 (si_configured_turn_pair i = None \<and>
                  try_peer_relay a u i (attempts @ [\<lparr>at_carrier = ConfiguredTurnBackedWebRtc, at_selected = False\<rparr>]) = Inr sel)
             | AfterPeerRelay \<Rightarrow> try_peer_relay a u i attempts = Inr sel \<or>
                 (si_ranked_relays i = [] \<and> (\<exists>attempts'. try_configured_turn a i attempts = (attempts', Inr (Some sel))))))"
proof (cases "si_direct_pair i")
  case None
  show ?thesis
  proof (cases "sp_configured_turn_order pol")
    case BeforePeerRelay
    show ?thesis unfolding before_peer_relay[symmetric] select_peer_overlay_route_def Let_def selectable_def None BeforePeerRelay
      by (simp add: and_then_Inr ref_ok)
  next
    case AfterPeerRelay
    show ?thesis unfolding after_peer_relay[symmetric] select_peer_overlay_route_def Let_def selectable_def None AfterPeerRelay
      by (simp add: and_then_Inr ref_ok)
  qed
next
  case (Some e)
  show ?thesis unfolding select_peer_overlay_route_def selectable_def Some
    by (auto simp: and_then_Inr ref_ok legs_live)
qed

abbreviation skipped :: "overlay_carrier \<Rightarrow> selection_attempt" where
  "skipped c \<equiv> \<lparr>at_carrier = c, at_selected = False\<rparr>"

abbreviation won :: "overlay_carrier \<Rightarrow> selection_attempt" where
  "won c \<equiv> \<lparr>at_carrier = c, at_selected = True\<rparr>"


lemma select_origin:
  assumes "select_peer_overlay_route a u pol i = Inr sel"
  shows "(\<exists>e. live_leg a (si_source i) (si_destination i) {DirectWebRtcDataChannel} e \<and> sl_selected sel = SelectedDirectWebRtc e) \<or>
    (\<exists>as. try_peer_relay a u i as = Inr sel) \<or> (\<exists>as as'. try_configured_turn a i as = (as', Inr (Some sel)))"
proof (cases "si_direct_pair i")
  case None
  with assms show ?thesis unfolding select_unfold Let_def by (cases "sp_configured_turn_order pol") auto
next
  case (Some e)
  with assms show ?thesis by (simp add: select_unfold route_selection_result_def)
qed

lemma selection_peers_current:
  assumes "select_peer_overlay_route a u pol i = Inr sel" and "q \<in> selected_peers (sl_selected sel)"
  shows "current_peer a q"
  using select_origin[OF assms(1)] assms(2)
  by (auto simp: peer_relay_ok configured_turn_cases usable_relay_def live_leg_def route_selection_result_def)

lemma failover_selection:
  assumes "plan_redelivery_failover a z pol fpol i = Inr fo"
  obtains inp where "select_peer_overlay_route a (of_auth (fi_frame i)) pol inp = Inr (fo_route_selection fo)"
  using assms by (auto simp: plan_redelivery_failover_def Let_def and_then_Inr split: if_splits)


section \<open>Ranking\<close>

definition ranked_relay_key :: "ranked_relay \<Rightarrow> int \<times> string \<times> string \<times> string" where
  "ranked_relay_key x = (- rk_score x, pr_peer_id (rk_relay x), pr_member_id (rk_relay x), pr_device_id (rk_relay x))"

lemma compare_ranked_key: "compare_ranked x y \<noteq> Greater \<longleftrightarrow> ranked_relay_key x \<le> ranked_relay_key y"
proof -
  have "cmp_lin (rk_score y) (rk_score x) = cmp_lin (- rk_score x) (- rk_score y)" by (simp add: cmp_lin_def)
  then have "compare_ranked x y = cmp_lin (((- rk_score x, pr_peer_id (rk_relay x)), pr_member_id (rk_relay x)), pr_device_id (rk_relay x))
    (((- rk_score y, pr_peer_id (rk_relay y)), pr_member_id (rk_relay y)), pr_device_id (rk_relay y))"
    by (simp only: compare_ranked_def then_with_cmp_lin)
  then show ?thesis by (auto simp: ranked_relay_key_def less_eq_prod_def less_prod_def)
qed

definition rankable :: "admitted_set \<Rightarrow> relay_authority_set \<Rightarrow> overlay_auth \<Rightarrow> candidate_policy \<Rightarrow> relay_candidate \<Rightarrow> bool" where
  "rankable a z u p c \<longleftrightarrow> current_peer a (rc_relay c) \<and> diagnostics_validate p (rc_diagnostics c) = Inr () \<and>
     authority_matches z u \<and> bt_get (au_authorized_relays z) (pr_peer_id (rc_relay c)) = Some (rc_relay c)"

definition ranked_of :: "relay_authority_set \<Rightarrow> relay_candidate \<Rightarrow> ranked_relay" where
  "ranked_of z c = \<lparr>rk_relay = rc_relay c, rk_authorization = grant_of z (rc_relay c),
     rk_score = score_relay_candidate (rc_diagnostics c), rk_diagnostics = rc_diagnostics c\<rparr>"

lemma rank_each_ok:
  "rank_each a z u p seen acc cs = Inr rs \<longleftrightarrow>
     (\<forall>c \<in> set cs. rankable a z u p c \<and> \<not> bs_member seen (pr_peer_id (rc_relay c))) \<and>
     distinct (map (pr_peer_id \<circ> rc_relay) cs) \<and> rs = acc @ map (ranked_of z) cs"
proof (induction cs arbitrary: seen acc)
  case (Cons c cs)
  have "rank_each a z u p seen acc (c # cs) = Inr rs \<longleftrightarrow>
    rankable a z u p c \<and> \<not> bs_member seen (pr_peer_id (rc_relay c)) \<and>
    rank_each a z u p (bs_insert (pr_peer_id (rc_relay c)) seen) (acc @ [ranked_of z c]) cs = Inr rs"
    by (auto simp: and_then_Inr ref_ok authorize_ok rankable_def ranked_of_def split: if_splits)
  then show ?case unfolding Cons.IH by (auto simp: image_iff comp_def simp del: rank_each.simps)
qed auto

lemma rank_ok:
  "rank_relay_candidates a z u p cs = Inr rs \<longleftrightarrow>
     candidate_policy_validate p = Inr () \<and> auth_validate a u = Inr () \<and> au_current_epoch z = as_current_epoch a \<and>
     (\<forall>c \<in> set cs. rankable a z u p c) \<and> distinct (map (pr_peer_id \<circ> rc_relay) cs) \<and> cs \<noteq> [] \<and>
     rs = sort_by compare_ranked (map (ranked_of z) cs)"
  by (auto simp: rank_relay_candidates_def and_then_Inr rank_each_ok split: if_splits)

text \<open>
  Ranking answers with every candidate exactly once, all of them admitted, authorized and within the policy, ordered by falling score and then by identity; and the
  answer depends only on which candidates are offered, not on their order.
\<close>

theorem ranking_order_independent:
  assumes "rank_relay_candidates a z u p cs = Inr rs" and "mset cs' = mset cs"
  shows "rank_relay_candidates a z u p cs' = Inr rs \<and> mset rs = mset (map (ranked_of z) cs) \<and>
    sorted_wrt (\<lambda>x y. rk_score y < rk_score x \<or> (rk_score x = rk_score y \<and> pr_peer_id (rk_relay x) < pr_peer_id (rk_relay y))) rs \<and>
    (\<forall>c \<in> set cs. rankable a z u p c)"
proof -
  have set: "set cs' = set cs" using assms(2) by (rule mset_eq_setD)
  from assms(1) have ok: "candidate_policy_validate p = Inr ()" "auth_validate a u = Inr ()" "au_current_epoch z = as_current_epoch a"
    and each: "\<forall>c \<in> set cs. rankable a z u p c" "distinct (map (pr_peer_id \<circ> rc_relay) cs)" "cs \<noteq> []"
    and rs: "rs = sort_by compare_ranked (map (ranked_of z) cs)"
    by (simp_all add: rank_ok)
  have dist: "distinct (map (pr_peer_id \<circ> rk_relay) (map (ranked_of z) cs))" using each(2) by (simp add: ranked_of_def comp_def)
  then have inj: "inj_on ranked_relay_key (set (map (ranked_of z) cs))"
    by (auto simp: distinct_map inj_on_def ranked_relay_key_def)
  have sort: "sort_by compare_ranked xs = sort_key ranked_relay_key xs" for xs by (intro sort_by_key compare_ranked_key)
  have "distinct (map (pr_peer_id \<circ> rc_relay) cs')" using each(2) assms(2) by (metis mset_map mset_eq_imp_distinct_iff)
  moreover have "sort_by compare_ranked (map (ranked_of z) cs') = rs"
    unfolding rs sort using assms(2) inj set by (intro sort_key_inj_key_eq) simp_all
  ultimately have "rank_relay_candidates a z u p cs' = Inr rs"
    using ok each(1,3) set assms(2) by (auto simp: rank_ok)
  moreover have strictly: "rk_score y < rk_score x \<or> (rk_score x = rk_score y \<and> pr_peer_id (rk_relay x) < pr_peer_id (rk_relay y))"
    if "ranked_relay_key x \<le> ranked_relay_key y" "pr_peer_id (rk_relay x) \<noteq> pr_peer_id (rk_relay y)" for x y
    using that by (auto simp: ranked_relay_key_def less_eq_prod_def less_prod_def)
  moreover have "sorted_wrt (\<lambda>x y. rk_score y < rk_score x \<or> (rk_score x = rk_score y \<and> pr_peer_id (rk_relay x) < pr_peer_id (rk_relay y))) rs"
  proof -
    have "sorted (map ranked_relay_key rs)" unfolding rs sort by simp
    moreover have "distinct (map (pr_peer_id \<circ> rk_relay) rs)"
      using dist by (metis mset_map mset_eq_imp_distinct_iff mset_sort_by rs)
    ultimately show ?thesis
      using strictly by (simp add: sorted_wrt_iff_nth_less distinct_conv_nth)
  qed
  moreover have "mset rs = mset (map (ranked_of z) cs)" using rs by simp
  ultimately show ?thesis using each(1) by blast
qed

section \<open>Redelivery\<close>

text \<open>Evidence of an attempt for the same protected frame.\<close>

definition attempt_of :: "overlay_frame \<Rightarrow> attempt_evidence \<Rightarrow> bool" where
  "attempt_of f t \<longleftrightarrow> ev_ack_id t = od_ack_id (of_delivery f) \<and> ev_loop_id t = or_loop_id (of_route f) \<and> ev_sequence t = op_sequence (of_payload f)"

lemma stale_replay_ok:
  "reject_stale_replay f n ts = Inr () \<Longrightarrow> t \<in> set ts \<Longrightarrow> attempt_of f t \<Longrightarrow> ev_status t \<noteq> Acked \<and> ev_attempt_number t < n"
  by (induction ts) (auto simp: and_then_Inr attempt_of_def split: if_splits)

lemma failed_ids_ok:
  "failed_relay_ids a i acc xs = Inr (ids, within) \<Longrightarrow>
     (bs_member ids k \<longleftrightarrow> bs_member (fst acc) k \<or> k \<in> (pr_peer_id \<circ> rf_relay) ` set xs) \<and>
     (within \<longleftrightarrow> snd acc \<and> (\<forall>x \<in> set xs. fi_now_ms i - rf_observed_at_ms x \<le> fi_target_reroute_ms i)) \<and>
     (\<forall>x \<in> set xs. current_peer a (rf_relay x) \<and> tt_created_at_ms (or_ttl (of_route (fi_frame i))) \<le> rf_observed_at_ms x \<and> rf_observed_at_ms x \<le> fi_now_ms i)"
proof (induction xs arbitrary: acc)
  case (Cons x xs)
  from Cons.prems have step: "current_peer a (rf_relay x)" "tt_created_at_ms (or_ttl (of_route (fi_frame i))) \<le> rf_observed_at_ms x"
    "rf_observed_at_ms x \<le> fi_now_ms i"
    and rest: "failed_relay_ids a i (bs_insert (pr_peer_id (rf_relay x)) (fst acc),
      snd acc \<and> \<not> fi_target_reroute_ms i < fi_now_ms i - rf_observed_at_ms x) xs = Inr (ids, within)"
    by (auto simp: and_then_Inr ref_ok split: if_splits)
  from Cons.IH[OF rest] step show ?case by auto
qed auto

text \<open>The relay of a selected route, if it has one.\<close>

fun selected_relay :: "selected_overlay_route \<Rightarrow> peer_ref option" where
  "selected_relay (SelectedPeerAssisted relay g score e) = Some relay"
| "selected_relay _ = None"

lemma selected_relay_ranked:
  assumes "select_peer_overlay_route a u pol i = Inr sel" and "selected_relay (sl_selected sel) = Some relay"
  shows "\<exists>rk rest. si_ranked_relays i = rk # rest \<and> rk_relay rk = relay"
  using select_origin[OF assms(1)] assms(2)
  by (auto simp: peer_relay_ok configured_turn_cases route_selection_result_def)

definition rerouted_frame :: "overlay_frame \<Rightarrow> peer_ref \<Rightarrow> overlay_frame" where
  "rerouted_frame f relay = f\<lparr>of_route := (of_route f)\<lparr>or_relay_path := [relay]\<rparr>, of_carrier := PeerAssistedOverlay\<rparr>"

lemma failover_unfold:
  assumes "plan_redelivery_failover a z pol fpol i = Inr fo"
  defines "f \<equiv> fi_frame i"
  obtains failed where
    "validate_relay_authorized a z f = Inr (map (grant_of z) (or_relay_path (of_route f)))" "od_ack_mode (of_delivery f) = AckRequired"
    "0 < fi_next_attempt_number i" "fi_next_attempt_number i \<le> rl_max_attempts (od_redelivery (of_delivery f))"
    "fi_now_ms i \<le> rl_deadline_ms (od_redelivery (of_delivery f))" "fi_now_ms i \<le> tt_expires_at_ms (or_ttl (of_route f))"
    "reject_stale_replay f (fi_next_attempt_number i) (fi_prior_attempts i) = Inr ()"
    "failed_relay_ids a i (bs_of_list [], True) (fi_failed_relays i) = Inr (failed, True)" "fi_failed_relays i \<noteq> []"
    "select_peer_overlay_route a (of_auth f) pol
       \<lparr>si_source = or_source (of_route f), si_destination = or_destination (of_route f),
        si_direct_pair = fi_direct_pair i, si_configured_turn_pair = fi_configured_turn_pair i,
        si_ranked_relays = filter (\<lambda>r. \<not> bs_member failed (pr_peer_id (rk_relay r))) (fi_ranked_relays i),
        si_relay_routes = filter (\<lambda>r. \<not> bs_member failed (pr_peer_id (re_relay r))) (fi_relay_routes i)\<rparr> = Inr (fo_route_selection fo)"
    "case selected_relay (sl_selected (fo_route_selection fo)) of
       None \<Rightarrow> fo_forwarding_plan fo = None
     | Some relay \<Rightarrow> \<exists>pl. build_forwarding_plan a z fpol (rerouted_frame f relay) = Inr pl \<and> fo_forwarding_plan fo = Some pl"
    "fo_attempt_number fo = fi_next_attempt_number i" "fo_preserved_ack_id fo = od_ack_id (of_delivery f)"
    "fo_preserved_loop_id fo = or_loop_id (of_route f)" "fo_preserved_sequence fo = op_sequence (of_payload f)"
    "fo_preserved_payload_kind fo = op_kind (of_payload f)" "\<not> fo_provider_application_relay_used fo"
proof -
  from assms(1) obtain gs failed fw sel where main:
    "validate_relay_authorized a z f = Inr gs" "od_ack_mode (of_delivery f) = AckRequired"
    "0 < fi_next_attempt_number i" "fi_next_attempt_number i \<le> rl_max_attempts (od_redelivery (of_delivery f))"
    "fi_now_ms i \<le> rl_deadline_ms (od_redelivery (of_delivery f))" "fi_now_ms i \<le> tt_expires_at_ms (or_ttl (of_route f))"
    "reject_stale_replay f (fi_next_attempt_number i) (fi_prior_attempts i) = Inr ()"
    "failed_relay_ids a i (bs_of_list [], True) (fi_failed_relays i) = Inr (failed, True)" "fi_failed_relays i \<noteq> []"
    and sel: "select_peer_overlay_route a (of_auth f) pol
       \<lparr>si_source = or_source (of_route f), si_destination = or_destination (of_route f),
        si_direct_pair = fi_direct_pair i, si_configured_turn_pair = fi_configured_turn_pair i,
        si_ranked_relays = filter (\<lambda>r. \<not> bs_member failed (pr_peer_id (rk_relay r))) (fi_ranked_relays i),
        si_relay_routes = filter (\<lambda>r. \<not> bs_member failed (pr_peer_id (re_relay r))) (fi_relay_routes i)\<rparr> = Inr sel"
    and fw: "(case sl_selected sel of
        SelectedPeerAssisted relay _ _ _ \<Rightarrow> and_then (build_forwarding_plan a z fpol (rerouted_frame f relay)) (\<lambda>pl. Inr (Some pl))
      | SelectedDirectWebRtc e \<Rightarrow> and_then (carrier_validate (le_carrier e)) (\<lambda>_. Inr None)
      | SelectedConfiguredTurn e \<Rightarrow> and_then (carrier_validate (le_carrier e)) (\<lambda>_. Inr None)) = Inr fw"
    and fo: "fo_attempt_number fo = fi_next_attempt_number i" "fo_route_selection fo = sel" "fo_forwarding_plan fo = fw"
      "fo_preserved_ack_id fo = od_ack_id (of_delivery f)" "fo_preserved_loop_id fo = or_loop_id (of_route f)"
      "fo_preserved_sequence fo = op_sequence (of_payload f)" "fo_preserved_payload_kind fo = op_kind (of_payload f)"
      "\<not> fo_provider_application_relay_used fo"
    unfolding plan_redelivery_failover_def rerouted_frame_def f_def
    by (auto simp: Let_def and_then_Inr split: if_splits)
  have gs: "gs = map (grant_of z) (or_relay_path (of_route f))" using main(1) by (simp add: relay_authorized_ok)
  have fwd: "case selected_relay (sl_selected (fo_route_selection fo)) of None \<Rightarrow> fo_forwarding_plan fo = None
     | Some relay \<Rightarrow> \<exists>pl. build_forwarding_plan a z fpol (rerouted_frame f relay) = Inr pl \<and> fo_forwarding_plan fo = Some pl"
    using fw fo(2,3) by (auto simp: and_then_Inr split: selected_overlay_route.splits)
  show thesis by (rule that[of failed]) (use main sel gs fwd fo in simp_all)
qed

text \<open>
  C16: A redelivery after relay failures preserves the protected frame's identity, uses none of the failed relays, and goes over a relay only with a complete
  forwarding plan over exactly that relay. It is granted only within the retry budget and the deadline, for fresh failure evidence that is within the reroute
  target, and never when an attempt of this frame with the same or a later number was made or one was acknowledged.
\<close>

theorem failover_safe:
  assumes "plan_redelivery_failover a z pol fpol i = Inr fo"
  shows "(\<forall>relay. selected_relay (sl_selected (fo_route_selection fo)) = Some relay \<longrightarrow>
      (\<forall>x \<in> set (fi_failed_relays i). pr_peer_id (rf_relay x) \<noteq> pr_peer_id relay) \<and>
      (\<exists>pl. build_forwarding_plan a z fpol (rerouted_frame (fi_frame i) relay) = Inr pl \<and> fo_forwarding_plan fo = Some pl \<and>
        map (\<lambda>h. (fh_from h, fh_to h)) (fw_hops pl) =
          [(or_source (of_route (fi_frame i)), relay), (relay, or_destination (of_route (fi_frame i)))])) \<and>
    fo_preserved_ack_id fo = od_ack_id (of_delivery (fi_frame i)) \<and> fo_preserved_loop_id fo = or_loop_id (of_route (fi_frame i)) \<and>
    fo_preserved_sequence fo = op_sequence (of_payload (fi_frame i)) \<and>
    0 < fo_attempt_number fo \<and> fo_attempt_number fo \<le> rl_max_attempts (od_redelivery (of_delivery (fi_frame i))) \<and>
    fi_now_ms i \<le> rl_deadline_ms (od_redelivery (of_delivery (fi_frame i))) \<and>
    (\<forall>x \<in> set (fi_failed_relays i). rf_observed_at_ms x \<le> fi_now_ms i \<and> fi_now_ms i - rf_observed_at_ms x \<le> fi_target_reroute_ms i) \<and>
    (\<forall>t \<in> set (fi_prior_attempts i). attempt_of (fi_frame i) t \<longrightarrow> ev_status t \<noteq> Acked \<and> ev_attempt_number t < fo_attempt_number fo)"
proof -
  obtain failed where ids: "failed_relay_ids a i (bs_of_list [], True) (fi_failed_relays i) = Inr (failed, True)"
    and sel: "select_peer_overlay_route a (of_auth (fi_frame i)) pol
       \<lparr>si_source = or_source (of_route (fi_frame i)), si_destination = or_destination (of_route (fi_frame i)),
        si_direct_pair = fi_direct_pair i, si_configured_turn_pair = fi_configured_turn_pair i,
        si_ranked_relays = filter (\<lambda>r. \<not> bs_member failed (pr_peer_id (rk_relay r))) (fi_ranked_relays i),
        si_relay_routes = filter (\<lambda>r. \<not> bs_member failed (pr_peer_id (re_relay r))) (fi_relay_routes i)\<rparr> = Inr (fo_route_selection fo)"
    and fwd: "case selected_relay (sl_selected (fo_route_selection fo)) of
       None \<Rightarrow> fo_forwarding_plan fo = None
     | Some relay \<Rightarrow> \<exists>pl. build_forwarding_plan a z fpol (rerouted_frame (fi_frame i) relay) = Inr pl \<and> fo_forwarding_plan fo = Some pl"
    and stale: "reject_stale_replay (fi_frame i) (fi_next_attempt_number i) (fi_prior_attempts i) = Inr ()"
    and rest: "0 < fi_next_attempt_number i" "fi_next_attempt_number i \<le> rl_max_attempts (od_redelivery (of_delivery (fi_frame i)))"
      "fi_now_ms i \<le> rl_deadline_ms (od_redelivery (of_delivery (fi_frame i)))"
      "fo_attempt_number fo = fi_next_attempt_number i" "fo_preserved_ack_id fo = od_ack_id (of_delivery (fi_frame i))"
      "fo_preserved_loop_id fo = or_loop_id (of_route (fi_frame i))" "fo_preserved_sequence fo = op_sequence (of_payload (fi_frame i))"
    by (rule failover_unfold[OF assms]) blast
  have relay: "(\<forall>x \<in> set (fi_failed_relays i). pr_peer_id (rf_relay x) \<noteq> pr_peer_id relay) \<and>
      (\<exists>pl. build_forwarding_plan a z fpol (rerouted_frame (fi_frame i) relay) = Inr pl \<and> fo_forwarding_plan fo = Some pl \<and>
        map (\<lambda>h. (fh_from h, fh_to h)) (fw_hops pl) =
          [(or_source (of_route (fi_frame i)), relay), (relay, or_destination (of_route (fi_frame i)))])"
    if sr: "selected_relay (sl_selected (fo_route_selection fo)) = Some relay" for relay
  proof
    from selected_relay_ranked[OF sel sr] obtain rk rest where
      "filter (\<lambda>r. \<not> bs_member failed (pr_peer_id (rk_relay r))) (fi_ranked_relays i) = rk # rest" "rk_relay rk = relay" by auto
    then have "\<not> bs_member failed (pr_peer_id relay)" by (auto simp: filter_eq_Cons_iff)
    with failed_ids_ok[OF ids, of "pr_peer_id relay"] show "\<forall>x \<in> set (fi_failed_relays i). pr_peer_id (rf_relay x) \<noteq> pr_peer_id relay"
      by (force simp: image_iff)
    from fwd sr obtain pl where pl: "build_forwarding_plan a z fpol (rerouted_frame (fi_frame i) relay) = Inr pl" "fo_forwarding_plan fo = Some pl"
      by auto
    from pl(1) have "fw_hops pl = map (forwarding_hop (rerouted_frame (fi_frame i) relay)) [0..<Suc (Suc 0)]"
      unfolding build_plan_exact by (simp add: rerouted_frame_def)
    then have "map (\<lambda>h. (fh_from h, fh_to h)) (fw_hops pl) =
      [(or_source (of_route (fi_frame i)), relay), (relay, or_destination (of_route (fi_frame i)))]"
      by (simp add: forwarding_hop_def rerouted_frame_def)
    with pl show "\<exists>pl. build_forwarding_plan a z fpol (rerouted_frame (fi_frame i) relay) = Inr pl \<and> fo_forwarding_plan fo = Some pl \<and>
        map (\<lambda>h. (fh_from h, fh_to h)) (fw_hops pl) =
          [(or_source (of_route (fi_frame i)), relay), (relay, or_destination (of_route (fi_frame i)))]" by (intro exI[of _ pl] conjI)
  qed
  have fresh: "\<forall>x \<in> set (fi_failed_relays i). rf_observed_at_ms x \<le> fi_now_ms i \<and> fi_now_ms i - rf_observed_at_ms x \<le> fi_target_reroute_ms i"
    using failed_ids_ok[OF ids] by simp
  have "\<forall>t \<in> set (fi_prior_attempts i). attempt_of (fi_frame i) t \<longrightarrow> ev_status t \<noteq> Acked \<and> ev_attempt_number t < fo_attempt_number fo"
    using stale_replay_ok[OF stale] rest(4) by simp
  with relay fresh rest show ?thesis by simp
qed

text \<open>
  The attempts that a sender makes for one frame when it presents all earlier ones as evidence; between attempts the status
  of an earlier one may change. Membership, authority and policies may differ from attempt to attempt.
\<close>

definition attempt_record :: "failover_plan \<Rightarrow> attempt_status \<Rightarrow> attempt_evidence" where
  "attempt_record fo st = \<lparr>ev_ack_id = fo_preserved_ack_id fo, ev_loop_id = fo_preserved_loop_id fo, ev_sequence = fo_preserved_sequence fo,
     ev_attempt_number = fo_attempt_number fo, ev_status = st\<rparr>"

inductive redelivery_run :: "overlay_frame \<Rightarrow> attempt_evidence list \<Rightarrow> bool" for f where
  untried: "redelivery_run f []"
| attempt: "redelivery_run f ts \<Longrightarrow> fi_frame i = f \<Longrightarrow> set ts \<subseteq> set (fi_prior_attempts i) \<Longrightarrow>
    plan_redelivery_failover a z pol fpol i = Inr fo \<Longrightarrow> redelivery_run f (attempt_record fo InFlight # ts)"
| settle: "redelivery_run f (ts @ t # us) \<Longrightarrow> redelivery_run f (ts @ t\<lparr>ev_status := st\<rparr> # us)"

lemma failover_attempt:
  assumes "plan_redelivery_failover a z pol fpol i = Inr fo"
  shows "attempt_of (fi_frame i) (attempt_record fo st)"
    and "0 < fo_attempt_number fo" and "fo_attempt_number fo \<le> rl_max_attempts (od_redelivery (of_delivery (fi_frame i)))"
    and "t \<in> set (fi_prior_attempts i) \<Longrightarrow> attempt_of (fi_frame i) t \<Longrightarrow> ev_status t \<noteq> Acked \<and> ev_attempt_number t < fo_attempt_number fo"
proof -
  obtain failed where stale: "reject_stale_replay (fi_frame i) (fi_next_attempt_number i) (fi_prior_attempts i) = Inr ()"
    and rest: "0 < fi_next_attempt_number i" "fi_next_attempt_number i \<le> rl_max_attempts (od_redelivery (of_delivery (fi_frame i)))"
      "fo_attempt_number fo = fi_next_attempt_number i" "fo_preserved_ack_id fo = od_ack_id (of_delivery (fi_frame i))"
      "fo_preserved_loop_id fo = or_loop_id (of_route (fi_frame i))" "fo_preserved_sequence fo = op_sequence (of_payload (fi_frame i))"
    by (rule failover_unfold[OF assms]) blast
  from rest show "attempt_of (fi_frame i) (attempt_record fo st)" "0 < fo_attempt_number fo"
    "fo_attempt_number fo \<le> rl_max_attempts (od_redelivery (of_delivery (fi_frame i)))"
    by (simp_all add: attempt_of_def attempt_record_def)
  show "ev_status t \<noteq> Acked \<and> ev_attempt_number t < fo_attempt_number fo" if "t \<in> set (fi_prior_attempts i)" "attempt_of (fi_frame i) t"
    using stale_replay_ok[OF stale that] rest(3) by simp
qed

lemma redelivery_run_numbers:
  "redelivery_run f ts \<Longrightarrow> sorted_wrt (>) (map ev_attempt_number ts) \<and>
     (\<forall>t \<in> set ts. attempt_of f t \<and> 0 < ev_attempt_number t \<and> ev_attempt_number t \<le> rl_max_attempts (od_redelivery (of_delivery f)))"
proof (induction rule: redelivery_run.induct)
  case (attempt ts i a z pol fpol fo)
  note fa = failover_attempt[OF attempt.hyps(4), unfolded attempt.hyps(2)]
  have "\<forall>t \<in> set ts. ev_attempt_number t < fo_attempt_number fo" using attempt.IH attempt.hyps(3) fa(4) by auto
  moreover have "ev_attempt_number (attempt_record fo InFlight) = fo_attempt_number fo" by (simp add: attempt_record_def)
  ultimately show ?case using attempt.IH fa(1-3) by auto
qed (auto simp: attempt_of_def)

text \<open>
  C37: A sender that presents its earlier attempts makes at most \<open>max_attempts\<close> redeliveries of a frame, numbered strictly upwards, whatever happens to membership,
  authority, evidence and policy in between; and once any of them is acknowledged no further redelivery of the frame is planned.
\<close>

theorem redelivery_attempts_bounded:
  assumes "redelivery_run f ts"
  shows "length ts \<le> rl_max_attempts (od_redelivery (of_delivery f)) \<and> sorted_wrt (>) (map ev_attempt_number ts) \<and>
    (\<forall>t i a z pol fpol fo. t \<in> set ts \<longrightarrow> ev_status t = Acked \<longrightarrow> fi_frame i = f \<longrightarrow> set ts \<subseteq> set (fi_prior_attempts i) \<longrightarrow>
      plan_redelivery_failover a z pol fpol i \<noteq> Inr fo)"
proof -
  let ?max = "rl_max_attempts (od_redelivery (of_delivery f))" and ?ns = "map ev_attempt_number ts"
  note run = redelivery_run_numbers[OF assms]
  have "sorted_wrt (<) (rev ?ns)" using run unfolding sorted_wrt_rev by simp
  then have "distinct ?ns" by (simp only: strict_sorted_iff distinct_rev)
  then have "length ts = card (set ?ns)" by (metis distinct_card length_map)
  also have "\<dots> \<le> card {1..?max}" using run by (intro card_mono) auto
  finally have "length ts \<le> ?max" by simp
  moreover have "plan_redelivery_failover a z pol fpol i \<noteq> Inr fo"
    if t: "t \<in> set ts" "ev_status t = Acked" "fi_frame i = f" "set ts \<subseteq> set (fi_prior_attempts i)" for t i a z pol fpol fo
    using failover_attempt(4)[of a z pol fpol i fo t] run t by auto
  ultimately show ?thesis using run by blast
qed

section \<open>Examples\<close>

definition demo_ref :: "string \<Rightarrow> peer_ref" where
  "demo_ref n = \<lparr>pr_peer_id = n, pr_member_id = n, pr_device_id = ''d'', pr_epoch = 2\<rparr>"

definition demo_revocation :: revocation_input where
  "demo_revocation = \<lparr>ri_source = OpenMlsCurrentEpoch, ri_current_epoch = 2, ri_group_id_commitment = replicate 32 1,
     ri_confirmation_tag_commitment = replicate 32 2, ri_remaining_admitted = map demo_ref [''a'', ''b'', ''r'', ''s''],
     ri_revoked_peers = [(demo_ref ''x'')\<lparr>pr_epoch := 1\<rparr>], ri_authorized_relays = map demo_ref [''r'', ''s'']\<rparr>"

definition demo_state :: revocation_state where
  "demo_state = (case build_revocation_state demo_revocation of Inr st \<Rightarrow> st | Inl _ \<Rightarrow> undefined)"

lemma demo_state_built: "build_revocation_state demo_revocation = Inr demo_state"
proof -
  have "is_ok (build_revocation_state demo_revocation)" by code_simp
  then show ?thesis by (auto simp: demo_state_def is_ok_def split: sum.splits)
qed

definition demo_auth :: overlay_auth where
  "demo_auth = \<lparr>oa_group_id_commitment = replicate 32 1, oa_epoch = 2, oa_sender_leaf_index = 0,
     oa_confirmation_tag_commitment = replicate 32 2, oa_frame_auth_tag = replicate 16 3\<rparr>"

definition demo_overlay_frame :: overlay_frame where
  "demo_overlay_frame = overlay_frame_new PeerAssistedOverlay
     \<lparr>or_source = demo_ref ''a'', or_relay_path = [demo_ref ''r''], or_destination = demo_ref ''b'',
      or_ttl = \<lparr>tt_remaining_hops = 2, tt_created_at_ms = 0, tt_expires_at_ms = 100\<rparr>, or_loop_id = replicate 16 4\<rparr>
     demo_auth
     \<lparr>od_ack_id = replicate 16 5, od_ack_mode = AckRequired,
      od_redelivery = \<lparr>rl_max_attempts = 2, rl_max_relay_fanout = 1, rl_deadline_ms = 90\<rparr>\<rparr>
     \<lparr>op_kind = TextControl, op_key_id = [1], op_sequence = 7, op_aad_commitment = replicate 32 6, op_opaque_ciphertext = [9]\<rparr>"


definition demo_candidate :: "string \<Rightarrow> nat \<Rightarrow> relay_candidate" where
  "demo_candidate n latency = \<lparr>rc_relay = demo_ref n,
     rc_diagnostics = \<lparr>cd_latency_ms = latency, cd_successful_health_probes = 1, cd_failed_health_probes = 0, cd_egress_capacity = 4096,
       cd_current_load = 0, cd_energy_cost_bps = 0, cd_freeload_penalty_bps = 0\<rparr>\<rparr>"

abbreviation demo_rank :: "relay_candidate list \<Rightarrow> transport_error + ranked_relay list" where
  "demo_rank \<equiv> rank_relay_candidates (rv_admitted demo_state) (rv_relay_authority demo_state) demo_auth candidate_policy_default"

theorem ranking_order_independent_witness:
  "is_ok (demo_rank [demo_candidate ''r'' 20, demo_candidate ''s'' 10]) \<and>
   demo_rank [demo_candidate ''s'' 10, demo_candidate ''r'' 20] = demo_rank [demo_candidate ''r'' 20, demo_candidate ''s'' 10]"
proof -
  have peers: "current_peer (rv_admitted demo_state) (demo_ref ''r'')" "current_peer (rv_admitted demo_state) (demo_ref ''s'')"
    "bt_get (au_authorized_relays (rv_relay_authority demo_state)) ''r'' = Some (demo_ref ''r'')"
    "bt_get (au_authorized_relays (rv_relay_authority demo_state)) ''s'' = Some (demo_ref ''s'')"
    "authority_matches (rv_relay_authority demo_state) demo_auth" "auth_validate (rv_admitted demo_state) demo_auth = Inr ()"
    "au_current_epoch (rv_relay_authority demo_state) = as_current_epoch (rv_admitted demo_state)"
    by code_simp+
  have "rankable (rv_admitted demo_state) (rv_relay_authority demo_state) demo_auth candidate_policy_default (demo_candidate n l)"
    if "n \<in> {''r'', ''s''}" for n l
    using that peers by (auto simp: rankable_def demo_candidate_def diagnostics_validate_def stability_bps_def sat_mul32_def sat_add32_def
        candidate_policy_default_def demo_ref_def)
  with peers(6,7) have ok: "is_ok (demo_rank [demo_candidate ''r'' 20, demo_candidate ''s'' 10])"
    by (auto simp: is_ok_iff rank_ok candidate_policy_validate_def candidate_policy_default_def carrier_validate_def and_then_Inr
        demo_candidate_def demo_ref_def)
  then obtain rs where rs: "demo_rank [demo_candidate ''r'' 20, demo_candidate ''s'' 10] = Inr rs" by (auto simp: is_ok_iff)
  from ranking_order_independent[OF rs, of "[demo_candidate ''s'' 10, demo_candidate ''r'' 20]"] rs ok show ?thesis by simp
qed

definition demo_leg :: "string \<Rightarrow> string \<Rightarrow> leg_evidence" where
  "demo_leg x y = \<lparr>le_from = demo_ref x, le_to = demo_ref y, le_carrier = DirectWebRtcDataChannel, le_route_label = ''leg'', le_live = True\<rparr>"

definition demo_failover :: failover_input where
  "demo_failover = \<lparr>fi_frame = demo_overlay_frame,
     fi_failed_relays = [\<lparr>rf_relay = demo_ref ''r'', rf_observed_at_ms = 5, rf_route_label = ''leg''\<rparr>],
     fi_direct_pair = None, fi_configured_turn_pair = None,
     fi_ranked_relays = map (\<lambda>n. \<lparr>rk_relay = demo_ref n, rk_authorization = grant_of (rv_relay_authority demo_state) (demo_ref n),
       rk_score = 0, rk_diagnostics = rc_diagnostics (demo_candidate n 1)\<rparr>) [''r'', ''s''],
     fi_relay_routes = [\<lparr>re_relay = demo_ref ''s'', re_source_to_relay = demo_leg ''a'' ''s'', re_relay_to_destination = demo_leg ''s'' ''b''\<rparr>],
     fi_prior_attempts = [], fi_next_attempt_number = 1, fi_now_ms = 10, fi_target_reroute_ms = 8\<rparr>"

abbreviation demo_plan_failover :: "transport_error + failover_plan" where
  "demo_plan_failover \<equiv> plan_redelivery_failover (rv_admitted demo_state) (rv_relay_authority demo_state)
     \<lparr>sp_configured_turn_order = BeforePeerRelay\<rparr> \<lparr>fp_carrier = PeerAssistedOverlay, fp_forbidden_markers = [[8, 8]]\<rparr> demo_failover"

lemma demo_plan_failover_ok:
  obtains fo where "demo_plan_failover = Inr fo" "selected_relay (sl_selected (fo_route_selection fo)) = Some (demo_ref ''s'')"
proof -
  have "case demo_plan_failover of Inr fo \<Rightarrow> selected_relay (sl_selected (fo_route_selection fo)) = Some (demo_ref ''s'') | Inl _ \<Rightarrow> False"
    by code_simp
  then show thesis by (auto split: sum.splits intro: that)
qed

theorem failover_safe_witness:
  "\<exists>fo pl. demo_plan_failover = Inr fo \<and> fo_forwarding_plan fo = Some pl \<and>
     map (\<lambda>h. (fh_from h, fh_to h)) (fw_hops pl) = [(demo_ref ''a'', demo_ref ''s''), (demo_ref ''s'', demo_ref ''b'')]"
proof -
  obtain fo where fo: "demo_plan_failover = Inr fo" "selected_relay (sl_selected (fo_route_selection fo)) = Some (demo_ref ''s'')"
    by (rule demo_plan_failover_ok)
  have "or_source (of_route (fi_frame demo_failover)) = demo_ref ''a''" "or_destination (of_route (fi_frame demo_failover)) = demo_ref ''b''"
    by (simp_all add: demo_failover_def demo_overlay_frame_def overlay_frame_new_def)
  with failover_safe[OF fo(1)] fo show ?thesis by auto
qed

theorem redelivery_attempts_bounded_witness:
  "\<exists>t. redelivery_run demo_overlay_frame [t] \<and> length [t] \<le> rl_max_attempts (od_redelivery (of_delivery demo_overlay_frame))"
proof -
  obtain fo where fo: "demo_plan_failover = Inr fo" by (rule demo_plan_failover_ok)
  have "redelivery_run demo_overlay_frame [attempt_record fo InFlight]"
    by (rule redelivery_run.attempt[OF redelivery_run.untried _ _ fo]) (simp_all add: demo_failover_def)
  with redelivery_attempts_bounded[OF this] show ?thesis by blast
qed

section \<open>Limits of the code\<close>

text \<open>The product of the probe count saturates at \<open>u32::MAX\<close>, so a relay that answered a million probes without a failure is rated below half.\<close>

lemma stability_saturates:
  "stability_bps \<lparr>cd_latency_ms = 1, cd_successful_health_probes = 1000000, cd_failed_health_probes = 0, cd_egress_capacity = 4096,
     cd_current_load = 0, cd_energy_cost_bps = 0, cd_freeload_penalty_bps = 0\<rparr> = 4294"
  by (simp add: stability_bps_def sat_mul32_def sat_add32_def)

text \<open>With TURN after the peer relay, the reported attempts omit the relay that was considered first.\<close>

lemma after_order_omits_relay_attempt:
  assumes "selectable a u i" and "si_direct_pair i = None" and "si_ranked_relays i = []" and "si_configured_turn_pair i = Some e"
    and "live_leg a (si_source i) (si_destination i) {ConfiguredTurnBackedWebRtc} e" and "sp_configured_turn_order pol = AfterPeerRelay"
  shows "\<exists>sel. select_peer_overlay_route a u pol i = Inr sel \<and>
    map at_carrier (sl_attempts sel) = [DirectWebRtcDataChannel, ConfiguredTurnBackedWebRtc]"
  unfolding select_unfold Let_def configured_turn_cases(1)
  using assms by (auto simp: route_selection_result_def)

end
