(* ===== verification/History_Sync.thy ===== *)
theory History_Sync
  imports Peer_Overlay Storage
begin

text \<open>
  Ciphertext history sync (\<open>crates/transport/src/history_sync.rs\<close>): the policy of one sync window, plans built from selected overlay routes, the
  bounded queue for offline recipients and the application of a plan to the recipient's author log. It composes route selection
  (\<open>Peer_Overlay\<close>) with the atomic merge of author logs (\<open>Storage\<close>). Draining returns the queue, the recipient's store and the result, since a
  failure leaves the plans that were already applied in the store. Shown: history that is queued for an offline recipient reaches its log exactly once it
  reconnects; the queue stays bounded, and only entries that the policy at the time of the drain allows ever enter a log.
\<close>

section \<open>Policy and plans\<close>

record history_sync_policy =
  hp_current_epoch :: nat
  hp_recipients :: "string btreeset"
  hp_author_leaves :: "nat btreeset"
  hp_retention_window_ms :: nat
  hp_now_ms :: nat

definition history_policy_new :: "nat \<Rightarrow> string list \<Rightarrow> nat list \<Rightarrow> nat \<Rightarrow> nat \<Rightarrow> history_sync_policy" where
  "history_policy_new epoch recipients leaves window now =
     \<lparr>hp_current_epoch = epoch, hp_recipients = bs_of_list recipients, hp_author_leaves = bs_of_list leaves,
      hp_retention_window_ms = max window 1, hp_now_ms = now\<rparr>"

record history_sync_item =
  hi_entry :: author_log_entry
  hi_created_at_ms :: nat

datatype history_route_kind = RouteDirectWebRtc | RouteConfiguredTurn | RoutePeerAssisted

record history_sync_plan =
  hs_recipient_member_id :: string
  hs_route_kind :: history_route_kind
  hs_items :: "history_sync_item list"
  hs_provider_application_relay_used :: bool
  hs_ciphertext_only :: bool
  hs_limitation :: string

definition plan_entries :: "history_sync_plan \<Rightarrow> author_log_entry list" where
  "plan_entries p = map hi_entry (hs_items p)"

abbreviation history_sync_error :: "string \<Rightarrow> transport_error + 'a" where
  "history_sync_error m \<equiv> Inl (InvalidConnectivityPolicy m)"

definition history_validate_label :: "string \<Rightarrow> string \<Rightarrow> transport_error + unit" where
  "history_validate_label v label =
     (if blank v \<or> trim v \<noteq> v \<or> 128 < length v
      then history_sync_error (label @ '' must be non-empty trimmed text up to 128 bytes'') else Inr ())"

definition validate_recipient :: "history_sync_policy \<Rightarrow> string \<Rightarrow> transport_error + unit" where
  "validate_recipient pol recipient =
     and_then (history_validate_label recipient ''history sync recipient member id'') (\<lambda>_.
       if \<not> bs_member (hp_recipients pol) recipient
       then history_sync_error ''history sync recipient is not authorized in current membership'' else Inr ())"

definition validate_entry :: "history_sync_policy \<Rightarrow> history_sync_item \<Rightarrow> transport_error + unit" where
  "validate_entry pol item =
     (if \<not> bs_member (hp_author_leaves pol) (ae_author_leaf (hi_entry item))
      then history_sync_error ''history sync author leaf is not authorized for this group''
      else if ae_epoch (hi_entry item) = 0 \<or> hp_current_epoch pol < ae_epoch (hi_entry item)
      then history_sync_error ''history sync entry epoch is not covered by current membership policy''
      else if ae_ciphertext (hi_entry item) = [] then history_sync_error ''history sync entry ciphertext must not be empty''
      else if hp_now_ms pol < hi_created_at_ms item then history_sync_error ''history sync entry timestamp is in the future''
      else if hp_retention_window_ms pol < hp_now_ms pol - hi_created_at_ms item
      then history_sync_error ''history sync entry is outside retention policy''
      else Inr ())"

definition validate_plan_shape :: "history_sync_plan \<Rightarrow> transport_error + unit" where
  "validate_plan_shape p =
     and_then (history_validate_label (hs_recipient_member_id p) ''history sync recipient member id'') (\<lambda>_.
       if hs_provider_application_relay_used p then history_sync_error ''history sync must not use providers as application relays''
       else if \<not> hs_ciphertext_only p then history_sync_error ''history sync plan must carry ciphertext-only entries''
       else if hs_items p = [] then history_sync_error ''history sync plan requires at least one item''
       else Inr ())"

fun validate_entries :: "history_sync_policy \<Rightarrow> history_sync_item list \<Rightarrow> transport_error + unit" where
  "validate_entries pol [] = Inr ()"
| "validate_entries pol (x # xs) = and_then (validate_entry pol x) (\<lambda>_. validate_entries pol xs)"

fun validate_route_attempts :: "selection_attempt list \<Rightarrow> transport_error + unit" where
  "validate_route_attempts [] = Inr ()"
| "validate_route_attempts (t # ts) =
     and_then (carrier_validate (at_carrier t)) (\<lambda>_.
       if at_carrier t = ProviderApplicationRelay
       then history_sync_error ''history sync route attempts must not include provider application relay''
       else validate_route_attempts ts)"

definition history_route_kind_of :: "route_selection \<Rightarrow> transport_error + history_route_kind" where
  "history_route_kind_of sel =
     (case sl_selected sel of
        SelectedDirectWebRtc e \<Rightarrow> and_then (carrier_validate (le_carrier e)) (\<lambda>_. Inr RouteDirectWebRtc)
      | SelectedConfiguredTurn e \<Rightarrow> and_then (carrier_validate (le_carrier e)) (\<lambda>_. Inr RouteConfiguredTurn)
      | SelectedPeerAssisted _ _ _ _ \<Rightarrow> Inr RoutePeerAssisted)"

definition build_history_sync_plan ::
  "history_sync_policy \<Rightarrow> string \<Rightarrow> route_selection \<Rightarrow> history_sync_item list \<Rightarrow> transport_error + history_sync_plan" where
  "build_history_sync_plan pol recipient sel items =
     and_then (validate_recipient pol recipient) (\<lambda>_. and_then (validate_route_attempts (sl_attempts sel)) (\<lambda>_.
     and_then (history_route_kind_of sel) (\<lambda>kind.
       if items = [] then history_sync_error ''history sync requires at least one ciphertext entry''
       else and_then (validate_entries pol items) (\<lambda>_.
         let plan = \<lparr>hs_recipient_member_id = recipient, hs_route_kind = kind, hs_items = items,
                     hs_provider_application_relay_used = False, hs_ciphertext_only = True,
                     hs_limitation = ''local model history-sync evidence only; not production split-machine delivery proof''\<rparr>
         in and_then (validate_plan_shape plan) (\<lambda>_. Inr plan)))))"

section \<open>Applying a plan\<close>

record history_apply_report =
  hr_plans_applied :: nat
  hr_entries_inserted :: nat
  hr_entries_duplicate :: nat

text \<open>\<open>Display\<close> of the author-log errors.\<close>

fun author_log_error_str :: "author_log_error \<Rightarrow> string" where
  "author_log_error_str EmptyDeviceId = ''author log device id cannot be empty''"
| "author_log_error_str EmptyMessageId = ''author log message id cannot be empty''"
| "author_log_error_str (SequenceFork leaf dev sq) =
     ''author log fork at author '' @ nat_str leaf @ '' device '' @ dev @ '' sequence '' @ nat_str sq"
| "author_log_error_str (MessageIdReused m) = ''author log message id reused at another position: '' @ m"

definition storage_error :: "author_log_error \<Rightarrow> transport_error" where
  "storage_error e = InvalidConnectivityPolicy (''history sync storage merge failed: '' @ author_log_error_str e)"

definition apply_report :: "author_log_merge_report \<Rightarrow> history_apply_report" where
  "apply_report r = \<lparr>hr_plans_applied = 1, hr_entries_inserted = lr_inserted r, hr_entries_duplicate = lr_duplicates r\<rparr>"

definition apply_history_sync_plan ::
  "history_sync_policy \<Rightarrow> history_sync_plan \<Rightarrow> local_store \<Rightarrow> local_store \<times> (transport_error + history_apply_report)" where
  "apply_history_sync_plan pol plan s =
     (case and_then (validate_plan_shape plan) (\<lambda>_. and_then (validate_recipient pol (hs_recipient_member_id plan)) (\<lambda>_.
          validate_entries pol (hs_items plan))) of
        Inl e \<Rightarrow> (s, Inl e)
      | Inr _ \<Rightarrow>
          (case merge_author_logs_atomic s (plan_entries plan) of
             (s', Inl err) \<Rightarrow> (s', Inl (storage_error err))
           | (s', Inr r) \<Rightarrow> (s', Inr (apply_report r))))"

section \<open>The queue\<close>

record history_sync_queue =
  hq_max_pending_plans :: nat
  hq_pending :: "(string, history_sync_plan list) btreemap"

definition history_queue_new :: "nat \<Rightarrow> history_sync_queue" where
  "history_queue_new n = \<lparr>hq_max_pending_plans = max n 1, hq_pending = bt_empty\<rparr>"

definition history_queue_len :: "history_sync_queue \<Rightarrow> nat" where
  "history_queue_len q = sum_list (map length (bt_values (hq_pending q)))"

definition history_queue_is_empty :: "history_sync_queue \<Rightarrow> bool" where
  "history_queue_is_empty q \<longleftrightarrow> bt_len (hq_pending q) = 0"

definition history_enqueue :: "history_sync_queue \<Rightarrow> history_sync_plan \<Rightarrow> transport_error + history_sync_queue" where
  "history_enqueue q plan =
     and_then (validate_plan_shape plan) (\<lambda>_.
       if hq_max_pending_plans q \<le> history_queue_len q then history_sync_error ''history sync queue is full''
       else Inr (q\<lparr>hq_pending := bt_upsert (hs_recipient_member_id plan) [] (\<lambda>ps. ps @ [plan]) (hq_pending q)\<rparr>))"

text \<open>The loop over the pending plans; the first failure ends it.\<close>

fun drain_plans ::
  "history_sync_policy \<Rightarrow> local_store \<Rightarrow> history_apply_report \<Rightarrow> history_sync_plan list \<Rightarrow> local_store \<times> (transport_error + history_apply_report)" where
  "drain_plans pol s report [] = (s, Inr report)"
| "drain_plans pol s report (p # ps) =
     (case apply_history_sync_plan pol p s of
        (s', Inl e) \<Rightarrow> (s', Inl e)
      | (s', Inr applied) \<Rightarrow>
          drain_plans pol s' \<lparr>hr_plans_applied = hr_plans_applied report + hr_plans_applied applied,
            hr_entries_inserted = hr_entries_inserted report + hr_entries_inserted applied,
            hr_entries_duplicate = hr_entries_duplicate report + hr_entries_duplicate applied\<rparr> ps)"

definition drain_authorized_for_recipient ::
  "history_sync_queue \<Rightarrow> string \<Rightarrow> history_sync_policy \<Rightarrow> local_store \<Rightarrow>
   history_sync_queue \<times> local_store \<times> (transport_error + history_apply_report)" where
  "drain_authorized_for_recipient q recipient pol s =
     (case validate_recipient pol recipient of
        Inl e \<Rightarrow> (q, s, Inl e)
      | Inr _ \<Rightarrow>
          (q\<lparr>hq_pending := bt_remove recipient (hq_pending q)\<rparr>,
           drain_plans pol s \<lparr>hr_plans_applied = 0, hr_entries_inserted = 0, hr_entries_duplicate = 0\<rparr>
             (case bt_get (hq_pending q) recipient of None \<Rightarrow> [] | Some ps \<Rightarrow> ps)))"

section \<open>What a plan does\<close>

definition item_allowed :: "history_sync_policy \<Rightarrow> history_sync_item \<Rightarrow> bool" where
  "item_allowed pol x \<longleftrightarrow>
     bs_member (hp_author_leaves pol) (ae_author_leaf (hi_entry x)) \<and> 0 < ae_epoch (hi_entry x) \<and> ae_epoch (hi_entry x) \<le> hp_current_epoch pol \<and>
     ae_ciphertext (hi_entry x) \<noteq> [] \<and> hi_created_at_ms x \<le> hp_now_ms pol \<and> hp_now_ms pol - hi_created_at_ms x \<le> hp_retention_window_ms pol"

definition recipient_allowed :: "history_sync_policy \<Rightarrow> string \<Rightarrow> bool" where
  "recipient_allowed pol r \<longleftrightarrow> proper_label r \<and> bs_member (hp_recipients pol) r"

definition plan_allowed :: "history_sync_policy \<Rightarrow> history_sync_plan \<Rightarrow> bool" where
  "plan_allowed pol p \<longleftrightarrow> recipient_allowed pol (hs_recipient_member_id p) \<and> \<not> hs_provider_application_relay_used p \<and>
     hs_ciphertext_only p \<and> hs_items p \<noteq> [] \<and> (\<forall>x \<in> set (hs_items p). item_allowed pol x)"

lemma history_label_ok: "history_validate_label v l = Inr () \<longleftrightarrow> proper_label v"
  by (auto simp: history_validate_label_def proper_label_def)

lemma recipient_ok: "validate_recipient pol r = Inr () \<longleftrightarrow> recipient_allowed pol r"
  by (simp add: validate_recipient_def and_then_Inr history_label_ok recipient_allowed_def)

lemma entry_ok: "validate_entry pol x = Inr () \<longleftrightarrow> item_allowed pol x"
  by (auto simp: validate_entry_def item_allowed_def)

lemma entries_ok: "validate_entries pol xs = Inr () \<longleftrightarrow> (\<forall>x \<in> set xs. item_allowed pol x)"
  by (induction xs) (simp_all add: and_then_Inr entry_ok)

lemma plan_shape_ok:
  "validate_plan_shape p = Inr () \<longleftrightarrow>
     proper_label (hs_recipient_member_id p) \<and> \<not> hs_provider_application_relay_used p \<and> hs_ciphertext_only p \<and> hs_items p \<noteq> []"
  by (auto simp: validate_plan_shape_def and_then_Inr history_label_ok split: if_splits)

lemma plan_guard:
  "and_then (validate_plan_shape p) (\<lambda>_. and_then (validate_recipient pol (hs_recipient_member_id p)) (\<lambda>_.
     validate_entries pol (hs_items p))) = Inr () \<longleftrightarrow> plan_allowed pol p"
  by (auto simp: and_then_Inr plan_shape_ok recipient_ok entries_ok plan_allowed_def recipient_allowed_def)

text \<open>The report of a merge counts the new entries and the repeated ones.\<close>

lemma merge_entries_report:
  "log_valid s \<Longrightarrow> merge_entries s r es = (s', Inr r') \<Longrightarrow>
     lr_inserted r' = lr_inserted r + card (set es - log_entries s) \<and>
     lr_inserted r' + lr_duplicates r' = lr_inserted r + lr_duplicates r + length es"
proof (induction es arbitrary: s r)
  case (Cons e es)
  from Cons.prems(2) obtain s1 out where ins: "insert_author_log_entry s e = Inr (s1, out)"
    by (cases "insert_author_log_entry s e") auto
  note ok = insert_entry_Inr[OF Cons.prems(1) ins]
  show ?case
  proof (cases out)
    case AppendInserted
    with Cons.prems(2) ins have "merge_entries s1 (r\<lparr>lr_inserted := lr_inserted r + 1\<rparr>) es = (s', Inr r')" by simp
    from Cons.IH[OF _ this] ok have IH: "lr_inserted r' = lr_inserted r + 1 + card (set es - insert e (log_entries s))"
      "lr_inserted r' + lr_duplicates r' = lr_inserted r + 1 + lr_duplicates r + length es" by simp_all
    have "e \<notin> log_entries s" using ok AppendInserted by auto
    then have "set (e # es) - log_entries s = insert e (set es - insert e (log_entries s))" by auto
    then have "card (set (e # es) - log_entries s) = Suc (card (set es - insert e (log_entries s)))"
      by (metis Diff_iff List.finite_set card_insert_disjoint finite_Diff insertCI)
    with IH show ?thesis by simp
  next
    case AppendDuplicate
    with Cons.prems(2) ins have "merge_entries s1 (r\<lparr>lr_duplicates := lr_duplicates r + 1\<rparr>) es = (s', Inr r')" by simp
    from Cons.IH[OF _ this] ok AppendDuplicate show ?thesis by (auto simp: insert_absorb)
  qed
qed simp

lemma apply_plan_exact:
  assumes "log_valid s" and "apply_history_sync_plan pol p s = (s', res)"
  shows "log_valid s' \<and> (is_ok res \<longleftrightarrow> plan_allowed pol p \<and> compatible (log_entries s \<union> set (plan_entries p))) \<and>
    (if is_ok res
     then log_entries s' = log_entries s \<union> set (plan_entries p) \<and>
       (\<exists>r. res = Inr r \<and> hr_plans_applied r = 1 \<and> hr_entries_inserted r = card (set (plan_entries p) - log_entries s) \<and>
          hr_entries_inserted r + hr_entries_duplicate r = length (hs_items p))
     else s' = s)"
proof (cases "plan_allowed pol p")
  case True
  obtain s1 r1 where m: "merge_author_logs s (plan_entries p) = (s1, r1)" by fastforce
  note ex = merge_entries_exact[OF assms(1) m[unfolded merge_author_logs_def]]
  show ?thesis
  proof (cases r1)
    case (Inl err)
    with True m ex assms show ?thesis
      by (auto simp: apply_history_sync_plan_def plan_guard[THEN iffD2] merge_author_logs_atomic_def)
  next
    case (Inr r)
    with True m assms(2) have "s' = s1" "res = Inr (apply_report r)"
      by (auto simp: apply_history_sync_plan_def plan_guard[THEN iffD2] merge_author_logs_atomic_def)
    with ex Inr True merge_entries_report[OF assms(1) m[unfolded merge_author_logs_def Inr]] show ?thesis
      by (simp add: apply_report_def plan_entries_def)
  qed
next
  case False
  then have "and_then (validate_plan_shape p) (\<lambda>_. and_then (validate_recipient pol (hs_recipient_member_id p)) (\<lambda>_.
     validate_entries pol (hs_items p))) \<noteq> Inr ()" by (simp add: plan_guard)
  with False assms show ?thesis by (auto simp: apply_history_sync_plan_def split: sum.splits)
qed

lemma compatible_mono: "compatible A \<Longrightarrow> B \<subseteq> A \<Longrightarrow> compatible B"
  by (auto simp: compatible_def intro: inj_on_subset)

abbreviation entries_in :: "history_sync_plan list \<Rightarrow> author_log_entry set" where
  "entries_in ps \<equiv> \<Union> ((\<lambda>p. set (plan_entries p)) ` set ps)"

lemma drain_plans_exact:
  "log_valid s \<Longrightarrow> drain_plans pol s rep ps = (s', res) \<Longrightarrow>
     log_valid s' \<and> (is_ok res \<longleftrightarrow> (\<forall>p \<in> set ps. plan_allowed pol p) \<and> compatible (log_entries s \<union> entries_in ps)) \<and>
     (is_ok res \<longrightarrow> log_entries s' = log_entries s \<union> entries_in ps) \<and>
     log_entries s \<subseteq> log_entries s' \<and> log_entries s' \<subseteq> log_entries s \<union> entries_in (filter (plan_allowed pol) ps)"
proof (induction ps arbitrary: s rep)
  case Nil
  then show ?case by (auto simp: log_valid_compatible)
next
  case (Cons p ps)
  obtain s1 r1 where ap: "apply_history_sync_plan pol p s = (s1, r1)" by fastforce
  note ex = apply_plan_exact[OF Cons.prems(1) ap]
  show ?case
  proof (cases r1)
    case (Inl e)
    then have "\<not> plan_allowed pol p \<or> \<not> compatible (log_entries s \<union> set (plan_entries p))" using ex by simp
    then have "\<not> ((\<forall>q \<in> set (p # ps). plan_allowed pol q) \<and> compatible (log_entries s \<union> entries_in (p # ps)))"
      using compatible_mono[of "log_entries s \<union> entries_in (p # ps)" "log_entries s \<union> set (plan_entries p)"] by auto
    moreover have "s' = s" "res = Inl e" using Inl ap ex Cons.prems(2) by auto
    ultimately show ?thesis using Cons.prems(1) by simp
  next
    case (Inr r)
    with ap Cons.prems(2) obtain rep' where "drain_plans pol s1 rep' ps = (s', res)" by auto
    from Cons.IH[OF _ this] ex Inr show ?thesis by (auto simp: Un_assoc)
  qed
qed

section \<open>Delivery to an offline recipient\<close>

lemma selected_attempts_ok:
  assumes "select_peer_overlay_route a u rp i = Inr sel"
  shows "validate_route_attempts (sl_attempts sel) = Inr ()" and "is_ok (history_route_kind_of sel)"
proof -
  have no_provider: "validate_route_attempts ts = Inr () \<longleftrightarrow> ProviderApplicationRelay \<notin> at_carrier ` set ts" for ts
    by (induction ts) (auto simp: and_then_Inr carrier_ok)
  have d: "ProviderApplicationRelay \<notin> at_carrier ` set (sl_attempts sel) \<and> is_ok (history_route_kind_of sel)"
  proof (cases "si_direct_pair i")
    case (Some e)
    with assms show ?thesis
      by (auto simp: select_unfold route_selection_result_def history_route_kind_of_def live_leg_def carrier_validate_def)
  next
    case None
    with assms show ?thesis
      unfolding select_unfold Let_def configured_turn_cases(1) peer_relay_ok
      by (cases "sp_configured_turn_order rp")
        (auto simp: route_selection_result_def history_route_kind_of_def live_leg_def carrier_validate_def)
  qed
  from d show "validate_route_attempts (sl_attempts sel) = Inr ()" by (simp add: no_provider)
  from d show "is_ok (history_route_kind_of sel)" by simp
qed


section \<open>Bounded queue and authorized entries\<close>

datatype history_op = Enqueue history_sync_plan | Drain string history_sync_policy

text \<open>One call on the queue, with the author-log store of each member; a refused call changes nothing but what the code changed before it failed.\<close>

fun history_step :: "history_sync_queue \<times> (string \<Rightarrow> local_store) \<Rightarrow> history_op \<Rightarrow> history_sync_queue \<times> (string \<Rightarrow> local_store)" where
  "history_step (q, stores) (Enqueue p) = (case history_enqueue q p of Inl _ \<Rightarrow> (q, stores) | Inr q' \<Rightarrow> (q', stores))"
| "history_step (q, stores) (Drain r pol) =
     (case drain_authorized_for_recipient q r pol (stores r) of (q', s', _) \<Rightarrow> (q', stores(r := s')))"

definition history_run :: "history_sync_queue \<Rightarrow> (string \<Rightarrow> local_store) \<Rightarrow> history_op list \<Rightarrow> history_sync_queue \<times> (string \<Rightarrow> local_store)" where
  "history_run q stores ops = foldl history_step (q, stores) ops"

definition queue_values :: "history_sync_queue \<Rightarrow> history_sync_plan set" where
  "queue_values q = {p. \<exists>k ps. bt_get (hq_pending q) k = Some ps \<and> p \<in> set ps}"

lemma sum_bt_values: "sum_list (map f (bt_values m)) = (\<Sum>k \<in> dom (bt_get m). f (the (bt_get m k)))" for f :: "'v \<Rightarrow> nat"
proof -
  have "map f (bt_values m) = map (\<lambda>k. f (the (bt_get m k))) (bt_keys m)"
    by (auto simp: bt_values_def bt_keys_def set_bt_entries)
  then show ?thesis by (simp add: sum_list_distinct_conv_sum_set set_bt_keys)
qed

lemma sum_bt_insert:
  "sum_list (map f (bt_values (bt_insert k v m))) = f v + sum_list (map f (bt_values (bt_remove k m)))" for f :: "'v \<Rightarrow> nat"
proof -
  have "(\<Sum>x \<in> dom (bt_get m) - {k}. f (the (bt_get (bt_insert k v m) x))) =
    (\<Sum>x \<in> dom (bt_get m) - {k}. f (the (bt_get (bt_remove k m) x)))"
    by (rule sum.cong) auto
  then show ?thesis unfolding sum_bt_values by (simp add: sum.insert_remove)
qed

lemma sum_bt_remove:
  "sum_list (map f (bt_values m)) = (case bt_get m k of None \<Rightarrow> 0 | Some v \<Rightarrow> f v) + sum_list (map f (bt_values (bt_remove k m)))"
  for f :: "'v \<Rightarrow> nat"
proof (cases "bt_get m k")
  case None
  then have "bt_remove k m = m" by (intro bt_eqI) auto
  with None show ?thesis by simp
next
  case (Some v)
  then have "bt_insert k v m = m" by (intro bt_eqI) auto
  with Some sum_bt_insert[of f k v m] show ?thesis by simp
qed

lemma enqueue_len:
  assumes "history_enqueue q p = Inr q'"
  shows "history_queue_len q' = Suc (history_queue_len q) \<and> history_queue_len q' \<le> hq_max_pending_plans q \<and>
    hq_max_pending_plans q' = hq_max_pending_plans q"
proof -
  from assms have q': "q' = q\<lparr>hq_pending := bt_upsert (hs_recipient_member_id p) [] (\<lambda>ps. ps @ [p]) (hq_pending q)\<rparr>"
    and room: "history_queue_len q < hq_max_pending_plans q"
    by (auto simp: history_enqueue_def and_then_Inr split: if_splits)
  have "history_queue_len q' = Suc (history_queue_len q)"
    using sum_bt_remove[of length "hq_pending q" "hs_recipient_member_id p"]
    by (auto simp: q' history_queue_len_def bt_upsert_def sum_bt_insert split: option.splits)
  with room q' show ?thesis by simp
qed

text \<open>The invariant of a run: the bound, where the plans come from, and which entries the stores gained.\<close>

definition gained :: "history_op list \<Rightarrow> string \<Rightarrow> author_log_entry \<Rightarrow> bool" where
  "gained ops r e \<longleftrightarrow> (\<exists>pol p x. Drain r pol \<in> set ops \<and> Enqueue p \<in> set ops \<and> hs_recipient_member_id p = r \<and>
     x \<in> set (hs_items p) \<and> hi_entry x = e \<and> recipient_allowed pol r \<and> item_allowed pol x)"

definition plans_from :: "history_op list \<Rightarrow> history_sync_queue \<Rightarrow> bool" where
  "plans_from ops q \<longleftrightarrow>
     (\<forall>k ps p. bt_get (hq_pending q) k = Some ps \<longrightarrow> p \<in> set ps \<longrightarrow> Enqueue p \<in> set ops \<and> hs_recipient_member_id p = k)"

definition store_from :: "history_op list \<Rightarrow> string \<Rightarrow> local_store \<Rightarrow> local_store \<Rightarrow> bool" where
  "store_from ops r s0 s \<longleftrightarrow> log_valid s \<and> log_entries s0 \<subseteq> log_entries s \<and> (\<forall>e \<in> log_entries s - log_entries s0. gained ops r e)"

definition history_inv :: "nat \<Rightarrow> (string \<Rightarrow> local_store) \<Rightarrow> history_op list \<Rightarrow> history_sync_queue \<times> (string \<Rightarrow> local_store) \<Rightarrow> bool" where
  "history_inv n stores ops st \<longleftrightarrow>
     hq_max_pending_plans (fst st) = max n 1 \<and> history_queue_len (fst st) \<le> max n 1 \<and> plans_from ops (fst st) \<and>
     (\<forall>r. store_from ops r (stores r) (snd st r))"

lemma from_more:
  "plans_from ops q \<Longrightarrow> plans_from (ops @ [c]) q"
  "store_from ops r s0 s \<Longrightarrow> store_from (ops @ [c]) r s0 s"
proof -
  show "plans_from ops q \<Longrightarrow> plans_from (ops @ [c]) q" unfolding plans_from_def by (metis Un_iff set_append)
  have "gained ops r e \<Longrightarrow> gained (ops @ [c]) r e" for e unfolding gained_def by (metis Un_iff set_append)
  then show "store_from ops r s0 s \<Longrightarrow> store_from (ops @ [c]) r s0 s" unfolding store_from_def by blast
qed

lemma enqueue_plans_from:
  assumes "plans_from ops q" and "history_enqueue q p = Inr q'"
  shows "plans_from (ops @ [Enqueue p]) q'"
proof -
  from assms(2) have q': "q' = q\<lparr>hq_pending := bt_upsert (hs_recipient_member_id p) [] (\<lambda>ps. ps @ [p]) (hq_pending q)\<rparr>"
    by (auto simp: history_enqueue_def and_then_Inr split: if_splits)
  from from_more(1)[OF assms(1), of "Enqueue p"] show ?thesis
    unfolding plans_from_def q' by (cases "bt_get (hq_pending q) (hs_recipient_member_id p)") (auto simp: bt_get_upsert split: if_splits)
qed

lemma drain_from:
  assumes "plans_from ops q" and "store_from ops r s0 s" and "drain_authorized_for_recipient q r pol s = (q', s', res)"
  shows "plans_from (ops @ [Drain r pol]) q' \<and> store_from (ops @ [Drain r pol]) r s0 s' \<and>
    history_queue_len q' \<le> history_queue_len q \<and> hq_max_pending_plans q' = hq_max_pending_plans q"
proof (cases "recipient_allowed pol r")
  case False
  then have "validate_recipient pol r \<noteq> Inr ()" by (simp add: recipient_ok)
  with assms(3) have "q' = q" "s' = s" by (auto simp: drain_authorized_for_recipient_def split: sum.splits)
  with from_more assms(1,2) show ?thesis by simp
next
  case True
  define ps where "ps = (case bt_get (hq_pending q) r of None \<Rightarrow> [] | Some ps \<Rightarrow> ps)"
  have q': "q' = q\<lparr>hq_pending := bt_remove r (hq_pending q)\<rparr>"
    and dr: "drain_plans pol s \<lparr>hr_plans_applied = 0, hr_entries_inserted = 0, hr_entries_duplicate = 0\<rparr> ps = (s', res)"
    using assms(3) True by (simp_all add: drain_authorized_for_recipient_def recipient_ok[THEN iffD2] ps_def)
  have valid: "log_valid s" using assms(2) by (simp add: store_from_def)
  note ex = drain_plans_exact[OF valid dr]
  have queued: "Enqueue p \<in> set ops \<and> hs_recipient_member_id p = r" if "p \<in> set ps" for p
    using that assms(1) unfolding ps_def plans_from_def by (cases "bt_get (hq_pending q) r") auto
  have new: "gained (ops @ [Drain r pol]) r e" if "e \<in> entries_in (filter (plan_allowed pol) ps)" for e
  proof -
    from that obtain p x where "p \<in> set ps" "plan_allowed pol p" "x \<in> set (hs_items p)" "hi_entry x = e"
      by (auto simp: plan_entries_def)
    with queued[of p] True show ?thesis unfolding gained_def plan_allowed_def by auto
  qed
  have "store_from (ops @ [Drain r pol]) r s0 s'"
    using from_more(2)[OF assms(2), of "Drain r pol"] ex new unfolding store_from_def by blast
  moreover have "plans_from (ops @ [Drain r pol]) q'"
    using from_more(1)[OF assms(1), of "Drain r pol"] by (auto simp: plans_from_def q')
  moreover have "history_queue_len q' \<le> history_queue_len q"
    using sum_bt_remove[of length "hq_pending q" r] by (simp add: q' history_queue_len_def)
  ultimately show ?thesis by (simp add: q')
qed

lemma history_inv_step:
  assumes "history_inv n stores ops (q, sts)"
  shows "history_inv n stores (ops @ [c]) (history_step (q, sts) c)"
proof (cases c)
  case (Enqueue p)
  show ?thesis
  proof (cases "history_enqueue q p")
    case (Inl e)
    with assms Enqueue from_more show ?thesis by (simp add: history_inv_def)
  next
    case (Inr q')
    with assms Enqueue from_more(2) enqueue_plans_from[OF _ Inr, of ops] enqueue_len[OF Inr] show ?thesis
      by (simp add: history_inv_def)
  qed
next
  case (Drain r pol)
  obtain q' s' res where d: "drain_authorized_for_recipient q r pol (sts r) = (q', s', res)"
    by (cases "drain_authorized_for_recipient q r pol (sts r)")
  from assms have inv: "plans_from ops q" "store_from ops k (stores k) (sts k)" for k by (simp_all add: history_inv_def)
  from drain_from[OF inv d] from_more(2)[OF inv(2)] assms Drain d show ?thesis by (simp add: history_inv_def)
qed

lemma history_run_inv: "history_inv n stores ops0 (q, sts) \<Longrightarrow> history_inv n stores (ops0 @ ops) (foldl history_step (q, sts) ops)"
proof (induction ops arbitrary: ops0 q sts)
  case (Cons c ops)
  obtain q' sts' where step: "history_step (q, sts) c = (q', sts')" by fastforce
  from history_inv_step[OF Cons.prems, of c] Cons.IH[of "ops0 @ [c]" q' sts'] step show ?case by simp
qed simp

text \<open>
  Whatever plans are queued, by whomever built, and whenever members reconnect, the queue never holds more than its capacity, a member's log only grows, and every entry
  that it gains was queued for this very member and was allowed by the policy in force when the member drained: recipient in the membership, author
  authorized, epoch covered, ciphertext present, and within the retention window.
\<close>

theorem history_queue_safe:
  assumes "\<forall>r. log_valid (stores r)" and "history_run (history_queue_new n) stores ops = (q, stores')"
  shows "history_queue_len q \<le> max n 1 \<and>
    (\<forall>r. log_valid (stores' r) \<and> log_entries (stores r) \<subseteq> log_entries (stores' r) \<and>
      (\<forall>e. e \<in> log_entries (stores' r) \<and> e \<notin> log_entries (stores r) \<longrightarrow>
        (\<exists>pol p x. Drain r pol \<in> set ops \<and> Enqueue p \<in> set ops \<and> hs_recipient_member_id p = r \<and>
          x \<in> set (hs_items p) \<and> hi_entry x = e \<and> recipient_allowed pol r \<and> item_allowed pol x)))"
proof -
  have "history_inv n stores [] (history_queue_new n, stores)"
    using assms(1) by (simp add: history_inv_def history_queue_new_def history_queue_len_def bt_values_def plans_from_def store_from_def)
  from history_run_inv[OF this, of ops] assms(2) have "history_inv n stores ops (q, stores')" by (simp add: history_run_def)
  then show ?thesis unfolding history_inv_def store_from_def gained_def by auto
qed

section \<open>Examples\<close>

definition demo_history_policy :: history_sync_policy where
  "demo_history_policy = history_policy_new 2 [''bob''] [1, 2] 100 50"

definition demo_item :: "nat \<Rightarrow> history_sync_item" where
  "demo_item leaf = \<lparr>hi_entry = (demo_log_entry leaf)\<lparr>ae_epoch := 1\<rparr>, hi_created_at_ms = 10\<rparr>"

lemma demo_items_allowed: "item_allowed demo_history_policy (demo_item 1)" "item_allowed demo_history_policy (demo_item 2)"
  "recipient_allowed demo_history_policy ''bob''"
proof -
  have "proper_label ''bob''" by code_simp
  then show "item_allowed demo_history_policy (demo_item 1)" "item_allowed demo_history_policy (demo_item 2)"
    "recipient_allowed demo_history_policy ''bob''"
    by (simp_all add: item_allowed_def recipient_allowed_def demo_history_policy_def history_policy_new_def demo_item_def demo_log_entry_def)
qed

lemma empty_store_valid: "log_valid (local_store_new n)" "log_entries (local_store_new n) = {}"
  by (simp_all add: log_valid_def local_store_new_def)

lemma demo_items_compatible: "compatible (hi_entry ` set [demo_item 1, demo_item 2])"
  using demo_not_blank by (auto simp: compatible_def demo_item_def demo_log_entry_def author_entry_key_def inj_on_def)

lemma demo_direct_selection:
  "select_peer_overlay_route (rv_admitted demo_state) demo_auth \<lparr>sp_configured_turn_order = BeforePeerRelay\<rparr>
     \<lparr>si_source = demo_ref ''a'', si_destination = demo_ref ''b'', si_direct_pair = Some (demo_leg ''a'' ''b''),
      si_configured_turn_pair = None, si_ranked_relays = [], si_relay_routes = []\<rparr> =
   Inr (route_selection_result [\<lparr>at_carrier = DirectWebRtcDataChannel, at_selected = True\<rparr>] (SelectedDirectWebRtc (demo_leg ''a'' ''b'')))"
  by code_simp


definition demo_history_plan :: history_sync_plan where
  "demo_history_plan = \<lparr>hs_recipient_member_id = ''bob'', hs_route_kind = RouteDirectWebRtc, hs_items = [demo_item 1],
     hs_provider_application_relay_used = False, hs_ciphertext_only = True, hs_limitation = ''demo''\<rparr>"

theorem history_queue_safe_witness:
  "history_queue_len (fst (history_run (history_queue_new 1) (\<lambda>_. local_store_new 4)
     [Enqueue demo_history_plan, Enqueue demo_history_plan, Drain ''bob'' demo_history_policy])) \<le> 1"
  using history_queue_safe[of "\<lambda>_. local_store_new 4" 1
      "[Enqueue demo_history_plan, Enqueue demo_history_plan, Drain ''bob'' demo_history_policy]"] empty_store_valid
  by (metis max.idem prod.collapse)

section \<open>Limits of the code\<close>

text \<open>Draining takes all pending plans of the recipient from the queue first, so when one of them is refused the later ones are lost.\<close>

lemma failed_drain_discards_plans:
  assumes "bt_get (hq_pending q) r = Some (p # ps)" and "recipient_allowed pol r" and "\<not> plan_allowed pol p" and "log_valid s"
  shows "\<exists>q' e. drain_authorized_for_recipient q r pol s = (q', s, Inl e) \<and> bt_get (hq_pending q') r = None"
proof -
  obtain s1 r1 where ap: "apply_history_sync_plan pol p s = (s1, r1)" by fastforce
  from apply_plan_exact[OF assms(4) ap] assms(3) obtain e where "s1 = s" "r1 = Inl e" by (cases r1) auto
  with ap assms(1,2) show ?thesis by (simp add: drain_authorized_for_recipient_def recipient_ok[THEN iffD2])
qed

end
