(* ===== verification/Connectivity_Policy.thy ===== *)
theory Connectivity_Policy
  imports Ice_Policy Peer_Overlay Crypto_Params
begin

unbundle bit_operations_syntax

text \<open>
  Scoped connectivity policy and route graphs (\<open>crates/transport/src/policy.rs\<close>, \<open>route_graph.rs\<close>): committed conversation scopes, validation of
  signaling adapters and their endpoints, the policy store and its precedence, derivation of rendezvous topics and tokens, and the per-channel
  graph of route intents. SHA-256 is a parameter. Shown: resolution returns the most specific stored policy; topics and tokens of different scopes, adapters,
  purposes or secrets differ, short of a digest collision; every graph that the operations reach is valid and keeps exactly the admitted edges.
\<close>

section \<open>Scopes\<close>

datatype signaling_adapter_kind = AdapterMqtt | AdapterNostr | AdapterIpfsPubsub | AdapterQuicRendezvous

fun canonical_name :: "signaling_adapter_kind \<Rightarrow> string" where
  "canonical_name AdapterMqtt = ''mqtt''"
| "canonical_name AdapterNostr = ''nostr''"
| "canonical_name AdapterIpfsPubsub = ''ipfs_pubsub''"
| "canonical_name AdapterQuicRendezvous = ''discrypt_quic_rendezvous''"

datatype connectivity_scope_level = LevelAppDefault | LevelDm | LevelGroup | LevelChannel | LevelInviteBootstrap

fun level_name :: "connectivity_scope_level \<Rightarrow> string" where
  "level_name LevelAppDefault = ''app_default''"
| "level_name LevelDm = ''dm''"
| "level_name LevelGroup = ''group''"
| "level_name LevelChannel = ''channel''"
| "level_name LevelInviteBootstrap = ''invite_bootstrap''"

abbreviation connectivity_error :: "string \<Rightarrow> transport_error + 'a" where
  "connectivity_error m \<equiv> Inl (InvalidConnectivityPolicy m)"

definition is_hexdigit :: "char \<Rightarrow> bool" where
  "is_hexdigit c \<longleftrightarrow> is_digit c \<or> in_range 97 102 c \<or> in_range 65 70 c"

definition validate_commitment :: "string \<Rightarrow> transport_error + unit" where
  "validate_commitment v =
     (if length v \<noteq> 64 \<or> \<not> list_all is_hexdigit v
      then connectivity_error ''scope and endpoint commitments must be 64 hex characters'' else Inr ())"

definition validate_profile_id :: "string \<Rightarrow> transport_error + unit" where
  "validate_profile_id v =
     (if v = [] \<or> 96 < length v \<or> trim v \<noteq> v \<or> \<not> list_all is_token_char v
      then connectivity_error ''profile ids must be trimmed ASCII token strings'' else Inr ())"

definition validate_endpoint_text :: "string \<Rightarrow> transport_error + unit" where
  "validate_endpoint_text v =
     (if v = [] \<or> 1024 < length v \<or> trim v \<noteq> v \<or> has_whitespace v
      then connectivity_error ''signaling endpoints must be non-empty, trimmed, and whitespace-free'' else Inr ())"

record conversation_scope =
  sc_level :: connectivity_scope_level
  sc_scope_id_commitment :: string
  sc_parent_scope_commitment :: "string option"

definition scope_validate :: "conversation_scope \<Rightarrow> transport_error + unit" where
  "scope_validate s =
     and_then
       (if sc_level s = LevelAppDefault
        then (if sc_scope_id_commitment s \<noteq> ''app_default''
              then connectivity_error ''app default scope must use the app_default commitment label'' else Inr ())
        else validate_commitment (sc_scope_id_commitment s)) (\<lambda>_.
       case sc_parent_scope_commitment s of None \<Rightarrow> Inr () | Some parent \<Rightarrow> and_then (validate_commitment parent) (\<lambda>_. Inr ()))"

definition conversation_scope_new :: "connectivity_scope_level \<Rightarrow> string \<Rightarrow> transport_error + conversation_scope" where
  "conversation_scope_new level commitment =
     (let s = \<lparr>sc_level = level, sc_scope_id_commitment = commitment, sc_parent_scope_commitment = None\<rparr>
      in and_then (scope_validate s) (\<lambda>_. Inr s))"

definition with_parent_scope_commitment :: "conversation_scope \<Rightarrow> string \<Rightarrow> transport_error + conversation_scope" where
  "with_parent_scope_commitment s parent =
     (let s' = s\<lparr>sc_parent_scope_commitment := Some parent\<rparr> in and_then (scope_validate s') (\<lambda>_. Inr s'))"

section \<open>Adapters\<close>

datatype provider_metadata_posture = HashedTopic | RandomTopic | EpochRotatingTopic

datatype adapter_fallback_behavior = TryAll | FirstHealthy | ManualOnly

datatype signaling_endpoint_security = EndpointProductionTls | EndpointLocalDevLoopback | EndpointSelfHostedExplicit

record provider_retry_backoff =
  pb_initial_ms :: nat
  pb_max_ms :: nat
  pb_multiplier :: nat
  pb_max_attempts :: nat

definition provider_retry_default :: provider_retry_backoff where
  "provider_retry_default = \<lparr>pb_initial_ms = 250, pb_max_ms = 5000, pb_multiplier = 2, pb_max_attempts = 5\<rparr>"

definition provider_retry_validate :: "provider_retry_backoff \<Rightarrow> transport_error + unit" where
  "provider_retry_validate p =
     (if pb_initial_ms p = 0 \<or> pb_max_ms p < pb_initial_ms p \<or> pb_multiplier p < 1 \<or> pb_max_attempts p = 0 \<or> 10 < pb_max_attempts p
      then connectivity_error ''provider retry backoff must be bounded and monotonic'' else Inr ())"

record adapter_trust_label =
  tl_label :: string
  tl_posture :: string

definition trust_label_new :: "string \<Rightarrow> string \<Rightarrow> transport_error + adapter_trust_label" where
  "trust_label_new label posture =
     (if blank label \<or> trim label \<noteq> label \<or> blank posture \<or> trim posture \<noteq> posture
      then connectivity_error ''trust labels must be non-empty and trimmed''
      else Inr \<lparr>tl_label = label, tl_posture = posture\<rparr>)"

record signaling_provider_endpoint =
  sg_endpoint :: endpoint
  sg_security :: signaling_endpoint_security
  sg_operator_label :: "string option"
  sg_max_message_bytes :: "nat option"
  sg_retained_presence :: bool
  sg_trust_fingerprint :: "string option"
  sg_retry_backoff :: provider_retry_backoff

definition provider_endpoint_new :: "endpoint \<Rightarrow> signaling_endpoint_security \<Rightarrow> signaling_provider_endpoint" where
  "provider_endpoint_new e sec =
     \<lparr>sg_endpoint = e, sg_security = sec, sg_operator_label = None, sg_max_message_bytes = None, sg_retained_presence = False,
      sg_trust_fingerprint = None, sg_retry_backoff = provider_retry_default\<rparr>"

definition default_provider_max_message_bytes :: nat where
  "default_provider_max_message_bytes = 64 * 1024"

definition is_loopback_cleartext :: "string \<Rightarrow> bool" where
  "is_loopback_cleartext v \<longleftrightarrow>
     list_ex (\<lambda>p. prefix p v) [''http://127.0.0.1:'', ''ws://127.0.0.1:'', ''mqtt://127.0.0.1:''] \<or>
     list_ex (\<lambda>p. prefix p v) [''http://[::1]:'', ''ws://[::1]:'', ''mqtt://[::1]:''] \<or>
     prefix ''/ip4/127.0.0.1/'' v \<or> prefix ''/ip6/::1/'' v"

definition is_ipfs_public_direct_peer_multiaddr :: "string \<Rightarrow> bool" where
  "is_ipfs_public_direct_peer_multiaddr v \<longleftrightarrow>
     (let w = (case strip_prefix ''libp2p://'' v of Some w \<Rightarrow> w | None \<Rightarrow> v)
      in (prefix ''/ip4/'' w \<or> prefix ''/ip6/'' w) \<and> contains_window w ''/tcp/'' \<and> contains_window w ''/p2p/'')"

definition production_scheme_valid :: "signaling_adapter_kind \<Rightarrow> string \<Rightarrow> bool" where
  "production_scheme_valid kind v \<longleftrightarrow>
     (case kind of
        AdapterMqtt \<Rightarrow> prefix ''mqtts://'' v \<or> prefix ''wss://'' v
      | AdapterNostr \<Rightarrow> prefix ''wss://'' v
      | AdapterIpfsPubsub \<Rightarrow> is_ipfs_public_direct_peer_multiaddr v
      | AdapterQuicRendezvous \<Rightarrow> prefix ''quic://'' v \<or> prefix ''https://'' v \<or> prefix ''wss://'' v)"

definition validate_for_kind :: "signaling_adapter_kind \<Rightarrow> signaling_provider_endpoint \<Rightarrow> transport_error + unit" where
  "validate_for_kind kind e =
     (let v = sg_endpoint e
      in and_then (validate_endpoint_text v) (\<lambda>_.
         and_then (case sg_operator_label e of
             Some l \<Rightarrow> if blank l \<or> trim l \<noteq> l then connectivity_error ''operator label must be non-empty and trimmed'' else Inr ()
           | None \<Rightarrow> Inr ()) (\<lambda>_.
         and_then (case sg_trust_fingerprint e of Some fp \<Rightarrow> validate_commitment fp | None \<Rightarrow> Inr ()) (\<lambda>_.
         and_then (case sg_max_message_bytes e of
             Some n \<Rightarrow> if n = 0 \<or> default_provider_max_message_bytes < n
               then connectivity_error ''provider max_message_bytes must be non-zero and no larger than the production cap'' else Inr ()
           | None \<Rightarrow> Inr ()) (\<lambda>_.
         and_then (provider_retry_validate (sg_retry_backoff e)) (\<lambda>_.
           case sg_security e of
             EndpointProductionTls \<Rightarrow>
               if \<not> production_scheme_valid kind v
               then connectivity_error (''production endpoint scheme is invalid for '' @ canonical_name kind) else Inr ()
           | EndpointLocalDevLoopback \<Rightarrow>
               if \<not> is_loopback_cleartext v
               then connectivity_error ''local-dev signaling endpoints must be loopback cleartext only'' else Inr ()
           | EndpointSelfHostedExplicit \<Rightarrow>
               if \<not> (prefix ''mqtts://'' v \<or> prefix ''wss://'' v \<or> prefix ''quic://'' v \<or> prefix ''https://'' v \<or>
                      is_ipfs_public_direct_peer_multiaddr v)
               then connectivity_error ''self-hosted signaling endpoint must still use an explicit supported scheme'' else Inr ()))))))"

record adapter_capabilities =
  cap_presence_ttl :: bool
  cap_trickle_ice :: bool
  cap_retained_presence :: bool
  cap_health_telemetry :: bool

definition production_required :: adapter_capabilities where
  "production_required =
     \<lparr>cap_presence_ttl = True, cap_trickle_ice = True, cap_retained_presence = False, cap_health_telemetry = True\<rparr>"

definition satisfies_production_contract :: "adapter_capabilities \<Rightarrow> bool" where
  "satisfies_production_contract c \<longleftrightarrow> cap_presence_ttl c \<and> cap_trickle_ice c \<and> cap_health_telemetry c"

record signaling_adapter_profile =
  sa_profile_id :: string
  sa_kind :: signaling_adapter_kind
  sa_endpoints :: "signaling_provider_endpoint list"
  sa_metadata_posture :: provider_metadata_posture
  sa_capabilities :: adapter_capabilities
  sa_trust_label :: adapter_trust_label

definition adapter_profile_validate :: "signaling_adapter_profile \<Rightarrow> transport_error + unit" where
  "adapter_profile_validate p =
     and_then (validate_profile_id (sa_profile_id p)) (\<lambda>_.
       if sa_endpoints p = [] then connectivity_error ''adapter profile must contain at least one endpoint''
       else if \<not> satisfies_production_contract (sa_capabilities p)
       then connectivity_error ''adapter profile does not satisfy production signaling capabilities''
       else try_each (validate_for_kind (sa_kind p)) (sa_endpoints p))"

section \<open>Policies and their store\<close>

record ice_profile =
  ice_profile_id :: string
  ice_policy :: ice_endpoint_policy
  ice_label :: string

definition ice_profile_validate :: "ice_profile \<Rightarrow> transport_error + unit" where
  "ice_profile_validate p =
     and_then (validate_profile_id (ice_profile_id p)) (\<lambda>_.
       if blank (ice_label p) \<or> trim (ice_label p) \<noteq> ice_label p
       then connectivity_error ''ICE profile label must be non-empty and trimmed''
       else ice_validate (ice_policy p))"

definition ice_profile_new :: "string \<Rightarrow> ice_endpoint_policy \<Rightarrow> string \<Rightarrow> transport_error + ice_profile" where
  "ice_profile_new ident pol label =
     (let p = \<lparr>ice_profile_id = ident, ice_policy = pol, ice_label = label\<rparr> in and_then (ice_profile_validate p) (\<lambda>_. Inr p))"

record connectivity_policy =
  cn_scope :: conversation_scope
  cn_signaling_profile_id :: string
  cn_signaling_adapters :: "signaling_adapter_profile list"
  cn_ice_profile_id :: string
  cn_ice_profile :: ice_profile
  cn_fallback_behavior :: adapter_fallback_behavior
  cn_trust_label :: adapter_trust_label

definition connectivity_policy_validate :: "connectivity_policy \<Rightarrow> transport_error + unit" where
  "connectivity_policy_validate p =
     and_then (scope_validate (cn_scope p)) (\<lambda>_. and_then (validate_profile_id (cn_signaling_profile_id p)) (\<lambda>_.
     and_then (validate_profile_id (cn_ice_profile_id p)) (\<lambda>_.
       if ice_profile_id (cn_ice_profile p) \<noteq> cn_ice_profile_id p
       then connectivity_error ''connectivity policy ice_profile_id must match embedded ICE profile''
       else if cn_signaling_adapters p = [] then connectivity_error ''connectivity policy requires at least one signaling adapter''
       else try_each adapter_profile_validate (cn_signaling_adapters p))))"

definition adapter_kinds :: "connectivity_policy \<Rightarrow> signaling_adapter_kind list" where
  "adapter_kinds p = map sa_kind (cn_signaling_adapters p)"

datatype connectivity_policy_source = SourceInviteBootstrap | SourceChannelOverride | SourceGroupDefault | SourceDmOverride | SourceAppDefault

record effective_connectivity_policy =
  ef_source :: connectivity_policy_source
  ef_policy :: connectivity_policy

record connectivity_policy_store =
  st_app_default :: connectivity_policy
  st_dm_policies :: "(string, connectivity_policy) btreemap"
  st_group_policies :: "(string, connectivity_policy) btreemap"
  st_channel_policies :: "(string, connectivity_policy) btreemap"

definition effective :: "connectivity_policy_source \<Rightarrow> connectivity_policy \<Rightarrow> transport_error + effective_connectivity_policy" where
  "effective src p = and_then (connectivity_policy_validate p) (\<lambda>_. Inr \<lparr>ef_source = src, ef_policy = p\<rparr>)"

definition policy_resolve ::
  "connectivity_policy_store \<Rightarrow> conversation_scope \<Rightarrow> connectivity_policy option \<Rightarrow> transport_error + effective_connectivity_policy" where
  "policy_resolve st target invite =
     and_then (connectivity_policy_validate (st_app_default st)) (\<lambda>_. and_then (scope_validate target) (\<lambda>_.
       case invite of
         Some p \<Rightarrow> effective SourceInviteBootstrap p
       | None \<Rightarrow>
           (let fallback = Inr \<lparr>ef_source = SourceAppDefault, ef_policy = st_app_default st\<rparr>;
                key = sc_scope_id_commitment target
            in case sc_level target of
                 LevelChannel \<Rightarrow>
                   (case bt_get (st_channel_policies st) key of
                      Some p \<Rightarrow> effective SourceChannelOverride p
                    | None \<Rightarrow> (case sc_parent_scope_commitment target of
                          Some parent \<Rightarrow> (case bt_get (st_group_policies st) parent of
                              Some p \<Rightarrow> effective SourceGroupDefault p | None \<Rightarrow> fallback)
                        | None \<Rightarrow> fallback))
               | LevelGroup \<Rightarrow> (case bt_get (st_group_policies st) key of Some p \<Rightarrow> effective SourceGroupDefault p | None \<Rightarrow> fallback)
               | LevelDm \<Rightarrow> (case bt_get (st_dm_policies st) key of Some p \<Rightarrow> effective SourceDmOverride p | None \<Rightarrow> fallback)
               | LevelAppDefault \<Rightarrow> fallback
               | LevelInviteBootstrap \<Rightarrow> fallback)))"

section \<open>Rendezvous capabilities\<close>

definition hex_table :: string where
  "hex_table = ''0123456789abcdef''"

definition lower_hex :: "bytes \<Rightarrow> string" where
  "lower_hex bs = concat (map (\<lambda>b. [hex_table ! unat (drop_bit 4 b), hex_table ! unat (b AND 0x0F)]) bs)"

record rendezvous_capability =
  rz_scope :: conversation_scope
  rz_adapter_kind :: signaling_adapter_kind
  rz_topic :: string
  rz_publish_token_commitment :: "string option"
  rz_subscribe_token_commitment :: "string option"
  rz_ttl_seconds :: nat
  rz_metadata_posture :: provider_metadata_posture
  rz_trust_label :: adapter_trust_label

definition rendezvous_preimage :: "string \<Rightarrow> conversation_scope \<Rightarrow> signaling_adapter_kind \<Rightarrow> bytes \<Rightarrow> bytes \<Rightarrow> bytes" where
  "rendezvous_preimage domain scope kind bootstrap_secret entropy =
     str_bytes domain @ str_bytes (level_name (sc_level scope)) @ str_bytes (sc_scope_id_commitment scope) @
     (case sc_parent_scope_commitment scope of Some parent \<Rightarrow> str_bytes parent | None \<Rightarrow> []) @
     str_bytes (canonical_name kind) @ bootstrap_secret @ entropy"

definition derive_hex :: "(bytes \<Rightarrow> bytes) \<Rightarrow> string \<Rightarrow> conversation_scope \<Rightarrow> signaling_adapter_kind \<Rightarrow> bytes \<Rightarrow> bytes \<Rightarrow> string" where
  "derive_hex sha256 domain scope kind bootstrap_secret entropy =
     lower_hex (sha256 (rendezvous_preimage domain scope kind bootstrap_secret entropy))"

definition topic_domain :: string where "topic_domain = ''discrypt-rendezvous-topic-v1''"
definition publish_domain :: string where "publish_domain = ''discrypt-rendezvous-publish-token-v1''"
definition subscribe_domain :: string where "subscribe_domain = ''discrypt-rendezvous-subscribe-token-v1''"

definition rendezvous_derive ::
  "(bytes \<Rightarrow> bytes) \<Rightarrow> conversation_scope \<Rightarrow> signaling_adapter_kind \<Rightarrow> bytes \<Rightarrow> bytes \<Rightarrow> nat \<Rightarrow> provider_metadata_posture \<Rightarrow>
   adapter_trust_label \<Rightarrow> transport_error + rendezvous_capability" where
  "rendezvous_derive sha256 scope kind bootstrap_secret entropy ttl posture label =
     and_then (scope_validate scope) (\<lambda>_.
       if length bootstrap_secret < 32 \<or> length entropy < 16
       then connectivity_error ''rendezvous derivation requires a bootstrap secret and random entropy''
       else if ttl = 0 \<or> 86400 < ttl then connectivity_error ''rendezvous TTL must be between 1 and 86400 seconds''
       else Inr \<lparr>rz_scope = scope, rz_adapter_kind = kind,
         rz_topic = ''discrypt-rv1-'' @ canonical_name kind @ ''-'' @ derive_hex sha256 topic_domain scope kind bootstrap_secret entropy,
         rz_publish_token_commitment = Some (derive_hex sha256 publish_domain scope kind bootstrap_secret entropy),
         rz_subscribe_token_commitment = Some (derive_hex sha256 subscribe_domain scope kind bootstrap_secret entropy),
         rz_ttl_seconds = ttl, rz_metadata_posture = posture, rz_trust_label = label\<rparr>)"

definition derive_scope_commitment :: "(bytes \<Rightarrow> bytes) \<Rightarrow> connectivity_scope_level \<Rightarrow> bytes \<Rightarrow> string \<Rightarrow> string" where
  "derive_scope_commitment sha256 level scope_secret domain =
     lower_hex (sha256 (str_bytes ''discrypt-connectivity-scope-v1'' @ str_bytes (level_name level) @ str_bytes domain @ scope_secret))"

section \<open>Route graphs\<close>

record route_graph_scope =
  rg_group :: conversation_scope
  rg_channel :: conversation_scope

definition graph_scope_validate :: "route_graph_scope \<Rightarrow> transport_error + unit" where
  "graph_scope_validate s =
     and_then (scope_validate (rg_group s)) (\<lambda>_. and_then (scope_validate (rg_channel s)) (\<lambda>_.
       if sc_level (rg_group s) \<noteq> LevelGroup then connectivity_error ''route graph group scope must use group level''
       else if sc_level (rg_channel s) \<noteq> LevelChannel then connectivity_error ''route graph channel scope must use channel level''
       else if sc_parent_scope_commitment (rg_channel s) \<noteq> Some (sc_scope_id_commitment (rg_group s))
       then connectivity_error ''route graph channel scope must be parented by the graph group''
       else Inr ()))"

definition graph_scope_new :: "conversation_scope \<Rightarrow> conversation_scope \<Rightarrow> transport_error + route_graph_scope" where
  "graph_scope_new grp channel =
     (let s = \<lparr>rg_group = grp, rg_channel = channel\<rparr> in and_then (graph_scope_validate s) (\<lambda>_. Inr s))"

datatype route_intent =
  DirectWebRtcIntent "route_report option"
| ConfiguredTurnIntent endpoint "route_report option"
| PendingIntent string
| UnavailableIntent string

definition validate_reason :: "string \<Rightarrow> transport_error + string" where
  "validate_reason r =
     (if blank r \<or> trim r \<noteq> r \<or> 256 < length r
      then connectivity_error ''route graph reason must be non-empty trimmed text up to 256 bytes'' else Inr r)"

definition graph_validate_endpoint :: "endpoint \<Rightarrow> string \<Rightarrow> transport_error + unit" where
  "graph_validate_endpoint e label =
     (if blank e \<or> trim e \<noteq> e then connectivity_error (''route graph '' @ label @ '' must be non-empty trimmed text'') else Inr ())"

definition validate_route_report :: "route_report \<Rightarrow> fallback_leg \<Rightarrow> transport_error + unit" where
  "validate_route_report r expected =
     (if rr_selected r \<noteq> expected then connectivity_error ''route graph route report selected leg does not match intent''
      else if \<not> honest_and_ordered r
      then connectivity_error ''route graph route report must preserve direct/TURN ordering and ciphertext-only relay policy''
      else Inr ())"

definition intent_pending :: "string \<Rightarrow> transport_error + route_intent" where
  "intent_pending r = and_then (validate_reason r) (\<lambda>r. Inr (PendingIntent r))"

definition intent_unavailable :: "string \<Rightarrow> transport_error + route_intent" where
  "intent_unavailable r = and_then (validate_reason r) (\<lambda>r. Inr (UnavailableIntent r))"

definition intent_direct_webrtc :: "route_report option \<Rightarrow> transport_error + route_intent" where
  "intent_direct_webrtc report =
     and_then (case report of Some r \<Rightarrow> validate_route_report r LegStun | None \<Rightarrow> Inr ()) (\<lambda>_. Inr (DirectWebRtcIntent report))"

definition intent_configured_turn :: "endpoint \<Rightarrow> route_report option \<Rightarrow> transport_error + route_intent" where
  "intent_configured_turn turn report =
     and_then (graph_validate_endpoint turn ''configured TURN endpoint'') (\<lambda>_.
       if turn = unconfigured_turn_endpoint
       then connectivity_error ''configured TURN route intent requires a configured TURN endpoint''
       else and_then (case report of Some r \<Rightarrow> validate_route_report r LegTurn | None \<Rightarrow> Inr ()) (\<lambda>_. Inr (ConfiguredTurnIntent turn report)))"

fun intent_transport_route :: "route_intent \<Rightarrow> transport_route option" where
  "intent_transport_route (DirectWebRtcIntent _) = Some Direct"
| "intent_transport_route (ConfiguredTurnIntent _ _) = Some TurnRelay"
| "intent_transport_route (PendingIntent _) = None"
| "intent_transport_route (UnavailableIntent _) = None"

definition is_connectable :: "route_intent \<Rightarrow> bool" where
  "is_connectable i \<longleftrightarrow> (case i of DirectWebRtcIntent _ \<Rightarrow> True | ConfiguredTurnIntent _ _ \<Rightarrow> True | _ \<Rightarrow> False)"

record route_graph_edge =
  ge_local_peer_id :: signaling_peer_id
  ge_remote_peer_id :: signaling_peer_id
  ge_intent :: route_intent

definition edge_new :: "signaling_peer_id \<Rightarrow> signaling_peer_id \<Rightarrow> route_intent \<Rightarrow> transport_error + route_graph_edge" where
  "edge_new local remote intent =
     (if local = remote then connectivity_error ''route graph edge cannot target the local peer''
      else Inr \<lparr>ge_local_peer_id = local, ge_remote_peer_id = remote, ge_intent = intent\<rparr>)"

record group_route_graph =
  gg_schema_version :: nat
  gg_scope :: route_graph_scope
  gg_local_peer_id :: signaling_peer_id
  gg_edges :: "(signaling_peer_id, route_graph_edge) btreemap"

definition route_graph_schema_version :: nat where
  "route_graph_schema_version = 1"

fun add_edges ::
  "signaling_peer_id \<Rightarrow> route_intent \<Rightarrow> signaling_peer_id btreeset \<Rightarrow> (signaling_peer_id, route_graph_edge) btreemap \<Rightarrow> signaling_peer_id list \<Rightarrow>
   transport_error + (signaling_peer_id, route_graph_edge) btreemap" where
  "add_edges local intent seen edges [] = Inr edges"
| "add_edges local intent seen edges (r # rs) =
     (if r = local then connectivity_error ''route graph admitted remotes must not include the local peer''
      else if bs_member seen r then connectivity_error ''route graph admitted remote peers must be unique''
      else and_then (edge_new local r intent) (\<lambda>e. add_edges local intent (bs_insert r seen) (bt_insert r e edges) rs))"

definition graph_new :: "route_graph_scope \<Rightarrow> signaling_peer_id \<Rightarrow> signaling_peer_id list \<Rightarrow> route_intent \<Rightarrow> transport_error + group_route_graph" where
  "graph_new scope local remotes intent =
     and_then (graph_scope_validate scope) (\<lambda>_. and_then (add_edges local intent (bs_of_list []) bt_empty remotes) (\<lambda>edges.
       if bt_len edges = 0 then connectivity_error ''route graph requires at least one admitted remote peer''
       else Inr \<lparr>gg_schema_version = route_graph_schema_version, gg_scope = scope, gg_local_peer_id = local, gg_edges = edges\<rparr>))"

definition edge_count :: "group_route_graph \<Rightarrow> nat" where
  "edge_count g = bt_len (gg_edges g)"

definition edge_for :: "group_route_graph \<Rightarrow> signaling_peer_id \<Rightarrow> route_graph_edge option" where
  "edge_for g r = bt_get (gg_edges g) r"

definition set_intent :: "group_route_graph \<Rightarrow> signaling_peer_id \<Rightarrow> route_intent \<Rightarrow> transport_error + group_route_graph" where
  "set_intent g r intent =
     (case bt_get (gg_edges g) r of
        None \<Rightarrow> connectivity_error ''route graph remote peer is not an admitted edge''
      | Some e \<Rightarrow> Inr (g\<lparr>gg_edges := bt_insert r (e\<lparr>ge_intent := intent\<rparr>) (gg_edges g)\<rparr>))"

definition validate_edge :: "group_route_graph \<Rightarrow> signaling_peer_id \<times> route_graph_edge \<Rightarrow> transport_error + unit" where
  "validate_edge g = (\<lambda>(k, e).
     if k \<noteq> ge_remote_peer_id e then connectivity_error ''route graph edge key must match remote peer id''
     else if ge_local_peer_id e \<noteq> gg_local_peer_id g then connectivity_error ''route graph edge local peer must match graph local peer''
     else and_then (edge_new (ge_local_peer_id e) (ge_remote_peer_id e) (ge_intent e)) (\<lambda>_. Inr ()))"

definition graph_validate :: "group_route_graph \<Rightarrow> transport_error + unit" where
  "graph_validate g =
     (if gg_schema_version g \<noteq> route_graph_schema_version then connectivity_error ''unsupported route graph schema version''
      else and_then (graph_scope_validate (gg_scope g)) (\<lambda>_.
        if bt_len (gg_edges g) = 0 then connectivity_error ''route graph requires at least one admitted remote peer''
        else try_each (validate_edge g) (bt_entries (gg_edges g))))"

section \<open>Loops and encodings\<close>

lemma hex_table_inj: "i < 16 \<Longrightarrow> j < 16 \<Longrightarrow> hex_table ! i = hex_table ! j \<longleftrightarrow> i = j"
  by (rule nth_eq_iff_index_eq) (simp_all add: hex_table_def)

lemma high_nibble: "unat (drop_bit 4 (b :: u8)) = unat b div 16"
  by (simp only: unat_drop_bit_eq) (simp add: drop_bit_eq_div)

lemma low_nibble: "unat (b AND 0x0F :: u8) = unat b mod 16"
proof -
  have "b AND 0x0F = take_bit 4 b" by (simp add: take_bit_eq_mask mask_eq_exp_minus_1)
  then show ?thesis by (simp only: unsigned_take_bit_eq) (simp add: take_bit_eq_mod)
qed

lemma nibbles_inj:
  assumes "hex_table ! unat (drop_bit 4 a) = hex_table ! unat (drop_bit 4 (b :: u8))"
    and "hex_table ! unat (a AND 0x0F) = hex_table ! unat (b AND 0x0F)"
  shows "a = b"
proof -
  have "unat a div 16 = unat b div 16" "unat a mod 16 = unat b mod 16"
    using assms unat_byte[of a] unat_byte[of b] by (simp_all add: high_nibble low_nibble hex_table_inj)
  then have "unat a = unat b" by (metis div_mult_mod_eq)
  then show ?thesis by (simp only: word_unat_eq_iff)
qed

lemma lower_hex_inj [simp]: "lower_hex a = lower_hex b \<longleftrightarrow> a = b"
proof (induction a arbitrary: b)
  case Nil
  then show ?case by (cases b) (simp_all add: lower_hex_def)
next
  case (Cons x a)
  then show ?case by (cases b) (auto simp: lower_hex_def dest: nibbles_inj)
qed

lemma length_lower_hex [simp]: "length (lower_hex bs) = 2 * length bs"
  by (induction bs) (simp_all add: lower_hex_def)

lemma hex_table_hexdigit: "i < 16 \<Longrightarrow> is_hexdigit (hex_table ! i)"
proof -
  have "list_all is_hexdigit hex_table" by code_simp
  then show "i < 16 \<Longrightarrow> is_hexdigit (hex_table ! i)" by (simp add: list_all_length hex_table_def)
qed

lemma lower_hex_digits: "list_all is_hexdigit (lower_hex bs)"
proof (induction bs)
  case (Cons b bs)
  have "unat b div 16 < 16" using unat_byte[of b] by simp
  then show ?case using Cons by (simp add: lower_hex_def high_nibble low_nibble hex_table_hexdigit)
qed (simp add: lower_hex_def)

text \<open>The commitment of every non-default scope derived from a 32-byte digest is accepted.\<close>

lemma derived_commitment_valid:
  "length (sha256 (str_bytes ''discrypt-connectivity-scope-v1'' @ str_bytes (level_name level) @ str_bytes domain @ secret)) = 32 \<Longrightarrow>
   validate_commitment (derive_scope_commitment sha256 level secret domain) = Inr ()"
  by (simp add: validate_commitment_def derive_scope_commitment_def lower_hex_digits)

section \<open>Precedence of policies\<close>

fun opt_list :: "'a option \<Rightarrow> 'a list" where
  "opt_list None = []"
| "opt_list (Some x) = [x]"

text \<open>The policies that apply to a target, the most specific one first.\<close>

definition precedence ::
  "connectivity_policy_store \<Rightarrow> conversation_scope \<Rightarrow> connectivity_policy option \<Rightarrow> (connectivity_policy_source \<times> connectivity_policy) list" where
  "precedence st target invite =
     (let key = sc_scope_id_commitment target; lookup = \<lambda>src m k. map (Pair src) (opt_list (bt_get m k))
      in map (Pair SourceInviteBootstrap) (opt_list invite) @
         (case sc_level target of
            LevelChannel \<Rightarrow> lookup SourceChannelOverride (st_channel_policies st) key @
              concat (map (lookup SourceGroupDefault (st_group_policies st)) (opt_list (sc_parent_scope_commitment target)))
          | LevelGroup \<Rightarrow> lookup SourceGroupDefault (st_group_policies st) key
          | LevelDm \<Rightarrow> lookup SourceDmOverride (st_dm_policies st) key
          | _ \<Rightarrow> []) @
         [(SourceAppDefault, st_app_default st)])"

lemma effective_ok:
  "effective src p = Inr e \<longleftrightarrow> connectivity_policy_validate p = Inr () \<and> e = \<lparr>ef_source = src, ef_policy = p\<rparr>"
  by (auto simp: effective_def and_then_Inr)

lemma resolve_head:
  assumes "connectivity_policy_validate (st_app_default st) = Inr ()" and "scope_validate target = Inr ()"
  shows "policy_resolve st target invite =
    (case hd (precedence st target invite) of (src, p) \<Rightarrow> effective src p)"
  using assms
  by (cases invite) (auto simp: policy_resolve_def precedence_def effective_def Let_def
      split: connectivity_scope_level.splits option.splits)


text \<open>\<open>ConnectivityPolicy::validate\<close> does not look into the embedded ICE profile beyond its id.\<close>

lemma policy_validate_ignores_ice:
  "ice_profile_id q = ice_profile_id (cn_ice_profile p) \<Longrightarrow>
   connectivity_policy_validate (p\<lparr>cn_ice_profile := q\<rparr>) = connectivity_policy_validate p"
  by (simp add: connectivity_policy_validate_def)

section \<open>Separation of rendezvous rooms\<close>

lemma str_bytes_append: "str_bytes (s @ t) = str_bytes s @ str_bytes t"
  by (simp add: str_bytes_def)

lemma prefix_str_bytes: "prefix (str_bytes s) (str_bytes t) \<longleftrightarrow> prefix s t"
proof
  assume "prefix (str_bytes s) (str_bytes t)"
  then have "str_bytes (take (length s) t) = str_bytes s"
    by (metis append_eq_conv_conj length_str_bytes prefix_def str_bytes_def take_map)
  then have "take (length s) t = s" by simp
  then show "prefix s t" by (metis take_is_prefix)
qed (auto simp: prefix_def str_bytes_append)

lemma str_bytes_split: "str_bytes s @ r = str_bytes t @ r' \<Longrightarrow> prefix s t \<or> prefix t s"
  by (metis prefixI prefix_str_bytes prefix_same_cases)

lemma str_bytes_cut: "length s = length t \<Longrightarrow> str_bytes s @ r = str_bytes t @ r' \<longleftrightarrow> s = t \<and> r = r'"
  by simp

definition purposes :: "string list" where
  "purposes = [topic_domain, publish_domain, subscribe_domain]"

lemma purpose_cut:
  assumes "str_bytes (purposes ! i) @ r = str_bytes (purposes ! j) @ r'" and "i < 3" and "j < 3"
  shows "i = j \<and> r = r'"
proof -
  have "i = j" using assms(2,3) str_bytes_split[OF assms(1)]
    by (auto simp: less_Suc_eq numeral_3_eq_3 purposes_def topic_domain_def publish_domain_def subscribe_domain_def)
  then show ?thesis using assms(1) by simp
qed

lemma level_cut:
  assumes "str_bytes (level_name l) @ r = str_bytes (level_name l') @ r'"
  shows "l = l' \<and> r = r'"
proof -
  have "l = l'" using str_bytes_split[OF assms] by (cases l; cases l') simp_all
  then show ?thesis using assms by simp
qed

lemma kind_cut:
  assumes "str_bytes (canonical_name k) @ r = str_bytes (canonical_name k') @ r'"
  shows "k = k' \<and> r = r'"
proof -
  have "k = k'" using str_bytes_split[OF assms] by (cases k; cases k') simp_all
  then show ?thesis using assms by simp
qed

lemma commitment_ok: "validate_commitment v = Inr () \<longleftrightarrow> length v = 64 \<and> list_all is_hexdigit v"
  by (simp add: validate_commitment_def)

lemma scope_ok:
  "scope_validate s = Inr () \<longleftrightarrow>
     (if sc_level s = LevelAppDefault then sc_scope_id_commitment s = ''app_default''
      else validate_commitment (sc_scope_id_commitment s) = Inr ()) \<and>
     (\<forall>p. sc_parent_scope_commitment s = Some p \<longrightarrow> validate_commitment p = Inr ())"
  by (auto simp: scope_validate_def and_then_Inr split: option.splits)

lemma kind_not_hex: "\<exists>c \<in> set (canonical_name k). \<not> is_hexdigit c" and short_kind: "length (canonical_name k) < 64"
  by (cases k; simp add: is_hexdigit_def is_digit_def in_range_def)+

text \<open>A parent commitment cannot be confused with an adapter name, so its absence is unambiguous.\<close>

lemma parent_not_kind:
  assumes "validate_commitment p = Inr ()"
  shows "str_bytes (canonical_name k) @ r \<noteq> str_bytes p @ r'"
proof
  assume "str_bytes (canonical_name k) @ r = str_bytes p @ r'"
  then have "prefix (canonical_name k) p \<or> prefix p (canonical_name k)" by (rule str_bytes_split)
  moreover have "\<not> prefix p (canonical_name k)"
    using assms short_kind[of k] prefix_length_le[of p "canonical_name k"] by (auto simp: commitment_ok)
  ultimately have "prefix (canonical_name k) p" by blast
  then have "set (canonical_name k) \<subseteq> set p" by (rule set_mono_prefix)
  then show False using assms kind_not_hex[of k] by (auto simp: commitment_ok list_all_iff)
qed

lemma rendezvous_preimage_inj:
  assumes "rendezvous_preimage (purposes ! i) s k b e = rendezvous_preimage (purposes ! j) s' k' b' e'"
    and "i < 3" and "j < 3" and s: "scope_validate s = Inr ()" and s': "scope_validate s' = Inr ()"
  shows "i = j \<and> s = s' \<and> k = k' \<and> b @ e = b' @ e'"
proof -
  let ?parent = "\<lambda>s. case sc_parent_scope_commitment s of Some parent \<Rightarrow> str_bytes parent | None \<Rightarrow> []"
  let ?tail = "\<lambda>s k b e. ?parent s @ str_bytes (canonical_name k) @ b @ e"
  let ?id = "\<lambda>s k b e. str_bytes (sc_scope_id_commitment s) @ ?tail s k b e"
  have ij: "i = j" and lev: "str_bytes (level_name (sc_level s)) @ ?id s k b e = str_bytes (level_name (sc_level s')) @ ?id s' k' b' e'"
    using purpose_cut[OF assms(1)[unfolded rendezvous_preimage_def] assms(2,3)] by simp_all
  have l: "sc_level s = sc_level s'" and ids: "?id s k b e = ?id s' k' b' e'"
    using level_cut[OF lev] by simp_all
  have "length (sc_scope_id_commitment s) = length (sc_scope_id_commitment s')"
    using s s' l by (cases "sc_level s = LevelAppDefault") (simp_all add: scope_ok commitment_ok)
  then have ids': "sc_scope_id_commitment s = sc_scope_id_commitment s'" and tl: "?tail s k b e = ?tail s' k' b' e'"
    using ids by (simp_all add: str_bytes_cut)
  have pv: "sc_parent_scope_commitment s = Some p \<Longrightarrow> validate_commitment p = Inr ()"
    "sc_parent_scope_commitment s' = Some p \<Longrightarrow> validate_commitment p = Inr ()" for p
    using s s' by (simp_all add: scope_ok)
  have par: "sc_parent_scope_commitment s = sc_parent_scope_commitment s'"
  proof (cases "sc_parent_scope_commitment s")
    case None
    show ?thesis
    proof (cases "sc_parent_scope_commitment s'")
      case (Some p)
      then show ?thesis using None tl parent_not_kind[OF pv(2)[OF Some]] by simp
    qed (simp add: None)
  next
    case (Some p)
    show ?thesis
    proof (cases "sc_parent_scope_commitment s'")
      case None
      then show ?thesis using Some tl parent_not_kind[OF pv(1)[OF Some]] by (metis append_Nil option.case)
    next
      case S: (Some p')
      have "length p = length p'" using pv Some S by (simp add: commitment_ok)
      then show ?thesis using Some S tl by simp
    qed
  qed
  then have "str_bytes (canonical_name k) @ b @ e = str_bytes (canonical_name k') @ b' @ e'" using tl by simp
  then have "k = k' \<and> b @ e = b' @ e'" by (rule kind_cut)
  then show ?thesis using ij l ids' par by simp
qed

text \<open>What the provider of a room sees of a capability.\<close>

definition rendezvous_labels :: "rendezvous_capability \<Rightarrow> string option list" where
  "rendezvous_labels c = [Some (rz_topic c), rz_publish_token_commitment c, rz_subscribe_token_commitment c]"

lemma derive_ok:
  "rendezvous_derive sha256 s k b e ttl posture label = Inr c \<longleftrightarrow>
     scope_validate s = Inr () \<and> 32 \<le> length b \<and> 16 \<le> length e \<and> 0 < ttl \<and> ttl \<le> 86400 \<and>
     c = \<lparr>rz_scope = s, rz_adapter_kind = k, rz_topic = ''discrypt-rv1-'' @ canonical_name k @ ''-'' @ derive_hex sha256 topic_domain s k b e,
       rz_publish_token_commitment = Some (derive_hex sha256 publish_domain s k b e),
       rz_subscribe_token_commitment = Some (derive_hex sha256 subscribe_domain s k b e),
       rz_ttl_seconds = ttl, rz_metadata_posture = posture, rz_trust_label = label\<rparr>"
  by (auto simp: rendezvous_derive_def and_then_Inr)

lemma kind_cut_string: "canonical_name k @ CHR ''-'' # r = canonical_name k' @ CHR ''-'' # r' \<Longrightarrow> r = r'"
  using kind_cut[of k "str_bytes (CHR ''-'' # r)" k' "str_bytes (CHR ''-'' # r')"]
  by (metis list.inject str_bytes_append str_bytes_inj)

lemma topic_not_token: "''discrypt-rv1-'' @ r \<noteq> derive_hex sha256 d s k b e"
proof
  assume "''discrypt-rv1-'' @ r = derive_hex sha256 d s k b e"
  then have "list_all is_hexdigit (''discrypt-rv1-'' @ r)" using lower_hex_digits by (metis derive_hex_def)
  then show False by (simp add: is_hexdigit_def is_digit_def in_range_def)
qed

lemma label_digest:
  assumes "rendezvous_derive sha256 s k b e ttl pt lb = Inr c" and "rendezvous_derive sha256 s' k' b' e' ttl' pt' lb' = Inr c'"
    and "i < 3" and "j < 3" and "rendezvous_labels c ! i = rendezvous_labels c' ! j"
  shows "derive_hex sha256 (purposes ! i) s k b e = derive_hex sha256 (purposes ! j) s' k' b' e'"
  using assms topic_not_token topic_not_token[symmetric]
  by (auto simp: derive_ok rendezvous_labels_def purposes_def less_Suc_eq numeral_3_eq_3 dest: kind_cut_string)

definition demo_scope :: conversation_scope where
  "demo_scope = \<lparr>sc_level = LevelAppDefault, sc_scope_id_commitment = ''app_default'', sc_parent_scope_commitment = None\<rparr>"

definition demo_trust :: adapter_trust_label where
  "demo_trust = \<lparr>tl_label = ''relay'', tl_posture = ''public''\<rparr>"



section \<open>Route graphs follow the admitted peers\<close>

lemma edge_new_ok:
  "edge_new local r i = Inr e \<longleftrightarrow> local \<noteq> r \<and> e = \<lparr>ge_local_peer_id = local, ge_remote_peer_id = r, ge_intent = i\<rparr>"
  by (auto simp: edge_new_def)

lemma add_edges_ok:
  "add_edges local i seen edges rs = Inr edges' \<Longrightarrow>
     local \<notin> set rs \<and> distinct rs \<and> (\<forall>r \<in> set rs. \<not> bs_member seen r) \<and>
     bt_get edges' = (\<lambda>r. if r \<in> set rs then Some \<lparr>ge_local_peer_id = local, ge_remote_peer_id = r, ge_intent = i\<rparr> else bt_get edges r)"
proof (induction rs arbitrary: seen edges)
  case (Cons r rs)
  from Cons.prems have "r \<noteq> local" "\<not> bs_member seen r"
    and "add_edges local i (bs_insert r seen) (bt_insert r \<lparr>ge_local_peer_id = local, ge_remote_peer_id = r, ge_intent = i\<rparr> edges) rs = Inr edges'"
    by (auto simp: and_then_Inr edge_new_ok split: if_splits)
  then show ?case using Cons.IH by fastforce
qed simp

lemma add_edges_succeeds:
  "local \<notin> set rs \<Longrightarrow> distinct rs \<Longrightarrow> \<forall>r \<in> set rs. \<not> bs_member seen r \<Longrightarrow> \<exists>edges'. add_edges local i seen edges rs = Inr edges'"
proof (induction rs arbitrary: seen edges)
  case (Cons r rs)
  have "\<forall>r' \<in> set rs. \<not> bs_member (bs_insert r seen) r'" using Cons.prems by auto
  with Cons have "\<exists>edges''. add_edges local i (bs_insert r seen) edges' rs = Inr edges''" for edges' by simp
  then show ?case using Cons.prems by (auto simp: edge_new_def)
qed simp

lemma bt_len_0: "bt_len m = 0 \<longleftrightarrow> bt_get m = Map.empty"
  by (simp add: bt_len_card)

lemma graph_new_ok:
  assumes "graph_new scope local remotes i = Inr g"
  shows "graph_scope_validate scope = Inr ()" and "gg_schema_version g = 1" and "gg_scope g = scope" and "gg_local_peer_id g = local"
    and "local \<notin> set remotes" and "distinct remotes" and "remotes \<noteq> []"
    and "edge_for g r = (if r \<in> set remotes then Some \<lparr>ge_local_peer_id = local, ge_remote_peer_id = r, ge_intent = i\<rparr> else None)"
proof -
  from assms obtain edges where e: "add_edges local i (bs_of_list []) bt_empty remotes = Inr edges" and "bt_len edges \<noteq> 0"
    and s: "graph_scope_validate scope = Inr ()"
    and g: "g = \<lparr>gg_schema_version = route_graph_schema_version, gg_scope = scope, gg_local_peer_id = local, gg_edges = edges\<rparr>"
    by (auto simp: graph_new_def and_then_Inr split: if_splits)
  note a = add_edges_ok[OF e]
  show "graph_scope_validate scope = Inr ()" by (rule s)
  show "gg_schema_version g = 1" "gg_scope g = scope" "gg_local_peer_id g = local" by (simp_all add: g route_graph_schema_version_def)
  show "local \<notin> set remotes" "distinct remotes" using a by simp_all
  show "remotes \<noteq> []" using a \<open>bt_len edges \<noteq> 0\<close> by (auto simp: bt_len_0)
  show "edge_for g r = (if r \<in> set remotes then Some \<lparr>ge_local_peer_id = local, ge_remote_peer_id = r, ge_intent = i\<rparr> else None)"
    using a by (simp add: edge_for_def g)
qed

lemma graph_new_succeeds:
  "is_ok (graph_new scope local remotes i) \<longleftrightarrow>
     graph_scope_validate scope = Inr () \<and> local \<notin> set remotes \<and> distinct remotes \<and> remotes \<noteq> []"
proof
  assume "is_ok (graph_new scope local remotes i)"
  then obtain g where "graph_new scope local remotes i = Inr g" by (auto simp: is_ok_iff)
  from graph_new_ok(1,5-7)[OF this]
  show "graph_scope_validate scope = Inr () \<and> local \<notin> set remotes \<and> distinct remotes \<and> remotes \<noteq> []" by simp
next
  assume r: "graph_scope_validate scope = Inr () \<and> local \<notin> set remotes \<and> distinct remotes \<and> remotes \<noteq> []"
  then obtain edges where e: "add_edges local i (bs_of_list []) bt_empty remotes = Inr edges"
    using add_edges_succeeds[of local remotes "bs_of_list []" i bt_empty] by auto
  from add_edges_ok[OF this] r have "bt_get edges (hd remotes) \<noteq> None" by simp
  then have "bt_len edges \<noteq> 0" by (auto simp: bt_len_0)
  then show "is_ok (graph_new scope local remotes i)" using r e by (simp add: graph_new_def is_ok_iff)
qed

text \<open>A sequence of \<open>set_intent\<close> calls; a call that is refused leaves the graph as it is.\<close>

fun set_intents :: "group_route_graph \<Rightarrow> (signaling_peer_id \<times> route_intent) list \<Rightarrow> group_route_graph" where
  "set_intents g [] = g"
| "set_intents g ((r, i) # ops) = (case set_intent g r i of Inl _ \<Rightarrow> set_intents g ops | Inr g' \<Rightarrow> set_intents g' ops)"

definition graph_wf :: "group_route_graph \<Rightarrow> bool" where
  "graph_wf g \<longleftrightarrow> gg_schema_version g = 1 \<and> graph_scope_validate (gg_scope g) = Inr () \<and> (\<exists>r. edge_for g r \<noteq> None) \<and>
     (\<forall>r e. edge_for g r = Some e \<longrightarrow> ge_remote_peer_id e = r \<and> ge_local_peer_id e = gg_local_peer_id g \<and> r \<noteq> gg_local_peer_id g)"

lemma validate_edge_ok:
  "validate_edge g (k, e) = Inr () \<longleftrightarrow>
     ge_remote_peer_id e = k \<and> ge_local_peer_id e = gg_local_peer_id g \<and> k \<noteq> gg_local_peer_id g"
  by (auto simp: validate_edge_def and_then_Inr edge_new_ok)

lemma graph_validate_ok: "graph_validate g = Inr () \<longleftrightarrow> graph_wf g"
proof -
  have "try_each (validate_edge g) (bt_entries (gg_edges g)) = Inr () \<longleftrightarrow>
      (\<forall>r e. edge_for g r = Some e \<longrightarrow> ge_remote_peer_id e = r \<and> ge_local_peer_id e = gg_local_peer_id g \<and> r \<noteq> gg_local_peer_id g)"
    by (simp add: try_each_ok list_all_iff split_paired_Ball_Sigma Ball_def set_bt_entries edge_for_def split_paired_All validate_edge_ok)
  moreover have "bt_len (gg_edges g) \<noteq> 0 \<longleftrightarrow> (\<exists>r. edge_for g r \<noteq> None)" by (auto simp: bt_len_0 edge_for_def)
  ultimately show ?thesis
    by (auto simp: graph_validate_def graph_wf_def and_then_Inr route_graph_schema_version_def)
qed

lemma set_intent_edges:
  "set_intent g r i = (case edge_for g r of
     None \<Rightarrow> connectivity_error ''route graph remote peer is not an admitted edge''
   | Some e \<Rightarrow> Inr (g\<lparr>gg_edges := bt_insert r (e\<lparr>ge_intent := i\<rparr>) (gg_edges g)\<rparr>))"
  by (simp add: set_intent_def edge_for_def)

lemma set_intents_frame:
  "gg_schema_version (set_intents g ops) = gg_schema_version g \<and> gg_scope (set_intents g ops) = gg_scope g \<and>
   gg_local_peer_id (set_intents g ops) = gg_local_peer_id g"
  by (induction g ops rule: set_intents.induct) (auto simp: set_intent_edges split: option.splits)

lemma set_intents_edge:
  "edge_for (set_intents g ops) r =
     map_option (\<lambda>e. e\<lparr>ge_intent := (case map_of (rev ops) r of None \<Rightarrow> ge_intent e | Some i \<Rightarrow> i)\<rparr>) (edge_for g r)"
proof (induction g ops rule: set_intents.induct)
  case (1 g)
  then show ?case by (cases "edge_for g r") simp_all
next
  case (2 g r' i ops)
  show ?case
  proof (cases "edge_for g r'")
    case None
    then have "set_intents g ((r', i) # ops) = set_intents g ops" by (simp add: set_intent_edges)
    moreover have "edge_for (set_intents g ops) r =
        map_option (\<lambda>e. e\<lparr>ge_intent := (case map_of (rev ops) r of None \<Rightarrow> ge_intent e | Some i \<Rightarrow> i)\<rparr>) (edge_for g r)"
      using 2(1) None by (simp add: set_intent_edges)
    ultimately show ?thesis using None by (cases "r = r'") (auto simp: map_add_def split: option.splits)
  next
    case (Some e)
    let ?g = "g\<lparr>gg_edges := bt_insert r' (e\<lparr>ge_intent := i\<rparr>) (gg_edges g)\<rparr>"
    have s: "set_intent g r' i = Inr ?g" using Some by (simp add: set_intent_edges)
    have e: "edge_for ?g r = (if r = r' then Some (e\<lparr>ge_intent := i\<rparr>) else edge_for g r)" by (simp add: edge_for_def)
    have "edge_for (set_intents ?g ops) r =
        map_option (\<lambda>e. e\<lparr>ge_intent := (case map_of (rev ops) r of None \<Rightarrow> ge_intent e | Some i \<Rightarrow> i)\<rparr>) (edge_for ?g r)"
      using 2(2)[OF s] .
    then show ?thesis using s e Some by (auto simp: map_add_def split: option.splits)
  qed
qed

definition demo_graph_scope :: route_graph_scope where
  "demo_graph_scope =
     \<lparr>rg_group = \<lparr>sc_level = LevelGroup, sc_scope_id_commitment = replicate 64 CHR ''a'', sc_parent_scope_commitment = None\<rparr>,
      rg_channel = \<lparr>sc_level = LevelChannel, sc_scope_id_commitment = replicate 64 CHR ''b'',
        sc_parent_scope_commitment = Some (replicate 64 CHR ''a'')\<rparr>\<rparr>"

text \<open>
  C38: The route graph of a channel: after any sequence of intent updates, accepted or refused, it is valid for
  \<open>GroupRouteGraph::validate\<close>, has exactly one edge for each admitted remote peer, from the local peer, and each edge carries the
  intent set last, or the default intent.
\<close>

theorem route_graph_tracks_admitted:
  assumes "graph_new scope local remotes i = Inr g"
  shows "graph_validate (set_intents g ops) = Inr () \<and> edge_count (set_intents g ops) = length remotes \<and>
    edge_for (set_intents g ops) r =
      (if r \<in> set remotes
       then Some \<lparr>ge_local_peer_id = local, ge_remote_peer_id = r,
                  ge_intent = (case map_of (rev ops) r of None \<Rightarrow> i | Some j \<Rightarrow> j)\<rparr>
       else None)"
proof -
  note n = graph_new_ok[OF assms]
  have e: "edge_for (set_intents g ops) r = (if r \<in> set remotes then Some \<lparr>ge_local_peer_id = local, ge_remote_peer_id = r,
      ge_intent = (case map_of (rev ops) r of None \<Rightarrow> i | Some j \<Rightarrow> j)\<rparr> else None)" for r
    by (simp add: set_intents_edge n(8) split: option.split)
  have "dom (edge_for (set_intents g ops)) = set remotes" by (auto simp: e split: if_splits)
  then have "edge_count (set_intents g ops) = length remotes"
    using n(6) by (simp add: edge_count_def bt_len_card edge_for_def[abs_def] distinct_card)
  moreover have "graph_wf (set_intents g ops)"
    using n(1-5) hd_in_set[OF n(7)] unfolding graph_wf_def by (auto simp: set_intents_frame e split: if_splits)
  ultimately show ?thesis using e by (simp add: graph_validate_ok)
qed

theorem route_graph_tracks_admitted_witness:
  "\<exists>g. graph_new demo_graph_scope ''a'' [''b'', ''c''] (PendingIntent ''new'') = Inr g \<and>
     graph_validate (set_intents g [(''b'', DirectWebRtcIntent None), (''x'', DirectWebRtcIntent None)]) = Inr () \<and>
     edge_count (set_intents g [(''b'', DirectWebRtcIntent None), (''x'', DirectWebRtcIntent None)]) = 2 \<and>
     edge_for (set_intents g [(''b'', DirectWebRtcIntent None), (''x'', DirectWebRtcIntent None)]) ''x'' = None"
proof -
  have "graph_scope_validate demo_graph_scope = Inr ()" by code_simp
  then have "is_ok (graph_new demo_graph_scope ''a'' [''b'', ''c''] (PendingIntent ''new''))" by (simp add: graph_new_succeeds)
  then obtain g where g: "graph_new demo_graph_scope ''a'' [''b'', ''c''] (PendingIntent ''new'') = Inr g" by (auto simp: is_ok_iff)
  show ?thesis
    using g route_graph_tracks_admitted[OF g, of "[(''b'', DirectWebRtcIntent None), (''x'', DirectWebRtcIntent None)]" "''x''"] by auto
qed

text \<open>
  \<open>RouteIntent::configured_turn_webrtc\<close> refuses the placeholder TURN endpoint, but neither \<open>set_intent\<close> nor \<open>validate\<close> looks at the intent.
\<close>

lemma validate_ignores_intents:
  assumes "graph_validate g = Inr ()" and "edge_for g r = Some e"
  shows "\<exists>g'. set_intent g r (ConfiguredTurnIntent unconfigured_turn_endpoint None) = Inr g' \<and> graph_validate g' = Inr () \<and>
    (\<nexists>i. intent_configured_turn unconfigured_turn_endpoint None = Inr i)"
proof -
  let ?g = "g\<lparr>gg_edges := bt_insert r (e\<lparr>ge_intent := ConfiguredTurnIntent unconfigured_turn_endpoint None\<rparr>) (gg_edges g)\<rparr>"
  have "graph_wf ?g" using assms by (auto simp: graph_validate_ok graph_wf_def edge_for_def)
  then show ?thesis using assms(2)
    by (auto simp: set_intent_edges graph_validate_ok intent_configured_turn_def and_then_Inr)
qed

end
