(* ===== verification/Control_Lane.thy ===== *)
theory Control_Lane
  imports Connectivity_Policy
begin

text \<open>
  The broker control lane (\<open>crates/transport/src/control_lane.rs\<close>): small coordination frames, sealed under a key derived from shared invite
  material, carried over the control topic of a rendezvous room. AES-256-GCM, SHA-256, base64 and \<open>serde_json\<close> are parameters, and so is the room, a trait
  object whose implementations talk to a network. Shown: what is sealed opens at every holder of the key and an opened frame is bound to
  its sender, schema and digest; receiving returns the first pending or polled frame and otherwise keeps polling; batches are delivered in order.
\<close>

section \<open>Parameters\<close>

text \<open>The URL-safe base64 engine without padding, and \<open>serde_json::to_vec\<close> / \<open>from_slice\<close>. Documented: decoding inverts encoding.\<close>

record base64_engine =
  b64_encode :: "bytes \<Rightarrow> string"
  b64_decode :: "string \<Rightarrow> bytes option"

definition base64_correct :: "base64_engine \<Rightarrow> bool" where
  "base64_correct b64 \<longleftrightarrow> (\<forall>bs. b64_decode b64 (b64_encode b64 bs) = Some bs)"

record 'a json_slice =
  jv_to_vec :: "'a \<Rightarrow> string + bytes"
  jv_from_slice :: "bytes \<Rightarrow> string + 'a"

definition json_slice_correct :: "'a json_slice \<Rightarrow> bool" where
  "json_slice_correct js \<longleftrightarrow> (\<forall>x s. jv_to_vec js x = Inr s \<longrightarrow> jv_from_slice js s = Inr x)"

section \<open>Sealing and opening\<close>

record broker_control_envelope =
  be_schema_version :: u8
  be_from_peer :: string
  be_frame_sha256_hex :: string
  be_nonce_b64 :: string
  be_ciphertext_b64 :: string

record lane_crypto =
  lc_sha256 :: "bytes \<Rightarrow> bytes"
  lc_aead :: aead
  lc_base64 :: base64_engine
  lc_json :: "broker_control_envelope json_slice"

definition lane_crypto_correct :: "lane_crypto \<Rightarrow> bool" where
  "lane_crypto_correct c \<longleftrightarrow> aead_correct (lc_aead c) \<and> base64_correct (lc_base64 c) \<and> json_slice_correct (lc_json c)"

abbreviation adapter_error :: "string \<Rightarrow> transport_error + 'a" where
  "adapter_error m \<equiv> Inl (SignalingAdapter m)"

definition broker_control_lane_schema_version :: u8 where
  "broker_control_lane_schema_version = 1"

definition broker_control_lane_key :: "(bytes \<Rightarrow> bytes) \<Rightarrow> bytes \<Rightarrow> transport_error + bytes" where
  "broker_control_lane_key sha256 shared_material =
     (if length shared_material < 32 then adapter_error ''broker control lane key material must be at least 32 bytes''
      else Inr (sha256 (str_bytes ''discrypt-broker-control-lane-key-v1'' @ [0] @ shared_material)))"

definition frame_sha256_hex :: "(bytes \<Rightarrow> bytes) \<Rightarrow> bytes \<Rightarrow> string" where
  "frame_sha256_hex sha256 frame = lower_hex (sha256 frame)"

definition associated_data :: "u8 \<Rightarrow> string \<Rightarrow> string \<Rightarrow> bytes" where
  "associated_data schema from_peer digest = [schema] @ [0] @ str_bytes from_peer @ [0] @ str_bytes digest"

text \<open>The nonce is drawn from the operating system.\<close>

definition seal_broker_control_frame :: "lane_crypto \<Rightarrow> bytes \<Rightarrow> bytes \<Rightarrow> signaling_peer_id \<Rightarrow> bytes \<Rightarrow> transport_error + bytes" where
  "seal_broker_control_frame c nonce key from_peer frame =
     (if frame = [] then adapter_error ''broker control lane frame must not be empty''
      else let digest = frame_sha256_hex (lc_sha256 c) frame
        in (case ae_encrypt (lc_aead c) key nonce (associated_data broker_control_lane_schema_version from_peer digest) frame of
              None \<Rightarrow> adapter_error ''broker control lane seal failed''
            | Some ciphertext \<Rightarrow>
                (case jv_to_vec (lc_json c)
                    \<lparr>be_schema_version = broker_control_lane_schema_version, be_from_peer = from_peer, be_frame_sha256_hex = digest,
                     be_nonce_b64 = b64_encode (lc_base64 c) nonce, be_ciphertext_b64 = b64_encode (lc_base64 c) ciphertext\<rparr> of
                   Inl error \<Rightarrow> adapter_error (''control envelope encode: '' @ error)
                 | Inr wire \<Rightarrow> Inr wire)))"

definition decode_broker_control_envelope :: "lane_crypto \<Rightarrow> bytes \<Rightarrow> transport_error + broker_control_envelope" where
  "decode_broker_control_envelope c payload =
     (case jv_from_slice (lc_json c) payload of
        Inl _ \<Rightarrow> adapter_error ''broker control lane payload is not a versioned control envelope''
      | Inr e \<Rightarrow>
          if be_schema_version e \<noteq> broker_control_lane_schema_version
          then adapter_error (''broker control lane envelope schema '' @ nat_str (unat (be_schema_version e)) @ '' is unsupported'')
          else Inr e)"

definition open_broker_control_frame :: "lane_crypto \<Rightarrow> bytes \<Rightarrow> broker_control_envelope \<Rightarrow> transport_error + bytes" where
  "open_broker_control_frame c key e =
     and_then (case b64_decode (lc_base64 c) (be_nonce_b64 e) of
         Some bs \<Rightarrow> if length bs = 12 then Inr bs else adapter_error ''broker control lane envelope nonce is invalid''
       | None \<Rightarrow> adapter_error ''broker control lane envelope nonce is invalid'') (\<lambda>nonce.
     and_then (ok_or (SignalingAdapter ''broker control lane envelope ciphertext is invalid'') (b64_decode (lc_base64 c) (be_ciphertext_b64 e))) (\<lambda>ct.
     and_then (ok_or (SignalingAdapter ''broker control lane envelope failed authentication'')
         (ae_decrypt (lc_aead c) key nonce (associated_data (be_schema_version e) (be_from_peer e) (be_frame_sha256_hex e)) ct)) (\<lambda>frame.
       if frame_sha256_hex (lc_sha256 c) frame \<noteq> be_frame_sha256_hex e
       then adapter_error ''broker control lane envelope frame digest mismatch'' else Inr frame)))"

section \<open>The transport over a room\<close>

definition opaque_payload_new :: "bytes \<Rightarrow> transport_error + bytes" where
  "opaque_payload_new bs = (if bs = [] then adapter_error ''opaque signaling payload must not be empty'' else Inr bs)"

record control_broadcast =
  bc_from_peer :: signaling_peer_id
  bc_payload :: bytes

text \<open>The two operations of \<open>RendezvousRoom\<close> that the lane calls, on the state of the room.\<close>

record 'r control_room =
  cr_broadcast_control :: "'r \<Rightarrow> bytes \<Rightarrow> 'r \<times> (transport_error + unit)"
  cr_take_control_payloads :: "'r \<Rightarrow> 'r \<times> (transport_error + control_broadcast list)"

record 'r control_lane =
  cl_room :: 'r
  cl_key :: bytes
  cl_local_peer_id :: signaling_peer_id
  cl_inbound :: "bytes list"
  cl_frames_sent :: nat
  cl_frames_received :: nat

definition control_lane_new :: "'r \<Rightarrow> bytes \<Rightarrow> signaling_peer_id \<Rightarrow> 'r control_lane" where
  "control_lane_new room key local =
     \<lparr>cl_room = room, cl_key = key, cl_local_peer_id = local, cl_inbound = [], cl_frames_sent = 0, cl_frames_received = 0\<rparr>"

text \<open>\<open>AtomicU64::fetch_add(1)\<close> wraps.\<close>

definition count_up :: "nat \<Rightarrow> nat" where
  "count_up n = (n + 1) mod 2 ^ 64"

fun open_remote :: "lane_crypto \<Rightarrow> bytes \<Rightarrow> signaling_peer_id \<Rightarrow> control_broadcast list \<Rightarrow> transport_error + bytes list" where
  "open_remote c key local [] = Inr []"
| "open_remote c key local (b # bs) =
     (if bc_from_peer b = local then open_remote c key local bs
      else and_then (decode_broker_control_envelope c (bc_payload b)) (\<lambda>e.
           and_then (open_broker_control_frame c key e) (\<lambda>frame.
           and_then (open_remote c key local bs) (\<lambda>fs. Inr (frame # fs)))))"

definition take_remote_frames :: "lane_crypto \<Rightarrow> 'r control_room \<Rightarrow> 'r control_lane \<Rightarrow> 'r control_lane \<times> (transport_error + bytes list)" where
  "take_remote_frames c R L =
     (case cr_take_control_payloads R (cl_room L) of
        (room', r) \<Rightarrow> (L\<lparr>cl_room := room'\<rparr>, and_then r (open_remote c (cl_key L) (cl_local_peer_id L))))"

definition send_text_control_frame ::
  "lane_crypto \<Rightarrow> 'r control_room \<Rightarrow> bytes \<Rightarrow> 'r control_lane \<Rightarrow> bytes \<Rightarrow> 'r control_lane \<times> (transport_error + unit)" where
  "send_text_control_frame c R nonce L frame =
     (case and_then (seal_broker_control_frame c nonce (cl_key L) (cl_local_peer_id L) frame) opaque_payload_new of
        Inl e \<Rightarrow> (L, Inl e)
      | Inr payload \<Rightarrow>
          (case cr_broadcast_control R (cl_room L) payload of
             (room', Inl e) \<Rightarrow> (L\<lparr>cl_room := room'\<rparr>, Inl e)
           | (room', Inr _) \<Rightarrow> (L\<lparr>cl_room := room', cl_frames_sent := count_up (cl_frames_sent L)\<rparr>, Inr ())))"

definition pop_inbound :: "'r control_lane \<Rightarrow> ('r control_lane \<times> bytes) option" where
  "pop_inbound L =
     (case cl_inbound L of
        [] \<Rightarrow> None
      | f # fs \<Rightarrow> Some (L\<lparr>cl_inbound := fs, cl_frames_received := count_up (cl_frames_received L)\<rparr>, f))"

text \<open>The receive loop; \<open>None\<close> means that it polls forever. Sleeping between polls changes no state.\<close>

partial_function (option) recv_text_control_frame ::
  "lane_crypto \<Rightarrow> 'r control_room \<Rightarrow> 'r control_lane \<Rightarrow> ('r control_lane \<times> (transport_error + bytes)) option" where
  "recv_text_control_frame c R L =
     (case pop_inbound L of
        Some (L', frame) \<Rightarrow> Some (L', Inr frame)
      | None \<Rightarrow>
          (case take_remote_frames c R L of
             (L', Inl e) \<Rightarrow> Some (L', Inl e)
           | (L', Inr frames) \<Rightarrow>
               if frames \<noteq> []
               then (case pop_inbound (L'\<lparr>cl_inbound := cl_inbound L' @ frames\<rparr>) of
                       Some (L'', frame) \<Rightarrow> Some (L'', Inr frame)
                     | None \<Rightarrow> recv_text_control_frame c R (L'\<lparr>cl_inbound := cl_inbound L' @ frames\<rparr>))
               else recv_text_control_frame c R L'))"

record lane_metrics =
  lm_schema_version :: nat
  lm_label :: string
  lm_attached_channels :: nat
  lm_open :: bool
  lm_frames_sent :: nat
  lm_frames_received :: nat
  lm_bytes_sent :: nat
  lm_bytes_received :: nat
  lm_last_state :: string

definition lane_metrics_snapshot :: "'r control_lane \<Rightarrow> lane_metrics" where
  "lane_metrics_snapshot L =
     \<lparr>lm_schema_version = 1, lm_label = ''broker-control-lane'', lm_attached_channels = 1, lm_open = True, lm_frames_sent = cl_frames_sent L,
      lm_frames_received = cl_frames_received L, lm_bytes_sent = 0, lm_bytes_received = 0, lm_last_state = ''open''\<rparr>"

section \<open>Sealed frames open, opened frames are bound\<close>

lemma seal_ok:
  "seal_broker_control_frame c nonce key p frame = Inr wire \<longleftrightarrow>
     frame \<noteq> [] \<and> (\<exists>ct. ae_encrypt (lc_aead c) key nonce (associated_data 1 p (frame_sha256_hex (lc_sha256 c) frame)) frame = Some ct \<and>
       jv_to_vec (lc_json c) \<lparr>be_schema_version = 1, be_from_peer = p, be_frame_sha256_hex = frame_sha256_hex (lc_sha256 c) frame,
         be_nonce_b64 = b64_encode (lc_base64 c) nonce, be_ciphertext_b64 = b64_encode (lc_base64 c) ct\<rparr> = Inr wire)"
  by (auto simp: seal_broker_control_frame_def broker_control_lane_schema_version_def Let_def split: option.splits sum.splits)

lemma open_ok:
  "open_broker_control_frame c key e = Inr frame \<longleftrightarrow>
     (\<exists>nonce ct. b64_decode (lc_base64 c) (be_nonce_b64 e) = Some nonce \<and> length nonce = 12 \<and>
        b64_decode (lc_base64 c) (be_ciphertext_b64 e) = Some ct \<and>
        ae_decrypt (lc_aead c) key nonce (associated_data (be_schema_version e) (be_from_peer e) (be_frame_sha256_hex e)) ct = Some frame \<and>
        frame_sha256_hex (lc_sha256 c) frame = be_frame_sha256_hex e)"
  by (auto simp: open_broker_control_frame_def and_then_Inr ok_or_Inr split: option.splits if_splits)

lemma sealed_opens:
  assumes "lane_crypto_correct c" and "length nonce = 12" and "seal_broker_control_frame c nonce key p frame = Inr wire"
  shows "\<exists>e. decode_broker_control_envelope c wire = Inr e \<and> be_from_peer e = p \<and> open_broker_control_frame c key e = Inr frame"
  using assms
  by (fastforce simp: seal_ok open_ok decode_broker_control_envelope_def broker_control_lane_schema_version_def lane_crypto_correct_def
      aead_correct_def base64_correct_def json_slice_correct_def)

lemma hexdigit_nonzero: "is_hexdigit ch \<Longrightarrow> (word_of_nat (of_char ch) :: u8) \<noteq> 0"
proof
  assume d: "is_hexdigit ch" and z: "(word_of_nat (of_char ch) :: u8) = 0"
  from z have "unat (word_of_nat (of_char ch) :: u8) = 0" by simp
  then have "(of_char ch :: nat) = 0" by (simp only: unat_char)
  with d show False by (simp add: is_hexdigit_def is_digit_def in_range_def)
qed

lemma digest_no_nul: "0 \<notin> set (str_bytes (frame_sha256_hex sha256 f))"
  using lower_hex_digits[of "sha256 f"] hexdigit_nonzero unfolding frame_sha256_hex_def str_bytes_def list_all_iff by fastforce

lemma last_nul_split:
  assumes "a @ (0 :: u8) # b = a' @ 0 # b'" and "0 \<notin> set b" and "0 \<notin> set b'"
  shows "a = a' \<and> b = b'"
proof -
  have "takeWhile (\<lambda>x. x \<noteq> 0) (rev (a @ 0 # b)) = rev b" if "0 \<notin> set b" for a b :: bytes
    using that by (simp add: takeWhile_tail) (metis set_rev takeWhile_eq_all_conv)
  then have "rev b = rev b'" using assms by metis
  then show ?thesis using assms(1) by simp
qed

text \<open>The associated data determine the schema, the sender and the digest.\<close>

lemma associated_data_inj:
  assumes "associated_data v p (frame_sha256_hex sha256 f) = associated_data v' p' (frame_sha256_hex sha256 f')"
  shows "v = v' \<and> p = p' \<and> sha256 f = sha256 f'"
proof -
  from assms have v: "v = v'" and r: "str_bytes p @ 0 # str_bytes (frame_sha256_hex sha256 f) = str_bytes p' @ 0 # str_bytes (frame_sha256_hex sha256 f')"
    by (simp_all add: associated_data_def)
  show ?thesis using v last_nul_split[OF r digest_no_nul digest_no_nul] by (simp add: frame_sha256_hex_def)
qed

lemma decode_schema: "decode_broker_control_envelope c w = Inr e \<Longrightarrow> be_schema_version e = 1"
  by (auto simp: decode_broker_control_envelope_def broker_control_lane_schema_version_def split: sum.splits if_splits)

text \<open>
  A control frame that a lane accepts is authentic: its ciphertext is the encryption, under the lane's key, of exactly
  this frame with associated data made from the current schema, the sender that the envelope names and the frame's
  digest, and any other schema, sender or digest gives different associated data.
\<close>

theorem control_frame_bound:
  assumes "lane_crypto_correct c" and "decode_broker_control_envelope c w = Inr e" and "open_broker_control_frame c key e = Inr f"
  shows "\<exists>nonce ct. length nonce = 12 \<and> b64_decode (lc_base64 c) (be_nonce_b64 e) = Some nonce \<and>
    b64_decode (lc_base64 c) (be_ciphertext_b64 e) = Some ct \<and>
    ae_encrypt (lc_aead c) key nonce (associated_data 1 (be_from_peer e) (frame_sha256_hex (lc_sha256 c) f)) f = Some ct \<and>
    (\<forall>v p g. associated_data v p (frame_sha256_hex (lc_sha256 c) g) = associated_data 1 (be_from_peer e) (frame_sha256_hex (lc_sha256 c) f) \<longrightarrow>
      v = 1 \<and> p = be_from_peer e \<and> lc_sha256 c g = lc_sha256 c f)"
proof -
  from assms(3) obtain nonce ct where "b64_decode (lc_base64 c) (be_nonce_b64 e) = Some nonce" "length nonce = 12"
    "b64_decode (lc_base64 c) (be_ciphertext_b64 e) = Some ct" and f: "frame_sha256_hex (lc_sha256 c) f = be_frame_sha256_hex e"
    and "ae_decrypt (lc_aead c) key nonce (associated_data (be_schema_version e) (be_from_peer e) (be_frame_sha256_hex e)) ct = Some f"
    by (auto simp: open_ok)
  moreover from this have "ae_encrypt (lc_aead c) key nonce (associated_data 1 (be_from_peer e) (frame_sha256_hex (lc_sha256 c) f)) f = Some ct"
    using assms(1) decode_schema[OF assms(2)] unfolding f by (simp add: lane_crypto_correct_def aead_correct_def)
  ultimately show ?thesis using associated_data_inj by blast
qed

section \<open>Receiving\<close>

text \<open>One unsuccessful turn of the receive loop, when a turn is the last one, and what that turn returns.\<close>

definition lane_poll :: "lane_crypto \<Rightarrow> 'r control_room \<Rightarrow> 'r control_lane \<Rightarrow> 'r control_lane" where
  "lane_poll c R L = fst (take_remote_frames c R L)"

definition decisive :: "lane_crypto \<Rightarrow> 'r control_room \<Rightarrow> 'r control_lane \<Rightarrow> bool" where
  "decisive c R L \<longleftrightarrow> cl_inbound L \<noteq> [] \<or> snd (take_remote_frames c R L) \<noteq> Inr []"

definition lane_outcome :: "lane_crypto \<Rightarrow> 'r control_room \<Rightarrow> 'r control_lane \<Rightarrow> 'r control_lane \<times> (transport_error + bytes)" where
  "lane_outcome c R L =
     (let deliver = \<lambda>L fs. (L\<lparr>cl_inbound := tl fs, cl_frames_received := count_up (cl_frames_received L)\<rparr>, Inr (hd fs))
      in if cl_inbound L \<noteq> [] then deliver L (cl_inbound L)
         else (case snd (take_remote_frames c R L) of
                 Inl e \<Rightarrow> (lane_poll c R L, Inl e)
               | Inr fs \<Rightarrow> deliver (lane_poll c R L) fs))"

lemma take_keeps: "cl_inbound (lane_poll c R L) = cl_inbound L" "cl_frames_received (lane_poll c R L) = cl_frames_received L"
  by (simp_all add: lane_poll_def take_remote_frames_def split: prod.splits)

lemma recv_step:
  "recv_text_control_frame c R L =
     (if decisive c R L then Some (lane_outcome c R L) else recv_text_control_frame c R (lane_poll c R L))"
proof (cases "cl_inbound L")
  case Nil
  obtain L' r where t: "take_remote_frames c R L = (L', r)" by fastforce
  have "cl_inbound L' = []" using take_keeps(1)[of c R L] Nil by (simp add: lane_poll_def t)
  then show ?thesis
    by (subst recv_text_control_frame.simps)
      (use Nil t in \<open>auto simp: pop_inbound_def decisive_def lane_outcome_def lane_poll_def Let_def split: sum.splits list.splits\<close>)
next
  case (Cons f fs)
  then show ?thesis
    by (subst recv_text_control_frame.simps) (simp add: pop_inbound_def decisive_def lane_outcome_def Let_def)
qed

lemma recv_after_polls:
  "(\<And>i. i < n \<Longrightarrow> \<not> decisive c R ((lane_poll c R ^^ i) L)) \<Longrightarrow>
   recv_text_control_frame c R L = recv_text_control_frame c R ((lane_poll c R ^^ n) L)"
proof (induction n)
  case (Suc n)
  then have "recv_text_control_frame c R L = recv_text_control_frame c R ((lane_poll c R ^^ n) L)" by simp
  also have "\<dots> = recv_text_control_frame c R (lane_poll c R ((lane_poll c R ^^ n) L))"
    using Suc.prems[of n] by (subst recv_step) simp
  finally show ?case by simp
qed simp

lemma recv_returns_decisive:
  "recv_text_control_frame c R L = Some y \<Longrightarrow> \<exists>n. decisive c R ((lane_poll c R ^^ n) L)"
proof (rule recv_text_control_frame.raw_induct[where P = "\<lambda>c R L y. \<exists>n. decisive c R ((lane_poll c R ^^ n) L)"], goal_cases)
  case (1 recv c R L y)
  show ?case
  proof (cases "decisive c R L")
    case True
    then have "decisive c R ((lane_poll c R ^^ 0) L)" by simp
    then show ?thesis by blast
  next
    case False
    then have "cl_inbound L = []" and "take_remote_frames c R L = (lane_poll c R L, Inr [])"
      by (auto simp: decisive_def lane_poll_def prod_eq_iff)
    then have "recv c R (lane_poll c R L) = Some y" using 1(3) by (simp add: pop_inbound_def)
    from 1(2)[OF this] obtain n where "decisive c R ((lane_poll c R ^^ n) (lane_poll c R L))" by blast
    then have "decisive c R ((lane_poll c R ^^ Suc n) L)" by (simp add: funpow_swap1)
    then show ?thesis by blast
  qed
qed

text \<open>
  C28: The receive loop, for every room: it returns exactly if some poll is decisive (a frame is pending, or polling yields a frame of another peer, or
  polling or opening fails), and then with the outcome of the first decisive poll; otherwise it polls forever.
\<close>

theorem control_receive_exact:
  "(\<exists>n. decisive c R ((lane_poll c R ^^ n) L) \<and> (\<forall>i < n. \<not> decisive c R ((lane_poll c R ^^ i) L)) \<and>
      recv_text_control_frame c R L = Some (lane_outcome c R ((lane_poll c R ^^ n) L))) \<or>
   (\<forall>n. \<not> decisive c R ((lane_poll c R ^^ n) L)) \<and> recv_text_control_frame c R L = None"
proof (cases "\<exists>n. decisive c R ((lane_poll c R ^^ n) L)")
  case True
  define n where "n = (LEAST n. decisive c R ((lane_poll c R ^^ n) L))"
  have d: "decisive c R ((lane_poll c R ^^ n) L)" using True unfolding n_def by (rule LeastI_ex)
  have l: "\<forall>i < n. \<not> decisive c R ((lane_poll c R ^^ i) L)" using not_less_Least unfolding n_def by blast
  have "recv_text_control_frame c R L = Some (lane_outcome c R ((lane_poll c R ^^ n) L))"
    using recv_after_polls[of n c R L] l d recv_step[of c R "(lane_poll c R ^^ n) L"] by simp
  then show ?thesis using d l by blast
next
  case False
  then have "recv_text_control_frame c R L = None"
    using recv_returns_decisive[of c R L] by (cases "recv_text_control_frame c R L") simp_all
  then show ?thesis using False by blast
qed

section \<open>Delivery of a batch\<close>

primrec recv_many ::
  "nat \<Rightarrow> lane_crypto \<Rightarrow> 'r control_room \<Rightarrow> 'r control_lane \<Rightarrow> ('r control_lane \<times> (transport_error + bytes) list) option" where
  "recv_many 0 c R L = Some (L, [])"
| "recv_many (Suc n) c R L =
     (case recv_text_control_frame c R L of
        None \<Rightarrow> None
      | Some (L', r) \<Rightarrow> map_option (apsnd (Cons r)) (recv_many n c R L'))"

lemma recv_pending:
  "cl_inbound L = f # fs \<Longrightarrow>
   recv_text_control_frame c R L = Some (L\<lparr>cl_inbound := fs, cl_frames_received := count_up (cl_frames_received L)\<rparr>, Inr f)"
  by (subst recv_step) (simp add: decisive_def lane_outcome_def)

lemma recv_many_pending:
  "cl_inbound L = fs \<Longrightarrow>
   recv_many (length fs) c R L =
     Some (L\<lparr>cl_inbound := [], cl_frames_received := (count_up ^^ length fs) (cl_frames_received L)\<rparr>, map Inr fs)"
proof (induction fs arbitrary: L)
  case (Cons f fs)
  then show ?case by (simp add: recv_pending[OF Cons.prems] funpow_swap1)
qed simp

lemma count_up_pow: "(count_up ^^ Suc n) x = (x + Suc n) mod 2 ^ 64"
proof (induction n)
  case (Suc n)
  have "(count_up ^^ Suc (Suc n)) x = count_up ((count_up ^^ Suc n) x)" by simp
  also have "\<dots> = (x + Suc n + 1) mod 2 ^ 64" unfolding Suc.IH count_up_def by (rule mod_add_left_eq)
  finally show ?case by simp
qed (simp add: count_up_def)

lemma open_remote_sealed:
  assumes "lane_crypto_correct c"
    and "\<And>p n f w. (p, n, f, w) \<in> set items \<Longrightarrow> p \<noteq> local \<Longrightarrow> length n = 12 \<and> seal_broker_control_frame c n key p f = Inr w"
  shows "open_remote c key local (map (\<lambda>(p, n, f, w). \<lparr>bc_from_peer = p, bc_payload = w\<rparr>) items) =
    Inr (map (\<lambda>(p, n, f, w). f) (filter (\<lambda>x. fst x \<noteq> local) items))"
  using assms(2)
proof (induction items)
  case (Cons x items)
  obtain p n f w where x: "x = (p, n, f, w)" by (metis prod_cases4)
  have IH: "open_remote c key local (map (\<lambda>(p, n, f, w). \<lparr>bc_from_peer = p, bc_payload = w\<rparr>) items) =
    Inr (map (\<lambda>(p, n, f, w). f) (filter (\<lambda>x. fst x \<noteq> local) items))"
    using Cons.prems by (intro Cons.IH) auto
  show ?case
  proof (cases "p = local")
    case False
    then have "length n = 12" "seal_broker_control_frame c n key p f = Inr w" using Cons.prems[of p n f w] x by simp_all
    from sealed_opens[OF assms(1) this] show ?thesis using False IH x by auto
  qed (simp add: x IH)
qed simp

text \<open>
  C9: Delivery end to end: if one poll of the room returns any interleaving of own echoes and of frames that other peers sealed under the lane's key, then
  receiving as often as there are remote frames returns exactly these frames in the room's order, each once, from that single poll, and counts them.
\<close>

theorem control_lane_delivers:
  assumes "lane_crypto_correct c" and "cl_inbound L = []"
    and "\<And>p n f w. (p, n, f, w) \<in> set items \<Longrightarrow> p \<noteq> cl_local_peer_id L \<Longrightarrow>
      length n = 12 \<and> seal_broker_control_frame c n (cl_key L) p f = Inr w"
    and "cr_take_control_payloads R (cl_room L) = (room', Inr (map (\<lambda>(p, n, f, w). \<lparr>bc_from_peer = p, bc_payload = w\<rparr>) items))"
    and "fs = map (\<lambda>(p, n, f, w). f) (filter (\<lambda>x. fst x \<noteq> cl_local_peer_id L) items)" and "fs \<noteq> []"
  shows "recv_many (length fs) c R L =
    Some (L\<lparr>cl_room := room', cl_frames_received := (cl_frames_received L + length fs) mod 2 ^ 64\<rparr>, map Inr fs)"
proof -
  have t: "take_remote_frames c R L = (L\<lparr>cl_room := room'\<rparr>, Inr fs)"
    using open_remote_sealed[OF assms(1,3)] by (simp add: take_remote_frames_def assms(4,5))
  obtain f gs where fs: "fs = f # gs" using assms(6) by (cases fs) auto
  let ?L = "L\<lparr>cl_room := room', cl_inbound := gs, cl_frames_received := count_up (cl_frames_received L)\<rparr>"
  have "recv_text_control_frame c R L = Some (?L, Inr f)"
    by (subst recv_step) (simp add: decisive_def lane_outcome_def lane_poll_def assms(2) t fs)
  moreover have "recv_many (length gs) c R ?L =
      Some (?L\<lparr>cl_inbound := [], cl_frames_received := (count_up ^^ length gs) (count_up (cl_frames_received L))\<rparr>, map Inr gs)"
    by (subst recv_many_pending) simp_all
  ultimately show ?thesis
    using count_up_pow[of "length gs" "cl_frames_received L"] assms(2) by (simp add: fs funpow_swap1)
qed

section \<open>Limits of the lane\<close>

text \<open>One payload that does not decode makes the poll fail; the frames taken with it from the room are not queued.\<close>

lemma bad_payload_discards_batch:
  assumes "cl_inbound L = []" and "cr_take_control_payloads R (cl_room L) = (room', Inr (bs @ b # bs'))"
    and "open_remote c (cl_key L) (cl_local_peer_id L) bs = Inr fs" and "bc_from_peer b \<noteq> cl_local_peer_id L"
    and "decode_broker_control_envelope c (bc_payload b) = Inl e"
  shows "recv_text_control_frame c R L = Some (L\<lparr>cl_room := room'\<rparr>, Inl e)"
proof -
  have "open_remote c k p bs = Inr fs \<Longrightarrow> bc_from_peer b \<noteq> p \<Longrightarrow> open_remote c k p (bs @ b # bs') = Inl e" for k p
    using assms(5) by (induction bs arbitrary: fs) (auto simp: and_then_Inr and_then_Inl split: if_splits)
  then have "take_remote_frames c R L = (L\<lparr>cl_room := room'\<rparr>, Inl e)" using assms by (simp add: take_remote_frames_def)
  then show ?thesis by (subst recv_step) (simp add: decisive_def lane_outcome_def lane_poll_def assms(1))
qed

text \<open>Own echoes are recognised by the sender that the provider reports, not by the authenticated one.\<close>

lemma relabelled_echo_accepted:
  assumes "lane_crypto_correct c" and "length nonce = 12" and "q \<noteq> local" and "seal_broker_control_frame c nonce key local f = Inr w"
  shows "open_remote c key local [\<lparr>bc_from_peer = q, bc_payload = w\<rparr>] = Inr [f]"
  using sealed_opens[OF assms(1,2,4)] assms(3) by auto

section \<open>A concrete lane\<close>

text \<open>Base 16 in place of base 64, an escaped encoding of the envelope, and a room that plays prepared batches.\<close>

definition base16_demo :: base64_engine where
  "base16_demo = \<lparr>b64_encode = hex_encode_demo, b64_decode = (\<lambda>s. case hex_decode_demo s of Inr bs \<Rightarrow> Some bs | Inl _ \<Rightarrow> None)\<rparr>"

lemma base16_demo_correct: "base64_correct base16_demo"
  using hex_demo_correct by (simp add: base64_correct_def base16_demo_def hex_correct_def hex_demo_def)

primrec escape :: "string \<Rightarrow> bytes" where
  "escape [] = [0]"
| "escape (ch # s) = 1 # word_of_nat (of_char ch) # escape s"

fun unescape :: "bytes \<Rightarrow> string \<times> bytes" where
  "unescape (m # b # r) = (if m = 0 then ([], b # r) else apfst (Cons (char_of (unat b))) (unescape r))"
| "unescape _ = ([], [])"

lemma unescape_escape: "unescape (escape s @ r) = (s, r)"
proof (induction s)
  case Nil
  then show ?case by (cases r) simp_all
qed simp

definition envelope_demo :: "broker_control_envelope json_slice" where
  "envelope_demo = \<lparr>
     jv_to_vec = (\<lambda>e. Inr (be_schema_version e # escape (be_from_peer e) @ escape (be_frame_sha256_hex e) @
       escape (be_nonce_b64 e) @ escape (be_ciphertext_b64 e))),
     jv_from_slice = (\<lambda>w. case w of [] \<Rightarrow> Inl ''EOF'' | v # r \<Rightarrow>
       (case unescape r of (p, r) \<Rightarrow> case unescape r of (d, r) \<Rightarrow> case unescape r of (n, r) \<Rightarrow> case unescape r of (ct, _) \<Rightarrow>
          Inr \<lparr>be_schema_version = v, be_from_peer = p, be_frame_sha256_hex = d, be_nonce_b64 = n, be_ciphertext_b64 = ct\<rparr>))\<rparr>"

lemma envelope_demo_correct: "json_slice_correct envelope_demo"
proof -
  have "unescape (escape s) = (s, [])" for s using unescape_escape[of s "[]"] by simp
  then show ?thesis by (auto simp: json_slice_correct_def envelope_demo_def unescape_escape)
qed

definition lane_crypto_demo :: lane_crypto where
  "lane_crypto_demo = \<lparr>lc_sha256 = sha_demo, lc_aead = aead_demo, lc_base64 = base16_demo, lc_json = envelope_demo\<rparr>"

lemma lane_crypto_demo_correct: "lane_crypto_correct lane_crypto_demo"
  by (simp add: lane_crypto_correct_def lane_crypto_demo_def aead_demo_correct base16_demo_correct envelope_demo_correct)

definition room_demo :: "control_broadcast list list control_room" where
  "room_demo = \<lparr>cr_broadcast_control = (\<lambda>r _. (r, Inr ())),
     cr_take_control_payloads = (\<lambda>r. case r of [] \<Rightarrow> ([], Inr []) | b # bs \<Rightarrow> (bs, Inr b))\<rparr>"

lemma seal_demo: "f \<noteq> [] \<Longrightarrow> \<exists>w. seal_broker_control_frame lane_crypto_demo n k p f = Inr w"
  by (auto simp: seal_ok lane_crypto_demo_def aead_demo_def envelope_demo_def)

theorem control_frame_bound_witness:
  "\<exists>w e. decode_broker_control_envelope lane_crypto_demo w = Inr e \<and>
     open_broker_control_frame lane_crypto_demo [] e = Inr [7] \<and>
     (\<exists>nonce ct. length nonce = 12 \<and>
        ae_encrypt aead_demo [] nonce (associated_data 1 (be_from_peer e) (frame_sha256_hex sha_demo [7])) [7] = Some ct)"
proof -
  obtain w where "seal_broker_control_frame lane_crypto_demo (replicate 12 0) [] ''a'' [7] = Inr w" using seal_demo by blast
  from sealed_opens[OF lane_crypto_demo_correct _ this] obtain e
    where d: "decode_broker_control_envelope lane_crypto_demo w = Inr e" and o: "open_broker_control_frame lane_crypto_demo [] e = Inr [7]" by auto
  from control_frame_bound[OF lane_crypto_demo_correct d o]
  have "\<exists>nonce ct. length nonce = 12 \<and>
      ae_encrypt aead_demo [] nonce (associated_data 1 (be_from_peer e) (frame_sha256_hex sha_demo [7])) [7] = Some ct"
    by (fastforce simp: lane_crypto_demo_def)
  then show ?thesis using d o by blast
qed

text \<open>An idle room keeps the loop polling; a pending frame ends it at once.\<close>

theorem control_receive_exact_witness:
  "recv_text_control_frame lane_crypto_demo room_demo (control_lane_new [] [] ''a'') = None \<and>
   recv_text_control_frame lane_crypto_demo room_demo ((control_lane_new [] [] ''a'')\<lparr>cl_inbound := [[7]]\<rparr>) \<noteq> None"
proof -
  let ?L = "control_lane_new [] [] ''a'' :: control_broadcast list list control_lane"
  have t: "take_remote_frames lane_crypto_demo room_demo ?L = (?L, Inr [])"
    by (simp add: take_remote_frames_def room_demo_def control_lane_new_def)
  then have "(lane_poll lane_crypto_demo room_demo ^^ n) ?L = ?L" for n by (induction n) (simp_all add: lane_poll_def)
  then have "\<not> decisive lane_crypto_demo room_demo ((lane_poll lane_crypto_demo room_demo ^^ n) ?L)" for n
    by (simp add: decisive_def t) (simp add: control_lane_new_def)
  then have "recv_text_control_frame lane_crypto_demo room_demo ?L = None"
    using control_receive_exact[of lane_crypto_demo room_demo ?L] by blast
  moreover have "decisive lane_crypto_demo room_demo ((lane_poll lane_crypto_demo room_demo ^^ 0) (?L\<lparr>cl_inbound := [[7]]\<rparr>))"
    by (simp add: decisive_def)
  then have "recv_text_control_frame lane_crypto_demo room_demo (?L\<lparr>cl_inbound := [[7]]\<rparr>) \<noteq> None"
    using control_receive_exact[of lane_crypto_demo room_demo "?L\<lparr>cl_inbound := [[7]]\<rparr>"] by (metis option.distinct(1))
  ultimately show ?thesis by simp
qed

theorem control_lane_delivers_witness:
  "\<exists>w v. recv_many 2 lane_crypto_demo room_demo
       (control_lane_new [[\<lparr>bc_from_peer = ''b'', bc_payload = w\<rparr>, \<lparr>bc_from_peer = ''a'', bc_payload = []\<rparr>, \<lparr>bc_from_peer = ''c'', bc_payload = v\<rparr>]]
         [] ''a'') =
     Some ((control_lane_new [] [] ''a'')\<lparr>cl_frames_received := 2\<rparr>, [Inr [7], Inr [8]])"
proof -
  obtain w where w: "seal_broker_control_frame lane_crypto_demo (replicate 12 0) [] ''b'' [7] = Inr w" using seal_demo by blast
  obtain v where v: "seal_broker_control_frame lane_crypto_demo (replicate 12 1) [] ''c'' [8] = Inr v" using seal_demo by blast
  let ?items = "[(''b'', replicate 12 0, [7], w), (''a'', [], [], []), (''c'', replicate 12 1, [8], v)] :: (string \<times> bytes \<times> bytes \<times> bytes) list"
  let ?L = "control_lane_new [map (\<lambda>(p, n, f, w). \<lparr>bc_from_peer = p, bc_payload = w\<rparr>) ?items] [] ''a''"
  have "recv_many (length [[7], [8 :: u8]]) lane_crypto_demo room_demo ?L =
      Some (?L\<lparr>cl_room := [], cl_frames_received := (cl_frames_received ?L + length [[7], [8 :: u8]]) mod 2 ^ 64\<rparr>, map Inr [[7], [8]])"
    by (rule control_lane_delivers[OF lane_crypto_demo_correct, where items = ?items])
      (auto simp: w v control_lane_new_def room_demo_def)
  moreover have "length [[7], [8 :: u8]] = 2" by simp
  ultimately have "recv_many 2 lane_crypto_demo room_demo ?L = Some ((control_lane_new [] [] ''a'')\<lparr>cl_frames_received := 2\<rparr>, [Inr [7], Inr [8]])"
    by (simp only:) (simp add: control_lane_new_def)
  then show ?thesis by auto
qed

end
