(* ===== verification/Spec2Isabelle.thy ===== *)
theory Spec2Isabelle
  imports Redelivery Overlay_Manager Store_Forward Gossip Live_Key Sframe Text_History Storage Recovery Secure_Delete Admission History_Sync Control_Lane
begin

text \<open>
  \<^bold>\<open>discrypt\<close> is a messenger without servers: its crates under \<open>src/crates\<close> implement group membership and governance (\<open>mls-core\<close>), ordered delivery
  of commits and text messages (\<open>mls-delivery\<close>), retention of content keys (\<open>content-keys\<close>), protection of media frames (\<open>media\<close>), relaying among peers
  (\<open>relay-overlay\<close>), limits against abuse (\<open>abuse\<close>), admission by invites (\<open>admission\<close>), local storage (\<open>storage\<close>) and transport (\<open>transport\<close>). This
  development models the decision logic of these crates as functions and states what makes it correct.

  \<^bold>\<open>Foundations.\<close>
  \<^item> \<open>Rust_Prelude\<close>, \<open>Rust_Text\<close>: results, saturating arithmetic, byte encodings, strings as UTF-8 bytes, sorting and selection as in the standard library.
  \<^item> \<open>BTree_Map\<close>: ordered maps and sets, with the interface \<open>ordered_map\<close>. \<open>F32\<close>: conversions of integers to single precision.
  \<^item> \<open>Delimited\<close>: encodings that determine what they encode, composed as the code composes signed bytes.
  \<^item> \<open>Replay_Guard\<close>: the contract of a replay window, provided by \<open>Redelivery\<close> and \<open>Sframe\<close>. \<open>Bounded_Cache\<close>: the contract of a cache that keeps the newest
    entries, provided by \<open>Text_History\<close> and \<open>Storage\<close>.
  \<^item> \<open>Crypto_Params\<close>: Ed25519, SHA-256, \<open>hex\<close>, \<open>uuid\<close> and AEAD as parameters with their documented laws, an instance of each for the witnesses, and
    the contract \<open>canonical_order\<close> of orders that do not depend on arrival, provided by \<open>Governance\<close>, \<open>Delivery\<close> and \<open>Text_History\<close>.

  \<^bold>\<open>Relay overlay\<close> (\<open>relay-overlay/src\<close>).
  \<^item> \<open>Redelivery\<close> (\<open>redelivery.rs\<close>): a window of sequence numbers decides like a receiver with full history.
  \<^item> \<open>Topology\<close>, \<open>Routing\<close> (\<open>topology.rs\<close>, \<open>ranking.rs\<close>, \<open>failover.rs\<close>): links stay symmetric and bounded; the breadth-first search returns shortest admissible
    routes and fails only if there is none; failover avoids the failed relay.
  \<^item> \<open>Relay_Integrity\<close>, \<open>Capability\<close>, \<open>Store_Forward\<close>, \<open>Gossip\<close> (\<open>integrity.rs\<close>, \<open>capability.rs\<close>, \<open>store_forward.rs\<close>, \<open>gossip.rs\<close>): commitments, advertisements, the
    bounded queue, and convergence of a gossip round.
  \<^item> \<open>Overlay_Manager\<close> (\<open>manager.rs\<close>): the composition of these parts; constructed routes respect every limit.

  \<^bold>\<open>Membership and keys\<close> (\<open>mls-core/src\<close>, \<open>content-keys/src\<close>, \<open>media/src/sframe.rs\<close>).
  \<^item> \<open>Governance\<close>, \<open>Identity\<close>, \<open>Device_Set\<close>, \<open>Group\<close>: batches resolve the same way everywhere, bans are permanent, pairing payloads round-trip, a retired
    device never sends again, and the epoch secret binds the history of the group.
  \<^item> \<open>Retention\<close>, \<open>Live_Key\<close>: key states over time, shredding across devices, and the oracle that releases keys to members only, at most as often as allowed.
  \<^item> \<open>Sframe\<close>: frames open to what was sent, exactly when the replay window admits them.

  \<^bold>\<open>Delivery\<close> (\<open>mls-delivery/src/lib.rs\<close>).
  \<^item> \<open>Delivery\<close>: commits form a chain and repair brings diverged members back in step.
  \<^item> \<open>Text_Envelope\<close>, \<open>Text_Pipeline\<close>, \<open>Text_History\<close>: authenticity of envelopes, sending and receiving end to end behind the limits of \<open>Abuse\<close>
    (\<open>abuse/src/lib.rs\<close>), and histories that only grow.

  \<^bold>\<open>Admission\<close> (\<open>admission/src/lib.rs\<close>, \<open>transport/src/ice.rs\<close>).
  \<^item> \<open>Ice_Policy\<close>: policies resolve by kind of server; issued TURN credentials live exactly as long as they say.
  \<^item> \<open>Invite\<close>: a verified descriptor is an issued one, and an invite is used exactly as often as it allows.
  \<^item> \<open>Admission\<close>: password attempts are limited per subject, with the contract \<open>attempt_limit\<close> that helper and controller provide; final admission succeeds exactly when every check does.

  \<^bold>\<open>Storage\<close> (\<open>storage/src/lib.rs\<close>).
  \<^item> \<open>Storage\<close>: author logs of two devices merge to their union or not at all, and a shredded message never decrypts again.
  \<^item> \<open>Recovery\<close>, \<open>Secure_Delete\<close>: backups restore through the one path they ask for; tombstones keep the earliest time; deletion removes exactly the named files.

  \<^bold>\<open>Transport\<close> (\<open>transport/src\<close>).
  \<^item> \<open>Transport_Session\<close> (\<open>lib.rs\<close>, \<open>session.rs\<close>): the connectivity planner and the session state machine. A session is connected only after a negotiation, reports its
    route honestly and reconnects within its budget.
  \<^item> \<open>Peer_Overlay\<close> (\<open>peer_overlay.rs\<close>): frames, relay authority, ranking, route selection, forwarding and failover. Forwarding and selection happen exactly under their
    conditions, revoked peers are out, and redelivery keeps the frame and its attempt budget.
  \<^item> \<open>History_Sync\<close> (\<open>history_sync.rs\<close>): history planned over a selected route of \<open>Peer_Overlay\<close> reaches the author logs of \<open>Storage\<close>.
  \<^item> \<open>Connectivity_Policy\<close> (\<open>policy.rs\<close>, \<open>route_graph.rs\<close>): the most specific policy wins, rendezvous rooms of different scopes are different, and route graphs follow the
    admitted peers.
  \<^item> \<open>Control_Lane\<close> (\<open>control_lane.rs\<close>): sealed control frames arrive in order and are bound to their sender; the receive loop returns with the first decisive poll.

  \<^bold>\<open>Conventions.\<close> Unsigned integers are natural numbers with the overflow behaviour of each operation written out; bytes are 8-bit words. A struct is a record, an
  enum a datatype, \<open>Result\<close> a sum with the error on the left. A method that can fail after a change returns the state with its result; a panic is \<open>None\<close>. Random values and
  the current time are arguments. The search loop of \<open>Routing\<close> has a termination measure; the eviction loops of \<open>Text_History\<close> and \<open>Storage\<close> are partial functions,
  shown to return for every map whose keys match its entries; the receive loop of \<open>Control_Lane\<close> may poll forever and is shown to return exactly when a poll is decisive. No fuel is used anywhere. Digests are arbitrary functions: where a theorem needs two inputs to
  have different digests, its conclusion names the collision. Signatures are unforgeable only where a theorem says so in a hypothesis.

  \<^bold>\<open>Not modelled.\<close> The desktop application, user interface and harness (\<open>apps\<close>, \<open>harness\<close>) and the service layer in \<open>core\<close> drive the crates. The provider adapters, WebRTC
  negotiation, rendezvous rooms and loopback sockets in \<open>transport\<close>, capture and playback in \<open>media\<close>, and \<open>push\<close> are input and output. The encrypted database and the file stores in
  \<open>storage\<close> and the OpenMLS engine in \<open>mls-core\<close> call libraries outside the repository. Zeroization of memory has no effect on values and appears only as the resulting state.
\<close>

end
